(* ===== verification/Prelude.thy ===== *)
theory Prelude
  imports Complex_Main "HOL-Library.Multiset"
begin

text \<open>
  Shared material of the development: the result type of code that may throw, the
  small state-and-exception combinators every component uses, and generic lemmas on
  lists and association lists.

  A JavaScript method that may throw is modelled as a function from the state to a pair
  of an outcome (\<open>Inl\<close> the error thrown, \<open>Inr\<close> the value returned) and the state at
  that point.  The state is kept on a throw as well: the mutations made before the
  \<^verbatim>\<open>throw\<close> are visible to the caller that catches it, as they are in the program.
\<close>

named_theorems prog_simps \<open>evaluation rules of the state-and-exception combinators\<close>
named_theorems list_facts \<open>facts on lists and association lists shared by the components\<close>

subsection \<open>Computations that may throw\<close>

type_synonym ('s, 'e, 'a) prog = "'s \<Rightarrow> ('e + 'a) \<times> 's"

definition ret :: "'a \<Rightarrow> ('s, 'e, 'a) prog" where
  "ret x = (\<lambda>s. (Inr x, s))"

definition throw :: "'e \<Rightarrow> ('s, 'e, 'a) prog" where
  "throw e = (\<lambda>s. (Inl e, s))"

definition bindE :: "('s, 'e, 'a) prog \<Rightarrow> ('a \<Rightarrow> ('s, 'e, 'b) prog) \<Rightarrow> ('s, 'e, 'b) prog" where
  "bindE m f = (\<lambda>s. case m s of (Inl e, s') \<Rightarrow> (Inl e, s') | (Inr x, s') \<Rightarrow> f x s')"

definition gets :: "('s \<Rightarrow> 'a) \<Rightarrow> ('s, 'e, 'a) prog" where
  "gets f = (\<lambda>s. (Inr (f s), s))"

definition modify :: "('s \<Rightarrow> 's) \<Rightarrow> ('s, 'e, unit) prog" where
  "modify f = (\<lambda>s. (Inr (), f s))"

definition assertE :: "bool \<Rightarrow> 'e \<Rightarrow> ('s, 'e, unit) prog" where
  "assertE b e = (if b then ret () else throw e)"

definition liftE :: "'e + 'a \<Rightarrow> ('s, 'e, 'a) prog" where
  "liftE r = (\<lambda>s. (r, s))"

lemma ret_apply [simp, prog_simps]: "ret x s = (Inr x, s)"
  by (simp add: ret_def)

lemma throw_apply [simp, prog_simps]: "throw e s = (Inl e, s)"
  by (simp add: throw_def)

lemma gets_apply [simp, prog_simps]: "gets f s = (Inr (f s), s)"
  by (simp add: gets_def)

lemma modify_apply [simp, prog_simps]: "modify f s = (Inr (), f s)"
  by (simp add: modify_def)

lemma assertE_apply [simp, prog_simps]:
  "assertE b e s = (if b then (Inr (), s) else (Inl e, s))"
  by (simp add: assertE_def)

lemma liftE_apply [simp, prog_simps]: "liftE r s = (r, s)"
  by (simp add: liftE_def)

lemma bindE_Inr: "m s = (Inr x, s') \<Longrightarrow> bindE m f s = f x s'"
  by (simp add: bindE_def)

lemma bindE_Inl: "m s = (Inl e, s') \<Longrightarrow> bindE m f s = (Inl e, s')"
  by (simp add: bindE_def)

lemma bindE_ret [simp, prog_simps]: "bindE (ret x) f s = f x s"
  by (simp add: bindE_def)

lemma bindE_throw [simp, prog_simps]: "bindE (throw e) f s = (Inl e, s)"
  by (simp add: bindE_def)

lemma bindE_gets [simp, prog_simps]: "bindE (gets g) f s = f (g s) s"
  by (simp add: bindE_def)

lemma bindE_modify [simp, prog_simps]: "bindE (modify g) f s = f () (g s)"
  by (simp add: bindE_def)

lemma bindE_assertE [simp, prog_simps]:
  "bindE (assertE b e) f s = (if b then f () s else (Inl e, s))"
  by (simp add: bindE_def)

lemma bindE_liftE [simp, prog_simps]:
  "bindE (liftE r) f s = (case r of Inl e \<Rightarrow> (Inl e, s) | Inr x \<Rightarrow> f x s)"
  by (cases r) (simp_all add: bindE_def)

lemma bindE_assoc: "bindE (bindE m f) g = bindE m (\<lambda>x. bindE (f x) g)"
  by (rule ext) (simp add: bindE_def split: prod.split sum.split)

lemma bindE_eq_Inr:
  "bindE m f s = (Inr y, t) \<longleftrightarrow> (\<exists>x s'. m s = (Inr x, s') \<and> f x s' = (Inr y, t))"
  by (auto simp: bindE_def split: prod.splits sum.splits)

lemma bindE_eq_Inl:
  "bindE m f s = (Inl e, t) \<longleftrightarrow>
     m s = (Inl e, t) \<or> (\<exists>x s'. m s = (Inr x, s') \<and> f x s' = (Inl e, t))"
  by (auto simp: bindE_def split: prod.splits sum.splits)

subsection \<open>Lists and optional ends\<close>

text \<open>The first and the last element of a list as a nullable reference.\<close>

definition first_or :: "'a list \<Rightarrow> 'a option \<Rightarrow> 'a option" where
  "first_or xs d = (case xs of [] \<Rightarrow> d | x # _ \<Rightarrow> Some x)"

definition last_or :: "'a list \<Rightarrow> 'a option \<Rightarrow> 'a option" where
  "last_or xs d = (if xs = [] then d else Some (last xs))"

lemma first_or_simps [simp]:
  "first_or [] d = d" "first_or (x # xs) d = Some x"
  by (simp_all add: first_or_def)

lemma last_or_simps [simp]:
  "last_or [] d = d" "last_or (xs @ [x]) d = Some x" "last_or [x] d = Some x"
  by (simp_all add: last_or_def)

lemma last_or_Cons: "last_or (x # xs) d = last_or xs (Some x)"
  by (simp add: last_or_def)

lemma first_or_append [list_facts]: "first_or (xs @ ys) d = first_or xs (first_or ys d)"
  by (cases xs) auto

lemma last_or_append [list_facts]: "last_or (xs @ ys) d = last_or ys (last_or xs d)"
  by (simp add: last_or_def)

lemma first_or_None [simp]: "first_or xs None = None \<longleftrightarrow> xs = []"
  by (cases xs) auto

lemma last_or_None [simp]: "last_or xs None = None \<longleftrightarrow> xs = []"
  by (simp add: last_or_def)

lemma first_or_SomeD: "first_or xs None = Some a \<Longrightarrow> \<exists>ys. xs = a # ys"
  by (cases xs) auto

lemma last_or_SomeD: "last_or xs None = Some a \<Longrightarrow> \<exists>ys. xs = ys @ [a]"
  by (auto simp: last_or_def split: if_splits intro: append_butlast_last_id [symmetric])

lemma sum_list_update_mid:
  "sum_list (map f (xs @ a # ys)) = sum_list (map f (xs @ ys)) + (f a :: 'a :: comm_monoid_add)"
  by (simp add: algebra_simps)

lemma map_cong_notin: "a \<notin> set xs \<Longrightarrow> map (f(a := y)) xs = map f xs"
  by (induction xs) auto

lemma distinct_map_fst_eq:
  "distinct (map fst m) \<Longrightarrow> (k, v) \<in> set m \<Longrightarrow> (k, w) \<in> set m \<Longrightarrow> v = w"
  by (metis map_of_is_SomeI option.inject)

lemma distinct_map_snd_eq:
  "distinct (map snd m) \<Longrightarrow> (k, v) \<in> set m \<Longrightarrow> (j, v) \<in> set m \<Longrightarrow> k = j"
  by (induction m) force+

lemma distinct_concat_blocks:
  assumes "distinct (map snd L)" "\<And>p l. (p, l) \<in> set L \<Longrightarrow> distinct (g l)"
    and "\<And>p l p' l'. (p, l) \<in> set L \<Longrightarrow> (p', l') \<in> set L \<Longrightarrow> l \<noteq> l' \<Longrightarrow> set (g l) \<inter> set (g l') = {}"
  shows "distinct (concat (map (\<lambda>(p, l). g l) L))"
  using assms
proof (induction L)
  case (Cons x L)
  obtain p l where x: "x = (p, l)" by (cases x)
  have "distinct (concat (map (\<lambda>(p, l). g l) L))"
  proof (rule Cons.IH)
    show "distinct (map snd L)" using Cons.prems(1) by simp
    show "distinct (g l)" if "(p, l) \<in> set L" for p l
      using Cons.prems(2) [of p l] that by simp
    show "set (g l) \<inter> set (g l') = {}" if "(p, l) \<in> set L" "(p', l') \<in> set L" "l \<noteq> l'" for p l p' l'
      using Cons.prems(3) [of p l p' l'] that by simp
  qed
  moreover have "set (g l) \<inter> set (g l') = {}" if "(p', l') \<in> set L" for p' l'
  proof -
    have "l \<noteq> l'" using Cons.prems(1) that x by force
    then show ?thesis using Cons.prems(3) [of p l p' l'] that x by simp
  qed
  ultimately show ?case using Cons.prems(2) x by fastforce
qed simp

lemma sorted_concat_blocks:
  fixes f :: "'a \<Rightarrow> int"
  assumes "sorted (map f L)" "\<And>x y. x \<in> set L \<Longrightarrow> y \<in> set (g x) \<Longrightarrow> h y = f x"
  shows "sorted (map h (concat (map g L)))"
  using assms
proof (induction L)
  case (Cons x L)
  have "sorted (map h (concat (map g L)))" using Cons by simp
  moreover have "map h (g x) = replicate (length (g x)) (f x)"
    using Cons.prems(2) by (intro nth_equalityI) auto
  moreover have "f x \<le> h z" if "y \<in> set L" "z \<in> set (g y)" for y z
    using Cons.prems(1) Cons.prems(2) [of y z] that by simp
  ultimately show ?case by (auto simp: sorted_append)
qed simp

end
