(* ===== verification/JsValue.thy ===== *)
theory JsValue
  imports Prelude
begin

text \<open>
  The JavaScript values the program handles at its boundaries: the fields of a command
  payload, the snapshots and the domain events.  The payload arrives from
  \<^verbatim>\<open>JSON.parse\<close>, so a value is a JSON value or \<^verbatim>\<open>undefined\<close> (a missing field).  A
  number is a finite rational: JSON has no infinities and no NaN, and the arithmetic of
  the engine is on integers, exact below \<open>2 ^ 53\<close> in JavaScript.  A string is a list of code
  units below 256 (\<^typ>\<open>string\<close>).  An object is the list of its own properties in
  insertion order.
\<close>

datatype jsval =
    JUndef
  | JNull
  | JBool bool
  | JNum rat
  | JStr string
  | JArr "jsval list"
  | JObj "(string \<times> jsval) list"

type_synonym jsobj = "(string \<times> jsval) list"

abbreviation JInt :: "int \<Rightarrow> jsval" where
  "JInt n \<equiv> JNum (of_int n)"

subsection \<open>Property access, spread and the nullish operators\<close>

fun getp :: "jsobj \<Rightarrow> string \<Rightarrow> jsval" where
  "getp [] k = JUndef"
| "getp ((j, v) # ps) k = (if j = k then v else getp ps k)"

fun setp :: "jsobj \<Rightarrow> string \<Rightarrow> jsval \<Rightarrow> jsobj" where
  "setp [] k v = [(k, v)]"
| "setp ((j, w) # ps) k v = (if j = k then (j, v) # ps else (j, w) # setp ps k v)"

definition props :: "jsval \<Rightarrow> jsobj" where
  "props v = (case v of JObj ps \<Rightarrow> ps | _ \<Rightarrow> [])"

definition nullish :: "jsval \<Rightarrow> bool" where
  "nullish v \<longleftrightarrow> v = JUndef \<or> v = JNull"

text \<open>\<^verbatim>\<open>a ?? b\<close>, and a destructuring default (which only replaces \<^verbatim>\<open>undefined\<close>).\<close>

definition coalesce :: "jsval \<Rightarrow> jsval \<Rightarrow> jsval" where
  "coalesce a b = (if nullish a then b else a)"

definition dflt :: "jsval \<Rightarrow> jsval \<Rightarrow> jsval" where
  "dflt a b = (if a = JUndef then b else a)"

definition truthy :: "jsval \<Rightarrow> bool" where
  "truthy v = (case v of JUndef \<Rightarrow> False | JNull \<Rightarrow> False | JBool b \<Rightarrow> b
     | JNum r \<Rightarrow> r \<noteq> 0 | JStr s \<Rightarrow> s \<noteq> [] | JArr _ \<Rightarrow> True | JObj _ \<Rightarrow> True)"

lemma getp_setp [simp]: "getp (setp ps k v) j = (if j = k then v else getp ps j)"
  by (induction ps) auto

lemma keys_setp: "fst ` set (setp ps k v) = insert k (fst ` set ps)"
  by (induction ps k v rule: setp.induct) auto

text \<open>Object spread \<^verbatim>\<open>{...a, ...b}\<close>: later properties win, keeping the first place.\<close>

definition spread :: "jsobj \<Rightarrow> jsobj \<Rightarrow> jsobj" where
  "spread a b = foldl (\<lambda>o1 (k, v). setp o1 k v) a b"

lemma spread_simps [simp]: "spread a [] = a" "spread a ((k, v) # b) = spread (setp a k v) b"
  by (simp_all add: spread_def)

lemma getp_append_notin: "k \<notin> fst ` set ps \<Longrightarrow> getp (ps @ qs) k = getp qs k"
  by (induction ps) auto

lemma props_JObj [simp]: "props (JObj ps) = ps"
  by (simp add: props_def)

subsection \<open>Integers and non-empty strings\<close>

text \<open>\<^verbatim>\<open>Number.isInteger\<close>: the integer when the value is a number with no fraction.\<close>

definition as_integer :: "jsval \<Rightarrow> int option" where
  "as_integer v = (case v of JNum r \<Rightarrow> (if of_int \<lfloor>r\<rfloor> = r then Some \<lfloor>r\<rfloor> else None) | _ \<Rightarrow> None)"

lemma as_integer_JInt [simp]: "as_integer (JInt n) = Some n"
  by (simp add: as_integer_def)

lemma as_integer_numeral [simp]:
  "as_integer (JNum (numeral n)) = Some (numeral n)"
  "as_integer (JNum (- numeral n)) = Some (- numeral n)"
  "as_integer (JNum 0) = Some 0"
  "as_integer (JNum 1) = Some 1"
  by (simp_all add: as_integer_def)

lemma as_integer_other [simp]:
  "as_integer JUndef = None" "as_integer JNull = None" "as_integer (JBool b) = None"
  "as_integer (JStr s) = None" "as_integer (JArr xs) = None" "as_integer (JObj ps) = None"
  by (simp_all add: as_integer_def)

lemma as_integer_Some: "as_integer v = Some n \<longleftrightarrow> v = JInt n"
  by (auto simp: as_integer_def split: jsval.splits)

text \<open>The white space that \<^verbatim>\<open>String.prototype.trim\<close> removes, below code unit 256.\<close>

definition js_space :: "char \<Rightarrow> bool" where
  "js_space c \<longleftrightarrow> (of_char c :: nat) \<in> {9, 10, 11, 12, 13, 32, 160}"

definition trim :: "string \<Rightarrow> string" where
  "trim s = rev (dropWhile js_space (rev (dropWhile js_space s)))"

definition nonEmptyString :: "jsval \<Rightarrow> bool" where
  "nonEmptyString v = (case v of JStr s \<Rightarrow> trim s \<noteq> [] | _ \<Rightarrow> False)"

lemma trim_Nil_iff: "trim s = [] \<longleftrightarrow> (\<forall>c \<in> set s. js_space c)"
proof -
  have "trim s = [] \<longleftrightarrow> (\<forall>c \<in> set (dropWhile js_space s). js_space c)"
    by (simp add: trim_def)
  also have "\<dots> \<longleftrightarrow> (\<forall>c \<in> set s. js_space c)"
    by (induction s) auto
  finally show ?thesis .
qed

lemma nonEmptyString_JStr [simp]: "nonEmptyString (JStr s) \<longleftrightarrow> trim s \<noteq> []"
  by (simp add: nonEmptyString_def)

lemma nonEmptyString_iff: "nonEmptyString v \<longleftrightarrow> (\<exists>s. v = JStr s \<and> trim s \<noteq> [])"
  by (cases v) (auto simp: nonEmptyString_def)

subsection \<open>Conversion to a number and comparison\<close>

text \<open>
  A relational comparison with a number on one side converts the other side with
  \<^verbatim>\<open>ToNumber\<close>.  The engine compares the last trade price (always an integer) with a
  trigger price it never validated, so every JSON value may be converted here.
\<close>

datatype jsnumber = NaN | NegInf | PosInf | Fin rat

definition is_digit :: "char \<Rightarrow> bool" where
  "is_digit c \<longleftrightarrow> 48 \<le> (of_char c :: nat) \<and> (of_char c :: nat) \<le> 57"

definition digit_value :: "char \<Rightarrow> nat" where
  "digit_value c = (let n = (of_char c :: nat) in
     if n \<le> 57 then n - 48 else if n \<le> 70 then n - 55 else n - 87)"

definition is_radix_digit :: "nat \<Rightarrow> char \<Rightarrow> bool" where
  "is_radix_digit b c = (let n = (of_char c :: nat) in
     (48 \<le> n \<and> n \<le> 57 \<or> 65 \<le> n \<and> n \<le> 70 \<or> 97 \<le> n \<and> n \<le> 102) \<and> digit_value c < b)"

definition digits_value :: "nat \<Rightarrow> string \<Rightarrow> nat" where
  "digits_value b s = foldl (\<lambda>acc c. b * acc + digit_value c) 0 s"

definition split_sign :: "string \<Rightarrow> bool \<times> string" where
  "split_sign s = (case s of [] \<Rightarrow> (False, [])
     | c # r \<Rightarrow> if c = CHR ''-'' then (True, r) else if c = CHR ''+'' then (False, r) else (False, s))"

definition exponent_part :: "string \<Rightarrow> int option" where
  "exponent_part s = (case s of [] \<Rightarrow> Some 0
     | c # r \<Rightarrow> if c = CHR ''e'' \<or> c = CHR ''E''
         then (case split_sign r of (neg, ds) \<Rightarrow>
           if ds \<noteq> [] \<and> list_all is_digit ds
           then Some (if neg then - int (digits_value 10 ds) else int (digits_value 10 ds))
           else None)
         else None)"

definition decimal_literal :: "string \<Rightarrow> rat option" where
  "decimal_literal s =
     (let ip = takeWhile is_digit s;
          r1 = dropWhile is_digit s;
          (fp, r2) = (case r1 of [] \<Rightarrow> ([], [])
             | c # r \<Rightarrow> if c = CHR ''.'' then (takeWhile is_digit r, dropWhile is_digit r) else ([], r1))
      in if ip = [] \<and> fp = [] then None
         else (case exponent_part r2 of None \<Rightarrow> None
           | Some e \<Rightarrow> (let m = of_nat (digits_value 10 (ip @ fp)); x = e - int (length fp)
               in Some (if 0 \<le> x then m * 10 ^ nat x else m / 10 ^ nat (- x)))))"

definition radix_literal :: "nat \<Rightarrow> string \<Rightarrow> jsnumber" where
  "radix_literal b ds = (if ds \<noteq> [] \<and> list_all (is_radix_digit b) ds
     then Fin (of_nat (digits_value b ds)) else NaN)"

definition string_to_number :: "string \<Rightarrow> jsnumber" where
  "string_to_number s = (let t = trim s in
     if t = [] then Fin 0
     else if take 2 t \<in> {''0x'', ''0X''} then radix_literal 16 (drop 2 t)
     else if take 2 t \<in> {''0o'', ''0O''} then radix_literal 8 (drop 2 t)
     else if take 2 t \<in> {''0b'', ''0B''} then radix_literal 2 (drop 2 t)
     else (case split_sign t of (neg, r) \<Rightarrow>
       if r = ''Infinity'' then (if neg then NegInf else PosInf)
       else (case decimal_literal r of None \<Rightarrow> NaN | Some q \<Rightarrow> Fin (if neg then - q else q))))"

text \<open>
  An array converts through its \<^verbatim>\<open>join\<close>: empty is \<^verbatim>\<open>""\<close>, one element is that
  element's text, two or more contain a comma.  A plain object is \<^verbatim>\<open>"[object Object]"\<close>.
\<close>

fun to_number :: "jsval \<Rightarrow> jsnumber" where
  "to_number JUndef = NaN"
| "to_number JNull = Fin 0"
| "to_number (JBool b) = Fin (if b then 1 else 0)"
| "to_number (JNum r) = Fin r"
| "to_number (JStr s) = string_to_number s"
| "to_number (JArr []) = Fin 0"
| "to_number (JArr [x]) = (case x of JUndef \<Rightarrow> Fin 0 | JNull \<Rightarrow> Fin 0 | JBool _ \<Rightarrow> NaN | _ \<Rightarrow> to_number x)"
| "to_number (JArr (x # y # zs)) = NaN"
| "to_number (JObj ps) = NaN"

fun num_less :: "jsnumber \<Rightarrow> jsnumber \<Rightarrow> bool" where
  "num_less NaN y = False"
| "num_less x NaN = False"
| "num_less x NegInf = False"
| "num_less NegInf y = True"
| "num_less PosInf y = False"
| "num_less x PosInf = True"
| "num_less (Fin a) (Fin b) = (a < b)"

definition num_le :: "jsnumber \<Rightarrow> jsnumber \<Rightarrow> bool" where
  "num_le x y \<longleftrightarrow> x \<noteq> NaN \<and> y \<noteq> NaN \<and> \<not> num_less y x"

lemma num_le_Fin [simp]: "num_le (Fin a) (Fin b) \<longleftrightarrow> a \<le> b"
  by (auto simp: num_le_def)

lemma num_le_NaN [simp]: "\<not> num_le NaN y" "\<not> num_le x NaN"
  by (simp_all add: num_le_def)

lemma to_number_JInt_le [simp]:
  "num_le (Fin (of_int a)) (to_number (JInt b)) \<longleftrightarrow> a \<le> b"
  "num_le (to_number (JInt b)) (Fin (of_int a)) \<longleftrightarrow> b \<le> a"
  by simp_all

end
