(* ===== verification/JsMap.thy ===== *)
theory JsMap
  imports JsValue
begin

text \<open>
  The \<^verbatim>\<open>Map\<close> of the JavaScript standard library, as the program uses it: the entries
  in insertion order, \<^verbatim>\<open>set\<close> on a present key keeping its place, \<^verbatim>\<open>delete\<close> removing
  the entry, iteration in order.  The locale \<open>keyed_store\<close> states what the users of a
  \<^verbatim>\<open>Map\<close> rely on (the order books, the registry of books, the stop orders and the
  replica's stream positions); the interpretation \<open>js_map\<close> discharges it for the
  association lists.
\<close>

type_synonym ('k, 'v) jsmap = "('k \<times> 'v) list"

fun map_get :: "('k, 'v) jsmap \<Rightarrow> 'k \<Rightarrow> 'v option" where
  "map_get [] k = None"
| "map_get ((j, v) # m) k = (if j = k then Some v else map_get m k)"

fun map_set :: "('k, 'v) jsmap \<Rightarrow> 'k \<Rightarrow> 'v \<Rightarrow> ('k, 'v) jsmap" where
  "map_set [] k v = [(k, v)]"
| "map_set ((j, w) # m) k v = (if j = k then (k, v) # m else (j, w) # map_set m k v)"

definition map_delete :: "('k, 'v) jsmap \<Rightarrow> 'k \<Rightarrow> ('k, 'v) jsmap" where
  "map_delete m k = filter (\<lambda>(j, v). j \<noteq> k) m"

definition map_has :: "('k, 'v) jsmap \<Rightarrow> 'k \<Rightarrow> bool" where
  "map_has m k \<longleftrightarrow> map_get m k \<noteq> None"

definition map_keys :: "('k, 'v) jsmap \<Rightarrow> 'k list" where
  "map_keys m = map fst m"

definition map_values :: "('k, 'v) jsmap \<Rightarrow> 'v list" where
  "map_values m = map snd m"

abbreviation map_wf :: "('k, 'v) jsmap \<Rightarrow> bool" where
  "map_wf m \<equiv> distinct (map fst m)"

subsection \<open>The contract of a keyed store\<close>

locale keyed_store =
  fixes empty :: "'m"
    and get :: "'m \<Rightarrow> 'k \<Rightarrow> 'v option"
    and put :: "'m \<Rightarrow> 'k \<Rightarrow> 'v \<Rightarrow> 'm"
    and del :: "'m \<Rightarrow> 'k \<Rightarrow> 'm"
    and invar :: "'m \<Rightarrow> bool"
  assumes get_empty: "get empty k = None"
    and get_put: "invar m \<Longrightarrow> get (put m k v) j = (if j = k then Some v else get m j)"
    and get_del: "invar m \<Longrightarrow> get (del m k) j = (if j = k then None else get m j)"
    and invar_empty: "invar empty"
    and invar_put: "invar m \<Longrightarrow> invar (put m k v)"
    and invar_del: "invar m \<Longrightarrow> invar (del m k)"
begin

lemma get_put_same: "invar m \<Longrightarrow> get (put m k v) k = Some v"
  by (simp add: get_put)

lemma get_put_other: "invar m \<Longrightarrow> j \<noteq> k \<Longrightarrow> get (put m k v) j = get m j"
  by (simp add: get_put)

lemma get_del_same: "invar m \<Longrightarrow> get (del m k) k = None"
  by (simp add: get_del)

lemma get_del_put: "invar m \<Longrightarrow> get m k = None \<Longrightarrow> get (del (put m k v) k) j = get m j"
  by (simp add: get_put get_del invar_put)

lemma get_put_put:
  "invar m \<Longrightarrow> get (put (put m k v) k w) j = get (put m k w) j"
  by (simp add: get_put invar_put)

lemma get_put_commute:
  "invar m \<Longrightarrow> j \<noteq> k \<Longrightarrow> get (put (put m k v) j w) i = get (put (put m j w) k v) i"
  by (auto simp: get_put invar_put)

end

subsection \<open>Association lists meet the contract\<close>

lemma map_get_Some_in: "map_get m k = Some v \<Longrightarrow> (k, v) \<in> set m"
  by (induction m k rule: map_get.induct) (auto split: if_splits)

lemma map_get_None_iff: "map_get m k = None \<longleftrightarrow> k \<notin> fst ` set m"
  by (induction m k rule: map_get.induct) auto

lemma map_get_iff: "map_wf m \<Longrightarrow> map_get m k = Some v \<longleftrightarrow> (k, v) \<in> set m"
  by (induction m k rule: map_get.induct) (auto simp: image_iff)

lemma map_has_iff: "map_has m k \<longleftrightarrow> k \<in> fst ` set m"
  using map_get_None_iff [of m k] by (auto simp: map_has_def)

lemma map_get_set: "map_get (map_set m k v) j = (if j = k then Some v else map_get m j)"
  by (induction m k v rule: map_set.induct) auto

lemma map_get_delete: "map_get (map_delete m k) j = (if j = k then None else map_get m j)"
  by (induction m) (auto simp: map_delete_def)

lemma keys_set: "fst ` set (map_set m k v) = insert k (fst ` set m)"
  by (induction m k v rule: map_set.induct) auto

lemma map_wf_set: "map_wf m \<Longrightarrow> map_wf (map_set m k v)"
proof (induction m k v rule: map_set.induct)
  case (2 j w m k v)
  then show ?case using keys_set [of m k v] by auto
qed simp

lemma map_wf_delete: "map_wf m \<Longrightarrow> map_wf (map_delete m k)"
  by (simp add: map_delete_def distinct_map_filter)

lemma map_set_fresh: "k \<notin> fst ` set m \<Longrightarrow> map_set m k v = m @ [(k, v)]"
  by (induction m k v rule: map_set.induct) auto

lemma set_map_set: "map_wf m \<Longrightarrow> set (map_set m k v) = insert (k, v) {x \<in> set m. fst x \<noteq> k}"
  by (induction m k v rule: map_set.induct) force+

lemma set_map_delete: "set (map_delete m k) = {x \<in> set m. fst x \<noteq> k}"
  by (auto simp: map_delete_def)

lemma map_delete_notin: "k \<notin> fst ` set m \<Longrightarrow> map_delete m k = m"
  by (force simp: map_delete_def filter_id_conv)

lemma map_delete_subset: "set (map_delete m k) \<subseteq> set m"
  by (auto simp: map_delete_def)

interpretation js_map: keyed_store "[] :: ('k, 'v) jsmap" map_get map_set map_delete map_wf
  by unfold_locales (simp_all add: map_get_set map_get_delete map_wf_set map_wf_delete)

lemmas jsmap_simps = map_get_set map_get_delete set_map_set set_map_delete

end
