(* ===== verification/EngineTypes.thy ===== *)
theory EngineTypes
  imports JsMap
begin

text \<open>
  The vocabulary of the engine: \<^verbatim>\<open>src/engine/Constants.js\<close> (sides, order types and
  statuses with the strings that stand for them), the assertions of
  \<^verbatim>\<open>src/engine/utils/Assertions.js\<close> and the order validation of
  \<^verbatim>\<open>src/engine/utils/Validate.js\<close>.  Every \<^verbatim>\<open>throw\<close> of the modelled code is one
  constructor of \<open>js_error\<close>, carrying the values its message shows.
\<close>

subsection \<open>Constants.js\<close>

datatype Side = BUY | SELL

datatype OrderType = LIMIT | MARKET | STOP_MARKET | STOP_LIMIT | TRAILING_STOP_MARKET

text \<open>
  A status read back from a snapshot is not validated by the code; \<open>OtherStatus\<close> stands for a
  value outside the enumeration (\<^verbatim>\<open>STATUS_TRAILING\<close> is the enumeration's own odd entry).
\<close>

datatype OrderStatus = OPEN | PARTIALLY_FILLED | FILLED | CANCELLED | TRIGGERED
  | STATUS_TRAILING | OtherStatus jsval

fun side_val :: "Side \<Rightarrow> jsval" where
  "side_val BUY = JStr ''BUY''"
| "side_val SELL = JStr ''SELL''"

fun type_val :: "OrderType \<Rightarrow> jsval" where
  "type_val LIMIT = JStr ''LIMIT''"
| "type_val MARKET = JStr ''MARKET''"
| "type_val STOP_MARKET = JStr ''STOP_MARKET''"
| "type_val STOP_LIMIT = JStr ''STOP_LIMIT''"
| "type_val TRAILING_STOP_MARKET = JStr ''TRAILING_STOP_MARKET''"

fun status_val :: "OrderStatus \<Rightarrow> jsval" where
  "status_val OPEN = JStr ''OPEN''"
| "status_val PARTIALLY_FILLED = JStr ''PARTIALLY_FILLED''"
| "status_val FILLED = JStr ''FILLED''"
| "status_val CANCELLED = JStr ''CANCELLED''"
| "status_val TRIGGERED = JStr ''TRIGGERED''"
| "status_val STATUS_TRAILING = JStr ''TRAILING_STOP_MARKET''"
| "status_val (OtherStatus v) = v"

definition side_of :: "jsval \<Rightarrow> Side option" where
  "side_of v = (if v = side_val BUY then Some BUY else if v = side_val SELL then Some SELL else None)"

definition type_of :: "jsval \<Rightarrow> OrderType option" where
  "type_of v = (if v = type_val LIMIT then Some LIMIT else if v = type_val MARKET then Some MARKET
     else if v = type_val STOP_MARKET then Some STOP_MARKET
     else if v = type_val STOP_LIMIT then Some STOP_LIMIT
     else if v = type_val TRAILING_STOP_MARKET then Some TRAILING_STOP_MARKET else None)"

definition status_of :: "jsval \<Rightarrow> OrderStatus" where
  "status_of v = (if v = status_val OPEN then OPEN
     else if v = status_val PARTIALLY_FILLED then PARTIALLY_FILLED
     else if v = status_val FILLED then FILLED else if v = status_val CANCELLED then CANCELLED
     else if v = status_val TRIGGERED then TRIGGERED
     else if v = status_val STATUS_TRAILING then STATUS_TRAILING else OtherStatus v)"

definition isValidSide :: "jsval \<Rightarrow> bool" where
  "isValidSide v \<longleftrightarrow> v \<in> {side_val BUY, side_val SELL}"

definition isValidOrderType :: "jsval \<Rightarrow> bool" where
  "isValidOrderType v \<longleftrightarrow> v \<in> {type_val LIMIT, type_val MARKET, type_val STOP_MARKET,
     type_val STOP_LIMIT, type_val TRAILING_STOP_MARKET}"

definition isValidOrderStatus :: "jsval \<Rightarrow> bool" where
  "isValidOrderStatus v \<longleftrightarrow> v \<in> {status_val OPEN, status_val PARTIALLY_FILLED, status_val FILLED,
     status_val CANCELLED, status_val TRIGGERED, status_val STATUS_TRAILING}"

lemma side_of_val [simp]: "side_of (side_val s) = Some s"
  by (cases s) (simp_all add: side_of_def)

lemma side_of_Some: "side_of v = Some s \<longleftrightarrow> v = side_val s"
  by (cases s) (auto simp: side_of_def)

lemma isValidSide_iff: "isValidSide v \<longleftrightarrow> side_of v \<noteq> None"
  by (auto simp: isValidSide_def side_of_def)

lemma isValidSide_val [simp]: "isValidSide (side_val s)"
  by (simp add: isValidSide_iff)

lemma type_of_val [simp]: "type_of (type_val t) = Some t"
  by (cases t) (simp_all add: type_of_def)

lemma isValidOrderType_iff: "isValidOrderType v \<longleftrightarrow> type_of v \<noteq> None"
  by (simp add: isValidOrderType_def type_of_def del: type_val.simps)

lemma type_of_Some: "type_of v = Some t \<longleftrightarrow> v = type_val t"
proof
  assume "type_of v = Some t"
  then show "v = type_val t"
    by (simp add: type_of_def del: type_val.simps split: if_splits)
qed simp

lemma isValidOrderType_val [simp]: "isValidOrderType (type_val t)"
  by (simp add: isValidOrderType_iff)

lemma status_of_val [simp]: "\<forall>v. s \<noteq> OtherStatus v \<Longrightarrow> status_of (status_val s) = s"
  by (cases s) (simp_all add: status_of_def)

lemma side_val_inj [simp]: "side_val a = side_val b \<longleftrightarrow> a = b"
  by (cases a; cases b) simp_all

lemma type_val_inj [simp]: "type_val a = type_val b \<longleftrightarrow> a = b"
  by (cases a; cases b) simp_all

lemma vals_defined [simp]:
  "type_val t \<noteq> JUndef" "side_val s \<noteq> JUndef" "dflt (type_val t) v = type_val t"
proof -
  show t: "type_val t \<noteq> JUndef" by (cases t) simp_all
  show "side_val s \<noteq> JUndef" by (cases s) simp_all
  show "dflt (type_val t) v = type_val t" by (simp add: dflt_def t)
qed

lemma side_val_eq [simp]:
  "side_val s = JStr ''BUY'' \<longleftrightarrow> s = BUY" "side_val s = JStr ''SELL'' \<longleftrightarrow> s = SELL"
  "JStr ''BUY'' = side_val s \<longleftrightarrow> s = BUY" "JStr ''SELL'' = side_val s \<longleftrightarrow> s = SELL"
  by (cases s; simp)+

subsection \<open>Errors\<close>

datatype js_error =
    TypeErr                                    \<comment> \<open>a property of \<^verbatim>\<open>null\<close> or \<^verbatim>\<open>undefined\<close>\<close>
  | NotNonEmptyString string
  | NotPositiveNumber string
  | NotPositiveInteger string
  | NotNonNegativeInteger string
  | InvalidSide jsval
  | InvalidOrderType jsval
  | MarketPriceNotNull
  | FillNotPositive
  | AlreadyDone string OrderStatus             \<comment> \<open>order \<^verbatim>\<open>id\<close> is already \<^verbatim>\<open>status\<close>\<close>
  | FillExceedsRemaining
  | OrderNodeRequired
  | LevelPriceMismatch
  | AlreadyInLevel
  | RemainingNotPositive
  | NotInThisLevel
  | DecreaseTooMuch
  | OrderAlreadyExists jsval
  | NoTradeYet
  | TrailingAmountInvalid
  | CycleLimitExceeded
  | UnsupportedStopType
  | OnlyLimitCanRest
  | OrderNotFound jsval
  | NotAttached jsval
  | PartitionCountInvalid
  | PartitionIdInvalid
  | BookNotInstance
  | UnsupportedCommand jsval
  | ServiceError                             \<comment> \<open>a call of Redis or RabbitMQ that failed\<close>
  | SyntaxErr                                \<comment> \<open>\<^verbatim>\<open>JSON.parse\<close> of a text that is no JSON\<close>
  | WriteBufferFull
  | InvalidMarketPayload
  | LeadershipLost string
  | ClientNotInitialized
  | ChannelNotInitialized
  | ThrownUndefined                          \<comment> \<open>\<^verbatim>\<open>throw undefined\<close>\<close>

type_synonym 'a res = "js_error + 'a"

definition seqE :: "'e + 'a \<Rightarrow> ('a \<Rightarrow> 'e + 'b) \<Rightarrow> 'e + 'b" where
  "seqE r f = (case r of Inl e \<Rightarrow> Inl e | Inr x \<Rightarrow> f x)"

lemma seqE_simps [simp, prog_simps]: "seqE (Inr x) f = f x" "seqE (Inl e) f = Inl e"
  by (simp_all add: seqE_def)

lemma seqE_eq_Inr: "seqE r f = Inr y \<longleftrightarrow> (\<exists>x. r = Inr x \<and> f x = Inr y)"
  by (cases r) auto

subsection \<open>Assertions.js\<close>

definition assert :: "bool \<Rightarrow> js_error \<Rightarrow> unit res" where
  "assert condition e = (if \<not> condition then Inl e else Inr ())"

definition assertNonEmptyString :: "string \<Rightarrow> jsval \<Rightarrow> unit res" where
  "assertNonEmptyString fieldName v = assert (nonEmptyString v) (NotNonEmptyString fieldName)"

definition is_number :: "jsval \<Rightarrow> bool" where
  "is_number v = (case v of JNum r \<Rightarrow> True | _ \<Rightarrow> False)"

definition assertPositiveNumber :: "string \<Rightarrow> jsval \<Rightarrow> unit res" where
  "assertPositiveNumber fieldName v =
     assert (case v of JNum r \<Rightarrow> 0 < r | _ \<Rightarrow> False) (NotPositiveNumber fieldName)"

definition assertPositiveInteger :: "string \<Rightarrow> jsval \<Rightarrow> unit res" where
  "assertPositiveInteger fieldName v =
     assert (case as_integer v of Some n \<Rightarrow> 0 < n | None \<Rightarrow> False) (NotPositiveInteger fieldName)"

definition assertNonNegativeInteger :: "string \<Rightarrow> jsval \<Rightarrow> unit res" where
  "assertNonNegativeInteger fieldName v =
     assert (case as_integer v of Some n \<Rightarrow> 0 \<le> n | None \<Rightarrow> False) (NotNonNegativeInteger fieldName)"

lemma assert_Inr [simp]: "assert c e = Inr () \<longleftrightarrow> c"
  by (simp add: assert_def)

lemma assert_Inl [simp]: "assert c e = Inl e' \<longleftrightarrow> \<not> c \<and> e' = e"
  by (auto simp: assert_def)

lemma assertPositiveInteger_JInt [simp]:
  "assertPositiveInteger f (JInt n) = (if 0 < n then Inr () else Inl (NotPositiveInteger f))"
  by (simp add: assertPositiveInteger_def assert_def)

lemma assertPositiveInteger_Inr:
  "assertPositiveInteger f v = Inr () \<longleftrightarrow> (\<exists>n > 0. v = JInt n)"
  by (auto simp: assertPositiveInteger_def as_integer_Some split: option.splits)

lemma assertNonNegativeInteger_Inr:
  "assertNonNegativeInteger f v = Inr () \<longleftrightarrow> (\<exists>n \<ge> 0. v = JInt n)"
  by (auto simp: assertNonNegativeInteger_def as_integer_Some split: option.splits)

lemma assertNonEmptyString_Inr:
  "assertNonEmptyString f v = Inr () \<longleftrightarrow> (\<exists>s. v = JStr s \<and> trim s \<noteq> [])"
  by (simp add: assertNonEmptyString_def nonEmptyString_iff)

subsection \<open>Validate.js\<close>

text \<open>The argument is the object whose properties the code destructures.\<close>

definition validateOrderInput :: "jsobj \<Rightarrow> unit res" where
  "validateOrderInput o1 =
    (let orderId = getp o1 ''orderId''; userId = getp o1 ''userId''; symbol = getp o1 ''symbol'';
         side = getp o1 ''side''; typ = dflt (getp o1 ''type'') (type_val LIMIT);
         priceTicks = getp o1 ''priceTicks''; quantity = getp o1 ''quantity'';
         timestamp = getp o1 ''timestamp''
     in seqE (assertNonEmptyString ''orderId'' orderId) (\<lambda>_.
        seqE (assertNonEmptyString ''userId'' userId) (\<lambda>_.
        seqE (assertNonEmptyString ''symbol'' symbol) (\<lambda>_.
        seqE (assert (isValidSide side) (InvalidSide side)) (\<lambda>_.
        seqE (assert (isValidOrderType typ) (InvalidOrderType typ)) (\<lambda>_.
        seqE (assertPositiveInteger ''quantity'' quantity) (\<lambda>_.
        seqE (assertNonNegativeInteger ''timestamp'' timestamp) (\<lambda>_.
        seqE (if typ = type_val LIMIT then assertPositiveInteger ''priceTicks'' priceTicks
              else Inr ()) (\<lambda>_.
        if typ = type_val MARKET then assert (nullish priceTicks) MarketPriceNotNull
        else Inr ())))))))))"

text \<open>The declarative reading of an input that passes.\<close>

definition valid_order_input :: "jsobj \<Rightarrow> bool" where
  "valid_order_input o1 \<longleftrightarrow>
     nonEmptyString (getp o1 ''orderId'') \<and> nonEmptyString (getp o1 ''userId'') \<and>
     nonEmptyString (getp o1 ''symbol'') \<and> isValidSide (getp o1 ''side'') \<and>
     isValidOrderType (dflt (getp o1 ''type'') (type_val LIMIT)) \<and>
     (case as_integer (getp o1 ''quantity'') of Some n \<Rightarrow> 0 < n | None \<Rightarrow> False) \<and>
     (case as_integer (getp o1 ''timestamp'') of Some n \<Rightarrow> 0 \<le> n | None \<Rightarrow> False) \<and>
     (dflt (getp o1 ''type'') (type_val LIMIT) = type_val LIMIT \<longrightarrow>
        (case as_integer (getp o1 ''priceTicks'') of Some n \<Rightarrow> 0 < n | None \<Rightarrow> False)) \<and>
     (dflt (getp o1 ''type'') (type_val LIMIT) = type_val MARKET \<longrightarrow> nullish (getp o1 ''priceTicks''))"

lemma validateOrderInput_ok_iff: "validateOrderInput o1 = Inr () \<longleftrightarrow> valid_order_input o1"
  unfolding validateOrderInput_def valid_order_input_def Let_def seqE_eq_Inr
  by (auto simp: assertNonEmptyString_def assertPositiveInteger_def assertNonNegativeInteger_def)

end
