(* ===== verification/OrderNode.thy ===== *)
theory OrderNode
  imports EngineTypes
begin

text \<open>
  \<^verbatim>\<open>src/engine/OrderNode.js\<close>: the order object, its constructor, its guarded state
  changes (\<^verbatim>\<open>fill\<close>, \<^verbatim>\<open>cancel\<close>) and its snapshot.  The three link fields
  (\<^verbatim>\<open>prev\<close>, \<^verbatim>\<open>next\<close>, \<^verbatim>\<open>priceLevel\<close>) are references into the heap of
  \<^verbatim>\<open>PriceLevel\<close>; \<open>core\<close> forgets them.
\<close>

subsection \<open>The object\<close>

record OrderNode =
  on_orderId :: string
  on_userId :: string
  on_side :: Side
  on_symbol :: string
  on_type :: OrderType
  on_priceTicks :: "int option"
  on_timestamp :: int
  on_initialQuantity :: int
  on_remainingQuantity :: int
  on_status :: OrderStatus
  on_prev :: "nat option"
  on_next :: "nat option"
  on_priceLevel :: "nat option"

definition str_of :: "jsval \<Rightarrow> string" where
  "str_of v = (case v of JStr s \<Rightarrow> s | _ \<Rightarrow> [])"

definition int_of :: "jsval \<Rightarrow> int" where
  "int_of v = (case as_integer v of Some n \<Rightarrow> n | None \<Rightarrow> 0)"

lemma str_of_JStr [simp]: "str_of (JStr s) = s"
  by (simp add: str_of_def)

lemma int_of_JInt [simp]: "int_of (JInt n) = n"
  by (simp add: int_of_def)

lemma int_of_numeral [simp]: "int_of (JNum (numeral n)) = numeral n" "int_of (JNum 0) = 0" "int_of (JNum 1) = 1"
  by (simp_all add: int_of_def)

text \<open>
  The constructor validates first and then copies.  The validated fields are read at their
  type.  Validation leaves the price of an order that is neither a limit nor a market
  order unchecked; a price that is not an integer is then kept as \<open>None\<close>, and the only
  operation such a node can meet, \<^verbatim>\<open>append\<close> to a level, rejects both alike.
\<close>

definition new_OrderNode :: "jsobj \<Rightarrow> OrderNode res" where
  "new_OrderNode o1 =
    (let typ = dflt (getp o1 ''type'') (type_val LIMIT);
         priceTicks = dflt (getp o1 ''priceTicks'') JNull
     in seqE (validateOrderInput (setp (setp o1 ''type'' typ) ''priceTicks'' priceTicks)) (\<lambda>_.
        Inr \<lparr> on_orderId = str_of (getp o1 ''orderId''),
              on_userId = str_of (getp o1 ''userId''),
              on_side = the (side_of (getp o1 ''side'')),
              on_symbol = str_of (getp o1 ''symbol''),
              on_type = the (type_of typ),
              on_priceTicks = as_integer priceTicks,
              on_timestamp = int_of (getp o1 ''timestamp''),
              on_initialQuantity = int_of (getp o1 ''quantity''),
              on_remainingQuantity = int_of (getp o1 ''quantity''),
              on_status = OPEN,
              on_prev = None, on_next = None, on_priceLevel = None \<rparr>))"

subsection \<open>Getters\<close>

definition filledQuantity :: "OrderNode \<Rightarrow> int" where
  "filledQuantity n = on_initialQuantity n - on_remainingQuantity n"

definition isFilled :: "OrderNode \<Rightarrow> bool" where
  "isFilled n \<longleftrightarrow> on_status n = FILLED"

definition isCancelled :: "OrderNode \<Rightarrow> bool" where
  "isCancelled n \<longleftrightarrow> on_status n = CANCELLED"

definition isActive :: "OrderNode \<Rightarrow> bool" where
  "isActive n \<longleftrightarrow> \<not> isFilled n \<and> \<not> isCancelled n"

definition isMarketOrder :: "OrderNode \<Rightarrow> bool" where
  "isMarketOrder n \<longleftrightarrow> on_type n = MARKET"

definition isLimitOrder :: "OrderNode \<Rightarrow> bool" where
  "isLimitOrder n \<longleftrightarrow> on_type n = LIMIT"

subsection \<open>State changes\<close>

definition fill :: "int \<Rightarrow> OrderNode \<Rightarrow> OrderNode res" where
  "fill quantity n =
    (if quantity \<le> 0 then Inl FillNotPositive
     else if \<not> isActive n then Inl (AlreadyDone (on_orderId n) (on_status n))
     else if on_remainingQuantity n < quantity then Inl FillExceedsRemaining
     else (let r = on_remainingQuantity n - quantity
           in Inr (n\<lparr>on_remainingQuantity := r,
                     on_status := (if r = 0 then FILLED else PARTIALLY_FILLED)\<rparr>)))"

definition cancel :: "OrderNode \<Rightarrow> OrderNode res" where
  "cancel n = (if \<not> isActive n then Inl (AlreadyDone (on_orderId n) (on_status n))
     else Inr (n\<lparr>on_status := CANCELLED\<rparr>))"

definition detachLinks :: "OrderNode \<Rightarrow> OrderNode" where
  "detachLinks n = n\<lparr>on_prev := None, on_next := None, on_priceLevel := None\<rparr>"

definition price_val :: "int option \<Rightarrow> jsval" where
  "price_val p = (case p of None \<Rightarrow> JNull | Some t \<Rightarrow> JInt t)"

definition node_snapshot :: "OrderNode \<Rightarrow> jsobj" where
  "node_snapshot n =
    [(''orderId'', JStr (on_orderId n)),
     (''userId'', JStr (on_userId n)),
     (''symbol'', JStr (on_symbol n)),
     (''side'', side_val (on_side n)),
     (''type'', type_val (on_type n)),
     (''priceTicks'', price_val (on_priceTicks n)),
     (''initialQuantity'', JInt (on_initialQuantity n)),
     (''remainingQuantity'', JInt (on_remainingQuantity n)),
     (''filledQuantity'', JInt (filledQuantity n)),
     (''status'', status_val (on_status n)),
     (''timestamp'', JInt (on_timestamp n))]"

subsection \<open>Well-formed orders and the effect of the operations\<close>

text \<open>
  An order agrees with itself: its status says what its remaining quantity says.
\<close>

definition node_ok :: "OrderNode \<Rightarrow> bool" where
  "node_ok n \<longleftrightarrow> 0 \<le> on_remainingQuantity n \<and> on_remainingQuantity n \<le> on_initialQuantity n \<and>
     0 < on_initialQuantity n \<and>
     (on_status n = OPEN \<longrightarrow> on_remainingQuantity n = on_initialQuantity n) \<and>
     (on_status n = PARTIALLY_FILLED \<longrightarrow>
        0 < on_remainingQuantity n \<and> on_remainingQuantity n < on_initialQuantity n) \<and>
     (on_status n = FILLED \<longleftrightarrow> on_remainingQuantity n = 0) \<and>
     on_status n \<in> {OPEN, PARTIALLY_FILLED, FILLED, CANCELLED}"

text \<open>What validation establishes once and no operation changes.\<close>

definition node_static :: "OrderNode \<Rightarrow> bool" where
  "node_static n \<longleftrightarrow> trim (on_orderId n) \<noteq> [] \<and> trim (on_userId n) \<noteq> [] \<and>
     trim (on_symbol n) \<noteq> [] \<and> 0 \<le> on_timestamp n \<and>
     (on_type n = LIMIT \<longrightarrow> (case on_priceTicks n of Some p \<Rightarrow> 0 < p | None \<Rightarrow> False)) \<and>
     (on_type n = MARKET \<longrightarrow> on_priceTicks n = None)"

definition core :: "OrderNode \<Rightarrow> OrderNode" where
  "core n = n\<lparr>on_prev := None, on_next := None, on_priceLevel := None\<rparr>"

text \<open>The unguarded effect of a fill, used by the specifications.\<close>

definition filled_by :: "int \<Rightarrow> OrderNode \<Rightarrow> OrderNode" where
  "filled_by q n = n\<lparr>on_remainingQuantity := on_remainingQuantity n - q,
     on_status := (if on_remainingQuantity n = q then FILLED else PARTIALLY_FILLED)\<rparr>"

lemma fill_ok:
  "0 < q \<Longrightarrow> isActive n \<Longrightarrow> q \<le> on_remainingQuantity n \<Longrightarrow> fill q n = Inr (filled_by q n)"
  by (simp add: fill_def filled_by_def Let_def)

lemma fill_Inr:
  "fill q n = Inr n' \<longleftrightarrow> 0 < q \<and> isActive n \<and> q \<le> on_remainingQuantity n \<and> n' = filled_by q n"
  by (auto simp: fill_def filled_by_def Let_def)

lemma isActive_iff: "isActive n \<longleftrightarrow> on_status n \<noteq> FILLED \<and> on_status n \<noteq> CANCELLED"
  by (simp add: isActive_def isFilled_def isCancelled_def)

lemma node_ok_filled_by:
  "node_ok n \<Longrightarrow> 0 < q \<Longrightarrow> q \<le> on_remainingQuantity n \<Longrightarrow> isActive n \<Longrightarrow> node_ok (filled_by q n)"
  by (auto simp: node_ok_def filled_by_def isActive_iff)

lemma filled_by_simps [simp]:
  "on_orderId (filled_by q n) = on_orderId n" "on_userId (filled_by q n) = on_userId n"
  "on_side (filled_by q n) = on_side n" "on_symbol (filled_by q n) = on_symbol n"
  "on_type (filled_by q n) = on_type n" "on_priceTicks (filled_by q n) = on_priceTicks n"
  "on_timestamp (filled_by q n) = on_timestamp n"
  "on_initialQuantity (filled_by q n) = on_initialQuantity n"
  "on_remainingQuantity (filled_by q n) = on_remainingQuantity n - q"
  "on_prev (filled_by q n) = on_prev n" "on_next (filled_by q n) = on_next n"
  "on_priceLevel (filled_by q n) = on_priceLevel n"
  by (simp_all add: filled_by_def)

lemma isFilled_filled_by [simp]: "isFilled (filled_by q n) \<longleftrightarrow> on_remainingQuantity n = q"
  by (simp add: isFilled_def filled_by_def)

lemma isActive_filled_by [simp]: "isActive (filled_by q n) \<longleftrightarrow> on_remainingQuantity n \<noteq> q"
  by (simp add: isActive_iff filled_by_def)

lemma core_simps [simp]:
  "on_orderId (core n) = on_orderId n" "on_userId (core n) = on_userId n"
  "on_side (core n) = on_side n" "on_symbol (core n) = on_symbol n"
  "on_type (core n) = on_type n" "on_priceTicks (core n) = on_priceTicks n"
  "on_timestamp (core n) = on_timestamp n" "on_initialQuantity (core n) = on_initialQuantity n"
  "on_remainingQuantity (core n) = on_remainingQuantity n" "on_status (core n) = on_status n"
  "on_prev (core n) = None" "on_next (core n) = None" "on_priceLevel (core n) = None"
  by (simp_all add: core_def)

lemma core_core [simp]: "core (core n) = core n"
  by (simp add: core_def)

lemma core_links [simp]:
  "core (n\<lparr>on_prev := p\<rparr>) = core n" "core (n\<lparr>on_next := p\<rparr>) = core n"
  "core (n\<lparr>on_priceLevel := p\<rparr>) = core n" "core (detachLinks n) = core n"
  by (simp_all add: core_def detachLinks_def)

lemma core_filled_by [simp]: "core (filled_by q n) = filled_by q (core n)"
  by (simp add: core_def filled_by_def)

lemma node_ok_core [simp]: "node_ok (core n) = node_ok n"
  by (simp add: node_ok_def)

lemma isActive_core [simp]: "isActive (core n) = isActive n"
  by (simp add: isActive_iff)

lemma node_snapshot_core [simp]: "node_snapshot (core n) = node_snapshot n"
  by (simp add: node_snapshot_def filledQuantity_def)

lemma snapshot_props:
  "getp (node_snapshot n) ''orderId'' = JStr (on_orderId n)"
  "getp (node_snapshot n) ''remainingQuantity'' = JInt (on_remainingQuantity n)"
  "getp (node_snapshot n) ''status'' = status_val (on_status n)"
  "getp (node_snapshot n) ''symbol'' = JStr (on_symbol n)"
  "getp (node_snapshot n) ''quantity'' = JUndef"
  by (simp_all add: node_snapshot_def)

subsection \<open>What the constructor returns\<close>

lemma setp_valid:
  "valid_order_input (setp (setp o1 ''type'' t) ''priceTicks'' p) \<longleftrightarrow>
     nonEmptyString (getp o1 ''orderId'') \<and> nonEmptyString (getp o1 ''userId'') \<and>
     nonEmptyString (getp o1 ''symbol'') \<and> isValidSide (getp o1 ''side'') \<and>
     isValidOrderType (dflt t (type_val LIMIT)) \<and>
     (case as_integer (getp o1 ''quantity'') of Some n \<Rightarrow> 0 < n | None \<Rightarrow> False) \<and>
     (case as_integer (getp o1 ''timestamp'') of Some n \<Rightarrow> 0 \<le> n | None \<Rightarrow> False) \<and>
     (dflt t (type_val LIMIT) = type_val LIMIT \<longrightarrow>
        (case as_integer p of Some n \<Rightarrow> 0 < n | None \<Rightarrow> False)) \<and>
     (dflt t (type_val LIMIT) = type_val MARKET \<longrightarrow> nullish p)"
  by (simp add: valid_order_input_def)

lemma new_OrderNode_fields:
  assumes "new_OrderNode o1 = Inr n"
  shows "node_ok n \<and> node_static n \<and> on_status n = OPEN \<and>
    getp o1 ''orderId'' = JStr (on_orderId n) \<and> getp o1 ''userId'' = JStr (on_userId n) \<and>
    getp o1 ''symbol'' = JStr (on_symbol n) \<and> getp o1 ''side'' = side_val (on_side n) \<and>
    getp o1 ''quantity'' = JInt (on_initialQuantity n) \<and>
    getp o1 ''timestamp'' = JInt (on_timestamp n) \<and>
    on_remainingQuantity n = on_initialQuantity n \<and>
    dflt (getp o1 ''type'') (type_val LIMIT) = type_val (on_type n) \<and>
    on_priceTicks n = as_integer (dflt (getp o1 ''priceTicks'') JNull) \<and>
    on_prev n = None \<and> on_next n = None \<and> on_priceLevel n = None"
proof -
  let ?t = "dflt (getp o1 ''type'') (type_val LIMIT)"
  let ?p = "dflt (getp o1 ''priceTicks'') JNull"
  have v: "valid_order_input (setp (setp o1 ''type'' ?t) ''priceTicks'' ?p)"
    using assms by (auto simp: new_OrderNode_def Let_def seqE_eq_Inr validateOrderInput_ok_iff)
  have dd: "dflt ?t (type_val LIMIT) = ?t" by (simp add: dflt_def)
  have n: "on_orderId n = str_of (getp o1 ''orderId'')" "on_type n = the (type_of ?t)"
    "on_userId n = str_of (getp o1 ''userId'')" "on_symbol n = str_of (getp o1 ''symbol'')"
    "on_side n = the (side_of (getp o1 ''side''))"
    "on_priceTicks n = as_integer ?p" "on_timestamp n = int_of (getp o1 ''timestamp'')"
    "on_initialQuantity n = int_of (getp o1 ''quantity'')"
    "on_remainingQuantity n = int_of (getp o1 ''quantity'')"
    "on_status n = OPEN" "on_prev n = None" "on_next n = None" "on_priceLevel n = None"
    using assms by (auto simp: new_OrderNode_def Let_def seqE_eq_Inr)
  from v [unfolded setp_valid dd] obtain t sd q ts where t: "?t = type_val t"
    and sd: "getp o1 ''side'' = side_val sd" and q: "getp o1 ''quantity'' = JInt q" "0 < q"
    and ts: "getp o1 ''timestamp'' = JInt ts" "0 \<le> ts"
    by (auto simp: isValidOrderType_iff isValidSide_iff type_of_Some side_of_Some as_integer_Some
        split: option.splits)
  have q': "0 \<le> q" "q \<noteq> 0" using q(2) by simp_all
  from v [unfolded setp_valid dd t] show ?thesis
    by (auto simp: n t sd q q' ts node_ok_def node_static_def nonEmptyString_iff nullish_def
        simp del: type_val.simps side_val.simps split: option.splits)
qed

text \<open>And the constructor accepts exactly the valid inputs.\<close>

lemma new_OrderNode_accepts:
  assumes "nonEmptyString (getp o1 ''orderId'')" "nonEmptyString (getp o1 ''userId'')"
    and "nonEmptyString (getp o1 ''symbol'')" "isValidSide (getp o1 ''side'')"
    and "dflt (getp o1 ''type'') (type_val LIMIT) = type_val t"
    and "getp o1 ''quantity'' = JInt q" "0 < q" "getp o1 ''timestamp'' = JInt ts" "0 \<le> ts"
    and "t = LIMIT \<Longrightarrow> \<exists>p > 0. getp o1 ''priceTicks'' = JInt p"
    and "t = MARKET \<Longrightarrow> nullish (getp o1 ''priceTicks'')"
  shows "\<exists>n. new_OrderNode o1 = Inr n"
proof -
  let ?p = "dflt (getp o1 ''priceTicks'') JNull"
  have "valid_order_input (setp (setp o1 ''type'' (type_val t)) ''priceTicks'' ?p)"
    using assms unfolding setp_valid
    by (auto simp: dflt_def nullish_def simp del: type_val.simps)
  then show ?thesis
    using assms(5) by (simp add: new_OrderNode_def Let_def seqE_eq_Inr flip: validateOrderInput_ok_iff
        del: type_val.simps)
qed

lemma node_static_core [simp]: "node_static (core n) = node_static n"
  by (simp add: node_static_def)

lemma node_static_filled_by [simp]: "node_static (filled_by q n) = node_static n"
  by (simp add: node_static_def)

text \<open>Everything but the links depends on the \<open>core\<close> only.\<close>

lemma core_transfer:
  assumes "core m = core n"
  shows "on_orderId m = on_orderId n" "on_userId m = on_userId n" "on_side m = on_side n"
    "on_symbol m = on_symbol n" "on_type m = on_type n" "on_priceTicks m = on_priceTicks n"
    "on_timestamp m = on_timestamp n" "on_initialQuantity m = on_initialQuantity n"
    "on_remainingQuantity m = on_remainingQuantity n" "on_status m = on_status n"
    "node_ok m = node_ok n" "isActive m = isActive n" "node_static m = node_static n"
    "node_snapshot m = node_snapshot n"
  using assms by (metis core_simps node_ok_core isActive_core node_static_core node_snapshot_core)+

end
