(* ===== verification/PriceLevel.thy ===== *)
theory PriceLevel
  imports OrderNode
begin

text \<open>
  \<^verbatim>\<open>src/engine/PriceLevel.js\<close>: the FIFO queue of the orders at one price, a doubly
  linked list through the order objects.  Orders and levels are mutated in place and
  shared between the level, the price maps and \<^verbatim>\<open>ordersById\<close>, so they live in an
  explicit heap: \<open>nodes\<close> and \<open>levels\<close> map references to objects, \<open>nextRef\<close> is
  the next fresh reference.  A null reference is \<open>None\<close>.

  \<open>level_rep\<close> says that a level represents a list of references; every operation is
  shown to compute the list operation it stands for and to leave all other objects alone.
  The locale \<open>fifo_level\<close> states the contract the order book uses.
\<close>

subsection \<open>Objects and heap\<close>

record PriceLevel =
  pl_priceTicks :: int
  pl_head :: "nat option"
  pl_tail :: "nat option"
  pl_totalQuantity :: int
  pl_orderCount :: int

record heap =
  nodes :: "nat \<Rightarrow> OrderNode"
  levels :: "nat \<Rightarrow> PriceLevel"
  nextRef :: nat

type_synonym ('z, 'r) hprog = "('z heap_scheme, js_error, 'r) prog"

definition no_node :: OrderNode where
  "no_node = \<lparr> on_orderId = [], on_userId = [], on_side = BUY, on_symbol = [], on_type = LIMIT,
     on_priceTicks = None, on_timestamp = 0, on_initialQuantity = 0, on_remainingQuantity = 0,
     on_status = CANCELLED, on_prev = None, on_next = None, on_priceLevel = None \<rparr>"

definition no_level :: PriceLevel where
  "no_level = \<lparr> pl_priceTicks = 0, pl_head = None, pl_tail = None, pl_totalQuantity = 0,
     pl_orderCount = 0 \<rparr>"

definition upd_node :: "nat \<Rightarrow> (OrderNode \<Rightarrow> OrderNode) \<Rightarrow> ('z, unit) hprog" where
  "upd_node a f = modify (\<lambda>s. s\<lparr>nodes := (nodes s)(a := f (nodes s a))\<rparr>)"

definition upd_level :: "nat \<Rightarrow> (PriceLevel \<Rightarrow> PriceLevel) \<Rightarrow> ('z, unit) hprog" where
  "upd_level l f = modify (\<lambda>s. s\<lparr>levels := (levels s)(l := f (levels s l))\<rparr>)"

definition alloc_node :: "OrderNode \<Rightarrow> ('z, nat) hprog" where
  "alloc_node n = (\<lambda>s. (Inr (nextRef s),
     s\<lparr>nodes := (nodes s)(nextRef s := n), nextRef := Suc (nextRef s)\<rparr>))"

definition alloc_level :: "PriceLevel \<Rightarrow> ('z, nat) hprog" where
  "alloc_level lv = (\<lambda>s. (Inr (nextRef s),
     s\<lparr>levels := (levels s)(nextRef s := lv), nextRef := Suc (nextRef s)\<rparr>))"

text \<open>Calling a method of an order that may throw.\<close>

definition on_node :: "nat \<Rightarrow> (OrderNode \<Rightarrow> OrderNode res) \<Rightarrow> ('z, unit) hprog" where
  "on_node a f = (\<lambda>s. case f (nodes s a) of
     Inl e \<Rightarrow> (Inl e, s) | Inr n \<Rightarrow> (Inr (), s\<lparr>nodes := (nodes s)(a := n)\<rparr>))"

lemma upd_node_apply [simp, prog_simps]:
  "upd_node a f s = (Inr (), s\<lparr>nodes := (nodes s)(a := f (nodes s a))\<rparr>)"
  by (simp add: upd_node_def)

lemma upd_level_apply [simp, prog_simps]:
  "upd_level l f s = (Inr (), s\<lparr>levels := (levels s)(l := f (levels s l))\<rparr>)"
  by (simp add: upd_level_def)

lemma bindE_upd_node [simp, prog_simps]:
  "bindE (upd_node a f) k s = k () (s\<lparr>nodes := (nodes s)(a := f (nodes s a))\<rparr>)"
  by (simp add: bindE_def)

lemma bindE_upd_level [simp, prog_simps]:
  "bindE (upd_level l f) k s = k () (s\<lparr>levels := (levels s)(l := f (levels s l))\<rparr>)"
  by (simp add: bindE_def)

subsection \<open>The operations of PriceLevel.js\<close>

definition new_PriceLevel :: "jsval \<Rightarrow> PriceLevel res" where
  "new_PriceLevel priceTicks = seqE (assertPositiveInteger ''priceTicks'' priceTicks) (\<lambda>_.
     Inr \<lparr> pl_priceTicks = int_of priceTicks, pl_head = None, pl_tail = None,
           pl_totalQuantity = 0, pl_orderCount = 0 \<rparr>)"

definition level_isEmpty :: "PriceLevel \<Rightarrow> bool" where
  "level_isEmpty lv \<longleftrightarrow> pl_orderCount lv = 0"

definition assertAppendable :: "nat \<Rightarrow> nat option \<Rightarrow> ('z, nat) hprog" where
  "assertAppendable l orderNode = (\<lambda>s. case orderNode of
     None \<Rightarrow> (Inl OrderNodeRequired, s)
   | Some a \<Rightarrow>
      (if on_priceTicks (nodes s a) \<noteq> Some (pl_priceTicks (levels s l)) then (Inl LevelPriceMismatch, s)
       else if on_priceLevel (nodes s a) \<noteq> None then (Inl AlreadyInLevel, s)
       else if on_remainingQuantity (nodes s a) \<le> 0 then (Inl RemainingNotPositive, s)
       else (Inr a, s)))"

definition append_level :: "nat \<Rightarrow> nat option \<Rightarrow> ('z, unit) hprog" where
  "append_level l orderNode =
     bindE (assertAppendable l orderNode) (\<lambda>a.
     bindE (upd_node a (\<lambda>n. n\<lparr>on_priceLevel := Some l\<rparr>)) (\<lambda>_.
     bindE (gets (\<lambda>s. levels s l)) (\<lambda>lv.
     bindE (if level_isEmpty lv
            then upd_level l (\<lambda>lv. lv\<lparr>pl_head := Some a, pl_tail := Some a\<rparr>)
            else (case pl_tail lv of None \<Rightarrow> throw TypeErr
              | Some t \<Rightarrow>
                 bindE (upd_node t (\<lambda>n. n\<lparr>on_next := Some a\<rparr>)) (\<lambda>_.
                 bindE (upd_node a (\<lambda>n. n\<lparr>on_prev := Some t\<rparr>)) (\<lambda>_.
                 upd_level l (\<lambda>lv. lv\<lparr>pl_tail := Some a\<rparr>))))) (\<lambda>_.
     bindE (gets (\<lambda>s. nodes s a)) (\<lambda>n.
     upd_level l (\<lambda>lv. lv\<lparr>pl_totalQuantity := pl_totalQuantity lv + on_remainingQuantity n,
                          pl_orderCount := pl_orderCount lv + 1\<rparr>))))))"

definition peek_level :: "nat \<Rightarrow> ('z, nat option) hprog" where
  "peek_level l = gets (\<lambda>s. pl_head (levels s l))"

definition assertBelongsToLevel :: "nat \<Rightarrow> nat option \<Rightarrow> ('z, nat) hprog" where
  "assertBelongsToLevel l orderNode = (\<lambda>s. case orderNode of
     None \<Rightarrow> (Inl OrderNodeRequired, s)
   | Some a \<Rightarrow> (if on_priceLevel (nodes s a) \<noteq> Some l then (Inl NotInThisLevel, s) else (Inr a, s)))"

definition remove_level :: "nat \<Rightarrow> nat option \<Rightarrow> ('z, unit) hprog" where
  "remove_level l orderNode =
     bindE (assertBelongsToLevel l orderNode) (\<lambda>a.
     bindE (gets (\<lambda>s. on_prev (nodes s a))) (\<lambda>previousNode.
     bindE (gets (\<lambda>s. on_next (nodes s a))) (\<lambda>nextNode.
     bindE (case previousNode of
              Some p \<Rightarrow> upd_node p (\<lambda>n. n\<lparr>on_next := nextNode\<rparr>)
            | None \<Rightarrow> upd_level l (\<lambda>lv. lv\<lparr>pl_head := nextNode\<rparr>)) (\<lambda>_.
     bindE (case nextNode of
              Some q \<Rightarrow> upd_node q (\<lambda>n. n\<lparr>on_prev := previousNode\<rparr>)
            | None \<Rightarrow> upd_level l (\<lambda>lv. lv\<lparr>pl_tail := previousNode\<rparr>)) (\<lambda>_.
     bindE (gets (\<lambda>s. nodes s a)) (\<lambda>n.
     bindE (upd_level l (\<lambda>lv. lv\<lparr>pl_totalQuantity := pl_totalQuantity lv - on_remainingQuantity n,
                                 pl_orderCount := pl_orderCount lv - 1\<rparr>)) (\<lambda>_.
     upd_node a detachLinks)))))))"

definition decreaseTotalQuantity :: "nat \<Rightarrow> int \<Rightarrow> ('z, unit) hprog" where
  "decreaseTotalQuantity l quantity =
     bindE (assertE (0 < quantity) (NotPositiveInteger ''quantity'')) (\<lambda>_.
     bindE (gets (\<lambda>s. levels s l)) (\<lambda>lv.
     if pl_totalQuantity lv < quantity then throw DecreaseTooMuch
     else upd_level l (\<lambda>lv. lv\<lparr>pl_totalQuantity := pl_totalQuantity lv - quantity\<rparr>)))"

definition level_snapshot :: "'z heap_scheme \<Rightarrow> nat \<Rightarrow> jsobj" where
  "level_snapshot s l = (let lv = levels s l;
      id_of = (\<lambda>r. case r of None \<Rightarrow> JNull | Some a \<Rightarrow> JStr (on_orderId (nodes s a)))
    in [(''priceTicks'', JInt (pl_priceTicks lv)),
             (''totalQuantity'', JInt (pl_totalQuantity lv)),
             (''orderCount'', JInt (pl_orderCount lv)),
             (''headOrderId'', id_of (pl_head lv)),
             (''tailOrderId'', id_of (pl_tail lv))])"

text \<open>
  The loop of \<^verbatim>\<open>toArray\<close> follows \<^verbatim>\<open>next\<close> until null; on a cyclic list it would not
  return, which is the value \<open>None\<close>.
\<close>

partial_function (option) toArray_from :: "(nat \<Rightarrow> OrderNode) \<Rightarrow> nat option \<Rightarrow> jsobj list \<Rightarrow> jsobj list option" where
  "toArray_from ns currentNode orders =
     (case currentNode of None \<Rightarrow> Some orders
      | Some a \<Rightarrow> toArray_from ns (on_next (ns a)) (orders @ [node_snapshot (ns a)]))"

definition toArray :: "'z heap_scheme \<Rightarrow> nat \<Rightarrow> jsobj list option" where
  "toArray s l = toArray_from (nodes s) (pl_head (levels s l)) []"

subsection \<open>The list a level represents\<close>

fun linked :: "(nat \<Rightarrow> OrderNode) \<Rightarrow> nat option \<Rightarrow> nat list \<Rightarrow> nat option \<Rightarrow> bool" where
  "linked ns p [] q = True"
| "linked ns p (a # as) q \<longleftrightarrow>
     on_prev (ns a) = p \<and> on_next (ns a) = first_or as q \<and> linked ns (Some a) as q"

definition level_rep :: "(nat \<Rightarrow> OrderNode) \<Rightarrow> nat \<Rightarrow> PriceLevel \<Rightarrow> nat list \<Rightarrow> bool" where
  "level_rep ns l lv as \<longleftrightarrow>
     pl_head lv = first_or as None \<and> pl_tail lv = last_or as None \<and>
     linked ns None as None \<and> distinct as \<and>
     pl_orderCount lv = int (length as) \<and>
     pl_totalQuantity lv = sum_list (map (\<lambda>a. on_remainingQuantity (ns a)) as) \<and>
     (\<forall>a \<in> set as. on_priceLevel (ns a) = Some l \<and> on_priceTicks (ns a) = Some (pl_priceTicks lv))"

text \<open>The represented list, computed by following \<^verbatim>\<open>next\<close> for \<^verbatim>\<open>orderCount\<close> steps.\<close>

fun walk :: "(nat \<Rightarrow> OrderNode) \<Rightarrow> nat \<Rightarrow> nat option \<Rightarrow> nat list" where
  "walk ns 0 r = []"
| "walk ns (Suc k) None = []"
| "walk ns (Suc k) (Some a) = a # walk ns k (on_next (ns a))"

definition level_addrs :: "'z heap_scheme \<Rightarrow> nat \<Rightarrow> nat list" where
  "level_addrs s l = walk (nodes s) (nat (pl_orderCount (levels s l))) (pl_head (levels s l))"

lemma linked_append [simp]:
  "linked ns p (xs @ ys) q \<longleftrightarrow> linked ns p xs (first_or ys q) \<and> linked ns (last_or xs p) ys q"
  by (induction xs arbitrary: p) (auto simp: first_or_append last_or_Cons)

lemma linked_cong:
  "(\<And>a. a \<in> set as \<Longrightarrow> on_prev (ns' a) = on_prev (ns a) \<and> on_next (ns' a) = on_next (ns a)) \<Longrightarrow>
     linked ns' p as q = linked ns p as q"
  by (induction as arbitrary: p) auto

lemma walk_linked: "linked ns p as None \<Longrightarrow> walk ns (length as) (first_or as None) = as"
  by (induction as arbitrary: p) auto

lemma level_addrs_rep: "level_rep (nodes s) l (levels s l) as \<Longrightarrow> level_addrs s l = as"
  unfolding level_rep_def level_addrs_def by (auto simp: walk_linked)

lemma level_rep_cong:
  assumes eq: "\<And>a. a \<in> set as \<Longrightarrow> ns' a = ns a"
  shows "level_rep ns' l lv as = level_rep ns l lv as"
proof -
  have "linked ns' None as None = linked ns None as None"
    using eq by (intro linked_cong) simp
  moreover have "map (\<lambda>a. on_remainingQuantity (ns' a)) as = map (\<lambda>a. on_remainingQuantity (ns a)) as"
    using eq by simp
  ultimately show ?thesis using eq by (simp add: level_rep_def cong: map_cong)
qed

lemma toArray_linked:
  "linked ns p as None \<Longrightarrow>
     toArray_from ns (first_or as None) orders = Some (orders @ map (\<lambda>a. node_snapshot (ns a)) as)"
proof (induction as arbitrary: p orders)
  case Nil
  then show ?case by (simp add: toArray_from.simps)
next
  case (Cons a as)
  then show ?case
    using Cons.IH [of "Some a" "orders @ [node_snapshot (ns a)]"]
    by (simp add: toArray_from.simps [of ns "Some a"])
qed

lemma toArray_rep:
  assumes "level_rep (nodes s) l (levels s l) as"
  shows "toArray s l = Some (map (\<lambda>a. node_snapshot (nodes s a)) as)"
  using assms toArray_linked [of "nodes s" None as "[]"] by (simp add: toArray_def level_rep_def)

subsection \<open>append adds at the tail\<close>

definition appendable :: "PriceLevel \<Rightarrow> OrderNode \<Rightarrow> bool" where
  "appendable lv n \<longleftrightarrow> on_priceTicks n = Some (pl_priceTicks lv) \<and> on_priceLevel n = None \<and>
     0 < on_remainingQuantity n \<and> on_prev n = None \<and> on_next n = None"

lemma linked_append_tail:
  assumes "linked ns None as None" "distinct as" "a \<notin> set as" "as = bs @ [t]"
  shows "linked (ns(t := (ns t)\<lparr>on_next := Some a\<rparr>, a := n\<lparr>on_prev := Some t, on_next := None\<rparr>)) None (as @ [a]) None"
proof -
  have ta: "t \<noteq> a" "t \<notin> set bs" "a \<notin> set bs" using assms by auto
  let ?ns = "ns(t := (ns t)\<lparr>on_next := Some a\<rparr>, a := n\<lparr>on_prev := Some t, on_next := None\<rparr>)"
  have "linked ?ns None bs (Some t) = linked ns None bs (Some t)"
    using ta by (intro linked_cong) auto
  with assms ta show ?thesis by (simp add: first_or_append)
qed

text \<open>The heap after an append to a level that represents \<open>as\<close>.\<close>

definition appended_nodes :: "(nat \<Rightarrow> OrderNode) \<Rightarrow> nat \<Rightarrow> nat list \<Rightarrow> nat \<Rightarrow> nat \<Rightarrow> OrderNode" where
  "appended_nodes ns l as a = (let n = (ns a)\<lparr>on_priceLevel := Some l\<rparr> in
     case last_or as None of None \<Rightarrow> ns(a := n)
     | Some t \<Rightarrow> ns(t := (ns t)\<lparr>on_next := Some a\<rparr>, a := n\<lparr>on_prev := Some t, on_next := None\<rparr>))"

definition appended_level :: "PriceLevel \<Rightarrow> nat list \<Rightarrow> nat \<Rightarrow> int \<Rightarrow> PriceLevel" where
  "appended_level lv as a q = lv\<lparr>pl_head := first_or as (Some a), pl_tail := Some a,
     pl_totalQuantity := pl_totalQuantity lv + q, pl_orderCount := pl_orderCount lv + 1\<rparr>"

lemma append_level_eq:
  assumes rep: "level_rep (nodes s) l (levels s l) as"
    and fresh: "a \<notin> set as" and ok: "appendable (levels s l) (nodes s a)"
  shows "append_level l (Some a) s = (Inr (), s\<lparr>nodes := appended_nodes (nodes s) l as a,
     levels := (levels s)(l := appended_level (levels s l) as a (on_remainingQuantity (nodes s a)))\<rparr>)"
proof (cases "as = []")
  case True
  then show ?thesis
    using rep ok
    by (simp add: append_level_def assertAppendable_def appendable_def level_rep_def level_isEmpty_def
        bindE_def appended_nodes_def appended_level_def)
next
  case False
  then obtain bs t where as: "as = bs @ [t]" by (metis rev_exhaust)
  have hd: "first_or (bs @ [t]) (Some a) = first_or (bs @ [t]) None" by (cases bs) simp_all
  have nx: "(nodes s a)\<lparr>on_priceLevel := Some l, on_prev := Some t, on_next := None\<rparr> =
      (nodes s a)\<lparr>on_priceLevel := Some l, on_prev := Some t\<rparr>"
    using ok by (simp add: appendable_def)
  have hx: "(levels s l)\<lparr>pl_head := first_or (bs @ [t]) None, pl_tail := Some a\<rparr> =
      (levels s l)\<lparr>pl_tail := Some a\<rparr>"
    using rep as by (simp add: level_rep_def)
  show ?thesis
    using rep ok fresh as hd
    by (auto simp: append_level_def assertAppendable_def appendable_def level_rep_def level_isEmpty_def
        bindE_def appended_nodes_def appended_level_def fun_upd_twist nx hx)
qed

lemma appended_core [simp]: "core (appended_nodes ns l as a b) = core (ns b)"
  by (auto simp: appended_nodes_def Let_def core_def split: option.split)

lemma appended_level_of:
  "on_priceLevel (appended_nodes ns l as a b) = (if b = a then Some l else on_priceLevel (ns b))"
  by (auto simp: appended_nodes_def Let_def split: option.split)

lemma appended_other: "b \<notin> set as \<Longrightarrow> b \<noteq> a \<Longrightarrow> appended_nodes ns l as a b = ns b"
  by (auto simp: appended_nodes_def Let_def last_or_def split: option.split)

lemma appended_level_price [simp]: "pl_priceTicks (appended_level lv as a q) = pl_priceTicks lv"
  by (simp add: appended_level_def)

lemmas appended_fields [simp] = core_transfer [OF appended_core]

lemma appended_rep:
  assumes rep: "level_rep ns l lv as" and fresh: "a \<notin> set as" and ok: "appendable lv (ns a)"
  shows "level_rep (appended_nodes ns l as a) l
     (appended_level lv as a (on_remainingQuantity (ns a))) (as @ [a])"
proof -
  let ?ns = "appended_nodes ns l as a"
  have lk: "linked ?ns None (as @ [a]) None"
  proof (cases "as = []")
    case True
    then show ?thesis using ok by (simp add: appended_nodes_def appendable_def)
  next
    case False
    then obtain bs t where as: "as = bs @ [t]" by (metis rev_exhaust)
    have "linked (ns(t := (ns t)\<lparr>on_next := Some a\<rparr>,
        a := ((ns a)\<lparr>on_priceLevel := Some l\<rparr>)\<lparr>on_prev := Some t, on_next := None\<rparr>)) None (as @ [a]) None"
      using rep fresh as by (intro linked_append_tail) (auto simp: level_rep_def)
    then show ?thesis using as by (simp add: appended_nodes_def Let_def)
  qed
  show ?thesis
    using rep fresh ok lk
    by (simp add: level_rep_def appended_level_def appended_level_of appendable_def first_or_append)
qed

subsection \<open>remove unlinks one order and keeps the others in their places\<close>

definition removed_nodes :: "(nat \<Rightarrow> OrderNode) \<Rightarrow> nat list \<Rightarrow> nat \<Rightarrow> nat list \<Rightarrow> nat \<Rightarrow> OrderNode" where
  "removed_nodes ns xs a ys = (\<lambda>b. if b = a then detachLinks (ns a)
     else if Some b = last_or xs None then (ns b)\<lparr>on_next := first_or ys None\<rparr>
     else if Some b = first_or ys None then (ns b)\<lparr>on_prev := last_or xs None\<rparr>
     else ns b)"

definition removed_level :: "PriceLevel \<Rightarrow> nat list \<Rightarrow> nat list \<Rightarrow> int \<Rightarrow> PriceLevel" where
  "removed_level lv xs ys q = lv\<lparr>pl_head := first_or (xs @ ys) None, pl_tail := last_or (xs @ ys) None,
     pl_totalQuantity := pl_totalQuantity lv - q, pl_orderCount := pl_orderCount lv - 1\<rparr>"

lemma remove_level_eq:
  assumes rep: "level_rep (nodes s) l (levels s l) (xs @ a # ys)"
  shows "remove_level l (Some a) s = (Inr (), s\<lparr>nodes := removed_nodes (nodes s) xs a ys,
     levels := (levels s)(l := removed_level (levels s l) xs ys (on_remainingQuantity (nodes s a)))\<rparr>)"
proof -
  have d: "a \<notin> set xs" "a \<notin> set ys" "set xs \<inter> set ys = {}" "distinct xs" "distinct ys"
    and pr: "on_prev (nodes s a) = last_or xs None" and nx: "on_next (nodes s a) = first_or ys None"
    and lv: "on_priceLevel (nodes s a) = Some l"
    and hd: "pl_head (levels s l) = first_or (xs @ a # ys) None"
    and tl: "pl_tail (levels s l) = last_or (xs @ a # ys) None"
    using rep by (auto simp: level_rep_def)
  show ?thesis
  proof (cases xs rule: rev_cases)
    case Nil
    then show ?thesis using d pr nx lv hd tl
      by (cases ys) (auto simp: remove_level_def assertBelongsToLevel_def bindE_def removed_nodes_def
          removed_level_def last_or_def fun_eq_iff intro!: heap.equality PriceLevel.equality)
  next
    case (snoc xs' p)
    have "first_or (xs @ a # ys) None = first_or (xs @ ys) None" using snoc by (cases xs') auto
    then show ?thesis using d pr nx lv hd tl snoc
      by (cases ys) (auto simp: remove_level_def assertBelongsToLevel_def bindE_def removed_nodes_def
          removed_level_def last_or_def fun_eq_iff intro!: heap.equality PriceLevel.equality)
  qed
qed

lemma removed_core [simp]: "core (removed_nodes ns xs a ys b) = core (ns b)"
  by (simp add: removed_nodes_def)

lemmas removed_fields [simp] = core_transfer [OF removed_core]

lemma removed_level_of:
  "on_priceLevel (removed_nodes ns xs a ys b) = (if b = a then None else on_priceLevel (ns b))"
  by (simp add: removed_nodes_def detachLinks_def)

lemma removed_self: "removed_nodes ns xs a ys a = detachLinks (ns a)"
  by (simp add: removed_nodes_def)

lemma removed_other: "b \<notin> set xs \<Longrightarrow> b \<notin> set ys \<Longrightarrow> b \<noteq> a \<Longrightarrow> removed_nodes ns xs a ys b = ns b"
  by (cases ys) (auto simp: removed_nodes_def last_or_def split: if_splits)

lemma removed_level_price [simp]: "pl_priceTicks (removed_level lv xs ys q) = pl_priceTicks lv"
  by (simp add: removed_level_def)

lemma removed_rep:
  assumes rep: "level_rep ns l lv (xs @ a # ys)"
  shows "level_rep (removed_nodes ns xs a ys) l
     (removed_level lv xs ys (on_remainingQuantity (ns a))) (xs @ ys)"
proof -
  let ?ns = "removed_nodes ns xs a ys"
  have d: "a \<notin> set xs" "a \<notin> set ys" "set xs \<inter> set ys = {}" "distinct xs" "distinct ys"
    and l1: "linked ns None xs (Some a)" and l2: "linked ns (Some a) ys None"
    using rep by (auto simp: level_rep_def)
  have lx: "linked ?ns None xs (first_or ys None)"
  proof (cases xs rule: rev_cases)
    case (snoc xs' p)
    have "linked ?ns None xs' (Some p) = linked ns None xs' (Some p)"
      using d snoc by (intro linked_cong) (auto simp: removed_nodes_def last_or_def first_or_def split: list.splits)
    then show ?thesis using l1 d snoc
      by (auto simp: removed_nodes_def first_or_def split: list.splits)
  qed simp
  have lastx: "xs \<noteq> [] \<Longrightarrow> last xs \<notin> set ys"
    using d by (meson disjoint_iff last_in_set)
  have ly: "linked ?ns (last_or xs None) ys None"
  proof (cases ys)
    case (Cons q ys')
    have "linked ?ns (Some q) ys' None = linked ns (Some q) ys' None"
      using d lastx Cons by (intro linked_cong) (auto simp: removed_nodes_def last_or_def split: if_splits)
    then show ?thesis using l2 d Cons
      by (auto simp: removed_nodes_def last_or_def split: if_splits)
  qed simp
  show ?thesis
    using rep lx ly d
    by (auto simp: level_rep_def removed_level_def removed_level_of)
qed

subsection \<open>The contract of a FIFO level\<close>

text \<open>
  What the matching loops and cancellation rely on: orders leave in the order of arrival,
  whatever is cancelled in between.
\<close>

locale fifo_level =
  fixes elems :: "'s \<Rightarrow> 'e list"
    and wf :: "'s \<Rightarrow> bool"
    and new_elem :: "'s \<Rightarrow> 'e \<Rightarrow> bool"
    and push :: "'s \<Rightarrow> 'e \<Rightarrow> 's"
    and front :: "'s \<Rightarrow> 'e option"
    and unlink :: "'s \<Rightarrow> 'e \<Rightarrow> 's"
  assumes push_wf: "wf s \<Longrightarrow> new_elem s x \<Longrightarrow> wf (push s x)"
    and push_elems: "wf s \<Longrightarrow> new_elem s x \<Longrightarrow> elems (push s x) = elems s @ [x]"
    and front_elems: "wf s \<Longrightarrow> front s = first_or (elems s) None"
    and unlink_wf: "wf s \<Longrightarrow> x \<in> set (elems s) \<Longrightarrow> wf (unlink s x)"
    and unlink_elems: "wf s \<Longrightarrow> x \<in> set (elems s) \<Longrightarrow> elems (unlink s x) = remove1 x (elems s)"
begin

text \<open>A later arrival never changes who is served next.\<close>

lemma front_push: "wf s \<Longrightarrow> new_elem s x \<Longrightarrow> elems s \<noteq> [] \<Longrightarrow> front (push s x) = front s"
  by (cases "elems s") (simp_all add: front_elems push_wf push_elems)

lemma front_in: "wf s \<Longrightarrow> front s = Some x \<Longrightarrow> x \<in> set (elems s)"
  by (cases "elems s") (simp_all add: front_elems)

text \<open>Cancelling another order does not change who is served next.\<close>

lemma front_unlink_other:
  "wf s \<Longrightarrow> x \<in> set (elems s) \<Longrightarrow> front s \<noteq> Some x \<Longrightarrow> front (unlink s x) = front s"
  by (cases "elems s") (auto simp: front_elems unlink_wf unlink_elems)

fun serve :: "nat \<Rightarrow> 's \<Rightarrow> 'e list" where
  "serve 0 s = []"
| "serve (Suc k) s = (case front s of None \<Rightarrow> [] | Some x \<Rightarrow> x # serve k (unlink s x))"

text \<open>Serving from the front returns the elements in arrival order.\<close>

lemma serve_fifo: "wf s \<Longrightarrow> serve (length (elems s)) s = elems s"
proof (induction "elems s" arbitrary: s)
  case Nil
  then show ?case by simp
next
  case (Cons x xs)
  have fx: "front s = Some x" and inx: "x \<in> set (elems s)"
    using Cons by (simp_all add: front_elems flip: Cons.hyps(2))
  have xs: "elems (unlink s x) = xs"
    using Cons inx by (simp add: unlink_elems flip: Cons.hyps(2))
  have "serve (length xs) (unlink s x) = xs"
    using Cons.hyps(1) [of "unlink s x"] xs unlink_wf [OF Cons.prems inx] by simp
  then show ?case using fx by (simp flip: Cons.hyps(2))
qed

end

definition level_wf :: "nat \<Rightarrow> heap \<Rightarrow> bool" where
  "level_wf l s \<longleftrightarrow> level_rep (nodes s) l (levels s l) (level_addrs s l)"

lemma remove_mid: "distinct (xs @ a # ys) \<Longrightarrow> remove1 a (xs @ a # ys) = xs @ ys"
  by (induction xs) auto

lemma append_level_wf:
  assumes "level_wf l s" "a \<notin> set (level_addrs s l)" "appendable (levels s l) (nodes s a)"
  shows "level_rep (nodes (snd (append_level l (Some a) s))) l (levels (snd (append_level l (Some a) s)) l)
     (level_addrs s l @ [a])"
  using append_level_eq [OF assms(1) [unfolded level_wf_def] assms(2,3)]
    appended_rep [OF assms(1) [unfolded level_wf_def] assms(2,3)] by simp

lemma remove_level_wf:
  assumes "level_wf l s" "a \<in> set (level_addrs s l)"
  shows "level_rep (nodes (snd (remove_level l (Some a) s))) l (levels (snd (remove_level l (Some a) s)) l)
     (remove1 a (level_addrs s l))"
proof -
  obtain xs ys where as: "level_addrs s l = xs @ a # ys" using assms(2) by (meson split_list)
  have rep: "level_rep (nodes s) l (levels s l) (xs @ a # ys)" using assms(1) as by (simp add: level_wf_def)
  then have "distinct (xs @ a # ys)" by (simp add: level_rep_def)
  then show ?thesis using remove_level_eq [OF rep] removed_rep [OF rep] as by (simp add: remove_mid)
qed

interpretation level_queue: fifo_level "\<lambda>s. level_addrs s l" "level_wf l"
    "\<lambda>s a. a \<notin> set (level_addrs s l) \<and> appendable (levels s l) (nodes s a)"
    "\<lambda>s a. snd (append_level l (Some a) s)"
    "\<lambda>s. pl_head (levels s l)"
    "\<lambda>s a. snd (remove_level l (Some a) s)" for l
proof unfold_locales
  fix s :: heap and a
  assume w: "level_wf l s"
  then show "pl_head (levels s l) = first_or (level_addrs s l) None"
    by (simp add: level_wf_def level_rep_def)
  assume "a \<notin> set (level_addrs s l) \<and> appendable (levels s l) (nodes s a)"
  then have "level_rep (nodes (snd (append_level l (Some a) s))) l
      (levels (snd (append_level l (Some a) s)) l) (level_addrs s l @ [a])"
    using append_level_wf [OF w] by blast
  from this level_addrs_rep [OF this]
  show "level_wf l (snd (append_level l (Some a) s))"
    and "level_addrs (snd (append_level l (Some a) s)) l = level_addrs s l @ [a]"
    by (simp_all only: level_wf_def)
next
  fix s :: heap and a
  assume "level_wf l s" "a \<in> set (level_addrs s l)"
  from remove_level_wf [OF this] level_addrs_rep [OF remove_level_wf [OF this]]
  show "level_wf l (snd (remove_level l (Some a) s))"
    and "level_addrs (snd (remove_level l (Some a) s)) l = remove1 a (level_addrs s l)"
    by (simp_all only: level_wf_def)
qed

end
