(* ===== verification/DomainEvent.thy ===== *)
theory DomainEvent
  imports OrderNode
begin

text \<open>
  \<^verbatim>\<open>src/engine/DomainEvent.js\<close>: the events the engine emits.  An event is the
  JavaScript object the code builds, a property list; each function reads the properties of
  the snapshot it is given, so a property the snapshot lacks is \<^verbatim>\<open>undefined\<close> in the
  event, as in the program.  The \<^verbatim>\<open>Date.now()\<close> of two of them is the argument
  \<open>now\<close>.
\<close>

record Trade =
  tr_symbol :: string
  tr_priceTicks :: "int option"
  tr_quantity :: int
  tr_buyOrderId :: string
  tr_sellOrderId :: string
  tr_aggressorSide :: Side
  tr_timestamp :: int

definition trade_obj :: "Trade \<Rightarrow> jsobj" where
  "trade_obj t =
    [(''symbol'', JStr (tr_symbol t)),
     (''priceTicks'', price_val (tr_priceTicks t)),
     (''quantity'', JInt (tr_quantity t)),
     (''buyOrderId'', JStr (tr_buyOrderId t)),
     (''sellOrderId'', JStr (tr_sellOrderId t)),
     (''aggressorSide'', side_val (tr_aggressorSide t)),
     (''timestamp'', JInt (tr_timestamp t))]"

subsection \<open>Event constructors\<close>

definition createOrderAcceptedEvent :: "jsobj \<Rightarrow> jsobj" where
  "createOrderAcceptedEvent order =
    [(''type'', JStr ''ORDER_ACCEPTED''),
     (''symbol'', getp order ''symbol''),
     (''orderId'', getp order ''orderId''),
     (''userId'', getp order ''userId''),
     (''side'', getp order ''side''),
     (''orderType'', getp order ''type''),
     (''priceTicks'', getp order ''priceTicks''),
     (''quantity'', getp order ''quantity''),
     (''remainingQuantity'', getp order ''remainingQuantity''),
     (''timestamp'', getp order ''timestamp'')]"

definition createOrderRestedEvent :: "jsobj \<Rightarrow> jsobj" where
  "createOrderRestedEvent order =
    [(''type'', JStr ''ORDER_RESTED''),
     (''symbol'', getp order ''symbol''),
     (''orderId'', getp order ''orderId''),
     (''userId'', getp order ''userId''),
     (''side'', getp order ''side''),
     (''orderType'', getp order ''type''),
     (''priceTicks'', getp order ''priceTicks''),
     (''remainingQuantity'', getp order ''remainingQuantity''),
     (''timestamp'', getp order ''timestamp'')]"

definition createOrderCancelledEvent :: "jsobj \<Rightarrow> jsobj" where
  "createOrderCancelledEvent order =
    [(''type'', JStr ''ORDER_CANCELLED''),
     (''symbol'', getp order ''symbol''),
     (''orderId'', getp order ''orderId''),
     (''userId'', getp order ''userId''),
     (''side'', getp order ''side''),
     (''orderType'', getp order ''type''),
     (''priceTicks'', getp order ''priceTicks''),
     (''remainingQuantity'', getp order ''remainingQuantity''),
     (''status'', getp order ''status''),
     (''timestamp'', getp order ''timestamp'')]"

definition createOrderFillEvent :: "jsobj \<Rightarrow> jsobj" where
  "createOrderFillEvent order =
    (let eventType = (if getp order ''remainingQuantity'' = JNum 0 then ''ORDER_FILLED''
                      else ''ORDER_PARTIALLY_FILLED'')
     in [(''type'', JStr eventType),
         (''symbol'', getp order ''symbol''),
         (''orderId'', getp order ''orderId''),
         (''userId'', getp order ''userId''),
         (''side'', getp order ''side''),
         (''orderType'', getp order ''type''),
         (''priceTicks'', getp order ''priceTicks''),
         (''quantity'', getp order ''quantity''),
         (''remainingQuantity'', getp order ''remainingQuantity''),
         (''status'', getp order ''status''),
         (''timestamp'', getp order ''timestamp'')])"

definition createTradeCreatedEvent :: "Trade \<Rightarrow> jsobj" where
  "createTradeCreatedEvent trade =
    (let t = trade_obj trade in
    [(''type'', JStr ''TRADE_CREATED''),
     (''symbol'', getp t ''symbol''),
     (''priceTicks'', getp t ''priceTicks''),
     (''quantity'', getp t ''quantity''),
     (''buyOrderId'', getp t ''buyOrderId''),
     (''sellOrderId'', getp t ''sellOrderId''),
     (''aggressorSide'', getp t ''aggressorSide''),
     (''timestamp'', getp t ''timestamp'')])"

definition createTradeCreatedEvents :: "Trade list \<Rightarrow> jsobj list" where
  "createTradeCreatedEvents trades = map createTradeCreatedEvent trades"

definition createStopOrderAcceptedEvent :: "jsobj \<Rightarrow> jsobj" where
  "createStopOrderAcceptedEvent order =
    [(''type'', JStr ''STOP_ORDER_ACCEPTED''),
     (''symbol'', getp order ''symbol''),
     (''orderId'', getp order ''orderId''),
     (''userId'', getp order ''userId''),
     (''side'', getp order ''side''),
     (''orderType'', getp order ''type''),
     (''triggerPriceTicks'', getp order ''triggerPriceTicks''),
     (''priceTicks'', getp order ''priceTicks''),
     (''trailingAmountTicks'', coalesce (getp order ''trailingAmountTicks'') JNull),
     (''peakPriceTicks'', coalesce (getp order ''peakPriceTicks'') JNull),
     (''valleyPriceTicks'', coalesce (getp order ''valleyPriceTicks'') JNull),
     (''quantity'', getp order ''quantity''),
     (''remainingQuantity'', getp order ''remainingQuantity''),
     (''status'', getp order ''status''),
     (''timestamp'', getp order ''timestamp'')]"

definition createStopOrderTriggeredEvent :: "jsobj \<Rightarrow> jsobj" where
  "createStopOrderTriggeredEvent order =
    [(''type'', JStr ''STOP_ORDER_TRIGGERED''),
     (''symbol'', getp order ''symbol''),
     (''orderId'', getp order ''orderId''),
     (''userId'', getp order ''userId''),
     (''side'', getp order ''side''),
     (''orderType'', getp order ''type''),
     (''triggerPriceTicks'', getp order ''triggerPriceTicks''),
     (''priceTicks'', getp order ''priceTicks''),
     (''trailingAmountTicks'', coalesce (getp order ''trailingAmountTicks'') JNull),
     (''peakPriceTicks'', coalesce (getp order ''peakPriceTicks'') JNull),
     (''valleyPriceTicks'', coalesce (getp order ''valleyPriceTicks'') JNull),
     (''quantity'', getp order ''quantity''),
     (''remainingQuantity'', getp order ''remainingQuantity''),
     (''status'', getp order ''status''),
     (''timestamp'', getp order ''timestamp'')]"

definition createBookUpdatedEvent :: "jsobj \<Rightarrow> nat \<Rightarrow> jsobj" where
  "createBookUpdatedEvent snapshot now =
    [(''type'', JStr ''BOOK_UPDATED''),
     (''snapshot'', JObj snapshot),
     (''timestamp'', JInt (int now))]"

definition createOrderRejectedEvent :: "jsobj \<Rightarrow> nat \<Rightarrow> jsobj" where
  "createOrderRejectedEvent a now =
    [(''type'', JStr ''ORDER_REJECTED''),
     (''symbol'', getp a ''symbol''),
     (''commandId'', getp a ''commandId''),
     (''orderId'', getp a ''orderId''),
     (''commandType'', getp a ''commandType''),
     (''reason'', getp a ''reason''),
     (''timestamp'', JInt (int now))]"

subsection \<open>What the events carry\<close>

text \<open>
  The events read \<^verbatim>\<open>order.quantity\<close>; an order's snapshot has
  \<^verbatim>\<open>initialQuantity\<close> and no \<^verbatim>\<open>quantity\<close>.
\<close>

lemma accepted_quantity_undefined:
  "getp (createOrderAcceptedEvent (node_snapshot n)) ''quantity'' = JUndef"
  by (simp add: createOrderAcceptedEvent_def snapshot_props)

lemma fill_event_quantity_undefined:
  "getp (createOrderFillEvent (node_snapshot n)) ''quantity'' = JUndef"
  by (simp add: createOrderFillEvent_def snapshot_props Let_def)

lemma fill_event_type:
  "getp (createOrderFillEvent (node_snapshot n)) ''type'' =
     (if on_remainingQuantity n = 0 then JStr ''ORDER_FILLED'' else JStr ''ORDER_PARTIALLY_FILLED'')"
  by (simp add: createOrderFillEvent_def snapshot_props Let_def)

end
