(* ===== verification/BookState.thy ===== *)
theory BookState
  imports PriceLevel DomainEvent
begin

text \<open>
  The state of \<^verbatim>\<open>src/engine/OrderBook.js\<close> and its small methods: the constructor, the
  sequence counter and the stamping of events, the best prices, resting an order, the stop
  order snapshot and the book snapshot.  The record extends the heap of \<open>PriceLevel\<close>: a
  price map holds references to levels and \<^verbatim>\<open>ordersById\<close> references to orders, so the
  same order object is reached from both.  A stop order is reached from
  \<^verbatim>\<open>stopOrdersById\<close> only and is kept by value, as the object the code builds.
  \<open>ob_clock\<close> gives the successive values of \<^verbatim>\<open>Date.now()\<close>, \<open>ob_ticks\<close> counts its calls.
\<close>

record OrderBook = heap +
  ob_symbol :: string
  ob_bids :: "(int, nat) jsmap"
  ob_asks :: "(int, nat) jsmap"
  ob_ordersById :: "(string, nat) jsmap"
  ob_stopOrdersById :: "(jsval, jsobj) jsmap"
  ob_trades :: "Trade list"
  ob_lastTradePriceTicks :: "int option"
  ob_sequence :: int
  ob_clock :: "nat \<Rightarrow> nat"
  ob_ticks :: nat

type_synonym 'r bprog = "(OrderBook, js_error, 'r) prog"

definition new_OrderBook :: "(nat \<Rightarrow> nat) \<Rightarrow> jsval \<Rightarrow> OrderBook res" where
  "new_OrderBook clock symbol =
    (if \<not> nonEmptyString symbol then Inl (NotNonEmptyString ''symbol'')
     else Inr \<lparr> nodes = (\<lambda>_. no_node), levels = (\<lambda>_. no_level), nextRef = 0,
       ob_symbol = str_of symbol, ob_bids = [], ob_asks = [], ob_ordersById = [],
       ob_stopOrdersById = [], ob_trades = [], ob_lastTradePriceTicks = None, ob_sequence = 0,
       ob_clock = clock, ob_ticks = 0 \<rparr>)"

definition date_now :: "nat bprog" where
  "date_now = (\<lambda>s. (Inr (ob_clock s (ob_ticks s)), s\<lparr>ob_ticks := Suc (ob_ticks s)\<rparr>))"

subsection \<open>Sequence numbers\<close>

definition nextSequence :: "int bprog" where
  "nextSequence = (\<lambda>s. (Inr (ob_sequence s + 1), s\<lparr>ob_sequence := ob_sequence s + 1\<rparr>))"

definition stamp_event :: "string \<Rightarrow> int \<Rightarrow> jsobj \<Rightarrow> jsobj" where
  "stamp_event symbol sequence event =
    (if getp event ''type'' = JStr ''BOOK_UPDATED'' \<and> truthy (getp event ''snapshot'')
     then spread event
       [(''symbol'', coalesce (getp event ''symbol'') (JStr symbol)),
        (''sequence'', JInt sequence),
        (''snapshot'', JObj (spread (props (getp event ''snapshot'')) [(''sequence'', JInt sequence)]))]
     else spread event
       [(''symbol'', coalesce (getp event ''symbol'') (JStr symbol)),
        (''sequence'', JInt sequence)])"

fun stampEvents :: "jsobj list \<Rightarrow> jsobj list bprog" where
  "stampEvents [] = ret []"
| "stampEvents (event # events) =
     bindE nextSequence (\<lambda>sequence.
     bindE (gets (\<lambda>s. stamp_event (ob_symbol s) sequence event)) (\<lambda>e.
     bindE (stampEvents events) (\<lambda>es. ret (e # es))))"

subsection \<open>Best prices and identifiers\<close>

definition getBestBidPriceTicks :: "OrderBook \<Rightarrow> int option" where
  "getBestBidPriceTicks s = (if ob_bids s = [] then None else Some (Max (set (map_keys (ob_bids s)))))"

definition getBestAskPriceTicks :: "OrderBook \<Rightarrow> int option" where
  "getBestAskPriceTicks s = (if ob_asks s = [] then None else Some (Min (set (map_keys (ob_asks s)))))"

text \<open>\<^verbatim>\<open>ordersById\<close> has string keys (validated); a key of another type finds nothing.\<close>

definition orders_get :: "OrderBook \<Rightarrow> jsval \<Rightarrow> nat option" where
  "orders_get s v = (case v of JStr i \<Rightarrow> map_get (ob_ordersById s) i | _ \<Rightarrow> None)"

definition assertOrderIdAvailable :: "jsval \<Rightarrow> unit bprog" where
  "assertOrderIdAvailable orderId = (\<lambda>s.
     if orders_get s orderId \<noteq> None \<or> map_has (ob_stopOrdersById s) orderId
     then (Inl (OrderAlreadyExists orderId), s) else (Inr (), s))"

subsection \<open>Resting an order\<close>

definition side_map :: "Side \<Rightarrow> OrderBook \<Rightarrow> (int, nat) jsmap" where
  "side_map sd s = (case sd of BUY \<Rightarrow> ob_bids s | SELL \<Rightarrow> ob_asks s)"

definition upd_side :: "Side \<Rightarrow> ((int, nat) jsmap \<Rightarrow> (int, nat) jsmap) \<Rightarrow> OrderBook \<Rightarrow> OrderBook" where
  "upd_side sd f s = (case sd of BUY \<Rightarrow> s\<lparr>ob_bids := f (ob_bids s)\<rparr> | SELL \<Rightarrow> s\<lparr>ob_asks := f (ob_asks s)\<rparr>)"

definition addRestingOrder :: "nat \<Rightarrow> unit bprog" where
  "addRestingOrder order =
     bindE (gets (\<lambda>s. nodes s order)) (\<lambda>n.
     bindE (assertE (isLimitOrder n) OnlyLimitCanRest) (\<lambda>_.
     bindE (gets (side_map (on_side n))) (\<lambda>bookSide.
     bindE (case (case on_priceTicks n of None \<Rightarrow> None | Some p \<Rightarrow> map_get bookSide p) of
              Some l \<Rightarrow> ret l
            | None \<Rightarrow>
               bindE (liftE (new_PriceLevel (price_val (on_priceTicks n)))) (\<lambda>lv.
               bindE (alloc_level lv) (\<lambda>l.
               bindE (modify (upd_side (on_side n) (\<lambda>m. map_set m (pl_priceTicks lv) l))) (\<lambda>_. ret l)))) (\<lambda>priceLevel.
     append_level priceLevel (Some order)))))"

subsection \<open>Snapshots\<close>

definition getStopOrderSnapshot :: "jsobj \<Rightarrow> jsobj" where
  "getStopOrderSnapshot order =
    [(''orderId'', getp order ''orderId''),
     (''userId'', getp order ''userId''),
     (''symbol'', getp order ''symbol''),
     (''side'', getp order ''side''),
     (''type'', getp order ''type''),
     (''triggerPriceTicks'', getp order ''triggerPriceTicks''),
     (''priceTicks'', getp order ''priceTicks''),
     (''trailingAmountTicks'', coalesce (getp order ''trailingAmountTicks'') JNull),
     (''peakPriceTicks'', coalesce (getp order ''peakPriceTicks'') JNull),
     (''valleyPriceTicks'', coalesce (getp order ''valleyPriceTicks'') JNull),
     (''quantity'', getp order ''quantity''),
     (''remainingQuantity'', getp order ''remainingQuantity''),
     (''status'', getp order ''status''),
     (''timestamp'', getp order ''timestamp'')]"

text \<open>Price priority: a smaller rank is served first (high bids, low asks).\<close>

definition rank :: "Side \<Rightarrow> int \<Rightarrow> int" where
  "rank sd p = (case sd of BUY \<Rightarrow> - p | SELL \<Rightarrow> p)"

definition getBookSideSnapshot :: "OrderBook \<Rightarrow> (int, nat) jsmap \<Rightarrow> Side \<Rightarrow> jsobj list" where
  "getBookSideSnapshot s bookSide side =
     sort_key (\<lambda>lv. rank side (int_of (getp lv ''priceTicks'')))
       (map (level_snapshot s) (map_values bookSide))"

definition snapshot :: "OrderBook \<Rightarrow> jsobj" where
  "snapshot s =
    [(''symbol'', JStr (ob_symbol s)),
     (''sequence'', JInt (ob_sequence s)),
     (''bestBidPriceTicks'', price_val (getBestBidPriceTicks s)),
     (''bestAskPriceTicks'', price_val (getBestAskPriceTicks s)),
     (''lastTradePriceTicks'', price_val (ob_lastTradePriceTicks s)),
     (''stopOrders'', JArr (map (\<lambda>so. JObj (getStopOrderSnapshot so)) (map_values (ob_stopOrdersById s)))),
     (''bids'', JArr (map JObj (getBookSideSnapshot s (ob_bids s) BUY))),
     (''asks'', JArr (map JObj (getBookSideSnapshot s (ob_asks s) SELL)))]"

definition book_updated :: "jsobj bprog" where
  "book_updated = bindE (gets snapshot) (\<lambda>snap. bindE date_now (\<lambda>now. ret (createBookUpdatedEvent snap now)))"

subsection \<open>Stamped events\<close>

definition seq_of :: "jsobj \<Rightarrow> jsval" where
  "seq_of e = getp e ''sequence''"

lemma nextSequence_apply [simp, prog_simps]:
  "nextSequence s = (Inr (ob_sequence s + 1), s\<lparr>ob_sequence := ob_sequence s + 1\<rparr>)"
  by (simp add: nextSequence_def)

lemma date_now_apply [simp, prog_simps]:
  "date_now s = (Inr (ob_clock s (ob_ticks s)), s\<lparr>ob_ticks := Suc (ob_ticks s)\<rparr>)"
  by (simp add: date_now_def)

lemma book_updated_apply [simp, prog_simps]:
  "book_updated s = (Inr (createBookUpdatedEvent (snapshot s) (ob_clock s (ob_ticks s))),
     s\<lparr>ob_ticks := Suc (ob_ticks s)\<rparr>)"
  by (simp add: book_updated_def bindE_def)

definition stamped :: "string \<Rightarrow> int \<Rightarrow> jsobj list \<Rightarrow> jsobj list" where
  "stamped symb q es = map (\<lambda>(i, e). stamp_event symb (q + 1 + int i) e) (enumerate 0 es)"

lemma enumerate_Suc: "enumerate (Suc n) xs = map (\<lambda>(i, x). (Suc i, x)) (enumerate n xs)"
  by (induction xs arbitrary: n) auto

lemma stamped_simps [simp]:
  "stamped symb q [] = []"
  "stamped symb q (e # es) = stamp_event symb (q + 1) e # stamped symb (q + 1) es"
  by (auto simp: stamped_def enumerate_Suc algebra_simps)

lemma stampEvents_apply [simp, prog_simps]:
  "stampEvents es s = (Inr (stamped (ob_symbol s) (ob_sequence s) es),
     s\<lparr>ob_sequence := ob_sequence s + int (length es)\<rparr>)"
  by (induction es arbitrary: s) (simp_all add: bindE_def algebra_simps)

lemma stamp_event_seq [simp]: "seq_of (stamp_event symb q e) = JInt q"
  by (simp add: seq_of_def stamp_event_def)

lemma stamp_event_symbol:
  "getp (stamp_event symb q e) ''symbol'' = coalesce (getp e ''symbol'') (JStr symb)"
  by (simp add: stamp_event_def)

lemma length_stamped [simp]: "length (stamped symb q es) = length es"
  by (induction es arbitrary: q) auto

lemma stamped_seqs: "map seq_of (stamped symb q es) = map (\<lambda>i. JInt (q + 1 + int i)) [0..<length es]"
proof (induction es arbitrary: q)
  case (Cons e es)
  have "[0..<Suc (length es)] = 0 # map Suc [0..<length es]"
    by (simp add: upt_conv_Cons map_Suc_upt del: upt_Suc)
  then show ?case using Cons by (simp add: algebra_simps del: upt_Suc)
qed simp

end
