(* ===== verification/MatchSpec.thy ===== *)
theory MatchSpec
  imports OrderNode
begin

text \<open>
  What the matching engine promises, stated on lists: one side of a book is the list of its
  resting orders in price-time priority, an incoming order consumes it from the front while
  the price is acceptable, a new resting order is inserted behind every order that is at
  least as good, a cancelled order is deleted.  The locale \<open>price_priority\<close> states what a
  price order and an acceptance test must satisfy for the promises that need sortedness; it
  is interpreted for limit buys, limit sells and market orders.
\<close>

definition price_of :: "OrderNode \<Rightarrow> int" where
  "price_of n = (case on_priceTicks n of Some p \<Rightarrow> p | None \<Rightarrow> 0)"

abbreviation rem :: "OrderNode \<Rightarrow> int" where
  "rem \<equiv> on_remainingQuantity"

fun spec_match :: "(int \<Rightarrow> bool) \<Rightarrow> int \<Rightarrow> OrderNode list \<Rightarrow> (OrderNode \<times> int) list \<times> OrderNode list \<times> int" where
  "spec_match ok q [] = ([], [], q)"
| "spec_match ok q (r # rs) =
     (if q \<le> 0 \<or> \<not> ok (price_of r) then ([], r # rs, q)
      else if q < rem r then ([(r, q)], filled_by q r # rs, 0)
      else (case spec_match ok (q - rem r) rs of (fs, rs', q') \<Rightarrow> ((r, rem r) # fs, rs', q')))"

definition spec_insert :: "(int \<Rightarrow> int) \<Rightarrow> OrderNode \<Rightarrow> OrderNode list \<Rightarrow> OrderNode list" where
  "spec_insert rnk n rs = takeWhile (\<lambda>r. rnk (price_of r) \<le> rnk (price_of n)) rs @ n #
     dropWhile (\<lambda>r. rnk (price_of r) \<le> rnk (price_of n)) rs"

definition spec_cancel :: "string \<Rightarrow> OrderNode list \<Rightarrow> OrderNode list" where
  "spec_cancel i rs = filter (\<lambda>r. on_orderId r \<noteq> i) rs"

abbreviation live :: "OrderNode list \<Rightarrow> bool" where
  "live rs \<equiv> \<forall>r \<in> set rs. 0 < rem r"

abbreviation fill_sum :: "(OrderNode \<times> int) list \<Rightarrow> int" where
  "fill_sum fs \<equiv> sum_list (map snd fs)"

abbreviation rem_sum :: "OrderNode list \<Rightarrow> int" where
  "rem_sum rs \<equiv> sum_list (map rem rs)"

lemma price_of_filled_by [simp]: "price_of (filled_by q r) = price_of r"
  by (simp add: price_of_def)

lemma price_of_core [simp]: "price_of (core r) = price_of r"
  by (simp add: price_of_def)

subsection \<open>Facts about the specification\<close>

lemma spec_match_done: "q \<le> 0 \<Longrightarrow> spec_match ok q rs = ([], rs, q)"
  by (cases rs) auto

lemma spec_match_conserves:
  "spec_match ok q rs = (fs, rs', q') \<Longrightarrow> q = q' + fill_sum fs \<and> rem_sum rs = rem_sum rs' + fill_sum fs"
  by (induction ok q rs arbitrary: fs rs' q' rule: spec_match.induct) (auto split: if_splits prod.splits)

lemma spec_match_nonneg:
  "spec_match ok q rs = (fs, rs', q') \<Longrightarrow> 0 \<le> q \<Longrightarrow> live rs \<Longrightarrow> 0 \<le> q' \<and> live rs'"
  by (induction ok q rs arbitrary: fs rs' q' rule: spec_match.induct) (auto split: if_splits prod.splits)

lemma spec_match_fills_pos:
  "spec_match ok q rs = (fs, rs', q') \<Longrightarrow> live rs \<Longrightarrow> (r, k) \<in> set fs \<Longrightarrow> 0 < k \<and> k \<le> rem r \<and> r \<in> set rs \<and> ok (price_of r)"
  by (induction ok q rs arbitrary: fs rs' q' rule: spec_match.induct) (fastforce split: if_splits prod.splits)+

lemma spec_match_le: "spec_match ok q rs = (fs, rs', q') \<Longrightarrow> live rs \<Longrightarrow> q' \<le> q"
  by (induction ok q rs arbitrary: fs rs' q' rule: spec_match.induct) (fastforce split: if_splits prod.splits)+

text \<open>The orders served are a prefix of the priority list.\<close>

lemma spec_match_prefix:
  "spec_match ok q rs = (fs, rs', q') \<Longrightarrow> map fst fs = take (length fs) rs"
  by (induction ok q rs arbitrary: fs rs' q' rule: spec_match.induct) (auto split: if_splits prod.splits)

text \<open>All served orders but the last are served in full.\<close>

lemma spec_match_all_but_last_full:
  "spec_match ok q rs = (fs, rs', q') \<Longrightarrow> Suc i < length fs \<Longrightarrow> snd (fs ! i) = rem (fst (fs ! i))"
proof (induction ok q rs arbitrary: fs rs' q' i rule: spec_match.induct)
  case (2 ok q r rs)
  then show ?case by (cases i) (auto split: if_splits prod.splits)
qed simp

text \<open>What is left: a suffix of the list, its first order possibly reduced.\<close>

lemma spec_match_rest:
  "spec_match ok q rs = (fs, rs', q') \<Longrightarrow> live rs \<Longrightarrow>
     rs' = drop (length fs) rs \<or>
     (\<exists>r k. fs \<noteq> [] \<and> last fs = (r, k) \<and> k < rem r \<and> rs' = filled_by k r # drop (length fs) rs \<and> q' = 0)"
proof (induction ok q rs arbitrary: fs rs' q' rule: spec_match.induct)
  case (2 ok q r rs)
  show ?case
  proof (cases "q \<le> 0 \<or> \<not> ok (price_of r) \<or> q < rem r")
    case True
    then show ?thesis using "2.prems" by (auto split: if_splits)
  next
    case False
    obtain fs1 rs1 q1 where m: "spec_match ok (q - rem r) rs = (fs1, rs1, q1)" by (metis prod_cases3)
    with False "2.prems" have eq: "fs = (r, rem r) # fs1" "rs' = rs1" "q' = q1" by auto
    have "live rs" using "2.prems" by simp
    with "2.IH" [OF _ _ m] False eq show ?thesis by auto
  qed
qed simp

text \<open>Matching stops only when the order is filled, the side is empty or the price is refused.\<close>

lemma spec_match_stops:
  "spec_match ok q rs = (fs, rs', q') \<Longrightarrow> 0 < q' \<Longrightarrow> rs' = [] \<or> \<not> ok (price_of (hd rs'))"
  by (induction ok q rs arbitrary: fs rs' q' rule: spec_match.induct) (auto split: if_splits prod.splits)

lemma spec_match_prices:
  "spec_match ok q rs = (fs, rs', q') \<Longrightarrow> live rs \<Longrightarrow> set (map price_of rs') \<subseteq> set (map price_of rs)"
  by (induction ok q rs arbitrary: fs rs' q' rule: spec_match.induct) (auto split: if_splits prod.splits)

lemma spec_match_sorted:
  "spec_match ok q rs = (fs, rs', q') \<Longrightarrow> sorted (map (\<lambda>r. rnk (price_of r)) rs) \<Longrightarrow>
     sorted (map (\<lambda>r. rnk (price_of r)) rs')"
  for rnk :: "int \<Rightarrow> int"
  by (induction ok q rs arbitrary: fs rs' q' rule: spec_match.induct) (auto split: if_splits prod.splits)

lemma sorted_takeWhile_le:
  "sorted (map f xs) \<Longrightarrow> x \<in> set (dropWhile (\<lambda>y. f y \<le> (k :: int)) xs) \<Longrightarrow> k < f x"
  by (induction xs) (auto split: if_splits)

lemma set_takeWhile_dropWhile: "set (takeWhile P xs) \<union> set (dropWhile P xs) = set xs"
  by (metis set_append takeWhile_dropWhile_id)

lemma spec_insert_set: "set (spec_insert rnk n rs) = insert n (set rs)"
  unfolding spec_insert_def
  using set_takeWhile_dropWhile [of "\<lambda>r. rnk (price_of r) \<le> rnk (price_of n)" rs] by auto

text \<open>
  Time priority: a new order stands behind every resting order of the same or a better
  price and before every worse one; the order of the others is unchanged.
\<close>

lemma spec_insert_position:
  assumes "sorted (map (\<lambda>r. rnk (price_of r)) rs)"
  shows "\<exists>xs ys. rs = xs @ ys \<and> spec_insert rnk n rs = xs @ n # ys \<and>
     (\<forall>r \<in> set xs. rnk (price_of r) \<le> rnk (price_of n)) \<and> (\<forall>r \<in> set ys. rnk (price_of n) < rnk (price_of r))"
proof -
  let ?P = "\<lambda>r. rnk (price_of r) \<le> rnk (price_of n)"
  have "\<forall>r \<in> set (takeWhile ?P rs). ?P r" by (auto dest: set_takeWhileD)
  moreover have "\<forall>r \<in> set (dropWhile ?P rs). rnk (price_of n) < rnk (price_of r)"
    using sorted_takeWhile_le [OF assms] by blast
  ultimately show ?thesis unfolding spec_insert_def by (metis takeWhile_dropWhile_id)
qed

lemma spec_insert_sorted:
  assumes "sorted (map (\<lambda>r. rnk (price_of r)) rs)"
  shows "sorted (map (\<lambda>r. rnk (price_of r)) (spec_insert rnk n rs))"
proof -
  obtain xs ys where eq: "rs = xs @ ys" "spec_insert rnk n rs = xs @ n # ys"
    and le: "\<forall>r \<in> set xs. rnk (price_of r) \<le> rnk (price_of n)"
    and gt: "\<forall>r \<in> set ys. rnk (price_of n) < rnk (price_of r)"
    using spec_insert_position [OF assms] by blast
  have "\<forall>x \<in> set xs. \<forall>y \<in> set ys. rnk (price_of x) \<le> rnk (price_of y)"
    using le gt by (meson less_imp_le order_trans)
  then have "sorted (map (\<lambda>r. rnk (price_of r)) (xs @ n # ys))"
    using assms le gt by (simp add: eq(1) sorted_append less_imp_le)
  then show ?thesis by (simp only: eq(2))
qed

subsection \<open>Price order and acceptance\<close>

text \<open>
  \<open>rnk\<close> orders the resting prices from best to worst and \<open>ok\<close> accepts a price; a
  price better than an accepted one is accepted.
\<close>

locale price_priority =
  fixes rnk :: "int \<Rightarrow> int" and ok :: "int \<Rightarrow> bool"
  assumes ok_better: "rnk p \<le> rnk p' \<Longrightarrow> ok p' \<Longrightarrow> ok p"
begin

text \<open>An incoming order that is not filled leaves nothing it could have traded with.\<close>

lemma match_exhausts:
  assumes m: "spec_match ok q rs = (fs, rs', q')" and left: "0 < q'"
    and srt: "sorted (map (\<lambda>r. rnk (price_of r)) rs)" and r: "r \<in> set rs'"
  shows "\<not> ok (price_of r)"
proof (cases rs')
  case Nil
  then show ?thesis using r by simp
next
  case (Cons h t)
  have "sorted (map (\<lambda>r. rnk (price_of r)) rs')" using spec_match_sorted [OF m srt] .
  then have "rnk (price_of h) \<le> rnk (price_of r)" using Cons r by auto
  moreover have "\<not> ok (price_of h)" using spec_match_stops [OF m left] Cons by simp
  ultimately show ?thesis using ok_better by blast
qed

text \<open>Nobody is passed over: an order that stays has no better rank than one that traded.\<close>

lemma match_best_first:
  assumes m: "spec_match ok q rs = (fs, rs', q')" and lv: "live rs"
    and srt: "sorted (map (\<lambda>r. rnk (price_of r)) rs)"
    and f: "(x, k) \<in> set fs" and r: "r \<in> set rs'"
  shows "rnk (price_of x) \<le> rnk (price_of r)"
proof -
  let ?f = "\<lambda>r. rnk (price_of r)"
  have s: "sorted (map ?f (take (length fs) rs @ drop (length fs) rs))" using srt by simp
  have x: "x \<in> set (take (length fs) rs)"
    using f spec_match_prefix [OF m] by (metis fst_conv image_eqI set_map)
  from spec_match_rest [OF m lv] show ?thesis
  proof (elim disjE exE conjE)
    assume "rs' = drop (length fs) rs"
    with s x r show ?thesis by (auto simp: sorted_append simp del: append_take_drop_id)
  next
    fix y j assume y: "fs \<noteq> []" "last fs = (y, j)" "rs' = filled_by j y # drop (length fs) rs"
    have lasty: "last (take (length fs) rs) = y"
      using y spec_match_prefix [OF m] by (metis fst_conv last_map)
    have "?f x \<le> ?f y"
    proof -
      have ne: "take (length fs) rs \<noteq> []" using x by auto
      then have "take (length fs) rs = butlast (take (length fs) rs) @ [y]"
        using lasty by (metis append_butlast_last_id)
      then have "sorted (map ?f (butlast (take (length fs) rs) @ [y]))"
        using s by (metis map_append sorted_append)
      moreover have "x \<in> set (butlast (take (length fs) rs)) \<or> x = y"
        using x \<open>take (length fs) rs = butlast (take (length fs) rs) @ [y]\<close>
        by (metis Un_iff empty_iff insert_iff list.set(1,2) set_append)
      ultimately show ?thesis by (auto simp: sorted_append)
    qed
    with s x r y show ?thesis by (auto simp: sorted_append simp del: append_take_drop_id)
  qed
qed

end

text \<open>The three acceptance tests of the engine: limit buy, limit sell, no limit.\<close>

interpretation limit_buy: price_priority "\<lambda>p. p" "\<lambda>p. p \<le> limit" for limit
  by unfold_locales simp

interpretation limit_sell: price_priority uminus "\<lambda>p. limit \<le> p" for limit
  by unfold_locales simp

interpretation no_limit: price_priority rnk "\<lambda>p. True" for rnk
  by unfold_locales simp

end
