(* ===== verification/BookInv.thy ===== *)
theory BookInv
  imports BookState MatchSpec
begin

text \<open>
  The representation invariant of an order book and its abstraction to two lists of resting
  orders in price-time priority (\<open>resting BUY s\<close>, \<open>resting SELL s\<close>).  The code changes
  the shared structure in three ways only: it fills an order that rests in a level, unlinks
  an order from its level (with its identifier and, when it empties, its level), and appends
  an order to a level.  For each the invariant and the effect on the two lists are proved
  here once; the matching loops, cancellation and the stop orders are built on them.
\<close>

subsection \<open>The invariant\<close>

definition live_node :: "OrderBook \<Rightarrow> OrderNode \<Rightarrow> bool" where
  "live_node s n \<longleftrightarrow> node_ok n \<and> isActive n"

definition levels_of :: "OrderBook \<Rightarrow> (Side \<times> int \<times> nat) list" where
  "levels_of s = map (Pair BUY) (ob_bids s) @ map (Pair SELL) (ob_asks s)"

definition member_ok :: "nat set \<Rightarrow> OrderBook \<Rightarrow> Side \<Rightarrow> nat \<Rightarrow> bool" where
  "member_ok X s sd a \<longleftrightarrow> a < nextRef s \<and> on_side (nodes s a) = sd \<and> on_type (nodes s a) = LIMIT \<and>
     on_symbol (nodes s a) = ob_symbol s \<and> node_static (nodes s a) \<and>
     map_get (ob_ordersById s) (on_orderId (nodes s a)) = Some a \<and>
     (a \<notin> X \<longrightarrow> live_node s (nodes s a))"

definition level_ok :: "nat set \<Rightarrow> OrderBook \<Rightarrow> Side \<times> int \<times> nat \<Rightarrow> bool" where
  "level_ok X s x = (case x of (sd, p, l) \<Rightarrow>
     level_rep (nodes s) l (levels s l) (level_addrs s l) \<and> level_addrs s l \<noteq> [] \<and>
     pl_priceTicks (levels s l) = p \<and> 0 < p \<and> l < nextRef s \<and>
     (\<forall>a \<in> set (level_addrs s l). member_ok X s sd a))"

definition indexed :: "OrderBook \<Rightarrow> string \<times> nat \<Rightarrow> bool" where
  "indexed s x = (case x of (i, a) \<Rightarrow> on_orderId (nodes s a) = i \<and>
     (\<exists>(sd, p, l) \<in> set (levels_of s). a \<in> set (level_addrs s l)))"

definition links_ok_but :: "nat set \<Rightarrow> OrderBook \<Rightarrow> bool" where
  "links_ok_but X s \<longleftrightarrow> map_wf (ob_bids s) \<and> map_wf (ob_asks s) \<and>
     distinct (map (snd \<circ> snd) (levels_of s)) \<and> list_all (level_ok X s) (levels_of s) \<and>
     map_wf (ob_ordersById s) \<and> list_all (indexed s) (ob_ordersById s)"

abbreviation links_ok :: "OrderBook \<Rightarrow> bool" where
  "links_ok s \<equiv> links_ok_but {} s"

subsection \<open>The abstraction\<close>

definition content :: "OrderBook \<Rightarrow> nat \<Rightarrow> OrderNode list" where
  "content s l = map (\<lambda>a. core (nodes s a)) (level_addrs s l)"

definition sorted_side :: "Side \<Rightarrow> OrderBook \<Rightarrow> (int \<times> nat) list" where
  "sorted_side sd s = sort_key (\<lambda>(p, l). rank sd p) (side_map sd s)"

definition resting :: "Side \<Rightarrow> OrderBook \<Rightarrow> OrderNode list" where
  "resting sd s = concat (map (\<lambda>(p, l). content s l) (sorted_side sd s))"

fun opp :: "Side \<Rightarrow> Side" where
  "opp BUY = SELL"
| "opp SELL = BUY"

lemma opp_simps [simp]: "opp (opp sd) = sd" "opp sd \<noteq> sd" "sd \<noteq> opp sd"
  by (cases sd; simp)+

lemma rank_inj [simp]: "rank sd p = rank sd q \<longleftrightarrow> p = q"
  by (cases sd) (auto simp: rank_def)

subsection \<open>Reading the invariant\<close>

lemma levels_of_iff: "(sd, p, l) \<in> set (levels_of s) \<longleftrightarrow> (p, l) \<in> set (side_map sd s)"
  by (cases sd) (auto simp: levels_of_def side_map_def)

lemma live_rem: "live_node s n \<Longrightarrow> 0 < on_remainingQuantity n"
  by (auto simp: live_node_def node_ok_def isActive_iff)

lemma side_map_wf: "links_ok_but X s \<Longrightarrow> map_wf (side_map sd s)"
  by (cases sd) (simp_all add: links_ok_but_def side_map_def)

lemma side_map_snd_distinct: "links_ok_but X s \<Longrightarrow> distinct (map snd (side_map sd s))"
  by (cases sd) (auto simp: links_ok_but_def levels_of_def side_map_def comp_def)

lemma level_okD:
  assumes "links_ok_but X s" "(p, l) \<in> set (side_map sd s)"
  shows "level_rep (nodes s) l (levels s l) (level_addrs s l)" "level_addrs s l \<noteq> []"
    "pl_priceTicks (levels s l) = p" "0 < p" "l < nextRef s"
    "\<And>a. a \<in> set (level_addrs s l) \<Longrightarrow> member_ok X s sd a"
  using assms by (auto simp: links_ok_but_def list_all_iff level_ok_def simp flip: levels_of_iff)

lemma level_member:
  assumes "links_ok_but X s" "(p, l) \<in> set (side_map sd s)" "a \<in> set (level_addrs s l)"
  shows "on_priceLevel (nodes s a) = Some l" "on_priceTicks (nodes s a) = Some p" "member_ok X s sd a"
  using level_okD [OF assms(1,2)] assms(3) by (auto simp: level_rep_def)

lemma level_unique:
  assumes "links_ok_but X s" "(p, l) \<in> set (side_map sd s)" "(p', l) \<in> set (side_map sd' s)"
  shows "sd = sd' \<and> p = p'"
proof -
  have "distinct (map (snd \<circ> snd) (levels_of s))" using assms(1) by (simp add: links_ok_but_def)
  moreover have "(sd, p, l) \<in> set (levels_of s)" "(sd', p', l) \<in> set (levels_of s)"
    using assms by (simp_all add: levels_of_iff)
  ultimately show ?thesis
    by (force simp: distinct_map dest: inj_onD [of _ _ "(sd, p, l)" "(sd', p', l)"])
qed

lemma addrs_disjoint:
  assumes "links_ok_but X s" "(p, l) \<in> set (side_map sd s)" "(p', l') \<in> set (side_map sd' s)"
    and "a \<in> set (level_addrs s l)" "a \<in> set (level_addrs s l')"
  shows "l = l'"
  using level_member(1) [OF assms(1,2,4)] level_member(1) [OF assms(1,3,5)] by simp

lemma outside_levels:
  assumes "links_ok_but X s" "(p, l) \<in> set (side_map sd s)" "on_priceLevel (nodes s a) = None"
  shows "a \<notin> set (level_addrs s l)"
  using level_member(1) [OF assms(1,2), of a] assms(3) by auto

lemma indexedD:
  assumes "links_ok_but X s" "map_get (ob_ordersById s) i = Some a"
  shows "on_orderId (nodes s a) = i \<and>
    (\<exists>sd p l. (p, l) \<in> set (side_map sd s) \<and> a \<in> set (level_addrs s l))"
  using assms by (fastforce simp: links_ok_but_def list_all_iff indexed_def levels_of_iff [symmetric]
      dest!: map_get_Some_in)

lemma sorted_side_set [simp]: "set (sorted_side sd s) = set (side_map sd s)"
  by (simp add: sorted_side_def)

lemma resting_member:
  "n \<in> set (resting sd s) \<longleftrightarrow>
     (\<exists>p l a. (p, l) \<in> set (side_map sd s) \<and> a \<in> set (level_addrs s l) \<and> n = core (nodes s a))"
  by (auto simp: resting_def content_def)

lemma resting_props:
  assumes "links_ok s" "n \<in> set (resting sd s)"
  shows "0 < on_remainingQuantity n" "on_side n = sd" "node_ok n" "isActive n" "on_type n = LIMIT"
    "\<exists>p. on_priceTicks n = Some p \<and> 0 < p" "node_static n" "on_symbol n = ob_symbol s"
proof -
  from assms(2) obtain p l a where a: "(p, l) \<in> set (side_map sd s)" "a \<in> set (level_addrs s l)"
    and n: "n = core (nodes s a)" by (auto simp: resting_member)
  have m: "member_ok {} s sd a" "on_priceTicks (nodes s a) = Some p" "0 < p"
    using level_member [OF assms(1) a] level_okD [OF assms(1) a(1)] by auto
  then show "0 < on_remainingQuantity n" "on_side n = sd" "node_ok n" "isActive n" "on_type n = LIMIT"
    "\<exists>p. on_priceTicks n = Some p \<and> 0 < p" "node_static n" "on_symbol n = ob_symbol s"
    using live_rem by (auto simp: n member_ok_def live_node_def)
qed

lemma content_price:
  assumes "links_ok_but X s" "(p, l) \<in> set (side_map sd s)" "n \<in> set (content s l)"
  shows "price_of n = p"
  using level_member(2) [OF assms(1,2)] assms(3) by (auto simp: content_def price_of_def)

text \<open>The two lists are in price order.\<close>

lemma resting_sorted:
  assumes "links_ok_but X s"
  shows "sorted (map (\<lambda>n. rank sd (price_of n)) (resting sd s))"
  unfolding resting_def
proof (rule sorted_concat_blocks [where f = "\<lambda>(p, l). rank sd p"])
  show "sorted (map (\<lambda>(p, l). rank sd p) (sorted_side sd s))"
    by (simp add: sorted_side_def)
next
  fix x y assume "x \<in> set (sorted_side sd s)" "y \<in> set (case x of (p, l) \<Rightarrow> content s l)"
  then show "rank sd (price_of y) = (case x of (p, l) \<Rightarrow> rank sd p)"
    using content_price [OF assms] by (auto split: prod.splits)
qed

lemma sorted_side_distinct:
  assumes "links_ok_but X s"
  shows "distinct (map fst (sorted_side sd s))" "distinct (map snd (sorted_side sd s))"
proof -
  have m: "mset (sorted_side sd s) = mset (side_map sd s)" by (simp add: sorted_side_def)
  show "distinct (map fst (sorted_side sd s))"
    using side_map_wf [OF assms, of sd] m by (metis mset_eq_imp_distinct_iff mset_map)
  show "distinct (map snd (sorted_side sd s))"
    using side_map_snd_distinct [OF assms, of sd] m by (metis mset_eq_imp_distinct_iff mset_map)
qed

text \<open>Equal lists from equal maps and contents.\<close>

lemma resting_cong:
  assumes "side_map sd s' = side_map sd s"
    and "\<And>p l. (p, l) \<in> set (side_map sd s) \<Longrightarrow> content s' l = content s l"
  shows "resting sd s' = resting sd s"
proof -
  have "sorted_side sd s' = sorted_side sd s" by (simp add: sorted_side_def assms(1))
  moreover have "map (\<lambda>(p, l). content s' l) (sorted_side sd s) = map (\<lambda>(p, l). content s l) (sorted_side sd s)"
    using assms(2) by (intro map_cong) auto
  ultimately show ?thesis unfolding resting_def by metis
qed

lemma addrs_cong:
  assumes "level_rep (nodes s) l (levels s l) (level_addrs s l)" "levels s' l = levels s l"
    and "\<And>a. a \<in> set (level_addrs s l) \<Longrightarrow> nodes s' a = nodes s a"
  shows "level_rep (nodes s') l (levels s' l) (level_addrs s' l) \<and> level_addrs s' l = level_addrs s l"
proof -
  have "level_rep (nodes s') l (levels s' l) (level_addrs s l)"
    using assms level_rep_cong [of "level_addrs s l" "nodes s'" "nodes s" l "levels s l"] by simp
  with level_addrs_rep [OF this] show ?thesis by simp
qed

lemma resting_ids_distinct:
  assumes "links_ok_but X s"
  shows "distinct (map on_orderId (resting sd s))"
proof -
  let ?A = "concat (map (\<lambda>(p, l). level_addrs s l) (sorted_side sd s))"
  have "distinct ?A"
  proof (rule distinct_concat_blocks)
    show "distinct (map snd (sorted_side sd s))" by (rule sorted_side_distinct [OF assms])
    show "distinct (level_addrs s l)" if "(p, l) \<in> set (sorted_side sd s)" for p l
      using level_okD(1) [OF assms] that by (auto simp: level_rep_def)
    show "set (level_addrs s l) \<inter> set (level_addrs s l') = {}"
      if "(p, l) \<in> set (sorted_side sd s)" "(p', l') \<in> set (sorted_side sd s)" "l \<noteq> l'" for p l p' l'
      using addrs_disjoint [OF assms, of p l sd p' l' sd] that by auto
  qed
  moreover have "inj_on (\<lambda>a. on_orderId (nodes s a)) (set ?A)"
  proof (rule inj_onI)
    fix a b assume "a \<in> set ?A" "b \<in> set ?A" "on_orderId (nodes s a) = on_orderId (nodes s b)"
    then show "a = b"
      using level_member(3) [OF assms] by (auto simp: member_ok_def) (metis option.inject)
  qed
  ultimately have "distinct (map (\<lambda>a. on_orderId (nodes s a)) ?A)" by (simp add: distinct_map)
  moreover have "map on_orderId (resting sd s) = map (\<lambda>a. on_orderId (nodes s a)) ?A"
    by (simp add: resting_def content_def map_concat comp_def split_def)
  ultimately show ?thesis by simp
qed

end
