(* ===== verification/BookPrims.thy ===== *)
theory BookPrims
  imports BookInv
begin

text \<open>
  The three ways the code changes the shared structure of a book, and the frame lemma for
  everything else: what each does to the invariant and to the two priority lists.
\<close>

lemma links_okI:
  assumes "map_wf (ob_bids s)" "map_wf (ob_asks s)" "distinct (map (snd \<circ> snd) (levels_of s))"
    and "\<And>sd p l. (p, l) \<in> set (side_map sd s) \<Longrightarrow> level_ok X s (sd, p, l)"
    and "map_wf (ob_ordersById s)" "\<And>i a. (i, a) \<in> set (ob_ordersById s) \<Longrightarrow> indexed s (i, a)"
  shows "links_ok_but X s"
  using assms by (auto simp: links_ok_but_def list_all_iff levels_of_iff)

lemma links_ok_level:
  "links_ok_but X s \<Longrightarrow> (p, l) \<in> set (side_map sd s) \<Longrightarrow> level_ok X s (sd, p, l)"
  by (auto simp: links_ok_but_def list_all_iff levels_of_iff)

lemma indexedI:
  "on_orderId (nodes s a) = i \<Longrightarrow> (p, l) \<in> set (side_map sd s) \<Longrightarrow> a \<in> set (level_addrs s l) \<Longrightarrow>
     indexed s (i, a)"
  by (auto simp: indexed_def levels_of_iff [symmetric])

lemma indexedE:
  assumes "links_ok_but X s" "(i, a) \<in> set (ob_ordersById s)"
  obtains sd p l where "on_orderId (nodes s a) = i" "(p, l) \<in> set (side_map sd s)" "a \<in> set (level_addrs s l)"
proof -
  have "indexed s (i, a)" using assms by (simp add: links_ok_but_def list_all_iff)
  then show ?thesis using that by (auto simp: indexed_def levels_of_iff)
qed

lemma side_map_sel: "ob_bids s' = ob_bids s \<Longrightarrow> ob_asks s' = ob_asks s \<Longrightarrow> side_map sd s' = side_map sd s"
  by (cases sd) (simp_all add: side_map_def)

lemma levels_of_sel: "ob_bids s' = ob_bids s \<Longrightarrow> ob_asks s' = ob_asks s \<Longrightarrow> levels_of s' = levels_of s"
  by (simp add: levels_of_def)

subsection \<open>Frame: nothing reachable changes\<close>

definition same_structure :: "OrderBook \<Rightarrow> OrderBook \<Rightarrow> bool" where
  "same_structure s s' \<longleftrightarrow> ob_bids s' = ob_bids s \<and> ob_asks s' = ob_asks s \<and>
     ob_ordersById s' = ob_ordersById s \<and> ob_symbol s' = ob_symbol s \<and> nextRef s \<le> nextRef s' \<and>
     (\<forall>sd. \<forall>(p, l) \<in> set (side_map sd s). levels s' l = levels s l \<and>
        (\<forall>a \<in> set (level_addrs s l). nodes s' a = nodes s a))"

lemma same_structureD:
  assumes "same_structure s s'"
  shows "ob_bids s' = ob_bids s" "ob_asks s' = ob_asks s" "ob_ordersById s' = ob_ordersById s"
    "ob_symbol s' = ob_symbol s" "nextRef s \<le> nextRef s'" "side_map sd s' = side_map sd s"
    "levels_of s' = levels_of s"
    "(p, l) \<in> set (side_map sd s) \<Longrightarrow> levels s' l = levels s l"
    "(p, l) \<in> set (side_map sd s) \<Longrightarrow> a \<in> set (level_addrs s l) \<Longrightarrow> nodes s' a = nodes s a"
proof -
  show "ob_bids s' = ob_bids s" "ob_asks s' = ob_asks s" "ob_ordersById s' = ob_ordersById s"
    "ob_symbol s' = ob_symbol s" "nextRef s \<le> nextRef s'"
    using assms by (simp_all add: same_structure_def)
  then show "side_map sd s' = side_map sd s" "levels_of s' = levels_of s"
    by (blast intro: side_map_sel levels_of_sel)+
  have h: "\<forall>x \<in> set (side_map sd s). case x of (p, l) \<Rightarrow> levels s' l = levels s l \<and>
        (\<forall>a \<in> set (level_addrs s l). nodes s' a = nodes s a)"
    using assms by (simp add: same_structure_def)
  from bspec [OF h, of "(p, l)"]
  show "(p, l) \<in> set (side_map sd s) \<Longrightarrow> levels s' l = levels s l"
    "(p, l) \<in> set (side_map sd s) \<Longrightarrow> a \<in> set (level_addrs s l) \<Longrightarrow> nodes s' a = nodes s a"
    by simp_all
qed

lemma frame_addrs:
  assumes "links_ok_but X s" "same_structure s s'" "(p, l) \<in> set (side_map sd s)"
  shows "level_rep (nodes s') l (levels s' l) (level_addrs s' l) \<and> level_addrs s' l = level_addrs s l"
  using level_okD(1) [OF assms(1,3)] same_structureD(8,9) [OF assms(2,3)] by (intro addrs_cong) auto

lemma frame_resting:
  assumes "links_ok_but X s" "same_structure s s'"
  shows "resting sd s' = resting sd s"
proof (rule resting_cong)
  show "side_map sd s' = side_map sd s" by (rule same_structureD(6) [OF assms(2)])
  show "content s' l = content s l" if "(p, l) \<in> set (side_map sd s)" for p l
    using frame_addrs [OF assms that] same_structureD(9) [OF assms(2) that] by (auto simp: content_def)
qed

lemma frame_links:
  assumes ok: "links_ok_but X s" and sm: "same_structure s s'"
  shows "links_ok_but X s'"
proof (rule links_okI)
  note eq = same_structureD [OF sm]
  show "map_wf (ob_bids s')" "map_wf (ob_asks s')" "distinct (map (snd \<circ> snd) (levels_of s'))"
    "map_wf (ob_ordersById s')"
    using ok by (simp_all add: eq links_ok_but_def)
  fix sd p l assume "(p, l) \<in> set (side_map sd s')"
  then have pl: "(p, l) \<in> set (side_map sd s)" by (simp add: eq)
  note L = level_okD [OF ok pl]
  have "member_ok X s' sd a" if "a \<in> set (level_addrs s l)" for a
    using L(6) [OF that] eq(5) eq(9) [OF pl that]
    by (simp add: member_ok_def live_node_def eq(3,4))
  moreover have "level_rep (nodes s') l (levels s l) (level_addrs s l)" "level_addrs s' l = level_addrs s l"
    using frame_addrs [OF ok sm pl] eq(8) [OF pl] by auto
  ultimately show "level_ok X s' (sd, p, l)"
    using L eq(5) eq(8) [OF pl] by (simp add: level_ok_def)
next
  note eq = same_structureD [OF sm]
  fix i a assume "(i, a) \<in> set (ob_ordersById s')"
  then have "(i, a) \<in> set (ob_ordersById s)" by (simp add: eq)
  then obtain sd p l where i: "on_orderId (nodes s a) = i" and pl: "(p, l) \<in> set (side_map sd s)"
    and a: "a \<in> set (level_addrs s l)" by (rule indexedE [OF ok])
  show "indexed s' (i, a)"
  proof (rule indexedI)
    show "on_orderId (nodes s' a) = i" using eq(9) [OF pl a] i by simp
    show "(p, l) \<in> set (side_map sd s')" using pl by (simp add: eq)
    show "a \<in> set (level_addrs s' l)" using frame_addrs [OF ok sm pl] a by simp
  qed
qed

text \<open>Changing an order outside every level, or the book's scalar fields, is such a frame.\<close>

lemma same_structure_outside:
  assumes "links_ok_but X s" "on_priceLevel (nodes s a) = None"
  shows "same_structure s (s\<lparr>nodes := (nodes s)(a := n)\<rparr>)"
  using outside_levels [OF assms(1) _ assms(2)] by (auto simp: same_structure_def)

lemma same_structure_alloc:
  assumes "links_ok_but X s"
  shows "same_structure s (s\<lparr>nodes := (nodes s)(nextRef s := n), nextRef := Suc (nextRef s)\<rparr>)"
    and "same_structure s (s\<lparr>levels := (levels s)(nextRef s := lv), nextRef := Suc (nextRef s)\<rparr>)"
proof -
  have "a \<noteq> nextRef s" if "(p, l) \<in> set (side_map sd s)" "a \<in> set (level_addrs s l)" for sd p l a
    using level_member(3) [OF assms that] by (auto simp: member_ok_def)
  moreover have "l \<noteq> nextRef s" if "(p, l) \<in> set (side_map sd s)" for sd p l
    using level_okD(5) [OF assms that] by auto
  ultimately show "same_structure s (s\<lparr>nodes := (nodes s)(nextRef s := n), nextRef := Suc (nextRef s)\<rparr>)"
    "same_structure s (s\<lparr>levels := (levels s)(nextRef s := lv), nextRef := Suc (nextRef s)\<rparr>)"
    by (fastforce simp: same_structure_def)+
qed

lemma same_structure_scalars:
  "same_structure s (s\<lparr>ob_trades := t\<rparr>)"
  "same_structure s (s\<lparr>ob_lastTradePriceTicks := p\<rparr>)"
  "same_structure s (s\<lparr>ob_sequence := q\<rparr>)"
  "same_structure s (s\<lparr>ob_ticks := k\<rparr>)"
  "same_structure s (s\<lparr>ob_stopOrdersById := m\<rparr>)"
  by (simp_all add: same_structure_def side_map_def split: Side.split)

lemma same_structure_refl [simp]: "same_structure s s"
  by (simp add: same_structure_def)

subsection \<open>Filling an order in its level\<close>

definition fill_in_level :: "nat \<Rightarrow> nat \<Rightarrow> int \<Rightarrow> OrderBook \<Rightarrow> OrderBook" where
  "fill_in_level l a q s = s\<lparr>nodes := (nodes s)(a := filled_by q (nodes s a)),
     levels := (levels s)(l := (levels s l)\<lparr>pl_totalQuantity := pl_totalQuantity (levels s l) - q\<rparr>)\<rparr>"

lemma fill_sel [simp]:
  "ob_bids (fill_in_level l a q s) = ob_bids s" "ob_asks (fill_in_level l a q s) = ob_asks s"
  "ob_ordersById (fill_in_level l a q s) = ob_ordersById s" "ob_symbol (fill_in_level l a q s) = ob_symbol s"
  "nextRef (fill_in_level l a q s) = nextRef s" "side_map sd (fill_in_level l a q s) = side_map sd s"
  "levels_of (fill_in_level l a q s) = levels_of s"
  "nodes (fill_in_level l a q s) b = (if b = a then filled_by q (nodes s a) else nodes s b)"
  by (simp_all add: fill_in_level_def side_map_def levels_of_def split: Side.split)

lemma walk_cong: "(\<And>a. on_next (ns' a) = on_next (ns a)) \<Longrightarrow> walk ns' k r = walk ns k r"
  by (induction ns k r rule: walk.induct) auto

lemma fill_addrs [simp]: "level_addrs (fill_in_level l a q s) l' = level_addrs s l'"
  by (auto simp: level_addrs_def fill_in_level_def intro: walk_cong)

lemma sum_filled:
  assumes "distinct as" "a \<in> set as"
  shows "(\<Sum>b\<leftarrow>as. on_remainingQuantity ((ns(a := filled_by q (ns a))) b)) =
     (\<Sum>b\<leftarrow>as. on_remainingQuantity (ns b)) - q"
  using assms
proof (induction as)
  case (Cons b as)
  show ?case
  proof (cases "a = b")
    case True
    then have "map (\<lambda>c. on_remainingQuantity ((ns(a := filled_by q (ns a))) c)) as =
        map (\<lambda>c. on_remainingQuantity (ns c)) as"
      using Cons.prems by (intro map_cong) auto
    then show ?thesis using True by (simp only: list.map sum_list.Cons fun_upd_same) simp
  next
    case False
    then show ?thesis using Cons by simp
  qed
qed simp

lemma fill_level_rep:
  assumes "level_rep ns l lv as" "a \<in> set as"
  shows "level_rep (ns(a := filled_by q (ns a))) l (lv\<lparr>pl_totalQuantity := pl_totalQuantity lv - q\<rparr>) as"
proof -
  have "linked (ns(a := filled_by q (ns a))) None as None = linked ns None as None"
    by (rule linked_cong) simp
  then show ?thesis
    using assms sum_filled [of as a ns q] by (auto simp: level_rep_def)
qed

lemma fill_links:
  assumes ok: "links_ok s" and pl: "(p, l) \<in> set (side_map sd s)" and a: "a \<in> set (level_addrs s l)"
    and q: "0 < q" "q \<le> on_remainingQuantity (nodes s a)"
  shows "links_ok_but (if on_remainingQuantity (nodes s a) = q then {a} else {}) (fill_in_level l a q s)"
    (is "links_ok_but ?X ?s")
proof (rule links_okI)
  have eq: "ob_bids ?s = ob_bids s" "ob_asks ?s = ob_asks s" "ob_ordersById ?s = ob_ordersById s"
    by (simp_all add: fill_in_level_def)
  show "map_wf (ob_bids ?s)" "map_wf (ob_asks ?s)" "distinct (map (snd \<circ> snd) (levels_of ?s))"
    "map_wf (ob_ordersById ?s)"
    using ok by (simp_all add: eq levels_of_sel [OF eq(1,2)] links_ok_but_def)
  have live: "live_node s (nodes s a)" using level_member(3) [OF ok pl a] by (simp add: member_ok_def)
  have mem: "member_ok ?X ?s sd' b" if "member_ok {} s sd' b" for sd' b
    using that live q node_ok_filled_by [of "nodes s a" q]
    by (auto simp: member_ok_def fill_in_level_def live_node_def)
  fix sd' p' l' assume "(p', l') \<in> set (side_map sd' ?s)"
  then have pl': "(p', l') \<in> set (side_map sd' s)" by (simp add: side_map_sel [OF eq(1,2)])
  note L = level_okD [OF ok pl']
  have rep: "level_rep (nodes ?s) l' (levels ?s l') (level_addrs s l')"
  proof (cases "l' = l")
    case True
    then show ?thesis using fill_level_rep [OF L(1)] a by (simp add: fill_in_level_def)
  next
    case False
    then have "a \<notin> set (level_addrs s l')" using addrs_disjoint [OF ok pl pl' a] by blast
    then have "level_rep (nodes ?s) l' (levels s l') (level_addrs s l') =
        level_rep (nodes s) l' (levels s l') (level_addrs s l')"
      by (intro level_rep_cong) (auto simp: fill_in_level_def)
    with L(1) False show ?thesis by (simp add: fill_in_level_def)
  qed
  have "pl_priceTicks (levels ?s l') = p'" using L(3) by (auto simp: fill_in_level_def)
  moreover have "nextRef ?s = nextRef s" by (simp add: fill_in_level_def)
  ultimately show "level_ok ?X ?s (sd', p', l')" using L rep mem by (simp add: level_ok_def)
next
  fix i b assume "(i, b) \<in> set (ob_ordersById (fill_in_level l a q s))"
  then have "indexed s (i, b)" using ok by (simp add: links_ok_but_def list_all_iff)
  then show "indexed (fill_in_level l a q s) (i, b)" by (auto simp: indexed_def)
qed

lemma fill_content:
  assumes ok: "links_ok s" and pl: "(p, l) \<in> set (side_map sd s)" and a: "a \<in> set (level_addrs s l)"
    and pl': "(p', l') \<in> set (side_map sd' s)"
  shows "content (fill_in_level l a q s) l' =
    (if l' = l then map (\<lambda>n. if on_orderId n = on_orderId (nodes s a) then filled_by q n else n) (content s l)
     else content s l')"
proof (cases "l' = l")
  case True
  have "core (nodes (fill_in_level l a q s) b) =
      (if on_orderId (core (nodes s b)) = on_orderId (nodes s a) then filled_by q (core (nodes s b))
       else core (nodes s b))" if "b \<in> set (level_addrs s l)" for b
  proof -
    have "on_orderId (nodes s b) = on_orderId (nodes s a) \<Longrightarrow> b = a"
      using level_member(3) [OF ok pl a] level_member(3) [OF ok pl that]
      by (simp add: member_ok_def)
    then show ?thesis by auto
  qed
  then show ?thesis using True by (simp add: content_def)
next
  case False
  then have "a \<notin> set (level_addrs s l')" using addrs_disjoint [OF ok pl pl' a] by blast
  then show ?thesis using False by (auto simp: content_def)
qed

lemma links_ok_mono: "links_ok_but X s \<Longrightarrow> X \<subseteq> Y \<Longrightarrow> links_ok_but Y s"
  unfolding links_ok_but_def list_all_iff level_ok_def member_ok_def
  by (elim conjE, intro conjI) (fastforce split: prod.splits)+

subsection \<open>Unlinking an order\<close>

definition unlinked :: "Side \<Rightarrow> int \<Rightarrow> nat \<Rightarrow> nat list \<Rightarrow> nat \<Rightarrow> nat list \<Rightarrow> OrderBook \<Rightarrow> OrderBook" where
  "unlinked sd p l xs a ys s =
    (let s1 = s\<lparr>nodes := removed_nodes (nodes s) xs a ys,
                levels := (levels s)(l := removed_level (levels s l) xs ys (on_remainingQuantity (nodes s a))),
                ob_ordersById := map_delete (ob_ordersById s) (on_orderId (nodes s a))\<rparr>
     in if xs @ ys = [] then upd_side sd (\<lambda>m. map_delete m p) s1 else s1)"

lemma unlinked_sel [simp]:
  "nodes (unlinked sd p l xs a ys s) = removed_nodes (nodes s) xs a ys"
  "levels (unlinked sd p l xs a ys s) =
     (levels s)(l := removed_level (levels s l) xs ys (on_remainingQuantity (nodes s a)))"
  "nextRef (unlinked sd p l xs a ys s) = nextRef s" "ob_symbol (unlinked sd p l xs a ys s) = ob_symbol s"
  "ob_ordersById (unlinked sd p l xs a ys s) = map_delete (ob_ordersById s) (on_orderId (nodes s a))"
  "ob_stopOrdersById (unlinked sd p l xs a ys s) = ob_stopOrdersById s"
  "ob_trades (unlinked sd p l xs a ys s) = ob_trades s"
  "ob_lastTradePriceTicks (unlinked sd p l xs a ys s) = ob_lastTradePriceTicks s"
  "ob_sequence (unlinked sd p l xs a ys s) = ob_sequence s"
  "ob_clock (unlinked sd p l xs a ys s) = ob_clock s" "ob_ticks (unlinked sd p l xs a ys s) = ob_ticks s"
  by (simp_all add: unlinked_def Let_def upd_side_def split: Side.split)

lemma unlinked_side [simp]:
  "side_map sd' (unlinked sd p l xs a ys s) =
     (if sd' = sd \<and> xs @ ys = [] then map_delete (side_map sd s) p else side_map sd' s)"
  by (cases sd; cases sd') (simp_all add: unlinked_def Let_def upd_side_def side_map_def)

lemma unlinked_side_subset:
  "(p', l') \<in> set (side_map sd' (unlinked sd p l xs a ys s)) \<Longrightarrow> (p', l') \<in> set (side_map sd' s)"
  using map_delete_subset [of "side_map sd s" p] by (auto split: if_splits)

text \<open>The situation in which an order is unlinked: it is the one order of the book that need not be live.\<close>

definition unlinkable :: "OrderBook \<Rightarrow> Side \<Rightarrow> int \<Rightarrow> nat \<Rightarrow> nat list \<Rightarrow> nat \<Rightarrow> nat list \<Rightarrow> bool" where
  "unlinkable s sd p l xs a ys \<longleftrightarrow> links_ok_but {a} s \<and> (p, l) \<in> set (side_map sd s) \<and>
     level_addrs s l = xs @ a # ys"

lemma unlinked_level_removed:
  assumes u: "unlinkable s sd p l xs a ys"
    and pl': "(p', l') \<in> set (side_map sd' (unlinked sd p l xs a ys s))" and e: "l' = l"
  shows "xs @ ys \<noteq> []"
proof
  assume n: "xs @ ys = []"
  have ok: "links_ok_but {a} s" and pl: "(p, l) \<in> set (side_map sd s)"
    using u by (simp_all add: unlinkable_def)
  have "sd = sd' \<and> p = p'"
    using level_unique [OF ok pl] unlinked_side_subset [OF pl'] e by blast
  with pl' n show False by (auto simp: set_map_delete)
qed

lemma unlinked_addrs:
  assumes u: "unlinkable s sd p l xs a ys"
    and pl': "(p', l') \<in> set (side_map sd' (unlinked sd p l xs a ys s))"
  shows "level_rep (nodes (unlinked sd p l xs a ys s)) l' (levels (unlinked sd p l xs a ys s) l')
      (if l' = l then xs @ ys else level_addrs s l') \<and>
    level_addrs (unlinked sd p l xs a ys s) l' = (if l' = l then xs @ ys else level_addrs s l')"
proof -
  let ?s = "unlinked sd p l xs a ys s"
  have ok: "links_ok_but {a} s" and pl: "(p, l) \<in> set (side_map sd s)" and as: "level_addrs s l = xs @ a # ys"
    using u by (simp_all add: unlinkable_def)
  have pls: "(p', l') \<in> set (side_map sd' s)" by (rule unlinked_side_subset [OF pl'])
  have rep: "level_rep (nodes ?s) l' (levels ?s l') (if l' = l then xs @ ys else level_addrs s l')"
  proof (cases "l' = l")
    case True
    have "level_rep (nodes s) l (levels s l) (xs @ a # ys)" using level_okD(1) [OF ok pl] as by simp
    from removed_rep [OF this] True show ?thesis by simp
  next
    case False
    have "b \<notin> set (xs @ a # ys)" if "b \<in> set (level_addrs s l')" for b
      using addrs_disjoint [OF ok pl pls] False as that by metis
    then have "level_rep (nodes ?s) l' (levels s l') (level_addrs s l') =
        level_rep (nodes s) l' (levels s l') (level_addrs s l')"
      by (intro level_rep_cong) (simp add: removed_other)
    then show ?thesis using level_okD(1) [OF ok pls] False by simp
  qed
  from rep level_addrs_rep [OF rep] show ?thesis by blast
qed

lemma unlinked_member:
  assumes u: "unlinkable s sd p l xs a ys" and pls: "(p', l') \<in> set (side_map sd' s)"
    and b: "b \<in> set (level_addrs s l')" "b \<noteq> a"
  shows "member_ok {} (unlinked sd p l xs a ys s) sd' b"
proof -
  have ok: "links_ok_but {a} s" and pl: "(p, l) \<in> set (side_map sd s)" and as: "level_addrs s l = xs @ a # ys"
    using u by (simp_all add: unlinkable_def)
  let ?s = "unlinked sd p l xs a ys s"
  have mb: "member_ok {a} s sd' b" by (rule level_member(3) [OF ok pls b(1)])
  have ma: "member_ok {a} s sd a" using level_member(3) [OF ok pl] as by simp
  have "on_orderId (nodes s b) \<noteq> on_orderId (nodes s a)"
    using ma mb b(2) by (auto simp: member_ok_def)
  then have "map_get (ob_ordersById ?s) (on_orderId (nodes s b)) = Some b"
    using mb by (simp add: map_get_delete member_ok_def)
  then show ?thesis using mb b(2) by (simp add: member_ok_def live_node_def)
qed

lemma unlinked_links:
  assumes u: "unlinkable s sd p l xs a ys"
  shows "links_ok (unlinked sd p l xs a ys s)"
proof (rule links_okI)
  let ?s = "unlinked sd p l xs a ys s"
  have ok: "links_ok_but {a} s" and pl: "(p, l) \<in> set (side_map sd s)" and as: "level_addrs s l = xs @ a # ys"
    using u by (simp_all add: unlinkable_def)
  have wf: "map_wf (side_map sd' ?s)" for sd'
    using side_map_wf [OF ok, of sd'] side_map_wf [OF ok, of sd] by (simp add: map_wf_delete)
  show "map_wf (ob_bids ?s)" "map_wf (ob_asks ?s)"
    using wf [of BUY] wf [of SELL] by (simp_all only: side_map_def Side.case)
  have sub: "distinct (map (snd \<circ> snd) (map (Pair BUY) (filter P (ob_bids s)) @ map (Pair SELL) (filter Q (ob_asks s))))"
    if "distinct (map (snd \<circ> snd) (levels_of s))" for P Q
    using that by (auto simp: levels_of_def comp_def distinct_map_filter)
  have bs: "ob_bids ?s = filter (if sd = BUY \<and> xs @ ys = [] then (\<lambda>(j, v). j \<noteq> p) else (\<lambda>_. True)) (ob_bids s)"
    "ob_asks ?s = filter (if sd = SELL \<and> xs @ ys = [] then (\<lambda>(j, v). j \<noteq> p) else (\<lambda>_. True)) (ob_asks s)"
    by (cases sd; simp add: unlinked_def Let_def upd_side_def map_delete_def)+
  show "distinct (map (snd \<circ> snd) (levels_of ?s))"
    unfolding levels_of_def bs using ok by (intro sub) (simp add: links_ok_but_def)
  show "map_wf (ob_ordersById ?s)"
    using ok by (simp add: links_ok_but_def map_wf_delete)
  fix sd' p' l' assume pl': "(p', l') \<in> set (side_map sd' ?s)"
  have pls: "(p', l') \<in> set (side_map sd' s)" by (rule unlinked_side_subset [OF pl'])
  note L = level_okD [OF ok pls]
  have na: "a \<notin> set (if l' = l then xs @ ys else level_addrs s l')"
    using L(1) as addrs_disjoint [OF ok pl pls, of a] by (auto simp: level_rep_def)
  have sub: "set (if l' = l then xs @ ys else level_addrs s l') \<subseteq> set (level_addrs s l')" using as by auto
  show "level_ok {} ?s (sd', p', l')"
    using unlinked_addrs [OF u pl'] L(2-5) unlinked_level_removed [OF u pl'] unlinked_member [OF u pls] na sub
    by (auto simp: level_ok_def split: if_splits)
next
  let ?s = "unlinked sd p l xs a ys s"
  fix i b assume ib: "(i, b) \<in> set (ob_ordersById ?s)"
  have ok: "links_ok_but {a} s" and pl: "(p, l) \<in> set (side_map sd s)" and as: "level_addrs s l = xs @ a # ys"
    using u by (simp_all add: unlinkable_def)
  have ibs: "(i, b) \<in> set (ob_ordersById s)" "i \<noteq> on_orderId (nodes s a)"
    using ib by (auto simp: set_map_delete)
  from indexedE [OF ok ibs(1)] obtain sd' p' l' where i: "on_orderId (nodes s b) = i"
    and pls: "(p', l') \<in> set (side_map sd' s)" and b: "b \<in> set (level_addrs s l')" by metis
  have ba: "b \<noteq> a" using i ibs(2) by auto
  have pl': "(p', l') \<in> set (side_map sd' ?s)"
  proof (cases "l' = l")
    case True
    then have "sd' = sd \<and> p' = p" using level_unique [OF ok pls] pl by blast
    then show ?thesis using True b ba as pls by auto
  next
    case False
    then have "sd' = sd \<longrightarrow> p' \<noteq> p"
      using side_map_wf [OF ok, of sd] pls pl distinct_map_fst_eq by metis
    then show ?thesis using pls by (auto simp: set_map_delete)
  qed
  show "indexed ?s (i, b)"
  proof (rule indexedI [OF _ pl'])
    show "on_orderId (nodes ?s b) = i" using i by simp
    show "b \<in> set (level_addrs ?s l')" using unlinked_addrs [OF u pl'] b ba as by (auto split: if_splits)
  qed
qed

lemma unlinked_content:
  assumes u: "unlinkable s sd p l xs a ys"
    and pl': "(p', l') \<in> set (side_map sd' (unlinked sd p l xs a ys s))"
  shows "content (unlinked sd p l xs a ys s) l' =
    filter (\<lambda>n. on_orderId n \<noteq> on_orderId (nodes s a)) (content s l')"
proof -
  have ok: "links_ok_but {a} s" and pl: "(p, l) \<in> set (side_map sd s)" and as: "level_addrs s l = xs @ a # ys"
    using u by (simp_all add: unlinkable_def)
  have pls: "(p', l') \<in> set (side_map sd' s)" by (rule unlinked_side_subset [OF pl'])
  have id: "on_orderId (nodes s b) = on_orderId (nodes s a) \<longleftrightarrow> b = a" if "b \<in> set (level_addrs s l')" for b
    using level_member(3) [OF ok pls that] level_member(3) [OF ok pl, of a] as by (auto simp: member_ok_def)
  have ad: "level_addrs (unlinked sd p l xs a ys s) l' = filter (\<lambda>b. b \<noteq> a) (level_addrs s l')"
  proof (cases "l' = l")
    case True
    have "distinct (xs @ a # ys)" using level_okD(1) [OF ok pl] as by (simp add: level_rep_def)
    then have "filter (\<lambda>b. b \<noteq> a) xs = xs" "filter (\<lambda>b. b \<noteq> a) ys = ys"
      by (auto simp: filter_id_conv)
    then show ?thesis using unlinked_addrs [OF u pl'] True as by simp
  next
    case False
    then have "a \<notin> set (level_addrs s l')" using addrs_disjoint [OF ok pl pls, of a] as by auto
    then have "filter (\<lambda>b. b \<noteq> a) (level_addrs s l') = level_addrs s l'" by (auto simp: filter_id_conv)
    then show ?thesis using unlinked_addrs [OF u pl'] False by simp
  qed
  show ?thesis
    unfolding content_def ad filter_map comp_def using id by (auto intro!: map_cong filter_cong)
qed

lemma concat_filter_blocks:
  assumes "\<And>x. x \<in> set L \<Longrightarrow> P x \<Longrightarrow> g' x = filter R (g x)"
    and "\<And>x. x \<in> set L \<Longrightarrow> \<not> P x \<Longrightarrow> filter R (g x) = []"
  shows "concat (map g' (filter P L)) = filter R (concat (map g L))"
  using assms by (induction L) auto

lemma filter_sort_key: "filter P (sort_key f xs) = sort_key f (filter P xs)"
  by (rule filter_sort)

lemma unlinked_resting:
  assumes u: "unlinkable s sd p l xs a ys"
  shows "resting sd' (unlinked sd p l xs a ys s) =
    filter (\<lambda>n. on_orderId n \<noteq> on_orderId (nodes s a)) (resting sd' s)"
proof -
  let ?s = "unlinked sd p l xs a ys s"
  have ok: "links_ok_but {a} s" and pl: "(p, l) \<in> set (side_map sd s)" and as: "level_addrs s l = xs @ a # ys"
    using u by (simp_all add: unlinkable_def)
  define P :: "int \<times> nat \<Rightarrow> bool" where "P = (\<lambda>x. \<not> (sd' = sd \<and> xs @ ys = [] \<and> fst x = p))"
  have sm: "side_map sd' ?s = filter P (side_map sd' s)"
    by (auto simp: P_def map_delete_def split_def)
  then have ss: "sorted_side sd' ?s = filter P (sorted_side sd' s)"
    by (simp add: sorted_side_def filter_sort_key)
  have in_s: "(p', l') \<in> set (side_map sd' ?s)" if "(p', l') \<in> set (sorted_side sd' s)" "P (p', l')" for p' l'
    using that sm by simp
  have gone: "filter (\<lambda>n. on_orderId n \<noteq> on_orderId (nodes s a)) (content s l') = []"
    if "(p', l') \<in> set (sorted_side sd' s)" "\<not> P (p', l')" for p' l'
  proof -
    have e: "sd' = sd" "xs = []" "ys = []" "p' = p" using that(2) by (auto simp: P_def)
    then have "l' = l" using that(1) pl side_map_wf [OF ok, of sd] distinct_map_fst_eq by fastforce
    then show ?thesis using as e by (simp add: content_def)
  qed
  show ?thesis
    unfolding resting_def ss
    by (rule concat_filter_blocks) (auto simp del: unlinked_side intro!: unlinked_content [OF u] in_s gone)
qed

end
