(* ===== verification/BookRest.thy ===== *)
theory BookRest
  imports BookPrims
begin

text \<open>
  Appending an order to its side of the book (\<^verbatim>\<open>addRestingOrder\<close> followed by
  \<^verbatim>\<open>ordersById.set\<close>): the order joins the tail of its price level, which is created when it
  is missing, and takes its place in the priority list behind everything at least as good.
\<close>

lemma map_set_same: "map_get m k = Some v \<Longrightarrow> map_set m k v = m"
  by (induction m k rule: map_get.induct) (auto split: if_splits)

definition fresh_level :: "int \<Rightarrow> PriceLevel" where
  "fresh_level p = \<lparr> pl_priceTicks = p, pl_head = None, pl_tail = None, pl_totalQuantity = 0, pl_orderCount = 0 \<rparr>"

lemma new_PriceLevel_ok: "0 < p \<Longrightarrow> new_PriceLevel (price_val (Some p)) = Inr (fresh_level p)"
  by (simp add: new_PriceLevel_def price_val_def fresh_level_def)

text \<open>The level an order at price \<open>p\<close> joins, and the orders already there.\<close>

definition level_ref :: "Side \<Rightarrow> int \<Rightarrow> OrderBook \<Rightarrow> nat" where
  "level_ref sd p s = (case map_get (side_map sd s) p of Some l \<Rightarrow> l | None \<Rightarrow> nextRef s)"

definition level_queue :: "Side \<Rightarrow> int \<Rightarrow> OrderBook \<Rightarrow> nat list" where
  "level_queue sd p s = (case map_get (side_map sd s) p of Some l \<Rightarrow> level_addrs s l | None \<Rightarrow> [])"

definition level_obj :: "Side \<Rightarrow> int \<Rightarrow> OrderBook \<Rightarrow> PriceLevel" where
  "level_obj sd p s = (case map_get (side_map sd s) p of Some l \<Rightarrow> levels s l | None \<Rightarrow> fresh_level p)"

definition level_next :: "Side \<Rightarrow> int \<Rightarrow> OrderBook \<Rightarrow> nat" where
  "level_next sd p s = (case map_get (side_map sd s) p of Some l \<Rightarrow> nextRef s | None \<Rightarrow> Suc (nextRef s))"

definition appended :: "Side \<Rightarrow> int \<Rightarrow> nat \<Rightarrow> OrderBook \<Rightarrow> OrderBook" where
  "appended sd p a s = (upd_side sd (\<lambda>m. map_set m p (level_ref sd p s)) s)
     \<lparr>nodes := appended_nodes (nodes s) (level_ref sd p s) (level_queue sd p s) a,
      levels := (levels s)(level_ref sd p s :=
        appended_level (level_obj sd p s) (level_queue sd p s) a (on_remainingQuantity (nodes s a))),
      nextRef := level_next sd p s\<rparr>"

definition rested :: "Side \<Rightarrow> int \<Rightarrow> nat \<Rightarrow> OrderBook \<Rightarrow> OrderBook" where
  "rested sd p a s = (appended sd p a s)
     \<lparr>ob_ordersById := map_set (ob_ordersById s) (on_orderId (nodes s a)) a\<rparr>"

text \<open>The order that comes to rest: live, detached, with an identifier not yet in the book.\<close>

definition restable :: "OrderBook \<Rightarrow> Side \<Rightarrow> int \<Rightarrow> nat \<Rightarrow> bool" where
  "restable s sd p a \<longleftrightarrow> links_ok s \<and> a < nextRef s \<and> on_side (nodes s a) = sd \<and>
     on_type (nodes s a) = LIMIT \<and> on_priceTicks (nodes s a) = Some p \<and>
     on_symbol (nodes s a) = ob_symbol s \<and> node_static (nodes s a) \<and> live_node s (nodes s a) \<and>
     on_priceLevel (nodes s a) = None \<and> on_prev (nodes s a) = None \<and> on_next (nodes s a) = None \<and>
     map_get (ob_ordersById s) (on_orderId (nodes s a)) = None"

lemma restable_price: "restable s sd p a \<Longrightarrow> 0 < p"
  by (auto simp: restable_def node_static_def)

lemma rested_sel [simp]:
  "nodes (rested sd p a s) = appended_nodes (nodes s) (level_ref sd p s) (level_queue sd p s) a"
  "levels (rested sd p a s) = (levels s)(level_ref sd p s :=
      appended_level (level_obj sd p s) (level_queue sd p s) a (on_remainingQuantity (nodes s a)))"
  "nextRef (rested sd p a s) = level_next sd p s" "ob_symbol (rested sd p a s) = ob_symbol s"
  "ob_ordersById (rested sd p a s) = map_set (ob_ordersById s) (on_orderId (nodes s a)) a"
  "ob_stopOrdersById (rested sd p a s) = ob_stopOrdersById s"
  "ob_trades (rested sd p a s) = ob_trades s"
  "ob_lastTradePriceTicks (rested sd p a s) = ob_lastTradePriceTicks s"
  "ob_sequence (rested sd p a s) = ob_sequence s"
  "ob_clock (rested sd p a s) = ob_clock s" "ob_ticks (rested sd p a s) = ob_ticks s"
  by (simp_all add: rested_def appended_def upd_side_def split: Side.split)

lemma rested_side [simp]:
  "side_map sd' (rested sd p a s) =
     (if sd' = sd then map_set (side_map sd s) p (level_ref sd p s) else side_map sd' s)"
  by (cases sd; cases sd') (simp_all add: rested_def appended_def upd_side_def side_map_def)

lemma level_next_ge: "nextRef s \<le> level_next sd p s"
  by (simp add: level_next_def split: option.split)

lemma level_ref_next:
  assumes "links_ok s" shows "level_ref sd p s < level_next sd p s"
  using level_okD(5) [OF assms] map_get_Some_in [of "side_map sd s" p]
  by (auto simp: level_ref_def level_next_def split: option.split)

lemma level_obj_rep:
  assumes "links_ok s"
  shows "level_rep (nodes s) (level_ref sd p s) (level_obj sd p s) (level_queue sd p s) \<and>
    pl_priceTicks (level_obj sd p s) = p"
proof (cases "map_get (side_map sd s) p")
  case None
  then show ?thesis by (simp add: level_obj_def level_queue_def level_rep_def fresh_level_def)
next
  case (Some l)
  then have "(p, l) \<in> set (side_map sd s)" by (rule map_get_Some_in)
  from level_okD [OF assms this] Some show ?thesis
    by (simp add: level_obj_def level_queue_def level_ref_def)
qed

lemma rested_other_level:
  assumes ok: "links_ok s" and pl: "(p', l') \<in> set (side_map sd' (rested sd p a s))"
  shows "l' = level_ref sd p s \<and> sd' = sd \<and> p' = p \<or>
    l' \<noteq> level_ref sd p s \<and> (p', l') \<in> set (side_map sd' s) \<and> \<not> (sd' = sd \<and> p' = p)"
proof (cases "sd' = sd \<and> p' = p")
  case True
  then show ?thesis using pl side_map_wf [OF ok, of sd] by (auto simp: set_map_set)
next
  case False
  then have pls: "(p', l') \<in> set (side_map sd' s)"
    using pl side_map_wf [OF ok, of sd] by (auto simp: set_map_set split: if_splits)
  have "l' \<noteq> level_ref sd p s"
  proof (cases "map_get (side_map sd s) p")
    case None
    then show ?thesis using level_okD(5) [OF ok pls] by (simp add: level_ref_def)
  next
    case (Some l)
    then show ?thesis
      using level_unique [OF ok pls, of p sd] map_get_Some_in [OF Some] False by (auto simp: level_ref_def)
  qed
  with pls False show ?thesis by simp
qed

lemma level_queue_member:
  assumes "links_ok s" "b \<in> set (level_queue sd p s)"
  shows "(p, level_ref sd p s) \<in> set (side_map sd s) \<and> b \<in> set (level_addrs s (level_ref sd p s))"
  using assms(2) by (auto simp: level_queue_def level_ref_def dest: map_get_Some_in split: option.splits)

lemma rested_addrs:
  assumes r: "restable s sd p a" and pl: "(p', l') \<in> set (side_map sd' (rested sd p a s))"
  shows "level_rep (nodes (rested sd p a s)) l' (levels (rested sd p a s) l')
      (if l' = level_ref sd p s then level_queue sd p s @ [a] else level_addrs s l') \<and>
    level_addrs (rested sd p a s) l' =
      (if l' = level_ref sd p s then level_queue sd p s @ [a] else level_addrs s l')"
proof -
  let ?s = "rested sd p a s" and ?l = "level_ref sd p s" and ?q = "level_queue sd p s"
  have ok: "links_ok s" and out: "on_priceLevel (nodes s a) = None" using r by (simp_all add: restable_def)
  have aq: "a \<notin> set ?q"
    using level_queue_member [OF ok, of a] level_member(1) [OF ok, of _ ?l _ a] out by fastforce
  have rep: "level_rep (nodes ?s) l' (levels ?s l') (if l' = ?l then ?q @ [a] else level_addrs s l')"
  proof (cases "l' = ?l")
    case True
    have "0 < on_remainingQuantity (nodes s a)"
      using r live_rem [of s "nodes s a"] by (simp add: restable_def)
    then have "appendable (level_obj sd p s) (nodes s a)"
      using r level_obj_rep [OF ok, of sd p] by (simp add: appendable_def restable_def)
    from appended_rep [OF conjunct1 [OF level_obj_rep [OF ok]] aq this] True show ?thesis by simp
  next
    case False
    then have pls: "(p', l') \<in> set (side_map sd' s)" using rested_other_level [OF ok pl] by simp
    have "b \<notin> set ?q \<and> b \<noteq> a" if "b \<in> set (level_addrs s l')" for b
      using level_queue_member [OF ok, of b] addrs_disjoint [OF ok pls, of p ?l sd b] that False
        outside_levels [OF ok pls out] by auto
    then have "level_rep (nodes ?s) l' (levels s l') (level_addrs s l') =
        level_rep (nodes s) l' (levels s l') (level_addrs s l')"
      by (intro level_rep_cong) (simp add: appended_other)
    then show ?thesis using level_okD(1) [OF ok pls] False by simp
  qed
  from rep level_addrs_rep [OF rep] show ?thesis by blast
qed

lemma rested_member:
  assumes r: "restable s sd p a"
    and b: "b = a \<and> sd' = sd \<or> member_ok {} s sd' b"
  shows "member_ok {} (rested sd p a s) sd' b"
proof (cases "b = a")
  case True
  have "sd' = sd" using b r True by (auto simp: member_ok_def restable_def)
  then show ?thesis
    using True r level_next_ge [of s sd p] by (simp add: member_ok_def restable_def live_node_def map_get_set)
next
  case False
  then have "member_ok {} s sd' b" using b by simp
  then show ?thesis
    using False r level_next_ge [of s sd p]
    by (auto simp: member_ok_def restable_def live_node_def map_get_set)
qed

lemma rested_links:
  assumes r: "restable s sd p a"
  shows "links_ok (rested sd p a s)"
proof (rule links_okI)
  let ?s = "rested sd p a s" and ?l = "level_ref sd p s"
  have ok: "links_ok s" using r by (simp add: restable_def)
  have wf: "map_wf (side_map sd' ?s)" for sd'
    using side_map_wf [OF ok, of sd'] side_map_wf [OF ok, of sd] by (simp add: map_wf_set)
  show wfs: "map_wf (ob_bids ?s)" "map_wf (ob_asks ?s)"
    using wf [of BUY] wf [of SELL] by (simp_all only: side_map_def Side.case)
  have inj: "sd1 = sd2 \<and> p1 = p2"
    if "(p1, l') \<in> set (side_map sd1 ?s)" "(p2, l') \<in> set (side_map sd2 ?s)" for sd1 sd2 p1 p2 l'
    using rested_other_level [OF ok that(1)] rested_other_level [OF ok that(2)] level_unique [OF ok, of p1 l' sd1 p2 sd2]
    by blast
  have "distinct (levels_of ?s)"
    using wfs by (auto simp: levels_of_def distinct_map inj_on_def)
  moreover have "inj_on (snd \<circ> snd) (set (levels_of ?s))"
    using inj by (auto intro!: inj_onI simp: levels_of_iff simp del: rested_side)
  ultimately show "distinct (map (snd \<circ> snd) (levels_of ?s))" by (simp add: distinct_map)
  show "map_wf (ob_ordersById ?s)" using ok by (simp add: links_ok_but_def map_wf_set)
  fix sd' p' l' assume pl: "(p', l') \<in> set (side_map sd' ?s)"
  show "level_ok {} ?s (sd', p', l')"
  proof (cases "l' = ?l")
    case True
    then have e: "sd' = sd" "p' = p" using rested_other_level [OF ok pl] by simp_all
    have "member_ok {} ?s sd b" if "b \<in> set (level_queue sd p s @ [a])" for b
    proof (rule rested_member [OF r])
      show "b = a \<and> sd = sd \<or> member_ok {} s sd b"
        using that level_queue_member [OF ok, of b sd p] level_member(3) [OF ok, of p ?l sd b] by auto
    qed
    then show ?thesis
      using rested_addrs [OF r pl] True e restable_price [OF r] level_obj_rep [OF ok, of sd p]
        level_ref_next [OF ok, of sd p] by (simp add: level_ok_def)
  next
    case False
    then have pls: "(p', l') \<in> set (side_map sd' s)" using rested_other_level [OF ok pl] by simp
    show ?thesis
      using rested_addrs [OF r pl] False level_okD [OF ok pls] rested_member [OF r] level_next_ge [of s sd p]
      by (simp add: level_ok_def)
  qed
next
  let ?s = "rested sd p a s" and ?l = "level_ref sd p s"
  have ok: "links_ok s" using r by (simp add: restable_def)
  have new: "(p, ?l) \<in> set (side_map sd ?s)"
    using side_map_wf [OF ok, of sd] by (simp add: set_map_set)
  fix i b assume ib: "(i, b) \<in> set (ob_ordersById ?s)"
  show "indexed ?s (i, b)"
  proof (cases "b = a \<and> i = on_orderId (nodes s a)")
    case True
    then show ?thesis using rested_addrs [OF r new] by (intro indexedI [OF _ new]) simp_all
  next
    case False
    have wf: "map_wf (ob_ordersById s)" using ok by (simp add: links_ok_but_def)
    then have "(i, b) \<in> set (ob_ordersById s)" using ib False by (auto simp: set_map_set)
    from indexedE [OF ok this] obtain sd' p' l' where i: "on_orderId (nodes s b) = i"
      and pls: "(p', l') \<in> set (side_map sd' s)" and b: "b \<in> set (level_addrs s l')" by metis
    have pl: "(p', l') \<in> set (side_map sd' ?s)"
    proof (cases "sd' = sd \<and> p' = p")
      case True
      then have "map_get (side_map sd s) p = Some l'" using pls side_map_wf [OF ok] by (simp add: map_get_iff)
      then show ?thesis using True new by (simp add: level_ref_def)
    next
      case False
      then show ?thesis using pls side_map_wf [OF ok, of sd] by (auto simp: set_map_set)
    qed
    have "b \<in> set (level_addrs ?s l')"
    proof (cases "l' = ?l")
      case True
      then have "sd' = sd \<and> p' = p" using rested_other_level [OF ok pl] by simp
      then have "map_get (side_map sd s) p = Some l'" using pls side_map_wf [OF ok] by (simp add: map_get_iff)
      then show ?thesis using rested_addrs [OF r pl] True b by (simp add: level_queue_def)
    next
      case False
      then show ?thesis using rested_addrs [OF r pl] b by simp
    qed
    then show ?thesis using i by (intro indexedI [OF _ pl]) simp_all
  qed
qed

subsection \<open>The place in the priority list\<close>

lemma rested_content:
  assumes r: "restable s sd p a" and pl: "(p', l') \<in> set (side_map sd' (rested sd p a s))"
  shows "content (rested sd p a s) l' =
    (if l' = level_ref sd p s then map (\<lambda>b. core (nodes s b)) (level_queue sd p s) @ [core (nodes s a)]
     else content s l')"
  using rested_addrs [OF r pl] by (simp add: content_def)

text \<open>Two lists sorted by an injective key with the same elements are equal.\<close>

lemma sorted_key_unique:
  assumes "sorted (map f xs)" "sorted (map f ys)" "distinct (map f xs)" "distinct (map f ys)" "set xs = set ys"
  shows "xs = ys"
  using assms by (intro map_sorted_distinct_set_unique [of f]) (auto simp: distinct_map)

lemma filter_split_sorted:
  fixes f :: "'a \<Rightarrow> int"
  assumes "sorted (map f xs)"
  shows "xs = filter (\<lambda>y. f y < k) xs @ filter (\<lambda>y. f y = k) xs @ filter (\<lambda>y. k < f y) xs"
  using assms
proof (induction xs)
  case (Cons x xs)
  have le: "f x \<le> f y" if "y \<in> set xs" for y using Cons.prems that by simp
  have IH: "xs = filter (\<lambda>y. f y < k) xs @ filter (\<lambda>y. f y = k) xs @ filter (\<lambda>y. k < f y) xs"
    using Cons by simp
  consider "f x < k" | "f x = k" | "k < f x" by linarith
  then show ?case
  proof cases
    case 1
    then show ?thesis using IH by simp
  next
    case 2
    then have "filter (\<lambda>y. f y < k) xs = []" using le by (fastforce simp: filter_empty_conv)
    then show ?thesis using 2 IH by simp
  next
    case 3
    then have "filter (\<lambda>y. f y < k) xs = []" "filter (\<lambda>y. f y = k) xs = []"
      using le by (fastforce simp: filter_empty_conv)+
    then show ?thesis using 3 IH by simp
  qed
qed simp

lemma distinct_short: "distinct xs \<Longrightarrow> set xs = set ms \<Longrightarrow> ms = [] \<or> ms = [a] \<Longrightarrow> xs = ms"
  by (cases xs; cases "tl xs") auto

lemma sorted_side_keys:
  assumes "links_ok_but X s"
  shows "sorted (map (\<lambda>x. rank sd (fst x)) (sorted_side sd s))"
    "distinct (map (\<lambda>x. rank sd (fst x)) (sorted_side sd s))"
proof -
  show "sorted (map (\<lambda>x. rank sd (fst x)) (sorted_side sd s))"
    using sorted_sort_key [of "\<lambda>(p, l). rank sd p" "side_map sd s"]
    by (simp add: sorted_side_def split_def)
  have "distinct (map (rank sd) (map fst (sorted_side sd s)))"
    using sorted_side_distinct(1) [OF assms, of sd] by (auto simp: distinct_map inj_on_def)
  then show "distinct (map (\<lambda>x. rank sd (fst x)) (sorted_side sd s))" by (simp add: comp_def)
qed

lemma rested_resting_other:
  assumes r: "restable s sd p a" and d: "sd' \<noteq> sd"
  shows "resting sd' (rested sd p a s) = resting sd' s"
proof (rule resting_cong)
  have ok: "links_ok s" using r by (simp add: restable_def)
  show sm: "side_map sd' (rested sd p a s) = side_map sd' s" using d by simp
  fix p' l' assume pls: "(p', l') \<in> set (side_map sd' s)"
  then have pl: "(p', l') \<in> set (side_map sd' (rested sd p a s))" by (simp only: sm)
  show "content (rested sd p a s) l' = content s l'"
    using rested_content [OF r pl] rested_other_level [OF ok pl] d by auto
qed

lemma rested_resting:
  assumes r: "restable s sd p a"
  shows "resting sd (rested sd p a s) = spec_insert (rank sd) (core (nodes s a)) (resting sd s)"
proof -
  let ?s = "rested sd p a s" and ?l = "level_ref sd p s" and ?n = "core (nodes s a)"
  let ?Q = "map (\<lambda>b. core (nodes s b)) (level_queue sd p s)"
  let ?L = "sorted_side sd s" and ?f = "\<lambda>x. rank sd (fst x)" and ?k = "rank sd p"
  let ?lo = "filter (\<lambda>y. ?f y < ?k) ?L" and ?hi = "filter (\<lambda>y. ?k < ?f y) ?L"
  let ?g = "\<lambda>(p, l). content s l"
  have ok: "links_ok s" and pr: "price_of (nodes s a) = p"
    using r by (simp_all add: restable_def price_of_def)
  have ok': "links_ok ?s" by (rule rested_links [OF r])
  have set': "set (sorted_side sd ?s) = insert (p, ?l) {x \<in> set ?L. fst x \<noteq> p}"
    using side_map_wf [OF ok, of sd] by (simp add: set_map_set)
  have new: "(p, ?l) \<in> set (side_map sd ?s)"
    using side_map_wf [OF ok, of sd] by (simp add: set_map_set)
  have sub: "x \<in> set (side_map sd ?s)" if "x \<in> set ?L" "fst x \<noteq> p" for x
    using that side_map_wf [OF ok, of sd] by (simp add: set_map_set)
  have L': "sorted_side sd ?s = ?lo @ (p, ?l) # ?hi"
  proof (rule sorted_key_unique [of ?f])
    have s: "sorted (map ?f (filter P ?L))" "distinct (map ?f (filter P ?L))" for P
      using sorted_side_keys [OF ok, of sd] by (auto simp: sorted_filter distinct_map_filter)
    show "sorted (map ?f (?lo @ (p, ?l) # ?hi))" using s by (auto simp: sorted_append)
    show "distinct (map ?f (?lo @ (p, ?l) # ?hi))" using s by auto
    have "fst x \<noteq> p \<longleftrightarrow> ?f x < ?k \<or> ?k < ?f x" for x :: "int \<times> nat"
      by (metis linorder_neq_iff rank_inj)
    then show "set (sorted_side sd ?s) = set (?lo @ (p, ?l) # ?hi)" unfolding set' by auto
  qed (use sorted_side_keys [OF ok', of sd] in auto)
  have L: "concat (map ?g ?L) = concat (map ?g ?lo) @ ?Q @ concat (map ?g ?hi)"
  proof -
    have keyp: "?f y = ?k \<longleftrightarrow> y = (p, ?l)" if "y \<in> set ?L" for y
    proof -
      have "map_get (side_map sd s) (fst y) = Some (snd y)"
        using that side_map_wf [OF ok, of sd] by (simp add: map_get_iff)
      then show ?thesis by (cases y) (auto simp: level_ref_def)
    qed
    define ms where "ms = (case map_get (side_map sd s) p of None \<Rightarrow> [] | Some l \<Rightarrow> [(p, l)])"
    have "set ms = {y \<in> set ?L. ?f y = ?k}"
    proof (cases "map_get (side_map sd s) p")
      case None
      then have "\<forall>y \<in> set ?L. fst y \<noteq> p" by (auto simp: map_get_None_iff)
      then show ?thesis using None by (auto simp: ms_def)
    next
      case (Some l)
      then show ?thesis using keyp map_get_Some_in [OF Some] by (auto simp: ms_def level_ref_def)
    qed
    moreover have "distinct (filter (\<lambda>y. ?f y = ?k) ?L)"
      using sorted_side_keys(2) [OF ok, of sd] by (simp add: distinct_map)
    moreover have "ms = [] \<or> ms = [(p, the (map_get (side_map sd s) p))]"
      by (simp add: ms_def split: option.split)
    ultimately have "filter (\<lambda>y. ?f y = ?k) ?L = ms" by (metis distinct_short set_filter)
    then have "?L = ?lo @ ms @ ?hi"
      using filter_split_sorted [OF sorted_side_keys(1) [OF ok, of sd], of ?k] by simp
    then have "concat (map ?g ?L) = concat (map ?g ?lo) @ concat (map ?g ms) @ concat (map ?g ?hi)"
      by (metis concat_append map_append)
    moreover have "concat (map ?g ms) = ?Q"
      by (simp add: ms_def level_queue_def content_def split: option.split)
    ultimately show ?thesis by simp
  qed
  have cont: "map (\<lambda>(p, l). content ?s l) M = map ?g M" if "set M \<subseteq> {x \<in> set ?L. ?f x \<noteq> ?k}" for M
  proof (rule map_cong)
    fix x assume "x \<in> set M"
    then have x: "x \<in> set ?L" "fst x \<noteq> p" using that by auto
    obtain p' l' where x': "x = (p', l')" by (cases x)
    have pl: "(p', l') \<in> set (side_map sd ?s)" using sub [OF x] x' by (simp del: rested_side)
    have "l' \<noteq> ?l" using rested_other_level [OF ok pl] x x' by auto
    then show "(case x of (p, l) \<Rightarrow> content ?s l) = ?g x" using rested_content [OF r pl] x' by simp
  qed simp
  have lohi: "map (\<lambda>(p, l). content ?s l) ?lo = map ?g ?lo" "map (\<lambda>(p, l). content ?s l) ?hi = map ?g ?hi"
    by (rule cont, force)+
  have R': "resting sd ?s = concat (map ?g ?lo) @ (?Q @ [?n]) @ concat (map ?g ?hi)"
    unfolding resting_def L' map_append list.map lohi concat_append concat.simps
    using rested_content [OF r new] by simp
  have price: "price_of n = fst x" if "x \<in> set ?L" "n \<in> set (?g x)" for n x
    using content_price [OF ok, of "fst x" "snd x" sd n] that by (simp add: split_def)
  have lo: "rank sd (price_of n) \<le> ?k" if "n \<in> set (concat (map ?g ?lo) @ ?Q)" for n
  proof -
    have "price_of n = p" if "n \<in> set ?Q"
      using that level_queue_member [OF ok, of _ sd p] level_member(2) [OF ok, of p ?l sd]
      by (auto simp: price_of_def)
    then show ?thesis using that price by fastforce
  qed
  have hi: "?k < rank sd (price_of n)" if "n \<in> set (concat (map ?g ?hi))" for n
    using that price by fastforce
  let ?P = "\<lambda>n. rank sd (price_of n) \<le> ?k"
  have "takeWhile ?P (concat (map ?g ?hi)) = [] \<and> dropWhile ?P (concat (map ?g ?hi)) = concat (map ?g ?hi)"
    using hi hd_in_set [of "concat (map ?g ?hi)"] by (fastforce simp: takeWhile_eq_Nil_iff dropWhile_eq_self_iff)
  moreover have "takeWhile ?P ((concat (map ?g ?lo) @ ?Q) @ ys) = (concat (map ?g ?lo) @ ?Q) @ takeWhile ?P ys \<and>
      dropWhile ?P ((concat (map ?g ?lo) @ ?Q) @ ys) = dropWhile ?P ys" for ys
    using lo by (intro conjI takeWhile_append2 dropWhile_append2) auto
  ultimately show ?thesis
    unfolding R' by (simp add: spec_insert_def resting_def L pr)
qed

subsection \<open>addRestingOrder computes it\<close>

lemma appended_set_same:
  assumes "map_get (side_map sd s) p = Some l"
  shows "upd_side sd (\<lambda>m. map_set m p l) s = s"
  using map_set_same [OF assms] by (cases sd) (simp_all add: upd_side_def side_map_def)

lemma addRestingOrder_eq:
  assumes r: "restable s sd p a"
  shows "addRestingOrder a s = (Inr (), appended sd p a s)"
proof -
  have ok: "links_ok s" and n: "isLimitOrder (nodes s a)" "on_side (nodes s a) = sd"
    "on_priceTicks (nodes s a) = Some p"
    using r by (simp_all add: restable_def isLimitOrder_def)
  have ap: "appendable (level_obj sd p s) (nodes s a)"
    using r level_obj_rep [OF ok, of sd p] live_rem [of s "nodes s a"]
    by (simp add: appendable_def restable_def)
  show ?thesis
  proof (cases "map_get (side_map sd s) p")
    case (Some l)
    have aq: "a \<notin> set (level_addrs s l)"
      using outside_levels [OF ok map_get_Some_in [OF Some]] r by (simp add: restable_def)
    have rep: "level_rep (nodes s) l (levels s l) (level_addrs s l)"
      by (rule level_okD(1) [OF ok map_get_Some_in [OF Some]])
    have "append_level l (Some a) s = (Inr (), appended sd p a s)"
      using append_level_eq [OF rep aq] ap Some
      by (simp add: appended_def level_ref_def level_obj_def level_queue_def level_next_def
          appended_set_same)
    then show ?thesis using n Some by (simp add: addRestingOrder_def)
  next
    case None
    let ?s = "upd_side sd (\<lambda>m. map_set m p (nextRef s))
      (s\<lparr>levels := (levels s)(nextRef s := fresh_level p), nextRef := Suc (nextRef s)\<rparr>)"
    have sel: "nodes ?s = nodes s" "levels ?s = (levels s)(nextRef s := fresh_level p)"
      by (simp_all add: upd_side_def split: Side.split)
    have rep: "level_rep (nodes ?s) (nextRef s) (levels ?s (nextRef s)) []"
      unfolding sel by (simp add: level_rep_def) (simp add: fresh_level_def)
    have "append_level (nextRef s) (Some a) ?s = (Inr (), appended sd p a s)"
      using append_level_eq [OF rep, of a] ap None
      by (cases sd) (simp_all add: sel level_obj_def upd_side_def appended_def level_ref_def level_queue_def level_next_def)
    moreover have "pl_priceTicks (fresh_level p) = p" by (simp add: fresh_level_def)
    ultimately show ?thesis
      using n None new_PriceLevel_ok [OF restable_price [OF r]]
      by (simp add: addRestingOrder_def bindE_assoc alloc_level_def bindE_Inr)
  qed
qed

end
