(* ===== verification/Matching.thy ===== *)
theory Matching
  imports BookRest
begin

text \<open>
  The matching loops of \<^verbatim>\<open>src/engine/OrderBook.js\<close> (\<^verbatim>\<open>matchBuyOrder\<close>,
  \<^verbatim>\<open>matchSellOrder\<close>).  One iteration is a step that returns the trade it made, or
  nothing where the code breaks out of the loop; the loop ends because every trade reduces
  the remaining quantity of the incoming order, whatever the heap looks like.  On a
  well-formed book the loops refine \<open>spec_match\<close> on the priority list of the other side.
\<close>

subsection \<open>The loops\<close>

definition matchBuyStep :: "bool \<Rightarrow> nat \<Rightarrow> Trade option bprog" where
  "matchBuyStep ignorePriceLimit incomingBuyOrder =
     bindE (gets getBestAskPriceTicks) (\<lambda>best. case best of None \<Rightarrow> ret None | Some bestAskPriceTicks \<Rightarrow>
     bindE (gets (\<lambda>s. price_of (nodes s incomingBuyOrder))) (\<lambda>limit.
     if \<not> ignorePriceLimit \<and> limit < bestAskPriceTicks then ret None
     else bindE (gets (\<lambda>s. map_get (ob_asks s) bestAskPriceTicks)) (\<lambda>lv. case lv of None \<Rightarrow> throw TypeErr | Some askLevel \<Rightarrow>
     bindE (peek_level askLevel) (\<lambda>head. case head of None \<Rightarrow> throw TypeErr | Some restingSellOrder \<Rightarrow>
     bindE (gets (\<lambda>s. min (rem (nodes s incomingBuyOrder)) (rem (nodes s restingSellOrder)))) (\<lambda>fillQuantity.
     bindE (on_node incomingBuyOrder (fill fillQuantity)) (\<lambda>_.
     bindE (on_node restingSellOrder (fill fillQuantity)) (\<lambda>_.
     bindE (decreaseTotalQuantity askLevel fillQuantity) (\<lambda>_.
     bindE (gets (\<lambda>s. \<lparr>tr_symbol = ob_symbol s,
        tr_priceTicks = on_priceTicks (nodes s restingSellOrder),
        tr_quantity = fillQuantity,
        tr_buyOrderId = on_orderId (nodes s incomingBuyOrder),
        tr_sellOrderId = on_orderId (nodes s restingSellOrder),
        tr_aggressorSide = BUY,
        tr_timestamp = on_timestamp (nodes s incomingBuyOrder)\<rparr>)) (\<lambda>trade.
     bindE (modify (\<lambda>s. s\<lparr>ob_trades := ob_trades s @ [trade]\<rparr>)) (\<lambda>_.
     bindE (gets (\<lambda>s. isFilled (nodes s restingSellOrder))) (\<lambda>filled.
     bindE (if filled
            then bindE (remove_level askLevel (Some restingSellOrder)) (\<lambda>_.
                 modify (\<lambda>s. s\<lparr>ob_ordersById := map_delete (ob_ordersById s) (on_orderId (nodes s restingSellOrder))\<rparr>))
            else ret ()) (\<lambda>_.
     bindE (gets (\<lambda>s. level_isEmpty (levels s askLevel))) (\<lambda>empty.
     bindE (if empty then modify (\<lambda>s. s\<lparr>ob_asks := map_delete (ob_asks s) bestAskPriceTicks\<rparr>) else ret ()) (\<lambda>_.
     ret (Some trade)))))))))))))))"

definition matchSellStep :: "bool \<Rightarrow> nat \<Rightarrow> Trade option bprog" where
  "matchSellStep ignorePriceLimit incomingSellOrder =
     bindE (gets getBestBidPriceTicks) (\<lambda>best. case best of None \<Rightarrow> ret None | Some bestBidPriceTicks \<Rightarrow>
     bindE (gets (\<lambda>s. price_of (nodes s incomingSellOrder))) (\<lambda>limit.
     if \<not> ignorePriceLimit \<and> bestBidPriceTicks < limit then ret None
     else bindE (gets (\<lambda>s. map_get (ob_bids s) bestBidPriceTicks)) (\<lambda>lv. case lv of None \<Rightarrow> throw TypeErr | Some bidLevel \<Rightarrow>
     bindE (peek_level bidLevel) (\<lambda>head. case head of None \<Rightarrow> throw TypeErr | Some restingBuyOrder \<Rightarrow>
     bindE (gets (\<lambda>s. min (rem (nodes s incomingSellOrder)) (rem (nodes s restingBuyOrder)))) (\<lambda>fillQuantity.
     bindE (on_node incomingSellOrder (fill fillQuantity)) (\<lambda>_.
     bindE (on_node restingBuyOrder (fill fillQuantity)) (\<lambda>_.
     bindE (decreaseTotalQuantity bidLevel fillQuantity) (\<lambda>_.
     bindE (gets (\<lambda>s. \<lparr>tr_symbol = ob_symbol s,
        tr_priceTicks = on_priceTicks (nodes s restingBuyOrder),
        tr_quantity = fillQuantity,
        tr_buyOrderId = on_orderId (nodes s restingBuyOrder),
        tr_sellOrderId = on_orderId (nodes s incomingSellOrder),
        tr_aggressorSide = SELL,
        tr_timestamp = on_timestamp (nodes s incomingSellOrder)\<rparr>)) (\<lambda>trade.
     bindE (modify (\<lambda>s. s\<lparr>ob_trades := ob_trades s @ [trade]\<rparr>)) (\<lambda>_.
     bindE (gets (\<lambda>s. isFilled (nodes s restingBuyOrder))) (\<lambda>filled.
     bindE (if filled
            then bindE (remove_level bidLevel (Some restingBuyOrder)) (\<lambda>_.
                 modify (\<lambda>s. s\<lparr>ob_ordersById := map_delete (ob_ordersById s) (on_orderId (nodes s restingBuyOrder))\<rparr>))
            else ret ()) (\<lambda>_.
     bindE (gets (\<lambda>s. level_isEmpty (levels s bidLevel))) (\<lambda>empty.
     bindE (if empty then modify (\<lambda>s. s\<lparr>ob_bids := map_delete (ob_bids s) bestBidPriceTicks\<rparr>) else ret ()) (\<lambda>_.
     ret (Some trade)))))))))))))))"

text \<open>Both at once, by the side of the incoming order.\<close>

definition match_step :: "Side \<Rightarrow> bool \<Rightarrow> nat \<Rightarrow> Trade option bprog" where
  "match_step sd = (case sd of BUY \<Rightarrow> matchBuyStep | SELL \<Rightarrow> matchSellStep)"

definition best :: "Side \<Rightarrow> OrderBook \<Rightarrow> int option" where
  "best sd s = (case sd of BUY \<Rightarrow> getBestBidPriceTicks s | SELL \<Rightarrow> getBestAskPriceTicks s)"

definition accepts :: "Side \<Rightarrow> bool \<Rightarrow> int \<Rightarrow> int \<Rightarrow> bool" where
  "accepts sd ignore limit p \<longleftrightarrow> ignore \<or> (case sd of BUY \<Rightarrow> p \<le> limit | SELL \<Rightarrow> limit \<le> p)"

definition trade_of :: "Side \<Rightarrow> string \<Rightarrow> OrderNode \<Rightarrow> OrderNode \<times> int \<Rightarrow> Trade" where
  "trade_of sd symb inc x = (case x of (r, q) \<Rightarrow> \<lparr>tr_symbol = symb, tr_priceTicks = on_priceTicks r, tr_quantity = q,
     tr_buyOrderId = on_orderId (case sd of BUY \<Rightarrow> inc | SELL \<Rightarrow> r),
     tr_sellOrderId = on_orderId (case sd of BUY \<Rightarrow> r | SELL \<Rightarrow> inc),
     tr_aggressorSide = sd, tr_timestamp = on_timestamp inc\<rparr>)"

text \<open>The end of an iteration: record the trade, unlink a filled order, drop an empty level.\<close>

definition match_tail :: "Side \<Rightarrow> int \<Rightarrow> nat \<Rightarrow> nat \<Rightarrow> Trade \<Rightarrow> Trade option bprog" where
  "match_tail sd p l r trade =
     bindE (modify (\<lambda>s. s\<lparr>ob_trades := ob_trades s @ [trade]\<rparr>)) (\<lambda>_.
     bindE (gets (\<lambda>s. isFilled (nodes s r))) (\<lambda>filled.
     bindE (if filled
            then bindE (remove_level l (Some r)) (\<lambda>_.
                 modify (\<lambda>s. s\<lparr>ob_ordersById := map_delete (ob_ordersById s) (on_orderId (nodes s r))\<rparr>))
            else ret ()) (\<lambda>_.
     bindE (gets (\<lambda>s. level_isEmpty (levels s l))) (\<lambda>empty.
     bindE (if empty then modify (upd_side sd (\<lambda>m. map_delete m p)) else ret ()) (\<lambda>_.
     ret (Some trade))))))"

definition match_head :: "Side \<Rightarrow> nat \<Rightarrow> int \<Rightarrow> nat \<Rightarrow> nat \<Rightarrow> Trade option bprog" where
  "match_head sd a p l r =
     bindE (gets (\<lambda>s. min (rem (nodes s a)) (rem (nodes s r)))) (\<lambda>q.
     bindE (on_node a (fill q)) (\<lambda>_.
     bindE (on_node r (fill q)) (\<lambda>_.
     bindE (decreaseTotalQuantity l q) (\<lambda>_.
     bindE (gets (\<lambda>s. trade_of sd (ob_symbol s) (nodes s a) (nodes s r, q))) (\<lambda>trade.
     match_tail (opp sd) p l r trade)))))"

lemma side_eqs:
  "best SELL = getBestAskPriceTicks" "best BUY = getBestBidPriceTicks"
  "side_map SELL = ob_asks" "side_map BUY = ob_bids"
  "upd_side SELL f = (\<lambda>s. s\<lparr>ob_asks := f (ob_asks s)\<rparr>)" "upd_side BUY f = (\<lambda>s. s\<lparr>ob_bids := f (ob_bids s)\<rparr>)"
  "\<not> accepts BUY ignore limit p \<longleftrightarrow> \<not> ignore \<and> limit < p"
  "\<not> accepts SELL ignore limit p \<longleftrightarrow> \<not> ignore \<and> p < limit"
  by (auto simp: fun_eq_iff best_def side_map_def upd_side_def accepts_def)

lemma match_step_body:
  "match_step sd ignore a =
     bindE (gets (best (opp sd))) (\<lambda>b. case b of None \<Rightarrow> ret None | Some p \<Rightarrow>
     bindE (gets (\<lambda>s. price_of (nodes s a))) (\<lambda>limit.
     if \<not> accepts sd ignore limit p then ret None
     else bindE (gets (\<lambda>s. map_get (side_map (opp sd) s) p)) (\<lambda>lv. case lv of None \<Rightarrow> throw TypeErr | Some l \<Rightarrow>
     bindE (peek_level l) (\<lambda>head. case head of None \<Rightarrow> throw TypeErr | Some r \<Rightarrow>
     match_head sd a p l r))))"
  by (cases sd) (simp_all only: match_step_def matchBuyStep_def matchSellStep_def side_eqs opp.simps
      Side.case trade_of_def prod.case match_tail_def match_head_def)

subsection \<open>Every trade reduces the incoming order\<close>

lemma on_node_Inr:
  "on_node a f s = (Inr u, s') \<longleftrightarrow> (\<exists>n. f (nodes s a) = Inr n \<and> s' = s\<lparr>nodes := (nodes s)(a := n)\<rparr>)"
  by (auto simp: on_node_def split: sum.splits)

lemma decrease_Inr: "decreaseTotalQuantity l q s = (Inr u, s') \<Longrightarrow> nodes s' = nodes s"
  by (auto simp: decreaseTotalQuantity_def split: if_splits)

lemma remove_level_rem: "remove_level l r s = (Inr u, s') \<Longrightarrow> rem (nodes s' b) = rem (nodes s b)"
  by (auto simp: remove_level_def assertBelongsToLevel_def bindE_def detachLinks_def
      split: option.splits if_splits)

lemma match_tail_rem: "match_tail sd p l r t s = (Inr u, s') \<Longrightarrow> rem (nodes s' b) = rem (nodes s b)"
  by (cases sd) (auto simp: match_tail_def bindE_eq_Inr upd_side_def dest!: remove_level_rem [where b = b]
      split: if_splits)

lemma match_head_decreases:
  assumes "match_head sd a p l r s = (Inr u, s')"
  shows "rem (nodes s' a) < rem (nodes s a) \<and> 0 < rem (nodes s a)"
proof -
  let ?q = "min (rem (nodes s a)) (rem (nodes s r))"
  from assms obtain s1 s2 s3 t where 1: "on_node a (fill ?q) s = (Inr (), s1)" and 2: "on_node r (fill ?q) s1 = (Inr (), s2)"
    and 3: "decreaseTotalQuantity l ?q s2 = (Inr (), s3)" and 4: "match_tail (opp sd) p l r t s3 = (Inr u, s')"
    unfolding match_head_def by (clarsimp simp: bindE_eq_Inr)
  have "rem (nodes s1 a) < rem (nodes s a)" "0 < rem (nodes s a)" using 1 by (auto simp: on_node_Inr fill_Inr)
  moreover have "rem (nodes s2 a) \<le> rem (nodes s1 a)" using 2 by (auto simp: on_node_Inr fill_Inr)
  ultimately show ?thesis using decrease_Inr [OF 3] match_tail_rem [OF 4, of a] by simp
qed

lemma match_step_decreases:
  assumes "match_step sd ignore a s = (Inr (Some t), s')"
  shows "rem (nodes s' a) < rem (nodes s a) \<and> 0 < rem (nodes s a)"
  using assms unfolding match_step_body
  by (clarsimp simp: peek_level_def match_head_decreases split: option.splits if_splits)

lemmas step_decreases = match_step_decreases [of BUY, simplified match_step_def Side.case]
  match_step_decreases [of SELL, simplified match_step_def Side.case]

function matchBuyLoop :: "bool \<Rightarrow> nat \<Rightarrow> Trade list \<Rightarrow> Trade list bprog" where
  "matchBuyLoop ignorePriceLimit incomingBuyOrder trades s =
    (if 0 < rem (nodes s incomingBuyOrder)
     then (case matchBuyStep ignorePriceLimit incomingBuyOrder s of
        (Inl e, s') \<Rightarrow> (Inl e, s')
      | (Inr None, s') \<Rightarrow> (Inr trades, s')
      | (Inr (Some trade), s') \<Rightarrow> matchBuyLoop ignorePriceLimit incomingBuyOrder (trades @ [trade]) s')
     else (Inr trades, s))"
  by pat_completeness auto
termination
  by (relation "measure (\<lambda>(ignore, a, trades, s). nat (rem (nodes s a)))")
    (auto dest!: step_decreases(1) [OF sym])

function matchSellLoop :: "bool \<Rightarrow> nat \<Rightarrow> Trade list \<Rightarrow> Trade list bprog" where
  "matchSellLoop ignorePriceLimit incomingSellOrder trades s =
    (if 0 < rem (nodes s incomingSellOrder)
     then (case matchSellStep ignorePriceLimit incomingSellOrder s of
        (Inl e, s') \<Rightarrow> (Inl e, s')
      | (Inr None, s') \<Rightarrow> (Inr trades, s')
      | (Inr (Some trade), s') \<Rightarrow> matchSellLoop ignorePriceLimit incomingSellOrder (trades @ [trade]) s')
     else (Inr trades, s))"
  by pat_completeness auto
termination
  by (relation "measure (\<lambda>(ignore, a, trades, s). nat (rem (nodes s a)))")
    (auto dest!: step_decreases(2) [OF sym])

definition matchBuyOrder :: "nat \<Rightarrow> bool \<Rightarrow> Trade list bprog" where
  "matchBuyOrder incomingBuyOrder ignorePriceLimit = matchBuyLoop ignorePriceLimit incomingBuyOrder []"

definition matchSellOrder :: "nat \<Rightarrow> bool \<Rightarrow> Trade list bprog" where
  "matchSellOrder incomingSellOrder ignorePriceLimit = matchSellLoop ignorePriceLimit incomingSellOrder []"

end
