(* ===== verification/MatchRefine.thy ===== *)
theory MatchRefine
  imports Matching
begin

text \<open>
  The refinement of the matching loops: on a well-formed book \<^verbatim>\<open>matchBuyOrder\<close> and
  \<^verbatim>\<open>matchSellOrder\<close> return normally, their trades are those of \<open>spec_match\<close> on the
  priority list of the other side, that list becomes what \<open>spec_match\<close> leaves, and nothing
  else of the book changes.
\<close>

subsection \<open>The best level\<close>

lemma best_hd:
  assumes ok: "links_ok_but X s" and hd: "sorted_side sd s = (p, l) # L"
  shows "best sd s = Some p" "map_get (side_map sd s) p = Some l" "(p, l) \<in> set (side_map sd s)"
proof -
  have pl: "(p, l) \<in> set (sorted_side sd s)" using hd by simp
  then show in_s: "(p, l) \<in> set (side_map sd s)" by simp
  then show "map_get (side_map sd s) p = Some l" using side_map_wf [OF ok] by (simp add: map_get_iff)
  have "rank sd p \<le> rank sd (fst x)" if "x \<in> set (side_map sd s)" for x
  proof -
    have "x \<in> set ((p, l) # L)" using that by (simp flip: hd)
    then show ?thesis using sorted_side_keys(1) [OF ok, of sd] by (auto simp: hd)
  qed
  then have min: "rank sd p \<le> rank sd k" if "k \<in> fst ` set (side_map sd s)" for k using that by auto
  have mem: "p \<in> fst ` set (side_map sd s)" using in_s by force
  show "best sd s = Some p"
  proof (cases sd)
    case BUY
    then have "Max (fst ` set (ob_bids s)) = p"
      using min mem by (intro Max_eqI) (auto simp: side_map_def rank_def)
    then show ?thesis using BUY in_s
      by (auto simp: best_def getBestBidPriceTicks_def map_keys_def side_map_def)
  next
    case SELL
    then have "Min (fst ` set (ob_asks s)) = p"
      using min mem by (intro Min_eqI) (auto simp: side_map_def rank_def)
    then show ?thesis using SELL in_s
      by (auto simp: best_def getBestAskPriceTicks_def map_keys_def side_map_def)
  qed
qed

lemma best_none: "sorted_side sd s = [] \<Longrightarrow> best sd s = None"
proof -
  assume "sorted_side sd s = []"
  then have "side_map sd s = []" by (metis set_empty sorted_side_set)
  then show ?thesis
    by (cases sd) (simp_all add: best_def getBestBidPriceTicks_def getBestAskPriceTicks_def side_map_def)
qed

text \<open>The order the code peeks at is the head of the priority list.\<close>

lemma resting_hd:
  assumes ok: "links_ok s" and hd: "sorted_side sd s = (p, l) # L"
  obtains b ys rs where "level_addrs s l = b # ys" "pl_head (levels s l) = Some b"
    "resting sd s = core (nodes s b) # rs" "price_of (nodes s b) = p"
proof -
  note pl = best_hd(3) [OF ok hd]
  note L = level_okD [OF ok pl]
  obtain b ys where as: "level_addrs s l = b # ys" using L(2) by (cases "level_addrs s l") auto
  then have "pl_head (levels s l) = Some b" using L(1) by (simp add: level_rep_def)
  moreover have "price_of (nodes s b) = p"
    using level_member(2) [OF ok pl] as by (simp add: price_of_def)
  moreover have "resting sd s = core (nodes s b) #
      (map (\<lambda>a. core (nodes s a)) ys @ concat (map (\<lambda>(p, l). content s l) L))"
    by (simp add: resting_def hd content_def as)
  ultimately show ?thesis using that as by blast
qed

lemma resting_empty: "links_ok s \<Longrightarrow> resting sd s = [] \<longleftrightarrow> sorted_side sd s = []"
proof
  assume ok: "links_ok s" and e: "resting sd s = []"
  show "sorted_side sd s = []"
  proof (cases "sorted_side sd s")
    case (Cons x L)
    obtain p l where "x = (p, l)" by (cases x)
    then show ?thesis using resting_hd [OF ok, of sd p l L] Cons e by auto
  qed simp
qed (simp add: resting_def)

subsection \<open>The effect of a fill on the priority lists\<close>

lemma member_id_eq:
  assumes "links_ok_but X s" "(p, l) \<in> set (side_map sd s)" "a \<in> set (level_addrs s l)"
    and "(p', l') \<in> set (side_map sd' s)" "b \<in> set (level_addrs s l')"
    and "on_orderId (nodes s a) = on_orderId (nodes s b)"
  shows "a = b"
  using level_member(3) [OF assms(1-3)] level_member(3) [OF assms(1,4,5)] assms(6)
  by (simp add: member_ok_def)

text \<open>An identifier rests at most once in the whole book.\<close>

lemma resting_ids_cross:
  assumes ok: "links_ok s" and n: "n \<in> set (resting sd s)" and m: "m \<in> set (resting sd' s)"
    and id: "on_orderId n = on_orderId m"
  shows "sd = sd' \<and> n = m"
proof -
  obtain p l a where a: "(p, l) \<in> set (side_map sd s)" "a \<in> set (level_addrs s l)" "n = core (nodes s a)"
    using n by (auto simp: resting_member)
  obtain p' l' b where b: "(p', l') \<in> set (side_map sd' s)" "b \<in> set (level_addrs s l')" "m = core (nodes s b)"
    using m by (auto simp: resting_member)
  have "a = b" using member_id_eq [OF ok a(1,2) b(1,2)] id a b by simp
  moreover have "on_side n = sd" "on_side m = sd'"
    using resting_props(2) [OF ok n] resting_props(2) [OF ok m] .
  ultimately show ?thesis using a b by auto
qed

lemma fill_resting:
  assumes ok: "links_ok s" and pl: "(p, l) \<in> set (side_map sd s)" and a: "a \<in> set (level_addrs s l)"
  shows "resting sd' (fill_in_level l a q s) =
    map (\<lambda>n. if on_orderId n = on_orderId (nodes s a) then filled_by q n else n) (resting sd' s)"
proof -
  let ?f = "\<lambda>n. if on_orderId n = on_orderId (nodes s a) then filled_by q n else n"
  have "content (fill_in_level l a q s) l' = map ?f (content s l')" if pl': "(p', l') \<in> set (side_map sd' s)" for p' l'
  proof (cases "l' = l")
    case False
    have "on_orderId n \<noteq> on_orderId (nodes s a)" if n: "n \<in> set (content s l')" for n
    proof -
      obtain b where b: "b \<in> set (level_addrs s l')" "n = core (nodes s b)" using n by (auto simp: content_def)
      then show ?thesis
        using member_id_eq [OF ok pl' b(1) pl a] addrs_disjoint [OF ok pl' pl b(1)] a False by auto
    qed
    then show ?thesis using fill_content [OF ok pl a pl', of q] False by (simp add: map_idI)
  qed (use fill_content [OF ok pl a pl', of q] in simp)
  moreover have "sorted_side sd' (fill_in_level l a q s) = sorted_side sd' s" by (simp add: sorted_side_def)
  ultimately show ?thesis 
    unfolding resting_def map_concat by (auto intro!: arg_cong [where f = concat])
qed

lemma sum_list_ge_member: "(\<And>x. x \<in> set xs \<Longrightarrow> 0 \<le> f x) \<Longrightarrow> x \<in> set xs \<Longrightarrow> f x \<le> (sum_list (map f xs) :: int)"
proof (induction xs)
  case (Cons y ys)
  have "0 \<le> sum_list (map f ys)" using Cons.prems(1) by (intro sum_list_nonneg) auto
  then show ?case using Cons by (auto intro: add_increasing)
qed simp

lemma level_total_ge:
  assumes "links_ok s" "(p, l) \<in> set (side_map sd s)" "a \<in> set (level_addrs s l)"
  shows "rem (nodes s a) \<le> pl_totalQuantity (levels s l)"
proof -
  have "0 \<le> rem (nodes s b)" if "b \<in> set (level_addrs s l)" for b
    using level_member(3) [OF assms(1,2) that] live_rem by (force simp: member_ok_def)
  then show ?thesis
    using sum_list_ge_member [of "level_addrs s l" "\<lambda>b. rem (nodes s b)" a] level_okD(1) [OF assms(1,2)] assms(3)
    by (simp add: level_rep_def)
qed

subsection \<open>One iteration\<close>

text \<open>The incoming order: it is in no level and still active.\<close>

definition incoming :: "OrderBook \<Rightarrow> Side \<Rightarrow> nat \<Rightarrow> bool" where
  "incoming s sd a \<longleftrightarrow> a < nextRef s \<and> on_side (nodes s a) = sd \<and> node_ok (nodes s a) \<and>
     (0 < rem (nodes s a) \<longrightarrow> isActive (nodes s a)) \<and> on_priceLevel (nodes s a) = None"

text \<open>Everything the loops leave alone.\<close>

definition same_scalars :: "OrderBook \<Rightarrow> OrderBook \<Rightarrow> bool" where
  "same_scalars s s' \<longleftrightarrow> ob_symbol s' = ob_symbol s \<and> ob_stopOrdersById s' = ob_stopOrdersById s \<and>
     ob_lastTradePriceTicks s' = ob_lastTradePriceTicks s \<and> ob_sequence s' = ob_sequence s \<and>
     ob_clock s' = ob_clock s \<and> ob_ticks s' = ob_ticks s \<and> nextRef s' = nextRef s"

lemma same_scalars_refl [simp]: "same_scalars s s"
  by (simp add: same_scalars_def)

lemma same_scalars_trans: "same_scalars s t \<Longrightarrow> same_scalars t u \<Longrightarrow> same_scalars s u"
  by (simp add: same_scalars_def)

lemma fill_scalars [simp]: "same_scalars s (fill_in_level l a q s)"
  by (simp add: same_scalars_def fill_in_level_def)

lemma unlinked_scalars [simp]: "same_scalars s (unlinked sd p l xs a ys s)"
  by (simp add: same_scalars_def)

lemma match_tail_filled:
  assumes ok: "links_ok_but {b} s" and pl: "(p, l) \<in> set (side_map sd s)"
    and as: "level_addrs s l = b # ys" and f: "isFilled (nodes s b)"
  shows "match_tail sd p l b t s = (Inr (Some t), unlinked sd p l [] b ys (s\<lparr>ob_trades := ob_trades s @ [t]\<rparr>))"
proof -
  let ?s = "s\<lparr>ob_trades := ob_trades s @ [t]\<rparr>"
  have rep: "level_rep (nodes ?s) l (levels ?s l) ([] @ b # ys)"
    using level_okD(1) [OF ok pl] as by simp
  then have cnt: "pl_orderCount (levels s l) = 1 + int (length ys)" by (simp add: level_rep_def)
  have rm: "bindE (remove_level l (Some b)) k ?s = k () (?s\<lparr>nodes := removed_nodes (nodes s) [] b ys,
      levels := (levels s)(l := removed_level (levels s l) [] ys (rem (nodes s b)))\<rparr>)"
    for k :: "unit \<Rightarrow> 'r bprog"
    using remove_level_eq [OF rep] by (simp add: bindE_def)
  show ?thesis
    using f cnt
    by (cases sd) (auto simp: match_tail_def bindE_assoc rm unlinked_def Let_def
      upd_side_def level_isEmpty_def removed_level_def removed_self detachLinks_def)
qed

lemma match_tail_open:
  assumes ok: "links_ok_but X s" and pl: "(p, l) \<in> set (side_map sd s)" and f: "\<not> isFilled (nodes s b)"
  shows "match_tail sd p l b t s = (Inr (Some t), s\<lparr>ob_trades := ob_trades s @ [t]\<rparr>)"
proof -
  have "pl_orderCount (levels s l) \<noteq> 0" using level_okD(1,2) [OF ok pl] by (auto simp: level_rep_def)
  then show ?thesis using f by (simp add: match_tail_def level_isEmpty_def)
qed

lemma bindE_on_node: "f (nodes s a) = Inr n \<Longrightarrow> bindE (on_node a f) k s = k () (s\<lparr>nodes := (nodes s)(a := n)\<rparr>)"
  by (simp add: bindE_def on_node_def)

lemma bindE_decrease:
  "0 < q \<Longrightarrow> q \<le> pl_totalQuantity (levels s l) \<Longrightarrow> bindE (decreaseTotalQuantity l q) k s =
     k () (s\<lparr>levels := (levels s)(l := (levels s l)\<lparr>pl_totalQuantity := pl_totalQuantity (levels s l) - q\<rparr>)\<rparr>)"
  by (simp add: bindE_def decreaseTotalQuantity_def)

lemma match_head_eq:
  assumes ok: "links_ok s" and inc: "incoming s sd a" and pos: "0 < rem (nodes s a)"
    and pl: "(p, l) \<in> set (side_map (opp sd) s)" and b: "b \<in> set (level_addrs s l)"
    and q: "q = min (rem (nodes s a)) (rem (nodes s b))"
  shows "match_head sd a p l b s =
    match_tail (opp sd) p l b (trade_of sd (ob_symbol s) (nodes s a) (core (nodes s b), q))
      (fill_in_level l b q (s\<lparr>nodes := (nodes s)(a := filled_by q (nodes s a))\<rparr>))"
proof -
  have "on_priceLevel (nodes s b) = Some l" by (rule level_member(1) [OF ok pl b])
  then have ab: "a \<noteq> b" using inc by (auto simp: incoming_def)
  have live: "live_node s (nodes s b)" using level_member(3) [OF ok pl b] by (simp add: member_ok_def)
  then have qb: "0 < q" "q \<le> rem (nodes s a)" "q \<le> rem (nodes s b)" using pos live_rem q by auto
  have fa: "fill q (nodes s a) = Inr (filled_by q (nodes s a))"
    using inc pos qb by (intro fill_ok) (simp_all add: incoming_def)
  have fb: "fill q (nodes s b) = Inr (filled_by q (nodes s b))"
    using live qb by (intro fill_ok) (simp_all add: live_node_def)
  have tot: "q \<le> pl_totalQuantity (levels s l)" using level_total_ge [OF ok pl b] qb by simp
  show ?thesis
    using ab fa fb qb tot
    unfolding match_head_def bindE_gets q [symmetric]
    by (cases sd) (simp_all add: bindE_on_node bindE_decrease fill_in_level_def trade_of_def fun_upd_twist)
qed

lemma match_step_none:
  assumes ok: "links_ok s"
    and stop: "resting (opp sd) s = [] \<or> \<not> accepts sd ignore (price_of (nodes s a)) (price_of (hd (resting (opp sd) s)))"
  shows "match_step sd ignore a s = (Inr None, s)"
proof (cases "sorted_side (opp sd) s")
  case Nil
  then show ?thesis by (simp add: match_step_body best_none)
next
  case (Cons x L)
  obtain p l where x: "x = (p, l)" by (cases x)
  have hd: "sorted_side (opp sd) s = (p, l) # L" using Cons x by simp
  obtain b ys rs where "resting (opp sd) s = core (nodes s b) # rs" "price_of (nodes s b) = p"
    by (rule resting_hd [OF ok hd])
  then show ?thesis using stop best_hd(1) [OF ok hd] by (simp add: match_step_body)
qed

lemma resting_head_filled:
  assumes ok: "links_ok s" and r: "resting sd s = r # rs" and n: "on_orderId r = i"
  shows "map (\<lambda>n. if on_orderId n = i then filled_by q n else n) (resting sd s) = filled_by q r # rs"
    "map (\<lambda>n. if on_orderId n = i then filled_by q n else n) (resting (opp sd) s) = resting (opp sd) s"
    "filter (\<lambda>n. on_orderId n \<noteq> i) (filled_by q r # rs) = rs"
    "filter (\<lambda>n. on_orderId n \<noteq> i) (resting (opp sd) s) = resting (opp sd) s"
proof -
  have d: "on_orderId m \<noteq> i" if "m \<in> set rs" for m
    using resting_ids_distinct [OF ok, of sd] that n unfolding r by (auto simp: rev_image_eqI)
  then show "map (\<lambda>n. if on_orderId n = i then filled_by q n else n) (resting sd s) = filled_by q r # rs"
    by (auto simp: r n intro: map_idI)
  show "filter (\<lambda>n. on_orderId n \<noteq> i) (filled_by q r # rs) = rs"
    using d n by (auto simp: filter_id_conv)
  have o: "on_orderId m \<noteq> i" if "m \<in> set (resting (opp sd) s)" for m
    using resting_ids_cross [OF ok that, of r sd] n by (auto simp: r)
  then show "map (\<lambda>n. if on_orderId n = i then filled_by q n else n) (resting (opp sd) s) = resting (opp sd) s"
    "filter (\<lambda>n. on_orderId n \<noteq> i) (resting (opp sd) s) = resting (opp sd) s"
    by (auto simp: filter_id_conv intro: map_idI)
qed

lemma match_step_some:
  assumes ok: "links_ok s" and inc: "incoming s sd a" and pos: "0 < rem (nodes s a)"
    and r: "resting (opp sd) s = r # rs" and acc: "accepts sd ignore (price_of (nodes s a)) (price_of r)"
    and q: "q = min (rem (nodes s a)) (rem r)"
  shows "\<exists>s'. match_step sd ignore a s = (Inr (Some (trade_of sd (ob_symbol s) (nodes s a) (r, q))), s') \<and>
    links_ok s' \<and> same_scalars s s' \<and> resting sd s' = resting sd s \<and>
    resting (opp sd) s' = (if q < rem r then filled_by q r # rs else rs) \<and>
    nodes s' a = filled_by q (nodes s a) \<and>
    ob_trades s' = ob_trades s @ [trade_of sd (ob_symbol s) (nodes s a) (r, q)]"
proof -
  let ?t = "trade_of sd (ob_symbol s) (nodes s a) (r, q)" and ?o = "opp sd"
  let ?s1 = "s\<lparr>nodes := (nodes s)(a := filled_by q (nodes s a))\<rparr>"
  have out: "on_priceLevel (nodes s a) = None" using inc by (simp add: incoming_def)
  have same: "same_structure s ?s1" by (rule same_structure_outside [OF ok out])
  have ok1: "links_ok ?s1" by (rule frame_links [OF ok same])
  have "sorted_side ?o s \<noteq> []" using r resting_empty [OF ok, of ?o] by simp
  then obtain p l L where hd: "sorted_side ?o s = (p, l) # L" by (metis list.exhaust surj_pair)
  obtain b ys rs' where b: "level_addrs s l = b # ys" "pl_head (levels s l) = Some b"
    "resting ?o s = core (nodes s b) # rs'" "price_of (nodes s b) = p"
    by (rule resting_hd [OF ok hd])
  then have rb: "r = core (nodes s b)" using r by simp
  note pl = best_hd(3) [OF ok hd]
  have pl1: "(p, l) \<in> set (side_map ?o ?s1)" using pl same_structureD(6) [OF same] by simp
  have b1: "level_addrs ?s1 l = b # ys" using frame_addrs [OF ok same pl] b(1) by simp
  have ba: "b \<noteq> a" "a \<notin> set ys" using outside_levels [OF ok pl out] b(1) by auto
  have R1: "resting sd' ?s1 = resting sd' s" for sd' by (rule frame_resting [OF ok same])
  let ?s2 = "fill_in_level l b q ?s1"
  have qq: "0 < q" "q \<le> rem (nodes ?s1 b)"
    using q pos ba resting_props(1) [OF ok, of r ?o] r rb by auto
  have bin: "b \<in> set (level_addrs ?s1 l)" by (simp add: b1)
  have ok2: "links_ok_but (if rem (nodes ?s1 b) = q then {b} else {}) ?s2"
    by (rule fill_links [OF ok1 pl1 bin qq])
  have pl2: "(p, l) \<in> set (side_map ?o ?s2)" using pl1 by simp
  have id: "on_orderId (nodes ?s1 b) = on_orderId r" using ba rb by simp
  have R2: "resting ?o ?s2 = filled_by q r # rs" "resting sd ?s2 = resting sd s"
    using resting_head_filled(1,2) [OF ok r refl] by (simp_all only: fill_resting [OF ok1 pl1 bin] id R1 opp_simps)
  have head: "match_step sd ignore a s = match_tail ?o p l b ?t ?s2"
    using best_hd(1,2) [OF ok hd] acc b(2,4) rb match_head_eq [OF ok inc pos pl, of b q] q b(1)
    by (simp add: match_step_body peek_level_def)
  let ?s3 = "?s2\<lparr>ob_trades := ob_trades ?s2 @ [?t]\<rparr>"
  have sc: "same_scalars s ?s3" "ob_trades ?s3 = ob_trades s @ [?t]" "nodes ?s3 a = filled_by q (nodes s a)"
    using ba by (auto simp: same_scalars_def fill_in_level_def)
  have same3: "same_structure ?s2 ?s3" by (rule same_structure_scalars)
  have R3: "resting sd' ?s3 = resting sd' ?s2" for sd' by (rule frame_resting [OF ok2 same3])
  show ?thesis
  proof (cases "rem (nodes ?s1 b) = q")
    case True
    then have ok2': "links_ok_but {b} ?s2" using ok2 by simp
    have f: "isFilled (nodes ?s2 b)" using True ba by simp
    let ?s4 = "unlinked ?o p l [] b ys ?s3"
    have a2: "level_addrs ?s2 l = b # ys" using b1 by simp
    have "level_addrs ?s3 l = b # ys" using frame_addrs [OF ok2' same3 pl2] a2 by simp
    then have u: "unlinkable ?s3 ?o p l [] b ys"
      using frame_links [OF ok2' same3] pl2 same_structureD(6) [OF same3] by (simp add: unlinkable_def)
    have i: "on_orderId (nodes ?s3 b) = on_orderId r" using ba rb by simp
    have q': "\<not> q < rem r" using True rb ba by simp
    show ?thesis
    proof (intro exI conjI)
      show "match_step sd ignore a s = (Inr (Some ?t), ?s4)"
        using match_tail_filled [OF ok2' pl2 a2 f] head by simp
      show "links_ok ?s4" by (rule unlinked_links [OF u])
      show "same_scalars s ?s4" by (rule same_scalars_trans [OF sc(1) unlinked_scalars])
      show "resting sd ?s4 = resting sd s" "resting ?o ?s4 = (if q < rem r then filled_by q r # rs else rs)"
        using resting_head_filled(3) [OF ok r refl, of q] resting_head_filled(4) [OF ok r refl] q'
        by (simp_all only: unlinked_resting [OF u] i R3 R2 opp_simps if_False)
      have "nodes ?s4 a = nodes ?s3 a"
        unfolding unlinked_sel by (rule removed_other) (use ba in auto)
      then show "nodes ?s4 a = filled_by q (nodes s a)" by (simp only: sc(3))
      show "ob_trades ?s4 = ob_trades s @ [?t]" by (simp only: unlinked_sel sc(2))
    qed
  next
    case False
    then have ok2': "links_ok ?s2" using ok2 by simp
    have f: "\<not> isFilled (nodes ?s2 b)" using False ba by simp
    have q': "q < rem r" using False qq(2) rb ba by simp
    show ?thesis
    proof (intro exI conjI)
      show "match_step sd ignore a s = (Inr (Some ?t), ?s3)"
        using match_tail_open [OF ok2' pl2 f] head by simp
      show "links_ok ?s3" by (rule frame_links [OF ok2' same3])
      show "resting sd ?s3 = resting sd s" "resting ?o ?s3 = (if q < rem r then filled_by q r # rs else rs)"
        using q' by (simp_all only: R3 R2 if_True)
    qed (rule sc)+
  qed
qed

subsection \<open>The loops\<close>

definition match_loop :: "Side \<Rightarrow> bool \<Rightarrow> nat \<Rightarrow> Trade list \<Rightarrow> Trade list bprog" where
  "match_loop sd = (case sd of BUY \<Rightarrow> matchBuyLoop | SELL \<Rightarrow> matchSellLoop)"

lemma match_loop_unfold:
  "match_loop sd ignore a ts s =
    (if 0 < rem (nodes s a)
     then (case match_step sd ignore a s of (Inl e, s') \<Rightarrow> (Inl e, s') | (Inr None, s') \<Rightarrow> (Inr ts, s')
      | (Inr (Some t), s') \<Rightarrow> match_loop sd ignore a (ts @ [t]) s')
     else (Inr ts, s))"
  unfolding match_loop_def match_step_def
  by (cases sd; simp only: Side.case) (rule matchBuyLoop.simps matchSellLoop.simps)+

text \<open>The incoming order after it has traded \<open>k\<close>.\<close>

definition consumed :: "int \<Rightarrow> OrderNode \<Rightarrow> OrderNode" where
  "consumed k n = (if k = 0 then n else filled_by k n)"

lemma filled_by_filled_by: "filled_by j (filled_by k n) = filled_by (k + j) n"
  by (auto simp: filled_by_def)

lemma trade_of_filled_by [simp]: "trade_of sd symb (filled_by k n) = trade_of sd symb n"
  by (cases sd) (auto simp: trade_of_def fun_eq_iff)

definition traded :: "Side \<Rightarrow> nat \<Rightarrow> (OrderNode \<times> int) list \<Rightarrow> OrderNode list \<Rightarrow> int \<Rightarrow> OrderBook \<Rightarrow> OrderBook \<Rightarrow> bool" where
  "traded sd a fs rs q s s' \<longleftrightarrow> links_ok s' \<and> same_scalars s s' \<and> resting sd s' = resting sd s \<and>
     resting (opp sd) s' = rs \<and> nodes s' a = consumed (rem (nodes s a) - q) (nodes s a) \<and>
     ob_trades s' = ob_trades s @ map (trade_of sd (ob_symbol s) (nodes s a)) fs"

lemma match_loop_refines:
  assumes "links_ok s" "incoming s sd a"
    and "spec_match (accepts sd ignore (price_of (nodes s a))) (rem (nodes s a)) (resting (opp sd) s) = (fs, rs, q)"
  shows "\<exists>s'. match_loop sd ignore a ts s = (Inr (ts @ map (trade_of sd (ob_symbol s) (nodes s a)) fs), s') \<and>
    traded sd a fs rs q s s'"
  using assms
proof (induction "length (resting (opp sd) s)" arbitrary: s ts fs rs q rule: less_induct)
  case less
  note ok = less.prems(1) and inc = less.prems(2) and spec = less.prems(3)
  let ?ok = "accepts sd ignore (price_of (nodes s a))" and ?R = "resting (opp sd) s" and ?n = "nodes s a"
  show ?case
  proof (cases "rem ?n \<le> 0 \<or> ?R = [] \<or> \<not> ?ok (price_of (hd ?R))")
    case True
    then have "match_loop sd ignore a ts s = (Inr ts, s)"
      by (auto simp: match_loop_unfold match_step_none [OF ok])
    moreover have "fs = [] \<and> rs = ?R \<and> q = rem ?n" using spec True by (cases ?R) auto
    ultimately show ?thesis using ok by (simp add: traded_def consumed_def)
  next
    case False
    then obtain r rs0 where R: "?R = r # rs0" by (cases ?R) auto
    have pos: "0 < rem ?n" and acc: "?ok (price_of r)" using False R by auto
    define k where "k = min (rem ?n) (rem r)"
    let ?t = "trade_of sd (ob_symbol s) ?n (r, k)"
    obtain s1 where st: "match_step sd ignore a s = (Inr (Some ?t), s1)" and ok1: "links_ok s1"
      and sc: "same_scalars s s1" and own: "resting sd s1 = resting sd s"
      and R1: "resting (opp sd) s1 = (if k < rem r then filled_by k r # rs0 else rs0)"
      and n1: "nodes s1 a = filled_by k ?n" and tr: "ob_trades s1 = ob_trades s @ [?t]"
      using match_step_some [OF ok inc pos R acc k_def] by blast
    have rpos: "0 < rem r" using resting_props(1) [OF ok, of r "opp sd"] R by auto
    have inc1: "incoming s1 sd a"
      using inc sc n1 pos rpos node_ok_filled_by [of ?n k] k_def by (auto simp: incoming_def same_scalars_def)
    have unf: "match_loop sd ignore a ts s = match_loop sd ignore a (ts @ [?t]) s1"
      using pos st by (simp add: match_loop_unfold [of sd ignore a ts s])
    have symb: "ob_symbol s1 = ob_symbol s" using sc by (simp add: same_scalars_def)
    show ?thesis
    proof (cases "rem ?n < rem r")
      case True
      then have k: "k = rem ?n" by (simp add: k_def)
      have "fs = [(r, k)] \<and> rs = filled_by k r # rs0 \<and> q = 0" using spec R True pos acc k by auto
      moreover have "match_loop sd ignore a (ts @ [?t]) s1 = (Inr (ts @ [?t]), s1)"
        using n1 k by (simp add: match_loop_unfold)
      ultimately show ?thesis
        using unf ok1 sc own R1 n1 tr True k pos by (auto simp: traded_def consumed_def)
    next
      case False
      then have k: "k = rem r" by (simp add: k_def)
      have R1': "resting (opp sd) s1 = rs0" using R1 k by simp
      obtain fs1 rs1 q1 where m: "spec_match ?ok (rem ?n - rem r) rs0 = (fs1, rs1, q1)" by (metis prod_cases3)
      then have eq: "fs = (r, k) # fs1" "rs = rs1" "q = q1" using spec R False pos acc k by auto
      have "spec_match (accepts sd ignore (price_of (nodes s1 a))) (rem (nodes s1 a)) (resting (opp sd) s1) = (fs1, rs1, q1)"
        using m n1 k R1' by simp
      from less.hyps [OF _ ok1 inc1 this, of "ts @ [?t]"] R R1'
      obtain s' where lp: "match_loop sd ignore a (ts @ [?t]) s1 =
          (Inr ((ts @ [?t]) @ map (trade_of sd (ob_symbol s1) (nodes s1 a)) fs1), s')"
        and td: "traded sd a fs1 rs1 q1 s1 s'" by auto
      have "q1 \<le> rem ?n - rem r"
        using resting_props(1) [OF ok, of _ "opp sd"] by (intro spec_match_le [OF m]) (simp add: R)
      then have "nodes s' a = consumed (rem ?n - q) ?n"
        using td n1 k eq(3) rpos by (auto simp: traded_def consumed_def filled_by_filled_by)
      then have "traded sd a fs rs q s s'"
        using td sc own tr eq symb n1 same_scalars_trans [OF sc] by (simp add: traded_def)
      moreover have "match_loop sd ignore a ts s = (Inr (ts @ map (trade_of sd (ob_symbol s) ?n) fs), s')"
        using unf lp symb n1 eq(1) by simp
      ultimately show ?thesis by blast
    qed
  qed
qed

end
