(* ===== verification/Placement.thy ===== *)
theory Placement
  imports MatchRefine
begin

text \<open>
  What happens to an order from its creation to its rest: the new object is outside the
  book, the matching loop consumes the other side, a limit order with a remainder joins its
  own side, a market order with a remainder is cancelled.  The lemmas are shared by
  \<^verbatim>\<open>placeLimitOrder\<close>, \<^verbatim>\<open>placeMarketOrder\<close> and the triggered stop orders.
\<close>

subsection \<open>Identifiers of resting orders\<close>

lemma orders_iff:
  assumes "links_ok s"
  shows "map_get (ob_ordersById s) i \<noteq> None \<longleftrightarrow> (\<exists>sd. \<exists>n \<in> set (resting sd s). on_orderId n = i)"
proof
  assume "map_get (ob_ordersById s) i \<noteq> None"
  then obtain a where "map_get (ob_ordersById s) i = Some a" by blast
  from indexedD [OF assms this] obtain sd p l where "on_orderId (nodes s a) = i"
    "(p, l) \<in> set (side_map sd s)" "a \<in> set (level_addrs s l)" by blast
  then have "core (nodes s a) \<in> set (resting sd s)" "on_orderId (core (nodes s a)) = i"
    by (auto simp: resting_member)
  then show "\<exists>sd. \<exists>n \<in> set (resting sd s). on_orderId n = i" by blast
next
  assume "\<exists>sd. \<exists>n \<in> set (resting sd s). on_orderId n = i"
  then obtain sd p l a where "(p, l) \<in> set (side_map sd s)" "a \<in> set (level_addrs s l)" "on_orderId (nodes s a) = i"
    by (auto simp: resting_member)
  then show "map_get (ob_ordersById s) i \<noteq> None"
    using level_member(3) [OF assms] by (auto simp: member_ok_def)
qed

lemma Side_all: "(\<forall>sd. P sd) \<longleftrightarrow> P sd \<and> P (opp sd)"
proof -
  have "sd' = sd \<or> sd' = opp sd" for sd' by (cases sd; cases sd') auto
  then show ?thesis by metis
qed

lemma spec_match_ids:
  "spec_match ok q rs = (fs, rs', q') \<Longrightarrow> set (map on_orderId rs') \<subseteq> set (map on_orderId rs)"
  by (induction ok q rs arbitrary: fs rs' q' rule: spec_match.induct) (auto split: if_splits prod.splits)

subsection \<open>A book that is not crossed\<close>

definition uncrossed :: "OrderNode list \<Rightarrow> OrderNode list \<Rightarrow> bool" where
  "uncrossed bs as \<longleftrightarrow> (\<forall>b \<in> set bs. \<forall>a \<in> set as. price_of b < price_of a)"

definition not_crossed :: "OrderBook \<Rightarrow> bool" where
  "not_crossed s \<longleftrightarrow> uncrossed (resting BUY s) (resting SELL s)"

lemma not_crossed_iff:
  "not_crossed s \<longleftrightarrow> (\<forall>m \<in> set (resting sd s). \<forall>r \<in> set (resting (opp sd) s).
     \<not> accepts sd False (price_of m) (price_of r))"
  by (cases sd) (auto simp: not_crossed_def uncrossed_def accepts_def not_le)

lemma not_crossed_subset:
  assumes "not_crossed s"
    and "\<And>sd. set (map price_of (resting sd s')) \<subseteq> set (map price_of (resting sd s))"
  shows "not_crossed s'"
proof -
  have "price_of b < price_of a" if b: "b \<in> set (resting BUY s')" and a: "a \<in> set (resting SELL s')" for a b
  proof -
    have "price_of b \<in> price_of ` set (resting BUY s)" "price_of a \<in> price_of ` set (resting SELL s)"
      using assms(2) [of BUY] assms(2) [of SELL] a b by auto
    then obtain b' a' where "b' \<in> set (resting BUY s)" "price_of b' = price_of b"
      "a' \<in> set (resting SELL s)" "price_of a' = price_of a" by (metis imageE)
    then show ?thesis using assms(1) by (metis not_crossed_def uncrossed_def)
  qed
  then show ?thesis by (simp add: not_crossed_def uncrossed_def)
qed

interpretation limit_order: price_priority "rank (opp sd)" "accepts sd False limit" for sd limit
  by unfold_locales (cases sd; simp add: rank_def accepts_def)

interpretation any_price: price_priority "rank (opp sd)" "accepts sd ignore limit" for sd ignore limit
  by unfold_locales (cases sd; cases ignore; simp add: rank_def accepts_def)

subsection \<open>A new order\<close>

definition allocated :: "OrderNode \<Rightarrow> OrderBook \<Rightarrow> OrderBook" where
  "allocated n s = s\<lparr>nodes := (nodes s)(nextRef s := n), nextRef := Suc (nextRef s)\<rparr>"

lemma alloc_node_apply: "alloc_node n s = (Inr (nextRef s), allocated n s)"
  by (simp add: alloc_node_def allocated_def)

lemma allocated_sel [simp]:
  "nodes (allocated n s) (nextRef s) = n" "nextRef (allocated n s) = Suc (nextRef s)"
  "ob_symbol (allocated n s) = ob_symbol s" "ob_stopOrdersById (allocated n s) = ob_stopOrdersById s"
  "ob_lastTradePriceTicks (allocated n s) = ob_lastTradePriceTicks s"
  "ob_sequence (allocated n s) = ob_sequence s" "ob_clock (allocated n s) = ob_clock s"
  "ob_ticks (allocated n s) = ob_ticks s" "ob_trades (allocated n s) = ob_trades s"
  "ob_ordersById (allocated n s) = ob_ordersById s"
  by (simp_all add: allocated_def)

lemma allocated_frame:
  assumes "links_ok s"
  shows "links_ok (allocated n s)" "resting sd (allocated n s) = resting sd s"
  using same_structure_alloc(1) [OF assms, of n, folded allocated_def]
  by (auto intro: frame_links [OF assms] frame_resting [OF assms])

text \<open>A valid order that has just been constructed.\<close>

definition fresh_order :: "OrderNode \<Rightarrow> bool" where
  "fresh_order n \<longleftrightarrow> node_ok n \<and> node_static n \<and> on_status n = OPEN \<and> 0 < rem n \<and>
     on_prev n = None \<and> on_next n = None \<and> on_priceLevel n = None"

lemma new_OrderNode_fresh: "new_OrderNode o1 = Inr n \<Longrightarrow> fresh_order n"
  using new_OrderNode_fields [of o1 n] by (auto simp: fresh_order_def node_ok_def)

lemma fresh_incoming: "fresh_order n \<Longrightarrow> incoming (allocated n s) (on_side n) (nextRef s)"
  by (auto simp: incoming_def fresh_order_def isActive_iff)

subsection \<open>Matching the new order\<close>

definition match_order :: "Side \<Rightarrow> nat \<Rightarrow> bool \<Rightarrow> Trade list bprog" where
  "match_order sd = (case sd of BUY \<Rightarrow> matchBuyOrder | SELL \<Rightarrow> matchSellOrder)"

lemma match_order_loop: "match_order sd a ignore = match_loop sd ignore a []"
  by (cases sd) (simp_all add: match_order_def match_loop_def matchBuyOrder_def matchSellOrder_def)

text \<open>The specification of the matching of a new order \<open>n\<close> against the book \<open>s\<close>.\<close>

definition spec_of :: "bool \<Rightarrow> OrderNode \<Rightarrow> OrderBook \<Rightarrow> (OrderNode \<times> int) list \<times> OrderNode list \<times> int" where
  "spec_of ignore n s = spec_match (accepts (on_side n) ignore (price_of n)) (rem n) (resting (opp (on_side n)) s)"

lemma match_new:
  assumes ok: "links_ok s" and n: "fresh_order n" and sp: "spec_of ignore n s = (fs, rs, q)"
  shows "\<exists>s'. match_order (on_side n) (nextRef s) ignore (allocated n s) =
      (Inr (map (trade_of (on_side n) (ob_symbol s) n) fs), s') \<and>
    links_ok s' \<and> same_scalars (allocated n s) s' \<and> resting (on_side n) s' = resting (on_side n) s \<and>
    resting (opp (on_side n)) s' = rs \<and> nodes s' (nextRef s) = consumed (rem n - q) n \<and>
    ob_trades s' = ob_trades s @ map (trade_of (on_side n) (ob_symbol s) n) fs"
  using match_loop_refines [OF allocated_frame(1) [OF ok] fresh_incoming [OF n], of ignore fs rs q "[]"] sp
  by (simp add: spec_of_def allocated_frame(2) [OF ok] match_order_loop traded_def)

lemma spec_of_bounds:
  assumes ok: "links_ok s" and n: "fresh_order n" and sp: "spec_of ignore n s = (fs, rs, q)"
  shows "0 \<le> q" "q \<le> rem n" "q = rem n - fill_sum fs"
proof -
  have lv: "live (resting (opp (on_side n)) s)" using resting_props(1) [OF ok] by blast
  show "0 \<le> q" "q \<le> rem n" "q = rem n - fill_sum fs"
    using spec_match_nonneg [OF sp [unfolded spec_of_def] _ lv] spec_match_le [OF sp [unfolded spec_of_def] lv]
      spec_match_conserves [OF sp [unfolded spec_of_def]] n by (simp_all add: fresh_order_def)
qed

lemma consumed_simps [simp]:
  "on_orderId (consumed k n) = on_orderId n" "on_userId (consumed k n) = on_userId n"
  "on_side (consumed k n) = on_side n" "on_symbol (consumed k n) = on_symbol n"
  "on_type (consumed k n) = on_type n" "on_priceTicks (consumed k n) = on_priceTicks n"
  "on_timestamp (consumed k n) = on_timestamp n" "on_initialQuantity (consumed k n) = on_initialQuantity n"
  "rem (consumed k n) = rem n - k" "on_prev (consumed k n) = on_prev n" "on_next (consumed k n) = on_next n"
  "on_priceLevel (consumed k n) = on_priceLevel n" "node_static (consumed k n) = node_static n"
  "price_of (consumed k n) = price_of n" "core (consumed k n) = consumed k (core n)"
  by (auto simp: consumed_def price_of_def node_static_def)

lemma consumed_active: "fresh_order n \<Longrightarrow> isActive (consumed k n) \<longleftrightarrow> k \<noteq> rem n"
  by (auto simp: consumed_def fresh_order_def isActive_iff filled_by_def)

lemma consumed_ok: "fresh_order n \<Longrightarrow> 0 \<le> k \<Longrightarrow> k \<le> rem n \<Longrightarrow> node_ok (consumed k n)"
  using node_ok_filled_by [of n k] by (auto simp: consumed_def fresh_order_def isActive_iff)

text \<open>Matching leaves the book uncrossed.\<close>

lemma match_not_crossed:
  assumes ok: "links_ok s" and nc: "not_crossed s" and sp: "spec_of ignore n s = (fs, rs, q)"
    and own: "resting (on_side n) s' = resting (on_side n) s" and rs: "resting (opp (on_side n)) s' = rs"
  shows "not_crossed s'"
proof (rule not_crossed_subset [OF nc])
  fix sd
  have lv: "live (resting (opp (on_side n)) s)" using resting_props(1) [OF ok] by blast
  have "set (map price_of rs) \<subseteq> set (map price_of (resting (opp (on_side n)) s))"
    by (rule spec_match_prices [OF sp [unfolded spec_of_def] lv])
  moreover have "sd = on_side n \<or> sd = opp (on_side n)" by (cases sd; cases "on_side n") auto
  ultimately show "set (map price_of (resting sd s')) \<subseteq> set (map price_of (resting sd s))"
    using own rs by auto
qed

subsection \<open>Resting the remainder\<close>

text \<open>The state after the matching of a new order, as \<open>match_new\<close> describes it.\<close>

definition after_match :: "bool \<Rightarrow> OrderNode \<Rightarrow> OrderBook \<Rightarrow> (OrderNode \<times> int) list \<Rightarrow> int \<Rightarrow> OrderBook \<Rightarrow> bool" where
  "after_match ignore n s fs q s' \<longleftrightarrow> links_ok s' \<and> same_scalars (allocated n s) s' \<and>
     resting (on_side n) s' = resting (on_side n) s \<and> spec_of ignore n s = (fs, resting (opp (on_side n)) s', q) \<and>
     nodes s' (nextRef s) = consumed (rem n - q) n \<and>
     ob_trades s' = ob_trades s @ map (trade_of (on_side n) (ob_symbol s) n) fs"

lemma match_new_after:
  assumes "links_ok s" "fresh_order n"
  obtains fs q s' where "match_order (on_side n) (nextRef s) ignore (allocated n s) =
      (Inr (map (trade_of (on_side n) (ob_symbol s) n) fs), s')" "after_match ignore n s fs q s'"
proof -
  obtain fs rs q where sp: "spec_of ignore n s = (fs, rs, q)" by (metis prod_cases3)
  from match_new [OF assms sp] sp show ?thesis using that by (auto simp: after_match_def)
qed

lemma core_fresh: "fresh_order n \<Longrightarrow> core n = n"
  by (simp add: fresh_order_def core_def)

lemma after_match_id:
  assumes ok: "links_ok s" and am: "after_match ignore n s fs q s'"
    and "map_get (ob_ordersById s) i = None"
  shows "map_get (ob_ordersById s') i = None"
proof (rule ccontr)
  have ok': "links_ok s'" and own: "resting (on_side n) s' = resting (on_side n) s"
    and sp: "spec_of ignore n s = (fs, resting (opp (on_side n)) s', q)"
    using am by (simp_all add: after_match_def)
  assume "map_get (ob_ordersById s') i \<noteq> None"
  then obtain sd m where m: "m \<in> set (resting sd s')" "on_orderId m = i" using orders_iff [OF ok'] by blast
  have "i \<in> on_orderId ` set (resting sd s)"
  proof (cases "sd = on_side n")
    case True
    then show ?thesis using m own by auto
  next
    case False
    then have "sd = opp (on_side n)" by (cases sd; cases "on_side n") auto
    then show ?thesis using m spec_match_ids [OF sp [unfolded spec_of_def]] by auto
  qed
  then show False using orders_iff [OF ok, of i] assms(3) by auto
qed

lemma after_match_restable:
  assumes ok: "links_ok s" and n: "fresh_order n" and am: "after_match ignore n s fs q s'"
    and lim: "on_type n = LIMIT" "on_priceTicks n = Some p" "on_symbol n = ob_symbol s"
    and id: "map_get (ob_ordersById s) (on_orderId n) = None" and q: "0 < q"
  shows "restable s' (on_side n) p (nextRef s)"
proof -
  have sp: "spec_of ignore n s = (fs, resting (opp (on_side n)) s', q)"
    using am by (simp add: after_match_def)
  note B = spec_of_bounds [OF ok n sp]
  have "live_node s' (consumed (rem n - q) n)"
    using consumed_ok [OF n, of "rem n - q"] consumed_active [OF n, of "rem n - q"] B q
    by (simp add: live_node_def)
  then show ?thesis
    using am n lim q after_match_id [OF ok am id]
    by (auto simp: restable_def after_match_def same_scalars_def fresh_order_def)
qed

lemma rest_remainder:
  assumes ok: "links_ok s" and n: "fresh_order n" and am: "after_match False n s fs q s'"
    and lim: "on_type n = LIMIT" "on_priceTicks n = Some p" "on_symbol n = ob_symbol s"
    and id: "map_get (ob_ordersById s) (on_orderId n) = None" and q: "0 < q" and nc: "not_crossed s"
  defines "s'' \<equiv> rested (on_side n) p (nextRef s) s'"
  shows "links_ok s'' \<and> not_crossed s'' \<and> resting (opp (on_side n)) s'' = resting (opp (on_side n)) s' \<and>
    resting (on_side n) s'' = spec_insert (rank (on_side n)) (consumed (rem n - q) n) (resting (on_side n) s)"
proof -
  let ?sd = "on_side n" and ?m = "consumed (rem n - q) n"
  have r: "restable s' ?sd p (nextRef s)" by (rule after_match_restable [OF ok n am lim id q])
  have ok': "links_ok s'" and own: "resting ?sd s' = resting ?sd s"
    and sp: "spec_of False n s = (fs, resting (opp ?sd) s', q)"
    and nd: "nodes s' (nextRef s) = ?m" using am by (simp_all add: after_match_def)
  have R: "resting ?sd s'' = spec_insert (rank ?sd) ?m (resting ?sd s)"
    using rested_resting [OF r] own nd core_fresh [OF n] by (simp add: s''_def)
  have O: "resting (opp ?sd) s'' = resting (opp ?sd) s'"
    unfolding s''_def by (rule rested_resting_other [OF r]) simp
  have nc': "not_crossed s'" by (rule match_not_crossed [OF ok nc sp own refl])
  have "\<not> accepts ?sd False (price_of m) (price_of r)" if m: "m \<in> set (resting ?sd s'')" and r: "r \<in> set (resting (opp ?sd) s'')" for m r
  proof (cases "m = ?m")
    case True
    have "\<not> accepts ?sd False (price_of n) (price_of r)"
      using r O resting_sorted [OF ok, of "opp ?sd"]
      by (intro limit_order.match_exhausts [OF sp [unfolded spec_of_def] q]) simp_all
    then show ?thesis using True by simp
  next
    case False
    then have "m \<in> set (resting ?sd s')" using m R own by (simp add: spec_insert_set)
    then show ?thesis using nc' r O not_crossed_iff [of s' ?sd] by simp
  qed
  then have "not_crossed s''" using not_crossed_iff [of s'' ?sd] by blast
  then show ?thesis using R O rested_links [OF r] by (simp add: s''_def)
qed

subsection \<open>Changing an order outside the book\<close>

lemma outside_update:
  assumes "links_ok s" "on_priceLevel (nodes s a) = None"
  shows "links_ok (s\<lparr>nodes := (nodes s)(a := m)\<rparr>)" "resting sd (s\<lparr>nodes := (nodes s)(a := m)\<rparr>) = resting sd s"
  using same_structure_outside [OF assms] by (auto intro: frame_links [OF assms(1)] frame_resting [OF assms(1)])

subsection \<open>The two ways an order is placed\<close>

definition quiet :: "OrderBook \<Rightarrow> OrderBook \<Rightarrow> bool" where
  "quiet s s' \<longleftrightarrow> ob_symbol s' = ob_symbol s \<and> ob_stopOrdersById s' = ob_stopOrdersById s \<and>
     ob_lastTradePriceTicks s' = ob_lastTradePriceTicks s \<and> ob_sequence s' = ob_sequence s \<and>
     ob_clock s' = ob_clock s \<and> ob_ticks s' = ob_ticks s"

text \<open>What is left of a market order is cancelled, a limit order keeps its remainder.\<close>

definition order_result :: "bool \<Rightarrow> OrderNode \<Rightarrow> int \<Rightarrow> OrderNode" where
  "order_result market n q = (let m = consumed (rem n - q) n in
     if market \<and> 0 < q then m\<lparr>on_status := CANCELLED\<rparr> else m)"

definition placed :: "bool \<Rightarrow> OrderNode \<Rightarrow> OrderBook \<Rightarrow> (OrderNode \<times> int) list \<Rightarrow> int \<Rightarrow> OrderBook \<Rightarrow> bool" where
  "placed market n s fs q s' \<longleftrightarrow> links_ok s' \<and> not_crossed s' \<and> quiet s s' \<and>
     spec_of market n s = (fs, resting (opp (on_side n)) s', q) \<and>
     resting (on_side n) s' = (if \<not> market \<and> 0 < q
       then spec_insert (rank (on_side n)) (consumed (rem n - q) n) (resting (on_side n) s)
       else resting (on_side n) s) \<and>
     core (nodes s' (nextRef s)) = order_result market n q \<and>
     ob_trades s' = ob_trades s @ map (trade_of (on_side n) (ob_symbol s) n) fs"

lemma quiet_allocated: "same_scalars (allocated n s) s' \<Longrightarrow> quiet s s'"
  by (simp add: same_scalars_def quiet_def)

lemma consumed_core: "fresh_order n \<Longrightarrow> core (consumed k n) = consumed k n"
  by (simp add: core_fresh)

lemma after_match_node:
  assumes "after_match ignore n s fs q s'" "fresh_order n" "links_ok s"
  shows "rem (nodes s' (nextRef s)) = q" "isActive (nodes s' (nextRef s)) \<longleftrightarrow> 0 < q"
    "on_priceLevel (nodes s' (nextRef s)) = None"
    "core (nodes s' (nextRef s)) = order_result False n q" "on_orderId (nodes s' (nextRef s)) = on_orderId n"
proof -
  have n: "nodes s' (nextRef s) = consumed (rem n - q) n"
    and sp: "spec_of ignore n s = (fs, resting (opp (on_side n)) s', q)" using assms(1) by (simp_all add: after_match_def)
  note B = spec_of_bounds [OF assms(3,2) sp]
  show "rem (nodes s' (nextRef s)) = q" "on_priceLevel (nodes s' (nextRef s)) = None"
    "on_orderId (nodes s' (nextRef s)) = on_orderId n"
    using assms(2) by (simp_all add: n fresh_order_def)
  show "isActive (nodes s' (nextRef s)) \<longleftrightarrow> 0 < q" 
    unfolding n consumed_active [OF assms(2)] using B(1) by auto
  show "core (nodes s' (nextRef s)) = order_result False n q"
    using core_fresh [OF assms(2)] by (simp add: n order_result_def)
qed

definition cancel_rest :: "nat \<Rightarrow> unit bprog" where
  "cancel_rest a = bindE (gets (\<lambda>s. nodes s a)) (\<lambda>m.
     if 0 < rem m \<and> isActive m then on_node a cancel else ret ())"

definition keep_rest :: "nat \<Rightarrow> unit bprog" where
  "keep_rest a = bindE (gets (\<lambda>s. nodes s a)) (\<lambda>m.
     if isActive m \<and> 0 < rem m
     then bindE (addRestingOrder a) (\<lambda>_.
          modify (\<lambda>s. s\<lparr>ob_ordersById := map_set (ob_ordersById s) (on_orderId (nodes s a)) a\<rparr>))
     else ret ())"

lemma cancel_rest_placed:
  assumes ok: "links_ok s" and nc: "not_crossed s" and n: "fresh_order n" and am: "after_match True n s fs q s'"
  shows "\<exists>s''. cancel_rest (nextRef s) s' = (Inr (), s'') \<and> placed True n s fs q s''"
proof -
  let ?a = "nextRef s" and ?m = "nodes s' (nextRef s)"
  note A = after_match_node [OF am n ok]
  have ok': "links_ok s'" and own: "resting (on_side n) s' = resting (on_side n) s"
    and sp: "spec_of True n s = (fs, resting (opp (on_side n)) s', q)"
    and nd: "?m = consumed (rem n - q) n" using am by (simp_all add: after_match_def)
  have nc': "not_crossed s'" by (rule match_not_crossed [OF ok nc sp own refl])
  have pl: "placed True n s fs q s''"
    if "links_ok s''" "\<And>sd. resting sd s'' = resting sd s'" "same_scalars s' s''" "ob_trades s'' = ob_trades s'"
      "core (nodes s'' ?a) = order_result True n q" for s''
  proof -
    have "not_crossed s''" using nc' that(2) by (simp add: not_crossed_def)
    moreover have "quiet s s''" using am that(3) by (auto simp: after_match_def same_scalars_def quiet_def)
    ultimately show ?thesis using that am by (simp add: placed_def after_match_def)
  qed
  show ?thesis
  proof (cases "0 < q")
    case True
    let ?s = "s'\<lparr>nodes := (nodes s')(?a := ?m\<lparr>on_status := CANCELLED\<rparr>)\<rparr>"
    have run: "cancel_rest ?a s' = (Inr (), ?s)"
      using True A by (simp add: cancel_rest_def on_node_def cancel_def)
    have "core (nodes ?s ?a) = order_result True n q"
      using True n by (simp add: nd order_result_def Let_def core_def consumed_def filled_by_def fresh_order_def)
    then have "placed True n s fs q ?s"
      by (intro pl) (simp_all add: outside_update [OF ok' A(3)] same_scalars_def)
    with run show ?thesis by blast
  next
    case False
    then have "cancel_rest ?a s' = (Inr (), s')" using A by (simp add: cancel_rest_def)
    moreover have "placed True n s fs q s'"
      by (rule pl) (use False A(4) ok' in \<open>simp_all add: order_result_def\<close>)
    ultimately show ?thesis by blast
  qed
qed

lemma keep_rest_placed:
  assumes ok: "links_ok s" and nc: "not_crossed s" and n: "fresh_order n" and am: "after_match False n s fs q s'"
    and lim: "on_type n = LIMIT" "on_symbol n = ob_symbol s" and id: "map_get (ob_ordersById s) (on_orderId n) = None"
  shows "\<exists>s''. keep_rest (nextRef s) s' = (Inr (), s'') \<and> placed False n s fs q s''"
proof -
  let ?a = "nextRef s"
  note A = after_match_node [OF am n ok]
  have ok': "links_ok s'" and own: "resting (on_side n) s' = resting (on_side n) s"
    and sp: "spec_of False n s = (fs, resting (opp (on_side n)) s', q)"
    and tr: "ob_trades s' = ob_trades s @ map (trade_of (on_side n) (ob_symbol s) n) fs"
    and qt: "quiet s s'" using am quiet_allocated by (auto simp: after_match_def)
  obtain p where p: "on_priceTicks n = Some p"
    using n lim(1) by (auto simp: fresh_order_def node_static_def split: option.splits)
  show ?thesis
  proof (cases "0 < q")
    case True
    let ?s = "rested (on_side n) p ?a s'"
    have r: "restable s' (on_side n) p ?a" by (rule after_match_restable [OF ok n am lim(1) p lim(2) id True])
    have "keep_rest ?a s' = (Inr (), ?s)"
      using True A by (cases "on_side n")
        (simp_all add: keep_rest_def bindE_def addRestingOrder_eq [OF r] rested_def appended_def upd_side_def)
    moreover have "placed False n s fs q ?s"
      using rest_remainder [OF ok n am lim(1) p lim(2) id True nc] sp tr qt A(4) True
      by (simp add: placed_def quiet_def)
    ultimately show ?thesis by blast
  next
    case False
    then have "keep_rest ?a s' = (Inr (), s')" using A by (simp add: keep_rest_def)
    moreover have "not_crossed s'" by (rule match_not_crossed [OF ok nc sp own refl])
    then have "placed False n s fs q s'" using False ok' own sp tr qt A(4) by (simp add: placed_def)
    ultimately show ?thesis by blast
  qed
qed

text \<open>No identifier but the order's own enters the book.\<close>

lemma placed_ids:
  assumes ok: "links_ok s" and pl: "placed market n s fs q s'" and i: "map_get (ob_ordersById s') i \<noteq> None"
  shows "map_get (ob_ordersById s) i \<noteq> None \<or> \<not> market \<and> i = on_orderId n"
proof -
  have ok': "links_ok s'" and sp: "spec_of market n s = (fs, resting (opp (on_side n)) s', q)"
    and own: "resting (on_side n) s' = (if \<not> market \<and> 0 < q
       then spec_insert (rank (on_side n)) (consumed (rem n - q) n) (resting (on_side n) s)
       else resting (on_side n) s)" using pl by (simp_all add: placed_def)
  obtain sd m where m: "m \<in> set (resting sd s')" "on_orderId m = i" using orders_iff [OF ok'] i by blast
  have "i \<in> on_orderId ` set (resting sd s) \<or> \<not> market \<and> i = on_orderId n"
  proof (cases "sd = on_side n")
    case True
    then show ?thesis using m own by (auto simp: spec_insert_set split: if_splits)
  next
    case False
    then have "sd = opp (on_side n)" by (cases sd; cases "on_side n") auto
    then show ?thesis using m spec_match_ids [OF sp [unfolded spec_of_def]] by auto
  qed
  then show ?thesis using orders_iff [OF ok, of i] by auto
qed

end
