(* ===== verification/StopOrders.thy ===== *)
theory StopOrders
  imports Placement
begin

text \<open>
  The stop orders of \<^verbatim>\<open>src/engine/OrderBook.js\<close>: the ratchet of trailing stops, the
  choice of the triggered ones, their execution and the trigger loop with its cycle limit.
  A stop order is the object the code builds, with whatever values the request carried; the
  comparisons with its trigger price convert it to a number as JavaScript does.  Order
  identifiers used as \<^verbatim>\<open>Map\<close> keys are compared by value (an identifier that is itself an
  array or an object would be compared by identity in the program).
\<close>

subsection \<open>Trailing stops\<close>

text \<open>
  The difference and the sum of the last price and a trailing amount.  The amount is a
  positive integer in every trailing stop the engine creates; a stop restored from a
  foreign snapshot may hold another value, which is converted, and a result that is not
  finite is kept as a value with the same numeric reading.
\<close>

definition number_val :: "jsnumber \<Rightarrow> jsval" where
  "number_val x = (case x of NaN \<Rightarrow> JUndef | PosInf \<Rightarrow> JStr ''Infinity'' | NegInf \<Rightarrow> JStr ''-Infinity'' | Fin r \<Rightarrow> JNum r)"

definition ticks_minus :: "int \<Rightarrow> jsval \<Rightarrow> jsval" where
  "ticks_minus p v = number_val (case to_number v of Fin r \<Rightarrow> Fin (of_int p - r)
     | NaN \<Rightarrow> NaN | PosInf \<Rightarrow> NegInf | NegInf \<Rightarrow> PosInf)"

definition ticks_plus :: "int \<Rightarrow> jsval \<Rightarrow> jsval" where
  "ticks_plus p v = number_val (case to_number v of Fin r \<Rightarrow> Fin (of_int p + r) | x \<Rightarrow> x)"

definition updateTrailingStopOrder :: "int \<Rightarrow> jsobj \<Rightarrow> jsobj" where
  "updateTrailingStopOrder lastTradePriceTicks stopOrder =
    (if getp stopOrder ''type'' \<noteq> type_val TRAILING_STOP_MARKET then stopOrder
     else
       (let so1 =
          (if getp stopOrder ''side'' = side_val SELL then
             (if getp stopOrder ''peakPriceTicks'' = JNull \<or>
                 num_less (to_number (getp stopOrder ''peakPriceTicks'')) (Fin (of_int lastTradePriceTicks))
              then setp (setp stopOrder ''peakPriceTicks'' (JInt lastTradePriceTicks)) ''triggerPriceTicks''
                     (ticks_minus lastTradePriceTicks (getp stopOrder ''trailingAmountTicks''))
              else stopOrder)
           else stopOrder)
        in (if getp so1 ''side'' = side_val BUY then
             (if getp so1 ''valleyPriceTicks'' = JNull \<or>
                 num_less (Fin (of_int lastTradePriceTicks)) (to_number (getp so1 ''valleyPriceTicks''))
              then setp (setp so1 ''valleyPriceTicks'' (JInt lastTradePriceTicks)) ''triggerPriceTicks''
                     (ticks_plus lastTradePriceTicks (getp so1 ''trailingAmountTicks''))
              else so1)
           else so1)))"

definition updateTrailingStopOrders :: "unit bprog" where
  "updateTrailingStopOrders = modify (\<lambda>s. case ob_lastTradePriceTicks s of None \<Rightarrow> s
     | Some p \<Rightarrow> s\<lparr>ob_stopOrdersById :=
         map (\<lambda>(k, so). (k, updateTrailingStopOrder p so)) (ob_stopOrdersById s)\<rparr>)"

subsection \<open>Triggered stops\<close>

definition isEligible :: "int \<Rightarrow> jsobj \<Rightarrow> bool" where
  "isEligible lastTradePriceTicks stopOrder \<longleftrightarrow>
     getp stopOrder ''side'' = side_val BUY \<and>
       num_le (to_number (getp stopOrder ''triggerPriceTicks'')) (Fin (of_int lastTradePriceTicks)) \<or>
     getp stopOrder ''side'' = side_val SELL \<and>
       num_le (Fin (of_int lastTradePriceTicks)) (to_number (getp stopOrder ''triggerPriceTicks''))"

definition getEligibleStopOrders :: "OrderBook \<Rightarrow> jsobj list" where
  "getEligibleStopOrders s = (case ob_lastTradePriceTicks s of None \<Rightarrow> []
     | Some p \<Rightarrow> filter (isEligible p) (map_values (ob_stopOrdersById s)))"

text \<open>The arguments of the two \<^verbatim>\<open>new OrderNode\<close> calls.\<close>

definition triggered_market_input :: "string \<Rightarrow> nat \<Rightarrow> jsobj \<Rightarrow> jsobj" where
  "triggered_market_input symb now stopOrder =
    [(''orderId'', getp stopOrder ''orderId''), (''userId'', getp stopOrder ''userId''),
     (''symbol'', JStr symb), (''side'', getp stopOrder ''side''), (''type'', type_val MARKET),
     (''priceTicks'', JNull), (''quantity'', getp stopOrder ''remainingQuantity''),
     (''timestamp'', JInt (int now))]"

definition triggered_limit_input :: "string \<Rightarrow> nat \<Rightarrow> jsobj \<Rightarrow> jsobj" where
  "triggered_limit_input symb now stopOrder =
    [(''orderId'', getp stopOrder ''orderId''), (''userId'', getp stopOrder ''userId''),
     (''symbol'', JStr symb), (''side'', getp stopOrder ''side''), (''type'', type_val LIMIT),
     (''priceTicks'', getp stopOrder ''priceTicks''), (''quantity'', getp stopOrder ''remainingQuantity''),
     (''timestamp'', JInt (int now))]"

definition executeTriggeredStopOrder :: "jsobj \<Rightarrow> (jsobj \<times> Trade list) bprog" where
  "executeTriggeredStopOrder stopOrder =
    (if getp stopOrder ''type'' = type_val STOP_MARKET \<or> getp stopOrder ''type'' = type_val TRAILING_STOP_MARKET then
       bindE date_now (\<lambda>now.
       bindE (gets (\<lambda>s. new_OrderNode (triggered_market_input (ob_symbol s) now stopOrder))) (\<lambda>r.
       bindE (liftE r) (\<lambda>n.
       bindE (alloc_node n) (\<lambda>marketOrder.
       bindE (if on_side n = BUY then matchBuyOrder marketOrder True else matchSellOrder marketOrder True) (\<lambda>trades.
       bindE (gets (\<lambda>s. nodes s marketOrder)) (\<lambda>m.
       bindE (if 0 < rem m \<and> isActive m then on_node marketOrder cancel else ret ()) (\<lambda>_.
       bindE (gets (\<lambda>s. node_snapshot (nodes s marketOrder))) (\<lambda>order.
       ret (order, trades)))))))))
     else if getp stopOrder ''type'' = type_val STOP_LIMIT then
       bindE date_now (\<lambda>now.
       bindE (gets (\<lambda>s. new_OrderNode (triggered_limit_input (ob_symbol s) now stopOrder))) (\<lambda>r.
       bindE (liftE r) (\<lambda>n.
       bindE (alloc_node n) (\<lambda>limitOrder.
       bindE (if on_side n = BUY then matchBuyOrder limitOrder False else matchSellOrder limitOrder False) (\<lambda>trades.
       bindE (gets (\<lambda>s. nodes s limitOrder)) (\<lambda>m.
       bindE (if isActive m \<and> 0 < rem m
              then bindE (addRestingOrder limitOrder) (\<lambda>_.
                   modify (\<lambda>s. s\<lparr>ob_ordersById := map_set (ob_ordersById s) (on_orderId (nodes s limitOrder)) limitOrder\<rparr>))
              else ret ()) (\<lambda>_.
       bindE (gets (\<lambda>s. node_snapshot (nodes s limitOrder))) (\<lambda>order.
       ret (order, trades)))))))))
     else throw UnsupportedStopType)"

subsection \<open>The trigger loop\<close>

record Triggered =
  tg_trades :: "Trade list"
  tg_orders :: "jsobj list"
  tg_events :: "jsobj list"

definition no_triggered :: Triggered where
  "no_triggered = \<lparr>tg_trades = [], tg_orders = [], tg_events = []\<rparr>"

text \<open>The events of one triggered order.\<close>

definition triggered_events :: "jsobj \<Rightarrow> jsobj \<Rightarrow> Trade list \<Rightarrow> jsobj list" where
  "triggered_events stopOrderSnapshot order trades =
     createStopOrderTriggeredEvent stopOrderSnapshot # createTradeCreatedEvents trades @
     [createOrderFillEvent order] @
     (if getp order ''status'' = status_val OPEN \<and> num_less (Fin 0) (to_number (getp order ''remainingQuantity''))
      then [createOrderRestedEvent order] else [])"

text \<open>The body of \<^verbatim>\<open>for (const stopOrder of eligibleStopOrders)\<close>, and the loop itself.\<close>

definition triggerStopOrder :: "jsobj \<Rightarrow> Triggered bprog" where
  "triggerStopOrder stopOrder =
     bindE (modify (\<lambda>s. s\<lparr>ob_stopOrdersById := map_delete (ob_stopOrdersById s) (getp stopOrder ''orderId'')\<rparr>)) (\<lambda>_.
     (let stopOrder' = setp stopOrder ''status'' (status_val TRIGGERED);
          stopOrderSnapshot = getStopOrderSnapshot stopOrder'
      in bindE (executeTriggeredStopOrder stopOrder') (\<lambda>(order, trades).
         ret \<lparr>tg_trades = trades, tg_orders = [stopOrderSnapshot],
              tg_events = triggered_events stopOrderSnapshot order trades\<rparr>)))"

definition add_triggered :: "Triggered \<Rightarrow> Triggered \<Rightarrow> Triggered" where
  "add_triggered a b = \<lparr>tg_trades = tg_trades a @ tg_trades b, tg_orders = tg_orders a @ tg_orders b,
     tg_events = tg_events a @ tg_events b\<rparr>"

fun triggerStopOrders :: "jsobj list \<Rightarrow> Triggered bprog" where
  "triggerStopOrders [] = ret no_triggered"
| "triggerStopOrders (stopOrder # rest) =
     bindE (triggerStopOrder stopOrder) (\<lambda>t.
     bindE (triggerStopOrders rest) (\<lambda>ts. ret (add_triggered t ts)))"

definition maxCycles :: nat where
  "maxCycles = 1000"

function stopCycles :: "nat \<Rightarrow> Trade list \<Rightarrow> Triggered \<Rightarrow> Triggered bprog" where
  "stopCycles cycles latestTrades acc s =
    (if latestTrades = [] then (Inr acc, s)
     else if maxCycles < cycles + 1 then (Inl CycleLimitExceeded, s)
     else
       (let s1 = snd (updateTrailingStopOrders (s\<lparr>ob_lastTradePriceTicks := tr_priceTicks (last latestTrades)\<rparr>));
            eligibleStopOrders = getEligibleStopOrders s1
        in if eligibleStopOrders = [] then (Inr acc, s1)
           else (case triggerStopOrders eligibleStopOrders s1 of
               (Inl e, s2) \<Rightarrow> (Inl e, s2)
             | (Inr t, s2) \<Rightarrow> stopCycles (cycles + 1) (tg_trades t) (add_triggered acc t) s2)))"
  by pat_completeness auto
termination by (relation "measure (\<lambda>(cycles, l, acc, s). maxCycles - cycles)") auto

definition processStopOrdersAfterTrades :: "Trade list \<Rightarrow> Triggered bprog" where
  "processStopOrdersAfterTrades initialTrades =
    (if initialTrades = [] then ret no_triggered else stopCycles 0 initialTrades no_triggered)"

end
