(* ===== verification/Json.thy ===== *)
theory Json
  imports JsMap
begin

text \<open>
  What a value is after \<^verbatim>\<open>JSON.stringify\<close> and \<^verbatim>\<open>JSON.parse\<close>: an undefined property is
  dropped, an undefined array element becomes null, everything else is as before.  The
  program sends commands, snapshots and events through this round trip; the text itself is
  not modelled.
\<close>

fun json_clean :: "jsval \<Rightarrow> jsval" where
  "json_clean (JArr vs) = JArr (map (\<lambda>v. if v = JUndef then JNull else json_clean v) vs)"
| "json_clean (JObj ps) = JObj (map (\<lambda>p. (fst p, json_clean (snd p))) (filter (\<lambda>p. snd p \<noteq> JUndef) ps))"
| "json_clean v = v"

definition clean_props :: "jsobj \<Rightarrow> jsobj" where
  "clean_props ps = map (\<lambda>p. (fst p, json_clean (snd p))) (filter (\<lambda>p. snd p \<noteq> JUndef) ps)"

lemma json_clean_obj: "json_clean (JObj ps) = JObj (clean_props ps)"
  by (simp add: clean_props_def)

text \<open>A plain value survives the round trip.\<close>

definition json_plain :: "jsval \<Rightarrow> bool" where
  "json_plain v \<longleftrightarrow> json_clean v = v"

definition plain_props :: "jsobj \<Rightarrow> bool" where
  "plain_props ps \<longleftrightarrow> list_all (\<lambda>p. json_plain (snd p)) ps"

lemma json_plain_simps [simp]:
  "json_plain JUndef" "json_plain JNull" "json_plain (JBool b)" "json_plain (JNum r)" "json_plain (JStr s)"
  by (simp_all add: json_plain_def)

lemma plain_props_simps [simp]:
  "plain_props []" "plain_props ((k, v) # ps) \<longleftrightarrow> json_plain v \<and> plain_props ps"
  by (simp_all add: plain_props_def)

lemma plain_getp: "plain_props ps \<Longrightarrow> json_plain (getp ps k)"
  by (induction ps) auto

lemma plain_setp: "plain_props ps \<Longrightarrow> json_plain v \<Longrightarrow> plain_props (setp ps k v)"
  by (induction ps) auto

lemma clean_props_notin: "k \<notin> fst ` set ps \<Longrightarrow> k \<notin> fst ` set (clean_props ps)"
  by (force simp: clean_props_def)

lemma getp_notin: "k \<notin> fst ` set ps \<Longrightarrow> getp ps k = JUndef"
  by (induction ps) auto

lemma getp_clean: "distinct (map fst ps) \<Longrightarrow> getp (clean_props ps) k = json_clean (getp ps k)"
proof (induction ps)
  case (Cons p ps)
  obtain j v where p: "p = (j, v)" by (cases p)
  then have IH: "getp (clean_props ps) k = json_clean (getp ps k)" and j: "j \<notin> fst ` set ps" using Cons by auto
  show ?case
  proof (cases "v = JUndef")
    case True
    then show ?thesis using IH j getp_notin [OF j] by (auto simp: p clean_props_def)
  next
    case False
    then show ?thesis using IH by (simp add: p clean_props_def)
  qed
qed (simp add: clean_props_def)

lemma plain_getp_clean: "distinct (map fst ps) \<Longrightarrow> plain_props ps \<Longrightarrow> getp (clean_props ps) k = getp ps k"
  using getp_clean plain_getp by (metis json_plain_def)

lemma plain_clean: "plain_props ps \<Longrightarrow> plain_props (clean_props ps)"
  by (induction ps) (auto simp: clean_props_def json_plain_def)

lemma clean_props_id: "plain_props ps \<Longrightarrow> JUndef \<notin> snd ` set ps \<Longrightarrow> clean_props ps = ps"
  by (induction ps) (auto simp: clean_props_def json_plain_def)

end
