(* ===== verification/StopProofs.thy ===== *)
theory StopProofs
  imports StopOrders Json
begin

text \<open>
  The invariant of a whole book, \<open>book_ok\<close>, and what the trigger loop does with well-formed
  stop orders: it never throws, keeps the invariant, triggers every stop at most once, leaves
  no triggered stop behind and ends long before its cycle limit.
\<close>

subsection \<open>Well-formed stop orders\<close>

definition pos_int :: "jsval \<Rightarrow> bool" where
  "pos_int v \<longleftrightarrow> (case as_integer v of Some n \<Rightarrow> 0 < n | None \<Rightarrow> False)"

text \<open>A trailing stop has its three own fields: an amount, and a peak and a valley, if only as null.\<close>

definition trailing_fields :: "jsobj \<Rightarrow> bool" where
  "trailing_fields so \<longleftrightarrow> pos_int (getp so ''trailingAmountTicks'') \<and> getp so ''peakPriceTicks'' \<noteq> JUndef \<and>
     getp so ''valleyPriceTicks'' \<noteq> JUndef"

definition stop_ok :: "jsval \<Rightarrow> jsobj \<Rightarrow> bool" where
  "stop_ok k so \<longleftrightarrow> getp so ''orderId'' = k \<and> nonEmptyString k \<and> nonEmptyString (getp so ''userId'') \<and>
     isValidSide (getp so ''side'') \<and> pos_int (getp so ''remainingQuantity'') \<and>
     (getp so ''type'' = type_val STOP_MARKET \<or> getp so ''type'' = type_val TRAILING_STOP_MARKET \<or>
      getp so ''type'' = type_val STOP_LIMIT \<and> pos_int (getp so ''priceTicks'')) \<and>
     (getp so ''type'' = type_val TRAILING_STOP_MARKET \<longrightarrow> trailing_fields so) \<and> plain_props so"

definition stops_ok :: "OrderBook \<Rightarrow> bool" where
  "stops_ok s \<longleftrightarrow> map_wf (ob_stopOrdersById s) \<and>
     (\<forall>(k, so) \<in> set (ob_stopOrdersById s). stop_ok k so \<and> orders_get s k = None)"

text \<open>The invariant of an order book.\<close>

definition book_ok :: "OrderBook \<Rightarrow> bool" where
  "book_ok s \<longleftrightarrow> links_ok s \<and> not_crossed s \<and> trim (ob_symbol s) \<noteq> [] \<and> stops_ok s"

lemma pos_int_iff: "pos_int v \<longleftrightarrow> (\<exists>n > 0. v = JInt n)"
  by (auto simp: pos_int_def as_integer_Some split: option.splits)

lemma stops_okD:
  assumes "stops_ok s" "(k, so) \<in> set (ob_stopOrdersById s)"
  shows "stop_ok k so" "orders_get s k = None"
  using assms by (auto simp: stops_ok_def)

lemma stop_ok_setp:
  assumes "j \<notin> {''orderId'', ''userId'', ''side'', ''remainingQuantity'', ''type'', ''priceTicks'',
      ''trailingAmountTicks'', ''peakPriceTicks'', ''valleyPriceTicks''}" "json_plain v" "stop_ok k so"
  shows "stop_ok k (setp so j v)"
proof -
  have "getp (setp so j v) i = getp so i"
    if "i \<in> {''orderId'', ''userId'', ''side'', ''remainingQuantity'', ''type'', ''priceTicks'',
      ''trailingAmountTicks'', ''peakPriceTicks'', ''valleyPriceTicks''}" for i
    using that assms(1) by (auto simp del: insert_iff)
  then show ?thesis using assms(2,3) plain_setp by (simp add: stop_ok_def trailing_fields_def)
qed

text \<open>Setting a peak or a valley to a price keeps a trailing stop well-formed.\<close>

lemma stop_ok_trail:
  assumes "j = ''peakPriceTicks'' \<or> j = ''valleyPriceTicks''" "v \<noteq> JUndef" "json_plain v" "stop_ok k so"
  shows "stop_ok k (setp so j v)"
proof -
  have "stop_ok k (setp so ''peakPriceTicks'' v)" "stop_ok k (setp so ''valleyPriceTicks'' v)"
    using assms(2-4) plain_setp by (simp_all add: stop_ok_def trailing_fields_def)
  then show ?thesis using assms(1) by blast
qed

lemma orders_get_JStr [simp]: "orders_get s (JStr i) = map_get (ob_ordersById s) i"
  by (simp add: orders_get_def)

lemma orders_get_cong: "ob_ordersById s' = ob_ordersById s \<Longrightarrow> orders_get s' k = orders_get s k"
  by (cases k) (simp_all add: orders_get_def)

lemma orders_get_None: "(\<And>i. k = JStr i \<Longrightarrow> map_get (ob_ordersById s) i = None) \<Longrightarrow> orders_get s k = None"
  by (simp add: orders_get_def split: jsval.split)

text \<open>Placing an order keeps the stop orders well-formed, whatever does not touch them.\<close>

lemma placed_book_ok:
  assumes ok: "links_ok s" and st: "stops_ok s" and symb: "trim (ob_symbol s) \<noteq> []"
    and pl: "placed market n s fs q s'" and id: "JStr (on_orderId n) \<notin> fst ` set (ob_stopOrdersById s)"
  shows "book_ok s'"
proof -
  have qt: "quiet s s'" using pl by (simp add: placed_def)
  have eq: "ob_stopOrdersById s' = ob_stopOrdersById s" "ob_symbol s' = ob_symbol s" using qt by (simp_all add: quiet_def)
  have "orders_get s' k = None" if k: "(k, so) \<in> set (ob_stopOrdersById s)" for k so
  proof (rule orders_get_None, rule ccontr)
    fix i assume i: "k = JStr i" "map_get (ob_ordersById s') i \<noteq> None"
    then have "map_get (ob_ordersById s) i \<noteq> None \<or> i = on_orderId n" using placed_ids [OF ok pl] by blast
    moreover have "i \<noteq> on_orderId n" using id k i(1) by force
    ultimately show False using stops_okD(2) [OF st k] i(1) by simp
  qed
  then have "stops_ok s'" using st by (auto simp: stops_ok_def eq)
  then show ?thesis using pl symb eq by (simp add: book_ok_def placed_def)
qed

subsection \<open>Executing a triggered stop order\<close>

lemma order_side_if:
  "(if on_side n = BUY then matchBuyOrder a ignore else matchSellOrder a ignore) = match_order (on_side n) a ignore"
  by (cases "on_side n") (simp_all add: match_order_def)

lemma bindE_cancel_rest:
  "bindE (gets (\<lambda>s. nodes s a)) (\<lambda>m. bindE (if 0 < rem m \<and> isActive m then on_node a cancel else ret ()) k) =
     bindE (cancel_rest a) k"
  by (simp add: cancel_rest_def bindE_assoc)

lemma bindE_keep_rest:
  "bindE (gets (\<lambda>s. nodes s a)) (\<lambda>m. bindE (if isActive m \<and> 0 < rem m
      then bindE (addRestingOrder a) (\<lambda>_.
           modify (\<lambda>s. s\<lparr>ob_ordersById := map_set (ob_ordersById s) (on_orderId (nodes s a)) a\<rparr>))
      else ret ()) k) = bindE (keep_rest a) k"
  by (simp add: keep_rest_def bindE_assoc)

lemma placed_snapshot:
  "placed market n s fs q s' \<Longrightarrow> node_snapshot (nodes s' (nextRef s)) = node_snapshot (order_result market n q)"
  by (metis node_snapshot_core placed_def)

lemma triggered_inputs:
  assumes so: "stop_ok k so" and symb: "trim symb \<noteq> []"
  shows "getp so ''type'' \<noteq> type_val STOP_LIMIT \<Longrightarrow> \<exists>n. new_OrderNode (triggered_market_input symb now so) = Inr n"
    "getp so ''type'' = type_val STOP_LIMIT \<Longrightarrow> \<exists>n. new_OrderNode (triggered_limit_input symb now so) = Inr n"
proof -
  obtain q where q: "getp so ''remainingQuantity'' = JInt q" "0 < q" using so by (auto simp: stop_ok_def pos_int_iff)
  have ok: "nonEmptyString (getp so ''orderId'')" "nonEmptyString (getp so ''userId'')" "isValidSide (getp so ''side'')"
    using so by (auto simp: stop_ok_def)
  show "\<exists>n. new_OrderNode (triggered_market_input symb now so) = Inr n" if "getp so ''type'' \<noteq> type_val STOP_LIMIT"
    by (rule new_OrderNode_accepts [where t = MARKET and q = q and ts = "int now"])
      (use ok q symb in \<open>simp_all add: triggered_market_input_def nullish_def dflt_def\<close>)
  show "\<exists>n. new_OrderNode (triggered_limit_input symb now so) = Inr n" if "getp so ''type'' = type_val STOP_LIMIT"
  proof (rule new_OrderNode_accepts [where t = LIMIT and q = q and ts = "int now"])
    show "\<exists>p>0. getp (triggered_limit_input symb now so) ''priceTicks'' = JInt p"
      using so that by (auto simp: stop_ok_def pos_int_iff triggered_limit_input_def)
  qed (use ok q symb in \<open>simp_all add: triggered_limit_input_def dflt_def\<close>)
qed

text \<open>
  A triggered stop is placed like a market or a limit order of its remaining quantity, under
  its own identifier.
\<close>

definition market_stop :: "jsobj \<Rightarrow> bool" where
  "market_stop so \<longleftrightarrow> getp so ''type'' \<noteq> type_val STOP_LIMIT"

definition stop_order_node :: "string \<Rightarrow> nat \<Rightarrow> jsobj \<Rightarrow> OrderNode \<Rightarrow> bool" where
  "stop_order_node symb now so n \<longleftrightarrow> new_OrderNode (if market_stop so then triggered_market_input symb now so
     else triggered_limit_input symb now so) = Inr n"

lemma stop_order_node_facts:
  assumes "stop_order_node symb now so n"
  shows "fresh_order n" "getp so ''orderId'' = JStr (on_orderId n)" "on_symbol n = symb"
    "getp so ''side'' = side_val (on_side n)" "getp so ''remainingQuantity'' = JInt (rem n)"
    "on_type n = (if market_stop so then MARKET else LIMIT)"
proof -
  let ?i = "if market_stop so then triggered_market_input symb now so else triggered_limit_input symb now so"
  have n: "new_OrderNode ?i = Inr n" using assms by (simp add: stop_order_node_def)
  show "fresh_order n" by (rule new_OrderNode_fresh [OF n])
  note F = new_OrderNode_fields [OF n]
  have i: "getp ?i ''orderId'' = getp so ''orderId''" "getp ?i ''symbol'' = JStr symb"
    "getp ?i ''side'' = getp so ''side''" "getp ?i ''quantity'' = getp so ''remainingQuantity''"
    "getp ?i ''type'' = type_val (if market_stop so then MARKET else LIMIT)"
    by (simp_all add: triggered_market_input_def triggered_limit_input_def)
  show "getp so ''orderId'' = JStr (on_orderId n)" "on_symbol n = symb"
    "getp so ''side'' = side_val (on_side n)" "getp so ''remainingQuantity'' = JInt (rem n)"
    using F by (simp_all only: i) simp_all
  have "type_val (if market_stop so then MARKET else LIMIT) = type_val (on_type n)"
    using F unfolding i by (simp only: vals_defined)
  then show "on_type n = (if market_stop so then MARKET else LIMIT)" by (simp del: type_val.simps)
qed

lemma execute_ok:
  assumes ok: "links_ok s" and nc: "not_crossed s" and symb: "trim (ob_symbol s) \<noteq> []"
    and so: "stop_ok k so" and id: "orders_get s k = None"
  obtains n fs q s' where "stop_order_node (ob_symbol s) (ob_clock s (ob_ticks s)) so n"
    "executeTriggeredStopOrder so s = (Inr (node_snapshot (order_result (market_stop so) n q),
       map (trade_of (on_side n) (ob_symbol s) n) fs), s')"
    "placed (market_stop so) n (s\<lparr>ob_ticks := Suc (ob_ticks s)\<rparr>) fs q s'"
proof -
  let ?s = "s\<lparr>ob_ticks := Suc (ob_ticks s)\<rparr>" and ?now = "ob_clock s (ob_ticks s)"
  have same: "same_structure s ?s" by (rule same_structure_scalars)
  have ok1: "links_ok ?s" by (rule frame_links [OF ok same])
  have nc1: "not_crossed ?s" using nc frame_resting [OF ok same] by (simp add: not_crossed_def)
  obtain n where n: "stop_order_node (ob_symbol s) ?now so n"
    using triggered_inputs [OF so symb, of ?now] unfolding stop_order_node_def market_stop_def
    by (cases "getp so ''type'' = type_val STOP_LIMIT") (simp_all del: type_val.simps, blast+)
  note F = stop_order_node_facts [OF n]
  obtain fs q s1 where run: "match_order (on_side n) (nextRef ?s) (market_stop so) (allocated n ?s) =
      (Inr (map (trade_of (on_side n) (ob_symbol ?s) n) fs), s1)" and am: "after_match (market_stop so) n ?s fs q s1"
    by (rule match_new_after [OF ok1 F(1), of "market_stop so"])
  show ?thesis
  proof (cases "market_stop so")
    case True
    then have t: "getp so ''type'' = type_val STOP_MARKET \<or> getp so ''type'' = type_val TRAILING_STOP_MARKET"
      using so by (auto simp: market_stop_def stop_ok_def)
    have am': "after_match True n ?s fs q s1" using am True by simp
    obtain s' where c: "cancel_rest (nextRef ?s) s1 = (Inr (), s')" and pl: "placed True n ?s fs q s'"
      using cancel_rest_placed [OF ok1 nc1 F(1) am'] by blast
    have "executeTriggeredStopOrder so s = (Inr (node_snapshot (nodes s' (nextRef ?s)),
        map (trade_of (on_side n) (ob_symbol s) n) fs), s')"
      using t n True run c
      by (simp add: executeTriggeredStopOrder_def order_side_if bindE_cancel_rest stop_order_node_def
        bindE_Inr [OF date_now_apply] bindE_Inr [OF alloc_node_apply] bindE_Inr [of "match_order _ _ _"] bindE_Inr [of "cancel_rest _"] del: type_val.simps)
    then show ?thesis using that [OF n] pl placed_snapshot [OF pl] True by simp
  next
    case False
    then have t: "getp so ''type'' = type_val STOP_LIMIT" by (simp add: market_stop_def)
    have am': "after_match False n ?s fs q s1" using am False by simp
    have "k = JStr (on_orderId n)" using so F(2) by (simp add: stop_ok_def)
    then have i: "map_get (ob_ordersById ?s) (on_orderId n) = None" using id by simp
    obtain s' where c: "keep_rest (nextRef ?s) s1 = (Inr (), s')" and pl: "placed False n ?s fs q s'"
      using keep_rest_placed [OF ok1 nc1 F(1) am' _ _ i] F(3,6) False by auto
    have "executeTriggeredStopOrder so s = (Inr (node_snapshot (nodes s' (nextRef ?s)),
        map (trade_of (on_side n) (ob_symbol s) n) fs), s')"
      using t n False run c
      by (simp add: executeTriggeredStopOrder_def order_side_if bindE_keep_rest stop_order_node_def
        bindE_Inr [OF date_now_apply] bindE_Inr [OF alloc_node_apply] bindE_Inr [of "match_order _ _ _"] bindE_Inr [of "keep_rest _"] del: type_val.simps)
    then show ?thesis using that [OF n] pl placed_snapshot [OF pl] False by simp
  qed
qed

subsection \<open>One triggered stop\<close>

lemma status_snapshot_ok: "stop_ok k so \<Longrightarrow> stop_ok k (setp so ''status'' (status_val TRIGGERED))"
  by (rule stop_ok_setp) simp_all

text \<open>What a run of the engine leaves alone, and the trades it adds.\<close>

definition run_frame :: "OrderBook \<Rightarrow> Trade list \<Rightarrow> OrderBook \<Rightarrow> bool" where
  "run_frame s ts s' \<longleftrightarrow> ob_symbol s' = ob_symbol s \<and> ob_clock s' = ob_clock s \<and>
     ob_sequence s' = ob_sequence s \<and> ob_trades s' = ob_trades s @ ts"

lemma run_frame_trans: "run_frame s ts t \<Longrightarrow> run_frame t us u \<Longrightarrow> run_frame s (ts @ us) u"
  by (simp add: run_frame_def)

lemma run_frame_refl [simp]: "run_frame s [] s"
  by (simp add: run_frame_def)

lemma stops_frame:
  assumes "links_ok s" "stops_ok s" "not_crossed s" "trim (ob_symbol s) \<noteq> []"
    and "map_wf m" "\<And>k so. (k, so) \<in> set m \<Longrightarrow> stop_ok k so \<and> orders_get s k = None"
  shows "book_ok (s\<lparr>ob_stopOrdersById := m\<rparr>)"
proof -
  have same: "same_structure s (s\<lparr>ob_stopOrdersById := m\<rparr>)" by (rule same_structure_scalars)
  have "orders_get (s\<lparr>ob_stopOrdersById := m\<rparr>) = orders_get s"
    by (simp add: orders_get_def fun_eq_iff split: jsval.split)
  then show ?thesis
    using assms frame_links [OF assms(1) same] frame_resting [OF assms(1) same]
    by (auto simp: book_ok_def not_crossed_def stops_ok_def)
qed

lemma stop_order_node_status [simp]:
  "stop_order_node symb now (setp so ''status'' v) n \<longleftrightarrow> stop_order_node symb now so n"
  "market_stop (setp so ''status'' v) \<longleftrightarrow> market_stop so"
  by (simp_all add: stop_order_node_def market_stop_def triggered_market_input_def triggered_limit_input_def)

text \<open>
  The events of a triggered stop: triggered, one per trade, the fill event, and a rested
  event only when a limit order rests untouched.
\<close>

lemma triggered_events_length:
  assumes "fresh_order n" "0 \<le> q" "q \<le> rem n"
  shows "length (triggered_events snap (node_snapshot (order_result market n q)) ts) =
    2 + length ts + (if \<not> market \<and> q = rem n then 1 else 0)"
  using assms
  by (auto simp: triggered_events_def createTradeCreatedEvents_def snapshot_props order_result_def consumed_def
      filled_by_def fresh_order_def Let_def)

definition stop_ran :: "OrderBook \<Rightarrow> jsval \<Rightarrow> jsobj \<Rightarrow> Triggered \<Rightarrow> OrderBook \<Rightarrow> bool" where
  "stop_ran s k so t s' \<longleftrightarrow> (\<exists>n fs q. stop_order_node (ob_symbol s) (ob_clock s (ob_ticks s)) so n \<and>
     placed (market_stop so) n (s\<lparr>ob_stopOrdersById := map_delete (ob_stopOrdersById s) k, ob_ticks := Suc (ob_ticks s)\<rparr>) fs q s' \<and>
     tg_trades t = map (trade_of (on_side n) (ob_symbol s) n) fs \<and>
     length (tg_events t) = 2 + length fs + (if \<not> market_stop so \<and> q = rem n then 1 else 0))"

lemma triggerStopOrder_ok:
  assumes ok: "book_ok s" and so: "(k, so) \<in> set (ob_stopOrdersById s)"
  obtains t s' where "triggerStopOrder so s = (Inr t, s')" "book_ok s'"
    "ob_stopOrdersById s' = map_delete (ob_stopOrdersById s) k"
    "ob_lastTradePriceTicks s' = ob_lastTradePriceTicks s" "run_frame s (tg_trades t) s'"
    "tg_orders t = [getStopOrderSnapshot (setp so ''status'' (status_val TRIGGERED))]" "stop_ran s k so t s'"
proof -
  let ?m = "map_delete (ob_stopOrdersById s) k" and ?so = "setp so ''status'' (status_val TRIGGERED)"
  let ?s = "s\<lparr>ob_stopOrdersById := ?m\<rparr>"
  have lk: "links_ok s" and nc: "not_crossed s" and symb: "trim (ob_symbol s) \<noteq> []" and st: "stops_ok s"
    using ok by (simp_all add: book_ok_def)
  note S = stops_okD [OF st so]
  have kid: "getp so ''orderId'' = k" using S(1) by (simp add: stop_ok_def)
  have ok1: "book_ok ?s"
    using st map_delete_subset [of "ob_stopOrdersById s" k]
    by (intro stops_frame [OF lk st nc symb]) (auto simp: stops_ok_def map_wf_delete)
  have h5: "orders_get ?s k = None" using S(2) orders_get_cong [of ?s s k] by simp
  have h: "links_ok ?s" "not_crossed ?s" "trim (ob_symbol ?s) \<noteq> []" using ok1 by (simp_all add: book_ok_def)
  have h4: "stop_ok k ?so" by (rule status_snapshot_ok [OF S(1)])
  obtain n fs q s' where n: "stop_order_node (ob_symbol ?s) (ob_clock ?s (ob_ticks ?s)) ?so n"
    and ex: "executeTriggeredStopOrder ?so ?s = (Inr (node_snapshot (order_result (market_stop ?so) n q),
       map (trade_of (on_side n) (ob_symbol ?s) n) fs), s')"
    and pl: "placed (market_stop ?so) n (?s\<lparr>ob_ticks := Suc (ob_ticks ?s)\<rparr>) fs q s'"
    by (rule execute_ok [OF h h4 h5])
  let ?s1 = "?s\<lparr>ob_ticks := Suc (ob_ticks ?s)\<rparr>"
  have same: "same_structure ?s ?s1" by (rule same_structure_scalars)
  have lk1: "links_ok ?s1" using ok1 frame_links [OF _ same] by (simp add: book_ok_def)
  have "orders_get ?s1 = orders_get ?s" by (simp add: orders_get_def fun_eq_iff split: jsval.split)
  then have st1: "stops_ok ?s1" using ok1 by (auto simp: book_ok_def stops_ok_def)
  have nid: "JStr (on_orderId n) = k" using stop_order_node_facts(2) [OF n] kid by simp
  have "book_ok s'"
    using symb nid by (intro placed_book_ok [OF lk1 st1 _ pl]) (auto simp: set_map_delete)
  moreover have "quiet ?s1 s'" "ob_trades s' = ob_trades ?s1 @ map (trade_of (on_side n) (ob_symbol ?s1) n) fs"
    using pl by (simp_all add: placed_def)
  then have "ob_stopOrdersById s' = ?m" "ob_lastTradePriceTicks s' = ob_lastTradePriceTicks s"
    "run_frame s (map (trade_of (on_side n) (ob_symbol s) n) fs) s'"
    by (simp_all add: quiet_def run_frame_def)
  moreover have "length (triggered_events (getStopOrderSnapshot ?so) (node_snapshot (order_result (market_stop ?so) n q))
      (map (trade_of (on_side n) (ob_symbol s) n) fs)) = 2 + length fs + (if \<not> market_stop so \<and> q = rem n then 1 else 0)"
  proof -
    have "spec_of (market_stop ?so) n ?s1 = (fs, resting (opp (on_side n)) s', q)" using pl by (simp add: placed_def)
    note B = spec_of_bounds [OF lk1 stop_order_node_facts(1) [OF n] this]
    show ?thesis using triggered_events_length [OF stop_order_node_facts(1) [OF n] B(1,2)] by simp
  qed
  moreover have "triggerStopOrder so s = (Inr \<lparr>tg_trades = map (trade_of (on_side n) (ob_symbol s) n) fs,
      tg_orders = [getStopOrderSnapshot ?so],
      tg_events = triggered_events (getStopOrderSnapshot ?so) (node_snapshot (order_result (market_stop ?so) n q))
        (map (trade_of (on_side n) (ob_symbol s) n) fs)\<rparr>, s')"
    using ex kid by (simp add: triggerStopOrder_def Let_def bindE_Inr)
  note that [OF this]
  ultimately show ?thesis using n pl by (auto simp: stop_ran_def)
qed

text \<open>A batch of triggered stops: each is deleted and executed once.\<close>

definition stop_id :: "jsobj \<Rightarrow> jsval" where
  "stop_id so = getp so ''orderId''"

definition triggered_snapshot :: "jsobj \<Rightarrow> jsobj" where
  "triggered_snapshot so = getStopOrderSnapshot (setp so ''status'' (status_val TRIGGERED))"

lemma triggerStopOrders_ok:
  assumes "book_ok s" "\<And>so. so \<in> set sos \<Longrightarrow> (stop_id so, so) \<in> set (ob_stopOrdersById s)"
    and "distinct (map stop_id sos)"
  shows "\<exists>t s'. triggerStopOrders sos s = (Inr t, s') \<and> book_ok s' \<and>
    ob_stopOrdersById s' = filter (\<lambda>(k, so). k \<notin> stop_id ` set sos) (ob_stopOrdersById s) \<and>
    ob_lastTradePriceTicks s' = ob_lastTradePriceTicks s \<and> run_frame s (tg_trades t) s' \<and>
    tg_orders t = map triggered_snapshot sos"
  using assms
proof (induction sos arbitrary: s)
  case Nil
  then show ?case by (simp add: no_triggered_def)
next
  case (Cons so sos)
  have so: "(stop_id so, so) \<in> set (ob_stopOrdersById s)" using Cons.prems(2) by simp
  obtain t s1 where 1: "triggerStopOrder so s = (Inr t, s1)" "book_ok s1"
    "ob_stopOrdersById s1 = map_delete (ob_stopOrdersById s) (stop_id so)"
    "ob_lastTradePriceTicks s1 = ob_lastTradePriceTicks s" "run_frame s (tg_trades t) s1"
    "tg_orders t = [getStopOrderSnapshot (setp so ''status'' (status_val TRIGGERED))]" "stop_ran s (stop_id so) so t s1"
    by (rule triggerStopOrder_ok [OF Cons.prems(1) so])
  have "(stop_id so', so') \<in> set (ob_stopOrdersById s1)" if "so' \<in> set sos" for so'
    using Cons.prems(2,3) that 1(3) by (auto simp: set_map_delete image_iff)
  then obtain ts s2 where 2: "triggerStopOrders sos s1 = (Inr ts, s2)" "book_ok s2"
    "ob_stopOrdersById s2 = filter (\<lambda>(k, so). k \<notin> stop_id ` set sos) (ob_stopOrdersById s1)"
    "ob_lastTradePriceTicks s2 = ob_lastTradePriceTicks s1" "run_frame s1 (tg_trades ts) s2"
    "tg_orders ts = map triggered_snapshot sos"
    using Cons.IH [OF 1(2)] Cons.prems(3) by auto
  have "triggerStopOrders (so # sos) s = (Inr (add_triggered t ts), s2)"
    using 1(1) 2(1) by (simp add: bindE_Inr)
  moreover have "ob_stopOrdersById s2 =
      filter (\<lambda>(k, so'). k \<notin> stop_id ` set (so # sos)) (ob_stopOrdersById s)"
    unfolding 2(3) 1(3) by (auto simp: map_delete_def filter_filter intro!: filter_cong)
  ultimately show ?case
    using 1 2 run_frame_trans [OF 1(5) 2(5)]
    by (simp add: add_triggered_def triggered_snapshot_def)
qed

subsection \<open>The trigger loop\<close>

lemma plain_ticks: "json_plain (ticks_minus p v)" "json_plain (ticks_plus p v)"
  by (simp_all add: ticks_minus_def ticks_plus_def number_val_def split: jsnumber.split)

lemma update_stop_ok [simp]: "stop_ok k so \<Longrightarrow> stop_ok k (updateTrailingStopOrder p so)"
  by (simp add: updateTrailingStopOrder_def Let_def stop_ok_setp stop_ok_trail plain_ticks del: type_val.simps side_val.simps)

definition with_last :: "int option \<Rightarrow> OrderBook \<Rightarrow> OrderBook" where
  "with_last p s = snd (updateTrailingStopOrders (s\<lparr>ob_lastTradePriceTicks := p\<rparr>))"

lemma with_last_eq:
  "with_last p s = s\<lparr>ob_lastTradePriceTicks := p, ob_stopOrdersById := (case p of None \<Rightarrow> ob_stopOrdersById s
     | Some q \<Rightarrow> map (\<lambda>(k, so). (k, updateTrailingStopOrder q so)) (ob_stopOrdersById s))\<rparr>"
  by (simp add: with_last_def updateTrailingStopOrders_def split: option.split)

lemma with_last_keys: "map fst (ob_stopOrdersById (with_last p s)) = map fst (ob_stopOrdersById s)"
  by (auto simp: with_last_eq split: option.split)

lemma with_last_length: "length (ob_stopOrdersById (with_last p s)) = length (ob_stopOrdersById s)"
  using arg_cong [OF with_last_keys, of length] by simp

lemma with_last_ok:
  assumes "book_ok s"
  shows "book_ok (with_last p s)"
proof -
  let ?s = "s\<lparr>ob_lastTradePriceTicks := p\<rparr>"
  let ?m = "ob_stopOrdersById (with_last p s)"
  have same: "same_structure s ?s" by (rule same_structure_scalars)
  have lk: "links_ok s" and st: "stops_ok s" and symb: "trim (ob_symbol s) \<noteq> []" and nc: "not_crossed s"
    using assms by (simp_all add: book_ok_def)
  have og: "orders_get ?s k = orders_get s k" for k by (rule orders_get_cong) simp
  have "stops_ok ?s" using st by (auto simp: stops_ok_def og)
  moreover have "not_crossed ?s" using nc frame_resting [OF lk same] by (simp add: not_crossed_def)
  moreover have "map_wf ?m" using st unfolding with_last_keys stops_ok_def by blast
  moreover have "stop_ok k so \<and> orders_get ?s k = None" if "(k, so) \<in> set ?m" for k so
    using that st by (auto simp: with_last_eq stops_ok_def og split: option.splits)
  ultimately have "book_ok (?s\<lparr>ob_stopOrdersById := ?m\<rparr>)"
    using symb by (intro stops_frame [OF frame_links [OF lk same]]) simp_all
  then show ?thesis by (simp add: with_last_eq)
qed

lemma with_last_frame: "run_frame s [] (with_last p s)" "ob_lastTradePriceTicks (with_last p s) = p"
  by (simp_all add: run_frame_def with_last_eq)

definition eligible_here :: "OrderBook \<Rightarrow> jsobj \<Rightarrow> bool" where
  "eligible_here s so \<longleftrightarrow> (case ob_lastTradePriceTicks s of None \<Rightarrow> False | Some p \<Rightarrow> isEligible p so)"

lemma eligible_filter:
  "getEligibleStopOrders s = map snd (filter (\<lambda>(k, so). eligible_here s so) (ob_stopOrdersById s))"
  by (simp add: getEligibleStopOrders_def eligible_here_def map_values_def filter_map comp_def split_def
      split: option.split)

lemma stop_keys:
  assumes "stops_ok s" "x \<in> set (ob_stopOrdersById s)"
  shows "stop_id (snd x) = fst x"
  using stops_okD(1) [OF assms(1), of "fst x" "snd x"] assms(2) by (simp add: stop_ok_def stop_id_def)

text \<open>A batch triggers exactly the eligible stops.\<close>

lemma trigger_batch:
  assumes ok: "book_ok s"
  obtains t s' where "triggerStopOrders (getEligibleStopOrders s) s = (Inr t, s')" "book_ok s'"
    "ob_stopOrdersById s' = filter (\<lambda>(k, so). \<not> eligible_here s so) (ob_stopOrdersById s)"
    "ob_lastTradePriceTicks s' = ob_lastTradePriceTicks s" "run_frame s (tg_trades t) s'"
    "tg_orders t = map triggered_snapshot (getEligibleStopOrders s)"
proof -
  let ?E = "getEligibleStopOrders s" and ?m = "ob_stopOrdersById s"
  have st: "stops_ok s" using ok by (simp add: book_ok_def)
  have wf: "map_wf ?m" using st by (simp add: stops_ok_def)
  have E: "(stop_id so, so) \<in> set ?m" if "so \<in> set ?E" for so
    using that stop_keys [OF st] by (force simp: eligible_filter)
  have ids: "map stop_id ?E = map fst (filter (\<lambda>(k, so). eligible_here s so) ?m)"
    using stop_keys [OF st] by (simp add: eligible_filter)
  then have "distinct (map stop_id ?E)" using wf by (simp add: distinct_map_filter)
  from triggerStopOrders_ok [OF ok E this] obtain t s' where
    r: "triggerStopOrders ?E s = (Inr t, s')" "book_ok s'"
      "ob_stopOrdersById s' = filter (\<lambda>(k, so). k \<notin> stop_id ` set ?E) ?m"
      "ob_lastTradePriceTicks s' = ob_lastTradePriceTicks s" "run_frame s (tg_trades t) s'"
      "tg_orders t = map triggered_snapshot ?E" by blast
  have mem: "fst x \<in> stop_id ` set ?E \<longleftrightarrow> eligible_here s (snd x)" if x: "x \<in> set ?m" for x
  proof
    assume "fst x \<in> stop_id ` set ?E"
    then obtain so where so: "so \<in> set ?E" "stop_id so = fst x" by auto
    then have "(fst x, so) \<in> set ?m" using E by metis
    then have "snd x = so" using distinct_map_fst_eq [OF wf, of "fst x" "snd x" so] x by simp
    then show "eligible_here s (snd x)" using so by (auto simp: eligible_filter)
  next
    assume "eligible_here s (snd x)"
    then have "snd x \<in> set ?E" using x by (force simp: eligible_filter)
    then show "fst x \<in> stop_id ` set ?E" using stop_keys [OF st x] by force
  qed
  have "ob_stopOrdersById s' = filter (\<lambda>(k, so). \<not> eligible_here s so) ?m"
    unfolding r(3) split_def by (intro filter_cong refl) (simp only: mem)
  then show ?thesis using that r by blast
qed

lemma snapshot_id: "getp (triggered_snapshot so) ''orderId'' = stop_id so"
  by (simp add: triggered_snapshot_def getStopOrderSnapshot_def stop_id_def)

text \<open>
  The loop: it returns, keeps the invariant, leaves no stop that the last price triggers,
  and every stop order of the start is either still waiting or has been triggered, once.
\<close>

definition cycles_result :: "Trade list \<Rightarrow> Triggered \<Rightarrow> OrderBook \<Rightarrow> Triggered \<Rightarrow> OrderBook \<Rightarrow> bool" where
  "cycles_result latest acc s t s' \<longleftrightarrow> book_ok s' \<and> getEligibleStopOrders s' = [] \<and>
     (\<exists>ts. tg_trades t = tg_trades acc @ ts \<and> run_frame s ts s' \<and>
        (latest \<noteq> [] \<longrightarrow> ob_lastTradePriceTicks s' = tr_priceTicks (last (latest @ ts)))) \<and>
     (\<exists>os. tg_orders t = tg_orders acc @ os \<and>
        mset (map fst (ob_stopOrdersById s)) =
          mset (map fst (ob_stopOrdersById s')) + mset (map (\<lambda>so. getp so ''orderId'') os))"

lemma stopCycles_ok:
  assumes "book_ok s" "cycles + length (ob_stopOrdersById s) < maxCycles"
    and "latest = [] \<Longrightarrow> getEligibleStopOrders s = []"
  shows "\<exists>t s'. stopCycles cycles latest acc s = (Inr t, s') \<and> cycles_result latest acc s t s'"
  using assms
proof (induction "length (ob_stopOrdersById s)" arbitrary: cycles latest acc s rule: less_induct)
  case less
  note ok = less.prems(1) and bound = less.prems(2) and quiesc = less.prems(3)
  show ?case
  proof (cases "latest = []")
    case True
    then show ?thesis using ok quiesc by (auto simp: cycles_result_def)
  next
    case ne: False
    let ?p = "tr_priceTicks (last latest)"
    define s1 where "s1 = with_last ?p s"
    have ok1: "book_ok s1" using with_last_ok [OF ok] by (simp add: s1_def)
    have F1: "run_frame s [] s1" "ob_lastTradePriceTicks s1 = ?p" using with_last_frame by (simp_all add: s1_def)
    have keys1: "map fst (ob_stopOrdersById s1) = map fst (ob_stopOrdersById s)"
      by (simp only: s1_def with_last_keys)
    let ?E = "getEligibleStopOrders s1"
    show ?thesis
    proof (cases "?E = []")
      case True
      have "stopCycles cycles latest acc s = (Inr acc, s1)"
        using ne bound True by (subst stopCycles.simps) (simp add: Let_def with_last_def [symmetric] s1_def [symmetric])
      moreover have "cycles_result latest acc s acc s1"
        using ok1 F1 True keys1 by (auto simp: cycles_result_def)
      ultimately show ?thesis by blast
    next
      case False
      obtain t s2 where T: "triggerStopOrders ?E s1 = (Inr t, s2)" "book_ok s2"
        "ob_stopOrdersById s2 = filter (\<lambda>(k, so). \<not> eligible_here s1 so) (ob_stopOrdersById s1)"
        "ob_lastTradePriceTicks s2 = ob_lastTradePriceTicks s1" "run_frame s1 (tg_trades t) s2"
        "tg_orders t = map triggered_snapshot ?E" by (rule trigger_batch [OF ok1])
      have eh: "eligible_here s2 = eligible_here s1" by (simp add: eligible_here_def T(4) fun_eq_iff)
      have q2: "getEligibleStopOrders s2 = []" by (auto simp: eligible_filter [of s2] eh T(3) filter_empty_conv)
      have st1: "stops_ok s1" using ok1 by (simp add: book_ok_def)
      have part: "mset (ob_stopOrdersById s1) =
          mset (ob_stopOrdersById s2) + mset (filter (\<lambda>(k, so). eligible_here s1 so) (ob_stopOrdersById s1))"
        using multiset_partition [of "mset (ob_stopOrdersById s1)" "\<lambda>(k, so). \<not> eligible_here s1 so"]
        by (simp add: T(3) split_def)
      have ids: "map (\<lambda>so. getp so ''orderId'') (tg_orders t) =
          map fst (filter (\<lambda>(k, so). eligible_here s1 so) (ob_stopOrdersById s1))"
        using stop_keys [OF st1] by (simp add: T(6) eligible_filter snapshot_id comp_def)
      have keys2: "mset (map fst (ob_stopOrdersById s)) =
          mset (map fst (ob_stopOrdersById s2)) + mset (map (\<lambda>so. getp so ''orderId'') (tg_orders t))"
        using arg_cong [OF part, of "image_mset fst"] unfolding ids keys1 [symmetric] mset_map by simp
      have lt: "length (ob_stopOrdersById s2) < length (ob_stopOrdersById s)"
        using arg_cong [OF keys2, of size] False T(6) by (cases ?E) auto
      have unf: "stopCycles cycles latest acc s = stopCycles (cycles + 1) (tg_trades t) (add_triggered acc t) s2"
        using ne bound False T(1)
        by (subst stopCycles.simps) (simp add: Let_def with_last_def [symmetric] s1_def [symmetric])
      obtain t' s' where R: "stopCycles (cycles + 1) (tg_trades t) (add_triggered acc t) s2 = (Inr t', s')"
        and C: "cycles_result (tg_trades t) (add_triggered acc t) s2 t' s'"
        using less.hyps [OF lt T(2), of "cycles + 1" "tg_trades t" "add_triggered acc t"] bound lt q2 by auto
      obtain ts where ts: "tg_trades t' = tg_trades (add_triggered acc t) @ ts" "run_frame s2 ts s'"
        "tg_trades t \<noteq> [] \<longrightarrow> ob_lastTradePriceTicks s' = tr_priceTicks (last (tg_trades t @ ts))"
        and "book_ok s'" "getEligibleStopOrders s' = []"
        using C by (auto simp: cycles_result_def)
      obtain os where os: "tg_orders t' = tg_orders (add_triggered acc t) @ os"
        "mset (map fst (ob_stopOrdersById s2)) =
          mset (map fst (ob_stopOrdersById s')) + mset (map (\<lambda>so. getp so ''orderId'') os)"
        using C by (auto simp: cycles_result_def)
      have empty: "tg_trades t = [] \<Longrightarrow> s' = s2 \<and> ts = []"
        using R ts(1) by (auto simp: stopCycles.simps add_triggered_def)
      have "run_frame s (tg_trades t @ ts) s'"
        using run_frame_trans [OF run_frame_trans [OF F1(1) T(5)] ts(2)] by simp
      moreover have "ob_lastTradePriceTicks s' = tr_priceTicks (last (latest @ (tg_trades t @ ts)))"
        using ts(3) empty T(4) F1(2) ne by (cases "tg_trades t = []") auto
      moreover have "mset (map fst (ob_stopOrdersById s)) = mset (map fst (ob_stopOrdersById s')) +
          mset (map (\<lambda>so. getp so ''orderId'') (tg_orders t @ os))"
        using keys2 os(2) by simp
      ultimately have "cycles_result latest acc s t' s'"
        using \<open>book_ok s'\<close> \<open>getEligibleStopOrders s' = []\<close> ts(1) os(1)
        by (auto simp: cycles_result_def add_triggered_def simp del: map_append)
      then show ?thesis using unf R by auto
    qed
  qed
qed

end
