(* ===== verification/BookOps.thy ===== *)
theory BookOps
  imports StopProofs
begin

text \<open>
  The commands of \<^verbatim>\<open>src/engine/OrderBook.js\<close>: placing the five kinds of orders and
  cancelling one.  The argument of a \<^verbatim>\<open>place\<close> method is the object it destructures, so a
  missing field is \<^verbatim>\<open>undefined\<close>.
\<close>

record PlaceResult =
  pr_order :: jsobj
  pr_trades :: "Trade list"
  pr_triggeredOrders :: "jsobj list"
  pr_events :: "jsobj list"

definition order_events :: "nat \<Rightarrow> Trade list \<Rightarrow> OrderBook \<Rightarrow> jsobj list" where
  "order_events incomingOrder trades s =
     [createOrderAcceptedEvent (node_snapshot (nodes s incomingOrder))] @ createTradeCreatedEvents trades @
     [createOrderFillEvent (node_snapshot (nodes s incomingOrder))]"

subsection \<open>Limit and market orders\<close>

definition limit_input :: "string \<Rightarrow> jsobj \<Rightarrow> jsobj" where
  "limit_input symb o1 =
    [(''orderId'', getp o1 ''orderId''), (''userId'', getp o1 ''userId''), (''symbol'', JStr symb),
     (''side'', getp o1 ''side''), (''type'', type_val LIMIT), (''priceTicks'', getp o1 ''priceTicks''),
     (''quantity'', getp o1 ''quantity''), (''timestamp'', getp o1 ''timestamp'')]"

definition placeLimitOrder :: "jsobj \<Rightarrow> PlaceResult bprog" where
  "placeLimitOrder o1 =
     bindE (assertOrderIdAvailable (getp o1 ''orderId'')) (\<lambda>_.
     bindE (gets (\<lambda>s. new_OrderNode (limit_input (ob_symbol s) o1))) (\<lambda>r.
     bindE (liftE r) (\<lambda>n.
     bindE (alloc_node n) (\<lambda>incomingOrder.
     bindE (if getp o1 ''side'' = side_val BUY then matchBuyOrder incomingOrder False
            else matchSellOrder incomingOrder False) (\<lambda>trades.
     bindE (gets (order_events incomingOrder trades)) (\<lambda>events.
     bindE (gets (\<lambda>s. nodes s incomingOrder)) (\<lambda>m.
     bindE (if isActive m \<and> 0 < rem m
            then bindE (addRestingOrder incomingOrder) (\<lambda>_.
                 bindE (modify (\<lambda>s. s\<lparr>ob_ordersById := map_set (ob_ordersById s) (str_of (getp o1 ''orderId'')) incomingOrder\<rparr>)) (\<lambda>_.
                 gets (\<lambda>s. [createOrderRestedEvent (node_snapshot (nodes s incomingOrder))])))
            else ret []) (\<lambda>rested_events.
     bindE (processStopOrdersAfterTrades trades) (\<lambda>triggered.
     bindE book_updated (\<lambda>updated.
     bindE (gets (\<lambda>s. node_snapshot (nodes s incomingOrder))) (\<lambda>order.
     bindE (stampEvents ((events @ rested_events @ [updated]) @ tg_events triggered)) (\<lambda>stamped_events.
     ret \<lparr>pr_order = order, pr_trades = trades @ tg_trades triggered,
          pr_triggeredOrders = tg_orders triggered, pr_events = stamped_events\<rparr>))))))))))))"

definition market_input :: "string \<Rightarrow> jsobj \<Rightarrow> jsobj" where
  "market_input symb o1 =
    [(''orderId'', getp o1 ''orderId''), (''userId'', getp o1 ''userId''), (''symbol'', JStr symb),
     (''side'', getp o1 ''side''), (''type'', type_val MARKET), (''priceTicks'', JNull),
     (''quantity'', getp o1 ''quantity''), (''timestamp'', getp o1 ''timestamp'')]"

definition placeMarketOrder :: "jsobj \<Rightarrow> PlaceResult bprog" where
  "placeMarketOrder o1 =
     bindE (assertOrderIdAvailable (getp o1 ''orderId'')) (\<lambda>_.
     bindE (gets (\<lambda>s. new_OrderNode (market_input (ob_symbol s) o1))) (\<lambda>r.
     bindE (liftE r) (\<lambda>n.
     bindE (alloc_node n) (\<lambda>incomingOrder.
     bindE (if getp o1 ''side'' = side_val BUY then matchBuyOrder incomingOrder True
            else matchSellOrder incomingOrder True) (\<lambda>trades.
     bindE (gets (\<lambda>s. nodes s incomingOrder)) (\<lambda>m.
     bindE (if 0 < rem m \<and> isActive m then on_node incomingOrder cancel else ret ()) (\<lambda>_.
     bindE (gets (order_events incomingOrder trades)) (\<lambda>events.
     bindE (processStopOrdersAfterTrades trades) (\<lambda>triggered.
     bindE book_updated (\<lambda>updated.
     bindE (gets (\<lambda>s. node_snapshot (nodes s incomingOrder))) (\<lambda>order.
     bindE (stampEvents (events @ tg_events triggered @ [updated])) (\<lambda>stamped_events.
     ret \<lparr>pr_order = order, pr_trades = trades @ tg_trades triggered,
          pr_triggeredOrders = tg_orders triggered, pr_events = stamped_events\<rparr>))))))))))))"

subsection \<open>Stop orders\<close>

text \<open>The end all three stop placements share: register, describe, stamp.\<close>

definition register_stop :: "jsval \<Rightarrow> jsobj \<Rightarrow> PlaceResult bprog" where
  "register_stop orderId stopOrder =
     bindE (modify (\<lambda>s. s\<lparr>ob_stopOrdersById := map_set (ob_stopOrdersById s) orderId stopOrder\<rparr>)) (\<lambda>_.
     (let orderSnapshot = getStopOrderSnapshot stopOrder
      in bindE book_updated (\<lambda>updated.
         bindE (stampEvents [createStopOrderAcceptedEvent orderSnapshot, updated]) (\<lambda>stamped_events.
         ret \<lparr>pr_order = orderSnapshot, pr_trades = [], pr_triggeredOrders = [], pr_events = stamped_events\<rparr>))))"

definition stop_market_object :: "string \<Rightarrow> jsobj \<Rightarrow> jsobj" where
  "stop_market_object symb o1 =
    [(''orderId'', getp o1 ''orderId''), (''userId'', getp o1 ''userId''), (''symbol'', JStr symb),
     (''side'', getp o1 ''side''), (''type'', type_val STOP_MARKET),
     (''triggerPriceTicks'', getp o1 ''triggerPriceTicks''), (''priceTicks'', JNull),
     (''quantity'', getp o1 ''quantity''), (''remainingQuantity'', getp o1 ''quantity''),
     (''status'', status_val OPEN), (''timestamp'', getp o1 ''timestamp'')]"

definition placeStopMarketOrder :: "jsobj \<Rightarrow> PlaceResult bprog" where
  "placeStopMarketOrder o1 =
     bindE (assertOrderIdAvailable (getp o1 ''orderId'')) (\<lambda>_.
     bindE (gets (\<lambda>s. stop_market_object (ob_symbol s) o1)) (\<lambda>stopOrder.
     register_stop (getp o1 ''orderId'') stopOrder))"

definition stop_limit_object :: "string \<Rightarrow> jsobj \<Rightarrow> jsobj" where
  "stop_limit_object symb o1 =
    [(''orderId'', getp o1 ''orderId''), (''userId'', getp o1 ''userId''), (''symbol'', JStr symb),
     (''side'', getp o1 ''side''), (''type'', type_val STOP_LIMIT),
     (''triggerPriceTicks'', getp o1 ''triggerPriceTicks''), (''priceTicks'', getp o1 ''priceTicks''),
     (''quantity'', getp o1 ''quantity''), (''remainingQuantity'', getp o1 ''quantity''),
     (''status'', status_val OPEN), (''timestamp'', getp o1 ''timestamp'')]"

definition placeStopLimitOrder :: "jsobj \<Rightarrow> PlaceResult bprog" where
  "placeStopLimitOrder o1 =
     bindE (assertOrderIdAvailable (getp o1 ''orderId'')) (\<lambda>_.
     bindE (gets (\<lambda>s. stop_limit_object (ob_symbol s) o1)) (\<lambda>stopOrder.
     register_stop (getp o1 ''orderId'') stopOrder))"

definition trailing_stop_object :: "string \<Rightarrow> int \<Rightarrow> int \<Rightarrow> jsobj \<Rightarrow> jsobj" where
  "trailing_stop_object symb lastTradePriceTicks trailingAmountTicks o1 =
    (let side = getp o1 ''side'';
         peakPriceTicks = (if side = side_val SELL then JInt lastTradePriceTicks else JNull);
         valleyPriceTicks = (if side = side_val BUY then JInt lastTradePriceTicks else JNull);
         triggerPriceTicks = (if side = side_val SELL then JInt (lastTradePriceTicks - trailingAmountTicks)
           else JInt (lastTradePriceTicks + trailingAmountTicks))
     in [(''orderId'', getp o1 ''orderId''), (''userId'', getp o1 ''userId''), (''symbol'', JStr symb),
         (''side'', side), (''type'', type_val TRAILING_STOP_MARKET),
         (''triggerPriceTicks'', triggerPriceTicks), (''priceTicks'', JNull),
         (''trailingAmountTicks'', JInt trailingAmountTicks),
         (''peakPriceTicks'', peakPriceTicks), (''valleyPriceTicks'', valleyPriceTicks),
         (''quantity'', getp o1 ''quantity''), (''remainingQuantity'', getp o1 ''quantity''),
         (''status'', status_val OPEN), (''timestamp'', getp o1 ''timestamp'')])"

definition placeTrailingStopMarketOrder :: "jsobj \<Rightarrow> PlaceResult bprog" where
  "placeTrailingStopMarketOrder o1 =
     bindE (assertOrderIdAvailable (getp o1 ''orderId'')) (\<lambda>_.
     bindE (gets ob_lastTradePriceTicks) (\<lambda>lastTrade. case lastTrade of None \<Rightarrow> throw NoTradeYet
     | Some lastTradePriceTicks \<Rightarrow>
        (case as_integer (getp o1 ''trailingAmountTicks'') of None \<Rightarrow> throw TrailingAmountInvalid
         | Some trailingAmountTicks \<Rightarrow>
            if trailingAmountTicks \<le> 0 then throw TrailingAmountInvalid
            else bindE (gets (\<lambda>s. trailing_stop_object (ob_symbol s) lastTradePriceTicks trailingAmountTicks o1)) (\<lambda>stopOrder.
                 register_stop (getp o1 ''orderId'') stopOrder))))"

subsection \<open>Cancellation\<close>

definition cancel_result :: "jsobj \<Rightarrow> jsobj list \<Rightarrow> jsobj" where
  "cancel_result orderSnapshot events =
     spread orderSnapshot [(''order'', JObj orderSnapshot), (''events'', JArr (map JObj events))]"

definition cancelStopOrder :: "jsval \<Rightarrow> jsobj \<Rightarrow> jsobj bprog" where
  "cancelStopOrder orderId stopOrder =
     (let stopOrder' = setp stopOrder ''status'' (status_val CANCELLED);
          orderSnapshot = getStopOrderSnapshot stopOrder'
      in bindE (modify (\<lambda>s. s\<lparr>ob_stopOrdersById := map_delete (ob_stopOrdersById s) orderId\<rparr>)) (\<lambda>_.
         bindE book_updated (\<lambda>updated.
         ret (cancel_result orderSnapshot [createOrderCancelledEvent orderSnapshot, updated]))))"

definition cancelRestingOrder :: "jsval \<Rightarrow> nat \<Rightarrow> jsobj bprog" where
  "cancelRestingOrder orderId order =
     bindE (gets (\<lambda>s. nodes s order)) (\<lambda>n.
     if \<not> isActive n then throw (AlreadyDone (str_of orderId) (on_status n))
     else (case on_priceLevel n of None \<Rightarrow> throw (NotAttached orderId)
     | Some priceLevel \<Rightarrow>
        bindE (remove_level priceLevel (Some order)) (\<lambda>_.
        bindE (on_node order cancel) (\<lambda>_.
        bindE (modify (\<lambda>s. s\<lparr>ob_ordersById := map_delete (ob_ordersById s) (str_of orderId)\<rparr>)) (\<lambda>_.
        bindE (gets (\<lambda>s. level_isEmpty (levels s priceLevel))) (\<lambda>empty.
        bindE (if empty then modify (upd_side (on_side n) (\<lambda>m. case on_priceTicks n of None \<Rightarrow> m | Some p \<Rightarrow> map_delete m p))
               else ret ()) (\<lambda>_.
        bindE (gets (\<lambda>s. node_snapshot (nodes s order))) (\<lambda>orderSnapshot.
        bindE book_updated (\<lambda>updated.
        bindE (stampEvents [createOrderCancelledEvent orderSnapshot, updated]) (\<lambda>stamped_events.
        ret (cancel_result orderSnapshot stamped_events)))))))))))"

definition cancelOrder :: "jsval \<Rightarrow> jsobj bprog" where
  "cancelOrder orderId =
     bindE (gets (\<lambda>s. map_get (ob_stopOrdersById s) orderId)) (\<lambda>stop. case stop of
       Some stopOrder \<Rightarrow> cancelStopOrder orderId stopOrder
     | None \<Rightarrow>
        bindE (gets (\<lambda>s. orders_get s orderId)) (\<lambda>order. case order of
          None \<Rightarrow> throw (OrderNotFound orderId)
        | Some a \<Rightarrow> cancelRestingOrder orderId a))"

end
