(* ===== verification/BookOpsProofs.thy ===== *)
theory BookOpsProofs
  imports BookOps
begin

text \<open>
  What the commands of an order book do: they keep the invariant, refuse bad input without
  touching the book, trade and rest as \<open>spec_match\<close> and \<open>spec_insert\<close> say, cancel exactly
  one order, and number their events without gaps.
\<close>

subsection \<open>The bookkeeping at the end of a command\<close>

definition bookkept :: "nat \<Rightarrow> int \<Rightarrow> OrderBook \<Rightarrow> OrderBook" where
  "bookkept k q s = s\<lparr>ob_ticks := k, ob_sequence := q\<rparr>"

lemma bookkept_same: "same_structure s (bookkept k q s)"
  by (simp add: bookkept_def same_structure_def side_map_def split: Side.split)

lemma bookkept_sel [simp]:
  "ob_stopOrdersById (bookkept k q s) = ob_stopOrdersById s" "ob_symbol (bookkept k q s) = ob_symbol s"
  "ob_ordersById (bookkept k q s) = ob_ordersById s" "ob_trades (bookkept k q s) = ob_trades s"
  "ob_lastTradePriceTicks (bookkept k q s) = ob_lastTradePriceTicks s" "ob_clock (bookkept k q s) = ob_clock s"
  "ob_sequence (bookkept k q s) = q" "nodes (bookkept k q s) = nodes s" "nextRef (bookkept k q s) = nextRef s"
  by (simp_all add: bookkept_def)

lemma bookkept_get [simp]: "orders_get (bookkept k q s) v = orders_get s v"
  by (rule orders_get_cong) simp

lemma bookkept_resting: "links_ok s \<Longrightarrow> resting sd (bookkept k q s) = resting sd s"
  by (rule frame_resting [OF _ bookkept_same])

lemma bookkept_ok: "book_ok s \<Longrightarrow> book_ok (bookkept k q s)"
  using frame_links [OF _ bookkept_same] bookkept_resting
  by (auto simp: book_ok_def not_crossed_def stops_ok_def)

lemma finish_run:
  "bindE book_updated (\<lambda>u. bindE (gets f) (\<lambda>ord. bindE (stampEvents (es u)) (\<lambda>st. ret (r ord st)))) s =
    (let u = createBookUpdatedEvent (snapshot s) (ob_clock s (ob_ticks s)); n = length (es u)
     in (Inr (r (f (s\<lparr>ob_ticks := Suc (ob_ticks s)\<rparr>)) (stamped (ob_symbol s) (ob_sequence s) (es u))),
         bookkept (Suc (ob_ticks s)) (ob_sequence s + int n) s))"
  by (simp add: bindE_def Let_def bookkept_def)

subsection \<open>Identifiers\<close>

definition id_free :: "OrderBook \<Rightarrow> jsval \<Rightarrow> bool" where
  "id_free s v \<longleftrightarrow> orders_get s v = None \<and> \<not> map_has (ob_stopOrdersById s) v"

lemma assert_id: "assertOrderIdAvailable v s = (if id_free s v then (Inr (), s) else (Inl (OrderAlreadyExists v), s))"
  by (simp add: assertOrderIdAvailable_def id_free_def)

lemma bindE_assert_id:
  "bindE (assertOrderIdAvailable v) k s = (if id_free s v then k () s else (Inl (OrderAlreadyExists v), s))"
  by (simp add: bindE_def assert_id)

subsection \<open>The stop orders after a command's own trades\<close>

lemma process_ok:
  assumes ok: "book_ok s" and len: "length (ob_stopOrdersById s) < maxCycles"
  obtains t s' where "processStopOrdersAfterTrades ts s = (Inr t, s')" "book_ok s'" "run_frame s (tg_trades t) s'"
    "ts = [] \<Longrightarrow> t = no_triggered \<and> s' = s" "ts \<noteq> [] \<Longrightarrow> cycles_result ts no_triggered s t s'"
proof (cases "ts = []")
  case True
  then show ?thesis using ok that [of no_triggered s]
    by (simp add: processStopOrdersAfterTrades_def no_triggered_def)
next
  case False
  then obtain t s' where "processStopOrdersAfterTrades ts s = (Inr t, s')" "cycles_result ts no_triggered s t s'"
    using stopCycles_ok [OF ok, of 0 ts no_triggered] len by (auto simp: processStopOrdersAfterTrades_def)
  then show ?thesis using False that by (auto simp: cycles_result_def no_triggered_def)
qed

subsection \<open>Limit orders\<close>

lemma append_level_id:
  "append_level l r s = (Inr u, s') \<Longrightarrow> on_orderId (nodes s' b) = on_orderId (nodes s b)"
  by (auto simp: append_level_def assertAppendable_def bindE_def split: option.splits if_splits)

lemma addResting_id:
  "addRestingOrder a s = (Inr u, s') \<Longrightarrow> on_orderId (nodes s' b) = on_orderId (nodes s b)"
  by (cases "on_side (nodes s a)")
    (auto simp: addRestingOrder_def bindE_eq_Inr alloc_level_def upd_side_def dest!: append_level_id [where b = b]
      split: option.splits if_splits sum.splits)

lemma rest_report:
  assumes "keep_rest a s = (Inr (), s2)" "i = on_orderId (nodes s a)"
  shows "bindE (if isActive (nodes s a) \<and> 0 < rem (nodes s a)
      then bindE (addRestingOrder a) (\<lambda>_. bindE (modify (\<lambda>s. s\<lparr>ob_ordersById := map_set (ob_ordersById s) i a\<rparr>)) (\<lambda>_. gets ev))
      else ret []) k s =
    k (if isActive (nodes s a) \<and> 0 < rem (nodes s a) then ev s2 else []) s2"
proof (cases "isActive (nodes s a) \<and> 0 < rem (nodes s a)")
  case True
  with assms(1) obtain s1 where 1: "addRestingOrder a s = (Inr (), s1)"
    and 2: "s2 = s1\<lparr>ob_ordersById := map_set (ob_ordersById s1) (on_orderId (nodes s1 a)) a\<rparr>"
    by (auto simp: keep_rest_def bindE_eq_Inr)
  then show ?thesis
    using True assms(2) addResting_id [OF 1, of a] by (simp add: bindE_def)
next
  case False
  then show ?thesis using assms by (auto simp: keep_rest_def)
qed

definition limit_ready :: "OrderBook \<Rightarrow> jsobj \<Rightarrow> OrderNode \<Rightarrow> bool" where
  "limit_ready s o1 n \<longleftrightarrow> id_free s (getp o1 ''orderId'') \<and> new_OrderNode (limit_input (ob_symbol s) o1) = Inr n"

lemma limit_ready_facts:
  assumes "limit_ready s o1 n"
  shows "fresh_order n" "on_type n = LIMIT" "on_symbol n = ob_symbol s" "getp o1 ''orderId'' = JStr (on_orderId n)"
    "getp o1 ''side'' = side_val (on_side n)" "map_get (ob_ordersById s) (on_orderId n) = None"
    "JStr (on_orderId n) \<notin> fst ` set (ob_stopOrdersById s)" "getp o1 ''quantity'' = JInt (rem n)"
proof -
  let ?i = "limit_input (ob_symbol s) o1"
  have n: "new_OrderNode ?i = Inr n" and f: "id_free s (getp o1 ''orderId'')"
    using assms by (simp_all add: limit_ready_def)
  show "fresh_order n" by (rule new_OrderNode_fresh [OF n])
  note F = new_OrderNode_fields [OF n]
  have i: "getp ?i ''orderId'' = getp o1 ''orderId''" "getp ?i ''symbol'' = JStr (ob_symbol s)"
    "getp ?i ''side'' = getp o1 ''side''" "getp ?i ''type'' = type_val LIMIT" "getp ?i ''quantity'' = getp o1 ''quantity''"
    by (simp_all add: limit_input_def)
  show id: "getp o1 ''orderId'' = JStr (on_orderId n)" and "on_symbol n = ob_symbol s"
    "getp o1 ''side'' = side_val (on_side n)" "getp o1 ''quantity'' = JInt (rem n)"
    using F by (simp_all only: i) simp_all
  have "type_val LIMIT = type_val (on_type n)" using F unfolding i by (simp only: vals_defined)
  then show "on_type n = LIMIT" by (simp del: type_val.simps)
  show "map_get (ob_ordersById s) (on_orderId n) = None" "JStr (on_orderId n) \<notin> fst ` set (ob_stopOrdersById s)"
    using f id by (simp_all add: id_free_def map_has_iff)
qed

lemma bindE_alloc: "bindE (alloc_node n) k s = k (nextRef s) (allocated n s)"
  by (simp add: bindE_def alloc_node_apply)

lemma side_if:
  "(if side_val sd = side_val BUY then matchBuyOrder a ignore else matchSellOrder a ignore) = match_order sd a ignore"
  by (cases sd) (simp_all add: match_order_def)

text \<open>
  A valid limit order: the outcome is that of matching it and resting the remainder
  (\<open>placed\<close>), followed by the trigger loop on its trades.
\<close>

definition events_count :: "bool \<Rightarrow> int \<Rightarrow> (OrderNode \<times> int) list \<Rightarrow> Triggered \<Rightarrow> nat" where
  "events_count market q fs t = length fs + (if \<not> market \<and> 0 < q then 4 else 3) + length (tg_events t)"

definition command_run :: "bool \<Rightarrow> OrderNode \<Rightarrow> OrderBook \<Rightarrow> PlaceResult \<Rightarrow> OrderBook \<Rightarrow> bool" where
  "command_run market n s res s' \<longleftrightarrow> book_ok s' \<and>
     (\<exists>fs q s1 t s2. placed market n s fs q s1 \<and> book_ok s1 \<and>
        processStopOrdersAfterTrades (map (trade_of (on_side n) (ob_symbol s) n) fs) s1 = (Inr t, s2) \<and>
        run_frame s1 (tg_trades t) s2 \<and> book_ok s2 \<and>
        (fs = [] \<longrightarrow> t = no_triggered \<and> s2 = s1) \<and>
        (fs \<noteq> [] \<longrightarrow> cycles_result (map (trade_of (on_side n) (ob_symbol s) n) fs) no_triggered s1 t s2) \<and>
        s' = bookkept (Suc (ob_ticks s2)) (ob_sequence s + int (length (pr_events res))) s2 \<and>
        pr_trades res = map (trade_of (on_side n) (ob_symbol s) n) fs @ tg_trades t \<and>
        pr_triggeredOrders res = tg_orders t \<and>
        pr_order res = node_snapshot (nodes s2 (nextRef s)) \<and>
        length (pr_events res) = events_count market q fs t \<and>
        map seq_of (pr_events res) = map (\<lambda>i. JInt (ob_sequence s + 1 + int i)) [0..<length (pr_events res)])"

lemma command_run_intro:
  assumes ok: "book_ok s" and pl: "placed market n s fs q s1" and id: "JStr (on_orderId n) \<notin> fst ` set (ob_stopOrdersById s)"
    and len: "length (ob_stopOrdersById s) < maxCycles"
  obtains t s2 where "processStopOrdersAfterTrades (map (trade_of (on_side n) (ob_symbol s) n) fs) s1 = (Inr t, s2)"
    "\<forall>res symb es. pr_trades res = map (trade_of (on_side n) (ob_symbol s) n) fs @ tg_trades t \<and>
      pr_triggeredOrders res = tg_orders t \<and> pr_order res = node_snapshot (nodes s2 (nextRef s)) \<and>
      pr_events res = stamped symb (ob_sequence s2) es \<and> length es = events_count market q fs t \<longrightarrow>
      command_run market n s res (bookkept (Suc (ob_ticks s2)) (ob_sequence s2 + int (length es)) s2)"
proof -
  have lk: "links_ok s" and st: "stops_ok s" and symb: "trim (ob_symbol s) \<noteq> []" using ok by (simp_all add: book_ok_def)
  have ok1: "book_ok s1" by (rule placed_book_ok [OF lk st symb pl id])
  have qt: "quiet s s1" using pl by (simp add: placed_def)
  then have len1: "length (ob_stopOrdersById s1) < maxCycles" using len by (simp add: quiet_def)
  obtain t s2 where P: "processStopOrdersAfterTrades (map (trade_of (on_side n) (ob_symbol s) n) fs) s1 = (Inr t, s2)"
    "book_ok s2" "run_frame s1 (tg_trades t) s2"
    "map (trade_of (on_side n) (ob_symbol s) n) fs = [] \<Longrightarrow> t = no_triggered \<and> s2 = s1"
    "map (trade_of (on_side n) (ob_symbol s) n) fs \<noteq> [] \<Longrightarrow>
      cycles_result (map (trade_of (on_side n) (ob_symbol s) n) fs) no_triggered s1 t s2"
    using process_ok [OF ok1 len1, of "map (trade_of (on_side n) (ob_symbol s) n) fs"] by blast
  have sq: "ob_sequence s2 = ob_sequence s" using P(3) qt by (simp add: run_frame_def quiet_def)
  show ?thesis
  proof (rule that [OF P(1)], intro allI impI, elim conjE)
    fix res :: PlaceResult and symb es
    assume R: "pr_trades res = map (trade_of (on_side n) (ob_symbol s) n) fs @ tg_trades t"
      "pr_triggeredOrders res = tg_orders t" "pr_order res = node_snapshot (nodes s2 (nextRef s))"
      "pr_events res = stamped symb (ob_sequence s2) es" "length es = events_count market q fs t"
    have seqs: "map seq_of (pr_events res) = map (\<lambda>i. JInt (ob_sequence s + 1 + int i)) [0..<length (pr_events res)]"
      unfolding R(4) sq length_stamped by (rule stamped_seqs)
    have cnt: "length (pr_events res) = events_count market q fs t" by (simp add: R)
    have s': "bookkept (Suc (ob_ticks s2)) (ob_sequence s2 + int (length es)) s2 =
        bookkept (Suc (ob_ticks s2)) (ob_sequence s + int (length (pr_events res))) s2"
      by (simp add: R(4) sq)
    show "command_run market n s res (bookkept (Suc (ob_ticks s2)) (ob_sequence s2 + int (length es)) s2)"
      unfolding command_run_def s'
      using pl ok1 P R(1-3) seqs cnt bookkept_ok [OF P(2)] by blast
  qed
qed

lemma placeLimitOrder_run:
  assumes ok: "book_ok s" and rd: "limit_ready s o1 n" and len: "length (ob_stopOrdersById s) < maxCycles"
  shows "\<exists>res s'. placeLimitOrder o1 s = (Inr res, s') \<and> command_run False n s res s'"
proof -
  note F = limit_ready_facts [OF rd]
  have lk: "links_ok s" and nc: "not_crossed s" using ok by (simp_all add: book_ok_def)
  have new: "new_OrderNode (limit_input (ob_symbol s) o1) = Inr n" and free: "id_free s (JStr (on_orderId n))"
    using rd F(4) by (simp_all add: limit_ready_def)
  obtain fs q s1 where run: "match_order (on_side n) (nextRef s) False (allocated n s) =
      (Inr (map (trade_of (on_side n) (ob_symbol s) n) fs), s1)" and am: "after_match False n s fs q s1"
    by (rule match_new_after [OF lk F(1), of False])
  let ?ts = "map (trade_of (on_side n) (ob_symbol s) n) fs" and ?a = "nextRef s"
  obtain s2 where kr: "keep_rest ?a s1 = (Inr (), s2)" and pl: "placed False n s fs q s2"
    using keep_rest_placed [OF lk nc F(1) am F(2,3,6)] by blast
  have idn: "on_orderId (nodes s1 ?a) = on_orderId n" by (rule after_match_node(5) [OF am F(1) lk])
  let ?m = "nodes s1 ?a"
  let ?ev = "\<lambda>u t. (order_events ?a ?ts s1 @ (if isActive ?m \<and> 0 < rem ?m
      then [createOrderRestedEvent (node_snapshot (nodes s2 ?a))] else []) @ [u]) @ tg_events t"
  obtain t s3 where pr: "processStopOrdersAfterTrades ?ts s2 = (Inr t, s3)" and fin:
    "\<forall>res symb es. pr_trades res = ?ts @ tg_trades t \<and>
      pr_triggeredOrders res = tg_orders t \<and> pr_order res = node_snapshot (nodes s3 ?a) \<and>
      pr_events res = stamped symb (ob_sequence s3) es \<and> length es = events_count False q fs t \<longrightarrow>
      command_run False n s res (bookkept (Suc (ob_ticks s3)) (ob_sequence s3 + int (length es)) s3)"
    by (rule command_run_intro [OF ok pl F(7) len])
  have len_ev: "length (?ev u t) = events_count False q fs t" for u
    using after_match_node(1,2) [OF am F(1) lk]
    by (simp add: events_count_def order_events_def createTradeCreatedEvents_def)
  define u where "u = createBookUpdatedEvent (snapshot s3) (ob_clock s3 (ob_ticks s3))"
  have R: "bindE (match_order (on_side n) ?a False) k1 (allocated n s) = k1 ?ts s1"
    "bindE (processStopOrdersAfterTrades ?ts) k2 s2 = k2 t s3" for k1 k2 :: "_ \<Rightarrow> PlaceResult bprog"
    using run pr by (simp_all add: bindE_def)
  have "placeLimitOrder o1 s =
      (Inr \<lparr>pr_order = node_snapshot (nodes s3 ?a), pr_trades = ?ts @ tg_trades t,
         pr_triggeredOrders = tg_orders t, pr_events = stamped (ob_symbol s3) (ob_sequence s3) (?ev u t)\<rparr>,
       bookkept (Suc (ob_ticks s3)) (ob_sequence s3 + int (length (?ev u t))) s3)"
    unfolding placeLimitOrder_def F(4,5) bindE_assert_id bindE_gets new bindE_liftE sum.case side_if
      bindE_alloc R(1) str_of_JStr rest_report [OF kr idn [symmetric]] R(2) finish_run
    using free by (simp add: Let_def u_def)
  moreover have "command_run False n s
      \<lparr>pr_order = node_snapshot (nodes s3 ?a), pr_trades = ?ts @ tg_trades t,
         pr_triggeredOrders = tg_orders t, pr_events = stamped (ob_symbol s3) (ob_sequence s3) (?ev u t)\<rparr>
      (bookkept (Suc (ob_ticks s3)) (ob_sequence s3 + int (length (?ev u t))) s3)"
    by (rule fin [rule_format, where symb = "ob_symbol s3"]) (use len_ev [of u] in simp)
  ultimately show ?thesis by blast
qed

subsection \<open>Market orders\<close>

definition market_ready :: "OrderBook \<Rightarrow> jsobj \<Rightarrow> OrderNode \<Rightarrow> bool" where
  "market_ready s o1 n \<longleftrightarrow> id_free s (getp o1 ''orderId'') \<and> new_OrderNode (market_input (ob_symbol s) o1) = Inr n"

lemma market_ready_facts:
  assumes "market_ready s o1 n"
  shows "fresh_order n" "on_type n = MARKET" "on_symbol n = ob_symbol s" "getp o1 ''orderId'' = JStr (on_orderId n)"
    "getp o1 ''side'' = side_val (on_side n)" "map_get (ob_ordersById s) (on_orderId n) = None"
    "JStr (on_orderId n) \<notin> fst ` set (ob_stopOrdersById s)" "getp o1 ''quantity'' = JInt (rem n)"
proof -
  let ?i = "market_input (ob_symbol s) o1"
  have n: "new_OrderNode ?i = Inr n" and f: "id_free s (getp o1 ''orderId'')"
    using assms by (simp_all add: market_ready_def)
  show "fresh_order n" by (rule new_OrderNode_fresh [OF n])
  note F = new_OrderNode_fields [OF n]
  have i: "getp ?i ''orderId'' = getp o1 ''orderId''" "getp ?i ''symbol'' = JStr (ob_symbol s)"
    "getp ?i ''side'' = getp o1 ''side''" "getp ?i ''type'' = type_val MARKET" "getp ?i ''quantity'' = getp o1 ''quantity''"
    by (simp_all add: market_input_def)
  show id: "getp o1 ''orderId'' = JStr (on_orderId n)" and "on_symbol n = ob_symbol s"
    "getp o1 ''side'' = side_val (on_side n)" "getp o1 ''quantity'' = JInt (rem n)"
    using F by (simp_all only: i) simp_all
  have "type_val MARKET = type_val (on_type n)" using F unfolding i by (simp only: vals_defined)
  then show "on_type n = MARKET" by (simp del: type_val.simps)
  show "map_get (ob_ordersById s) (on_orderId n) = None" "JStr (on_orderId n) \<notin> fst ` set (ob_stopOrdersById s)"
    using f id by (simp_all add: id_free_def map_has_iff)
qed

lemma placeMarketOrder_run:
  assumes ok: "book_ok s" and rd: "market_ready s o1 n" and len: "length (ob_stopOrdersById s) < maxCycles"
  shows "\<exists>res s'. placeMarketOrder o1 s = (Inr res, s') \<and> command_run True n s res s'"
proof -
  note F = market_ready_facts [OF rd]
  have lk: "links_ok s" and nc: "not_crossed s" using ok by (simp_all add: book_ok_def)
  have new: "new_OrderNode (market_input (ob_symbol s) o1) = Inr n" and free: "id_free s (JStr (on_orderId n))"
    using rd F(4) by (simp_all add: market_ready_def)
  obtain fs q s1 where run: "match_order (on_side n) (nextRef s) True (allocated n s) =
      (Inr (map (trade_of (on_side n) (ob_symbol s) n) fs), s1)" and am: "after_match True n s fs q s1"
    by (rule match_new_after [OF lk F(1), of True])
  let ?ts = "map (trade_of (on_side n) (ob_symbol s) n) fs" and ?a = "nextRef s"
  obtain s2 where kr: "cancel_rest ?a s1 = (Inr (), s2)" and pl: "placed True n s fs q s2"
    using cancel_rest_placed [OF lk nc F(1) am] by blast
  let ?ev = "\<lambda>u t. order_events ?a ?ts s2 @ tg_events t @ [u]"
  obtain t s3 where pr: "processStopOrdersAfterTrades ?ts s2 = (Inr t, s3)" and fin:
    "\<forall>res symb es. pr_trades res = ?ts @ tg_trades t \<and>
      pr_triggeredOrders res = tg_orders t \<and> pr_order res = node_snapshot (nodes s3 ?a) \<and>
      pr_events res = stamped symb (ob_sequence s3) es \<and> length es = events_count True q fs t \<longrightarrow>
      command_run True n s res (bookkept (Suc (ob_ticks s3)) (ob_sequence s3 + int (length es)) s3)"
    by (rule command_run_intro [OF ok pl F(7) len])
  define u where "u = createBookUpdatedEvent (snapshot s3) (ob_clock s3 (ob_ticks s3))"
  have R: "bindE (match_order (on_side n) ?a True) k1 (allocated n s) = k1 ?ts s1"
    "bindE (cancel_rest ?a) k3 s1 = k3 () s2"
    "bindE (processStopOrdersAfterTrades ?ts) k2 s2 = k2 t s3" for k1 k2 k3 :: "_ \<Rightarrow> PlaceResult bprog"
    using run pr kr by (simp_all add: bindE_def)
  have "placeMarketOrder o1 s =
      (Inr \<lparr>pr_order = node_snapshot (nodes s3 ?a), pr_trades = ?ts @ tg_trades t,
         pr_triggeredOrders = tg_orders t, pr_events = stamped (ob_symbol s3) (ob_sequence s3) (?ev u t)\<rparr>,
       bookkept (Suc (ob_ticks s3)) (ob_sequence s3 + int (length (?ev u t))) s3)"
    unfolding placeMarketOrder_def F(4,5) bindE_assert_id bindE_cancel_rest bindE_gets new bindE_liftE sum.case side_if
      bindE_alloc R finish_run
    using free by (simp add: Let_def u_def)
  moreover have "command_run True n s
      \<lparr>pr_order = node_snapshot (nodes s3 ?a), pr_trades = ?ts @ tg_trades t,
         pr_triggeredOrders = tg_orders t, pr_events = stamped (ob_symbol s3) (ob_sequence s3) (?ev u t)\<rparr>
      (bookkept (Suc (ob_ticks s3)) (ob_sequence s3 + int (length (?ev u t))) s3)"
    by (rule fin [rule_format, where symb = "ob_symbol s3"])
      (simp add: events_count_def order_events_def createTradeCreatedEvents_def)
  ultimately show ?thesis by blast
qed

subsection \<open>Refused orders\<close>

text \<open>A taken identifier or an invalid field: the order is refused and the book is as before.\<close>

lemma placeLimitOrder_refused:
  "\<not> id_free s (getp o1 ''orderId'') \<Longrightarrow> placeLimitOrder o1 s = (Inl (OrderAlreadyExists (getp o1 ''orderId'')), s)"
  "id_free s (getp o1 ''orderId'') \<Longrightarrow> new_OrderNode (limit_input (ob_symbol s) o1) = Inl e \<Longrightarrow>
     placeLimitOrder o1 s = (Inl e, s)"
  by (simp_all add: placeLimitOrder_def bindE_assert_id)

lemma placeMarketOrder_refused:
  "\<not> id_free s (getp o1 ''orderId'') \<Longrightarrow> placeMarketOrder o1 s = (Inl (OrderAlreadyExists (getp o1 ''orderId'')), s)"
  "id_free s (getp o1 ''orderId'') \<Longrightarrow> new_OrderNode (market_input (ob_symbol s) o1) = Inl e \<Longrightarrow>
     placeMarketOrder o1 s = (Inl e, s)"
  by (simp_all add: placeMarketOrder_def bindE_assert_id)

text \<open>So every request either runs to the end or leaves the book untouched.\<close>

lemma placeLimitOrder_total:
  assumes "book_ok s" "length (ob_stopOrdersById s) < maxCycles"
  shows "(\<exists>e. placeLimitOrder o1 s = (Inl e, s)) \<or>
    (\<exists>n res s'. limit_ready s o1 n \<and> placeLimitOrder o1 s = (Inr res, s') \<and> command_run False n s res s')"
proof (cases "id_free s (getp o1 ''orderId'')")
  case free: True
  show ?thesis
  proof (cases "new_OrderNode (limit_input (ob_symbol s) o1)")
    case (Inr n)
    then have "limit_ready s o1 n" using free by (simp add: limit_ready_def)
    then show ?thesis using placeLimitOrder_run [OF assms(1) _ assms(2)] by blast
  qed (use placeLimitOrder_refused(2) [OF free] in blast)
qed (use placeLimitOrder_refused(1) in blast)

lemma placeMarketOrder_total:
  assumes "book_ok s" "length (ob_stopOrdersById s) < maxCycles"
  shows "(\<exists>e. placeMarketOrder o1 s = (Inl e, s)) \<or>
    (\<exists>n res s'. market_ready s o1 n \<and> placeMarketOrder o1 s = (Inr res, s') \<and> command_run True n s res s')"
proof (cases "id_free s (getp o1 ''orderId'')")
  case free: True
  show ?thesis
  proof (cases "new_OrderNode (market_input (ob_symbol s) o1)")
    case (Inr n)
    then have "market_ready s o1 n" using free by (simp add: market_ready_def)
    then show ?thesis using placeMarketOrder_run [OF assms(1) _ assms(2)] by blast
  qed (use placeMarketOrder_refused(2) [OF free] in blast)
qed (use placeMarketOrder_refused(1) in blast)

subsection \<open>Placing stop orders\<close>

definition with_stop :: "jsval \<Rightarrow> jsobj \<Rightarrow> OrderBook \<Rightarrow> OrderBook" where
  "with_stop k so s = s\<lparr>ob_stopOrdersById := map_set (ob_stopOrdersById s) k so\<rparr>"

lemma register_stop_eq:
  "register_stop k so s = (let s1 = with_stop k so s; u = createBookUpdatedEvent (snapshot s1) (ob_clock s (ob_ticks s)) in
    (Inr \<lparr>pr_order = getStopOrderSnapshot so, pr_trades = [], pr_triggeredOrders = [],
       pr_events = stamped (ob_symbol s) (ob_sequence s) [createStopOrderAcceptedEvent (getStopOrderSnapshot so), u]\<rparr>,
     bookkept (Suc (ob_ticks s)) (ob_sequence s + 2) s1))"
  by (simp add: register_stop_def with_stop_def Let_def bindE_def bookkept_def)

lemma id_free_fresh: "id_free s k \<Longrightarrow> k \<notin> fst ` set (ob_stopOrdersById s)"
  by (simp add: id_free_def map_has_iff)

lemma with_stop_ok:
  assumes ok: "book_ok s" and so: "stop_ok k so" and free: "id_free s k"
  shows "book_ok (with_stop k so s)" "ob_stopOrdersById (with_stop k so s) = ob_stopOrdersById s @ [(k, so)]"
    "resting sd (with_stop k so s) = resting sd s"
proof -
  have m: "map_set (ob_stopOrdersById s) k so = ob_stopOrdersById s @ [(k, so)]"
    by (rule map_set_fresh [OF id_free_fresh [OF free]])
  then show "ob_stopOrdersById (with_stop k so s) = ob_stopOrdersById s @ [(k, so)]" by (simp add: with_stop_def)
  have lk: "links_ok s" and nc: "not_crossed s" and symb: "trim (ob_symbol s) \<noteq> []" and st: "stops_ok s"
    using ok by (simp_all add: book_ok_def)
  show "book_ok (with_stop k so s)"
    unfolding with_stop_def m
  proof (rule stops_frame [OF lk st nc symb])
    show "map_wf (ob_stopOrdersById s @ [(k, so)])"
      using st id_free_fresh [OF free] by (auto simp: stops_ok_def)
    show "stop_ok j so' \<and> orders_get s j = None" if "(j, so') \<in> set (ob_stopOrdersById s @ [(k, so)])" for j so'
      using that st so free by (auto simp: stops_ok_def id_free_def)
  qed
  show "resting sd (with_stop k so s) = resting sd s"
    unfolding with_stop_def by (rule frame_resting [OF lk]) (rule same_structure_scalars)
qed

text \<open>
  What the request of a stop order must hold for the stop to be well-formed; the code checks
  none of it.  The last condition, that the request holds JSON values, always does: requests
  are parsed from JSON.
\<close>

definition stop_fields_ok :: "jsobj \<Rightarrow> bool" where
  "stop_fields_ok o1 \<longleftrightarrow> nonEmptyString (getp o1 ''orderId'') \<and> nonEmptyString (getp o1 ''userId'') \<and>
     isValidSide (getp o1 ''side'') \<and> pos_int (getp o1 ''quantity'') \<and> plain_props o1"

lemma stop_objects_ok:
  "stop_fields_ok o1 \<Longrightarrow> stop_ok (getp o1 ''orderId'') (stop_market_object symb o1)"
  "stop_fields_ok o1 \<Longrightarrow> pos_int (getp o1 ''priceTicks'') \<Longrightarrow> stop_ok (getp o1 ''orderId'') (stop_limit_object symb o1)"
  "stop_fields_ok o1 \<Longrightarrow> 0 < t \<Longrightarrow> stop_ok (getp o1 ''orderId'') (trailing_stop_object symb p t o1)"
  by (simp_all add: plain_getp pos_int_iff stop_fields_ok_def stop_ok_def trailing_fields_def stop_market_object_def stop_limit_object_def
      trailing_stop_object_def Let_def)

lemma placeStop_eqs:
  "id_free s (getp o1 ''orderId'') \<Longrightarrow>
     placeStopMarketOrder o1 s = register_stop (getp o1 ''orderId'') (stop_market_object (ob_symbol s) o1) s"
  "id_free s (getp o1 ''orderId'') \<Longrightarrow>
     placeStopLimitOrder o1 s = register_stop (getp o1 ''orderId'') (stop_limit_object (ob_symbol s) o1) s"
  "id_free s (getp o1 ''orderId'') \<Longrightarrow> ob_lastTradePriceTicks s = Some p \<Longrightarrow>
     getp o1 ''trailingAmountTicks'' = JInt t \<Longrightarrow> 0 < t \<Longrightarrow>
     placeTrailingStopMarketOrder o1 s = register_stop (getp o1 ''orderId'') (trailing_stop_object (ob_symbol s) p t o1) s"
  by (simp_all add: placeStopMarketOrder_def placeStopLimitOrder_def placeTrailingStopMarketOrder_def bindE_assert_id)

end
