(* ===== verification/CancelProofs.thy ===== *)
theory CancelProofs
  imports BookOpsProofs
begin

text \<open>
  Cancellation removes exactly the named order: from its price level, from the identifier
  map and, when it was the last of its level, the level from the price map.  A stop order is
  removed from the stop orders.  An unknown identifier is refused.
\<close>

subsection \<open>A resting order\<close>

definition cancelled_state :: "Side \<Rightarrow> int \<Rightarrow> nat \<Rightarrow> nat list \<Rightarrow> nat \<Rightarrow> nat list \<Rightarrow> OrderBook \<Rightarrow> OrderBook" where
  "cancelled_state sd p l xs a ys s = (let s1 = unlinked sd p l xs a ys s
     in s1\<lparr>nodes := (nodes s1)(a := (nodes s1 a)\<lparr>on_status := CANCELLED\<rparr>)\<rparr>)"

lemma cancelRestingOrder_eq:
  assumes ok: "links_ok s" and pl: "(p, l) \<in> set (side_map sd s)" and as: "level_addrs s l = xs @ a # ys"
    and i: "on_orderId (nodes s a) = i"
  shows "cancelRestingOrder (JStr i) a s =
    (let s1 = cancelled_state sd p l xs a ys s; snap = node_snapshot ((nodes s a)\<lparr>on_status := CANCELLED\<rparr>);
         u = createBookUpdatedEvent (snapshot s1) (ob_clock s (ob_ticks s))
     in (Inr (cancel_result snap (stamped (ob_symbol s) (ob_sequence s) [createOrderCancelledEvent snap, u])),
         bookkept (Suc (ob_ticks s)) (ob_sequence s + 2) s1))"
proof -
  have a: "a \<in> set (level_addrs s l)" using as by simp
  note M = level_member [OF ok pl a]
  have rep: "level_rep (nodes s) l (levels s l) (xs @ a # ys)" using level_okD(1) [OF ok pl] as by simp
  then have cnt: "pl_orderCount (levels s l) = int (length (xs @ ys)) + 1" by (simp add: level_rep_def)
  have rm: "bindE (remove_level l (Some a)) k s = k () (s\<lparr>nodes := removed_nodes (nodes s) xs a ys,
      levels := (levels s)(l := removed_level (levels s l) xs ys (rem (nodes s a)))\<rparr>)" for k :: "unit \<Rightarrow> jsobj bprog"
    using remove_level_eq [OF rep] by (simp add: bindE_def)
  have cn: "on_node a cancel s' = (Inr (), s'\<lparr>nodes := (nodes s')(a := (nodes s' a)\<lparr>on_status := CANCELLED\<rparr>)\<rparr>)"
    if "isActive (nodes s' a)" for s' :: OrderBook
    using that by (simp add: on_node_def cancel_def)
  have cn': "bindE (on_node a cancel) k s' = k () (s'\<lparr>nodes := (nodes s')(a := (nodes s' a)\<lparr>on_status := CANCELLED\<rparr>)\<rparr>)"
    if "isActive (nodes s' a)" for s' and k :: "unit \<Rightarrow> jsobj bprog"
    using cn [OF that] by (simp add: bindE_def)
  have act: "isActive (nodes s a)" and sd: "on_side (nodes s a) = sd"
    using M(3) by (simp_all add: member_ok_def live_node_def)
  have bu: "bindE book_updated k s' = k (createBookUpdatedEvent (snapshot s') (ob_clock s' (ob_ticks s')))
      (s'\<lparr>ob_ticks := Suc (ob_ticks s')\<rparr>)" for k :: "jsobj \<Rightarrow> jsobj bprog" and s'
    by (simp add: bindE_def)
  have se: "bindE (stampEvents es) k s' = k (stamped (ob_symbol s') (ob_sequence s') es)
      (s'\<lparr>ob_sequence := ob_sequence s' + int (length es)\<rparr>)" for k :: "jsobj list \<Rightarrow> jsobj bprog" and s' es
    by (simp add: bindE_def)
  have empty: "level_isEmpty (removed_level (levels s l) xs ys q) \<longleftrightarrow> xs @ ys = []" for q
  proof -
    have "pl_orderCount (removed_level (levels s l) xs ys q) = int (length (xs @ ys))"
      using cnt by (simp add: removed_level_def)
    then show ?thesis unfolding level_isEmpty_def by (simp only: of_nat_eq_0_iff length_0_conv)
  qed
  have core_eq: "node_snapshot (detachLinks n\<lparr>on_status := st\<rparr>) = node_snapshot (n\<lparr>on_status := st\<rparr>)" for n st
    by (simp add: node_snapshot_def detachLinks_def filledQuantity_def)
  have det: "isActive (detachLinks n) = isActive n" for n by (simp add: isActive_iff detachLinks_def)
  define b where "b \<longleftrightarrow> xs @ ys = []"
  let ?s1 = "s\<lparr>levels := (levels s)(l := removed_level (levels s l) xs ys (rem (nodes s a))),
      nodes := (removed_nodes (nodes s) xs a ys)(a := (detachLinks (nodes s a))\<lparr>on_status := CANCELLED\<rparr>),
      ob_ordersById := map_delete (ob_ordersById s) i\<rparr>"
  have st: "cancelled_state sd p l xs a ys s = (if b then upd_side sd (\<lambda>m. map_delete m p) ?s1 else ?s1)"
    using i by (cases sd) (auto simp: b_def cancelled_state_def unlinked_def Let_def upd_side_def removed_self)
  show ?thesis
    unfolding cancelRestingOrder_def bindE_gets st
    using M(1,2) act sd i
    by (cases sd; cases b)
      (simp_all add: rm cn' empty [folded b_def] bu se upd_side_def Let_def bookkept_def removed_self core_eq det
        del: stampEvents.simps append_is_Nil_conv)
qed

lemma cancelled_state_ok:
  assumes ok: "links_ok s" and pl: "(p, l) \<in> set (side_map sd s)" and as: "level_addrs s l = xs @ a # ys"
    and i: "on_orderId (nodes s a) = i"
  defines "s' \<equiv> cancelled_state sd p l xs a ys s"
  shows "links_ok s'" "resting sd' s' = spec_cancel i (resting sd' s)"
    "ob_stopOrdersById s' = ob_stopOrdersById s" "ob_symbol s' = ob_symbol s"
    "ob_ordersById s' = map_delete (ob_ordersById s) i"
    "ob_trades s' = ob_trades s" "ob_lastTradePriceTicks s' = ob_lastTradePriceTicks s"
proof -
  have u: "unlinkable s sd p l xs a ys"
    using pl as links_ok_mono [OF ok, of "{a}"] by (simp add: unlinkable_def)
  let ?u = "unlinked sd p l xs a ys s"
  have out: "on_priceLevel (nodes ?u a) = None" by (simp add: removed_self detachLinks_def)
  note lk = unlinked_links [OF u]
  show "links_ok s'"
    unfolding s'_def cancelled_state_def Let_def by (rule outside_update(1) [OF lk out])
  show "resting sd' s' = spec_cancel i (resting sd' s)"
    unfolding s'_def cancelled_state_def Let_def outside_update(2) [OF lk out] unlinked_resting [OF u] i spec_cancel_def ..
  show "ob_stopOrdersById s' = ob_stopOrdersById s" "ob_symbol s' = ob_symbol s"
    "ob_ordersById s' = map_delete (ob_ordersById s) i"
    "ob_trades s' = ob_trades s" "ob_lastTradePriceTicks s' = ob_lastTradePriceTicks s"
    by (simp_all add: s'_def cancelled_state_def Let_def i)
qed

lemma cancelled_book_ok:
  assumes ok: "book_ok s" and lk: "links_ok s'" and r: "\<And>sd. resting sd s' = spec_cancel i (resting sd s)"
    and st: "ob_stopOrdersById s' = ob_stopOrdersById s" and symb: "ob_symbol s' = ob_symbol s"
    and oi: "ob_ordersById s' = map_delete (ob_ordersById s) i"
  shows "book_ok s'"
proof -
  have "not_crossed s'"
    by (rule not_crossed_subset [of s]) (use ok r in \<open>auto simp: book_ok_def spec_cancel_def\<close>)
  moreover have "orders_get s' k = None" if "orders_get s k = None" for k
    using that by (cases k) (simp_all add: orders_get_def oi map_get_delete)
  then have "stops_ok s'" using ok by (auto simp: book_ok_def stops_ok_def st)
  ultimately show ?thesis using ok lk symb by (simp add: book_ok_def)
qed

text \<open>The identifier map leads to the level the order stands in.\<close>

lemma find_resting:
  assumes ok: "links_ok s" and g: "map_get (ob_ordersById s) i = Some a"
  obtains sd p l xs ys where "(p, l) \<in> set (side_map sd s)" "level_addrs s l = xs @ a # ys" "on_orderId (nodes s a) = i"
  using indexedD [OF ok g] by (metis split_list)

lemma cancelOrder_resting:
  assumes ok: "book_ok s" and g: "map_get (ob_ordersById s) i = Some a"
  shows "\<exists>s1. let snap = node_snapshot ((nodes s a)\<lparr>on_status := CANCELLED\<rparr>);
      u = createBookUpdatedEvent (snapshot s1) (ob_clock s (ob_ticks s))
    in cancelOrder (JStr i) s =
      (Inr (cancel_result snap (stamped (ob_symbol s) (ob_sequence s) [createOrderCancelledEvent snap, u])),
       bookkept (Suc (ob_ticks s)) (ob_sequence s + 2) s1) \<and>
    book_ok s1 \<and> (\<forall>sd. resting sd s1 = spec_cancel i (resting sd s)) \<and>
    ob_stopOrdersById s1 = ob_stopOrdersById s \<and> ob_trades s1 = ob_trades s \<and>
    ob_symbol s1 = ob_symbol s \<and> ob_lastTradePriceTicks s1 = ob_lastTradePriceTicks s"
proof -
  have lk: "links_ok s" and st: "stops_ok s" using ok by (simp_all add: book_ok_def)
  obtain sd p l xs ys where f: "(p, l) \<in> set (side_map sd s)" "level_addrs s l = xs @ a # ys" "on_orderId (nodes s a) = i"
    by (rule find_resting [OF lk g])
  have ns: "map_get (ob_stopOrdersById s) (JStr i) = None"
    using st g stops_okD(2) [OF st, of "JStr i"] by (cases "map_get (ob_stopOrdersById s) (JStr i)") (auto dest: map_get_Some_in)
  let ?s1 = "cancelled_state sd p l xs a ys s"
  note C = cancelled_state_ok [OF lk f]
  have "book_ok ?s1" by (rule cancelled_book_ok [OF ok C(1-5)])
  moreover have "cancelOrder (JStr i) s = cancelRestingOrder (JStr i) a s"
    using ns g by (simp add: cancelOrder_def)
  ultimately show ?thesis
    using cancelRestingOrder_eq [OF lk f] C by (intro exI [of _ ?s1]) (simp add: Let_def)
qed

subsection \<open>A stop order, and an unknown identifier\<close>

lemma cancelOrder_stop:
  assumes ok: "book_ok s" and g: "map_get (ob_stopOrdersById s) k = Some so"
  shows "let s1 = s\<lparr>ob_stopOrdersById := map_delete (ob_stopOrdersById s) k\<rparr>;
      snap = getStopOrderSnapshot (setp so ''status'' (status_val CANCELLED))
    in cancelOrder k s = (Inr (cancel_result snap [createOrderCancelledEvent snap,
         createBookUpdatedEvent (snapshot s1) (ob_clock s (ob_ticks s))]), s1\<lparr>ob_ticks := Suc (ob_ticks s)\<rparr>) \<and>
    book_ok s1 \<and> (\<forall>sd. resting sd s1 = resting sd s)"
proof -
  have lk: "links_ok s" and nc: "not_crossed s" and symb: "trim (ob_symbol s) \<noteq> []" and st: "stops_ok s"
    using ok by (simp_all add: book_ok_def)
  have "book_ok (s\<lparr>ob_stopOrdersById := map_delete (ob_stopOrdersById s) k\<rparr>)"
    using st map_delete_subset [of "ob_stopOrdersById s" k]
    by (intro stops_frame [OF lk st nc symb]) (auto simp: stops_ok_def map_wf_delete)
  moreover have "resting sd (s\<lparr>ob_stopOrdersById := map_delete (ob_stopOrdersById s) k\<rparr>) = resting sd s" for sd
    by (rule frame_resting [OF lk]) (rule same_structure_scalars)
  ultimately show ?thesis
    using g by (simp add: cancelOrder_def cancelStopOrder_def Let_def bindE_Inr [OF book_updated_apply])
qed

lemma cancelOrder_unknown:
  assumes "orders_get s k = None" "map_get (ob_stopOrdersById s) k = None"
  shows "cancelOrder k s = (Inl (OrderNotFound k), s)"
  using assms by (simp add: cancelOrder_def)

end
