(* ===== verification/Commands.thy ===== *)
theory Commands
  imports CancelProofs
begin

text \<open>
  \<^verbatim>\<open>src/api/services/BookRegistry.js\<close> and
  \<^verbatim>\<open>src/application/commands/executeOrderCommand.js\<close>: the books by symbol and the
  dispatch of a command to the book of its symbol.  A book is a shared object: a method run
  on it changes the entry of the registry, also when it throws.
\<close>

subsection \<open>BookRegistry.js\<close>

type_synonym registry = "(string, OrderBook) jsmap"
type_synonym 'r rprog = "(registry, js_error, 'r) prog"

definition validateSymbol :: "jsval \<Rightarrow> unit res" where
  "validateSymbol symbol = (if \<not> nonEmptyString symbol then Inl (NotNonEmptyString ''symbol'') else Inr ())"

definition getOrCreateBook :: "(nat \<Rightarrow> nat) \<Rightarrow> jsval \<Rightarrow> string rprog" where
  "getOrCreateBook clock symbol =
     bindE (liftE (validateSymbol symbol)) (\<lambda>_.
     bindE (gets (\<lambda>r. map_has r (str_of symbol))) (\<lambda>present.
     bindE (if \<not> present
            then bindE (liftE (new_OrderBook clock symbol)) (\<lambda>book.
                 modify (\<lambda>r. map_set r (str_of symbol) book))
            else ret ()) (\<lambda>_.
     ret (str_of symbol))))"

definition getBook :: "jsval \<Rightarrow> registry \<Rightarrow> OrderBook option res" where
  "getBook symbol r = seqE (validateSymbol symbol) (\<lambda>_. Inr (map_get r (str_of symbol)))"

definition listSymbols :: "registry \<Rightarrow> string list" where
  "listSymbols r = map_keys r"

definition setBook :: "jsval \<Rightarrow> OrderBook \<Rightarrow> unit rprog" where
  "setBook symbol book = bindE (liftE (validateSymbol symbol)) (\<lambda>_. modify (\<lambda>r. map_set r (str_of symbol) book))"

definition reset_registry :: "unit rprog" where
  "reset_registry = modify (\<lambda>r. [])"

text \<open>A method of the book registered under a symbol.\<close>

definition on_book :: "string \<Rightarrow> 'r bprog \<Rightarrow> 'r rprog" where
  "on_book symbol f = (\<lambda>r. case map_get r symbol of None \<Rightarrow> (Inl TypeErr, r)
     | Some book \<Rightarrow> (case f book of (x, book') \<Rightarrow> (x, map_set r symbol book')))"

subsection \<open>executeOrderCommand.js\<close>

datatype CommandResult = Placed PlaceResult | Cancelled jsobj

text \<open>Destructuring the payload, and reading \<^verbatim>\<open>payload.orderId\<close>, throw on null and undefined.\<close>

definition with_payload :: "jsval \<Rightarrow> (jsobj \<Rightarrow> 'r bprog) \<Rightarrow> 'r bprog" where
  "with_payload payload f = (if nullish payload then throw TypeErr else f (props payload))"

definition dispatch :: "jsval \<Rightarrow> jsval \<Rightarrow> CommandResult bprog" where
  "dispatch type payload =
    (if type = JStr ''PLACE_LIMIT_ORDER'' then
       bindE (with_payload payload placeLimitOrder) (\<lambda>r. ret (Placed r))
     else if type = JStr ''PLACE_MARKET_ORDER'' then
       bindE (with_payload payload placeMarketOrder) (\<lambda>r. ret (Placed r))
     else if type = JStr ''PLACE_STOP_MARKET_ORDER'' then
       bindE (with_payload payload placeStopMarketOrder) (\<lambda>r. ret (Placed r))
     else if type = JStr ''PLACE_STOP_LIMIT_ORDER'' then
       bindE (with_payload payload placeStopLimitOrder) (\<lambda>r. ret (Placed r))
     else if type = JStr ''PLACE_TRAILING_STOP_MARKET_ORDER'' then
       bindE (with_payload payload placeTrailingStopMarketOrder) (\<lambda>r. ret (Placed r))
     else if type = JStr ''CANCEL_ORDER'' then
       bindE (with_payload payload (\<lambda>p. cancelOrder (getp p ''orderId''))) (\<lambda>r. ret (Cancelled r))
     else throw (UnsupportedCommand type))"

definition executeOrderCommand :: "(nat \<Rightarrow> nat) \<Rightarrow> jsobj \<Rightarrow> CommandResult rprog" where
  "executeOrderCommand clock command =
     bindE (getOrCreateBook clock (getp command ''symbol'')) (\<lambda>book.
     on_book book (dispatch (getp command ''type'') (getp command ''payload'')))"

subsection \<open>The new book\<close>

lemma new_OrderBook_ok:
  assumes "new_OrderBook clock v = Inr b"
  shows "book_ok b" "v = JStr (ob_symbol b)" "ob_stopOrdersById b = []" "resting sd b = []" "ob_sequence b = 0"
proof -
  have "nonEmptyString v" and b: "b = \<lparr> nodes = (\<lambda>_. no_node), levels = (\<lambda>_. no_level), nextRef = 0,
       ob_symbol = str_of v, ob_bids = [], ob_asks = [], ob_ordersById = [],
       ob_stopOrdersById = [], ob_trades = [], ob_lastTradePriceTicks = None, ob_sequence = 0,
       ob_clock = clock, ob_ticks = 0 \<rparr>"
    using assms by (simp_all add: new_OrderBook_def split: if_splits)
  then obtain s where s: "v = JStr s" "trim s \<noteq> []" by (auto simp: nonEmptyString_iff)
  show R: "resting sd b = []" for sd by (cases sd) (simp_all add: b resting_def sorted_side_def side_map_def)
  show "v = JStr (ob_symbol b)" "ob_stopOrdersById b = []" "ob_sequence b = 0" using s by (simp_all add: b)
  have "links_ok b" by (simp add: b links_ok_but_def levels_of_def)
  then show "book_ok b" using R s by (simp add: book_ok_def not_crossed_def uncrossed_def stops_ok_def b)
qed

subsection \<open>Every command is atomic\<close>

definition stop_types :: "jsval set" where
  "stop_types = {JStr ''PLACE_STOP_MARKET_ORDER'', JStr ''PLACE_STOP_LIMIT_ORDER'',
     JStr ''PLACE_TRAILING_STOP_MARKET_ORDER''}"

text \<open>
  The stop order requests the engine can honour; it checks none of these fields (only the
  trailing amount), so the condition is on the command.
\<close>

definition stop_request_ok :: "jsval \<Rightarrow> jsval \<Rightarrow> bool" where
  "stop_request_ok type payload \<longleftrightarrow>
     (type \<in> stop_types \<longrightarrow> stop_fields_ok (props payload)) \<and>
     (type = JStr ''PLACE_STOP_LIMIT_ORDER'' \<longrightarrow> pos_int (getp (props payload) ''priceTicks''))"

text \<open>The stop orders a command can add to the book.\<close>

definition stop_cost :: "jsval \<Rightarrow> nat" where
  "stop_cost type = (if type \<in> stop_types then 1 else 0)"

definition stop_count :: "OrderBook \<Rightarrow> nat" where
  "stop_count s = length (ob_stopOrdersById s)"

text \<open>Either the command is refused and the book is as before, or it is carried out.\<close>

definition atomic :: "nat \<Rightarrow> OrderBook \<Rightarrow> (js_error + 'r) \<times> OrderBook \<Rightarrow> bool" where
  "atomic c s out \<longleftrightarrow> (\<exists>e. out = (Inl e, s)) \<or>
     (\<exists>x s'. out = (Inr x, s') \<and> book_ok s' \<and> stop_count s' \<le> stop_count s + c)"

lemma atomic_Inl: "atomic c s (Inl e, s)"
  by (simp add: atomic_def)

lemma atomic_if:
  "(b \<Longrightarrow> atomic c s (f s)) \<Longrightarrow> (\<not> b \<Longrightarrow> atomic c s (g s)) \<Longrightarrow> atomic c s ((if b then f else g) s)"
  by simp

lemma atomic_map: "atomic c s (m s) \<Longrightarrow> atomic c s (bindE m (\<lambda>r. ret (f r)) s)"
  by (auto simp: atomic_def bindE_def)

lemma atomic_payload: "atomic c s (f (props payload) s) \<Longrightarrow> atomic c s (with_payload payload f s)"
  by (simp add: with_payload_def atomic_Inl)

lemma atomic_weaken: "atomic 0 s out \<Longrightarrow> atomic c s out"
  by (fastforce simp: atomic_def)

lemma command_run_stops: "command_run market n s res s' \<Longrightarrow> book_ok s' \<and> stop_count s' \<le> stop_count s"
proof -
  assume c: "command_run market n s res s'"
  then obtain fs q s1 t s2 where pl: "placed market n s fs q s1"
    and f: "fs = [] \<Longrightarrow> s2 = s1"
      "fs \<noteq> [] \<Longrightarrow> cycles_result (map (trade_of (on_side n) (ob_symbol s) n) fs) no_triggered s1 t s2"
    and s': "s' = bookkept (Suc (ob_ticks s2)) (ob_sequence s + int (length (pr_events res))) s2"
    unfolding command_run_def by blast
  have "stop_count s1 = stop_count s" using pl by (simp add: placed_def quiet_def stop_count_def)
  moreover have "stop_count s2 \<le> stop_count s1"
  proof (cases "fs = []")
    case False
    from f(2) [OF this] obtain os where "mset (map fst (ob_stopOrdersById s1)) =
        mset (map fst (ob_stopOrdersById s2)) + mset (map (\<lambda>so. getp so ''orderId'') os)"
      by (auto simp: cycles_result_def)
    from arg_cong [OF this, of size] show ?thesis by (simp add: stop_count_def)
  qed (use f in simp)
  ultimately show ?thesis using c by (simp add: command_run_def s' stop_count_def)
qed

lemma run_atomic:
  assumes "(\<exists>e. out = (Inl e, s)) \<or> (\<exists>n res s'. R n \<and> out = (Inr res, s') \<and> command_run market n s res s')"
  shows "atomic 0 s out"
  using assms
proof (elim disjE exE conjE)
  fix n res s' assume "out = (Inr res, s')" "command_run market n s res s'"
  then show ?thesis using command_run_stops [of market n s res s'] by (simp add: atomic_def)
qed (simp add: atomic_Inl)

lemma register_atomic:
  assumes "book_ok s" "stop_ok k so" "id_free s k"
  shows "atomic 1 s (register_stop k so s)"
  using with_stop_ok [OF assms] bookkept_ok by (simp add: atomic_def register_stop_eq Let_def stop_count_def)

lemma place_stop_atomic:
  assumes ok: "book_ok s" and f: "stop_fields_ok o1"
  shows "atomic 1 s (placeStopMarketOrder o1 s)"
    "pos_int (getp o1 ''priceTicks'') \<Longrightarrow> atomic 1 s (placeStopLimitOrder o1 s)"
    "atomic 1 s (placeTrailingStopMarketOrder o1 s)"
  using stop_objects_ok [OF f] register_atomic [OF ok]
  by (simp_all add: placeStopMarketOrder_def placeStopLimitOrder_def placeTrailingStopMarketOrder_def
      bindE_assert_id atomic_Inl split: option.split)

lemma cancel_atomic:
  assumes ok: "book_ok s"
  shows "atomic 0 s (cancelOrder k s)"
proof (cases "map_get (ob_stopOrdersById s) k")
  case (Some so)
  let ?s1 = "s\<lparr>ob_stopOrdersById := map_delete (ob_stopOrdersById s) k\<rparr>"
  have "book_ok ?s1" using cancelOrder_stop [OF ok Some] by (simp add: Let_def)
  then have "book_ok (?s1\<lparr>ob_ticks := Suc (ob_ticks s)\<rparr>)"
    using bookkept_ok [of ?s1 "Suc (ob_ticks s)" "ob_sequence s"] by (simp add: bookkept_def)
  moreover have "length (map_delete (ob_stopOrdersById s) k) \<le> length (ob_stopOrdersById s)" by (simp add: map_delete_def)
  ultimately show ?thesis
    using cancelOrder_stop [OF ok Some] by (auto simp: Let_def atomic_def stop_count_def)
next
  case None
  show ?thesis
  proof (cases "orders_get s k")
    case (Some a)
    then obtain i where i: "k = JStr i" "map_get (ob_ordersById s) i = Some a"
      by (cases k) (simp_all add: orders_get_def)
    obtain s1 where "cancelOrder (JStr i) s = (Inr (cancel_result (node_snapshot ((nodes s a)\<lparr>on_status := CANCELLED\<rparr>))
          (stamped (ob_symbol s) (ob_sequence s) [createOrderCancelledEvent (node_snapshot ((nodes s a)\<lparr>on_status := CANCELLED\<rparr>)),
             createBookUpdatedEvent (snapshot s1) (ob_clock s (ob_ticks s))])),
        bookkept (Suc (ob_ticks s)) (ob_sequence s + 2) s1)" "book_ok s1" "ob_stopOrdersById s1 = ob_stopOrdersById s"
      using cancelOrder_resting [OF ok i(2)] unfolding Let_def by blast
    then show ?thesis using i(1) bookkept_ok by (auto simp: atomic_def stop_count_def)
  qed (use cancelOrder_unknown [OF _ None] in \<open>simp add: atomic_Inl\<close>)
qed

lemma dispatch_atomic:
  assumes ok: "book_ok s" and few: "stop_count s < maxCycles" and req: "stop_request_ok type payload"
  shows "atomic (stop_cost type) s (dispatch type payload s)"
proof -
  let ?c = "stop_cost type"
  have limit: "atomic ?c s (placeLimitOrder o1 s)" for o1
    by (rule atomic_weaken, rule run_atomic, rule placeLimitOrder_total [OF ok few [unfolded stop_count_def]])
  have market: "atomic ?c s (placeMarketOrder o1 s)" for o1
    by (rule atomic_weaken, rule run_atomic, rule placeMarketOrder_total [OF ok few [unfolded stop_count_def]])
  have cancel: "atomic ?c s (cancelOrder k s)" for k by (rule atomic_weaken [OF cancel_atomic [OF ok]])
  have step: "atomic ?c s (bindE (with_payload payload f) (\<lambda>r. ret (g r)) s)" if "atomic ?c s (f (props payload) s)"
    for f :: "jsobj \<Rightarrow> 'r bprog" and g :: "'r \<Rightarrow> CommandResult"
    using that by (intro atomic_map atomic_payload)
  have stops: "type = JStr ''PLACE_STOP_MARKET_ORDER'' \<Longrightarrow> atomic ?c s (placeStopMarketOrder (props payload) s)"
    "type = JStr ''PLACE_STOP_LIMIT_ORDER'' \<Longrightarrow> atomic ?c s (placeStopLimitOrder (props payload) s)"
    "type = JStr ''PLACE_TRAILING_STOP_MARKET_ORDER'' \<Longrightarrow> atomic ?c s (placeTrailingStopMarketOrder (props payload) s)"
    using req place_stop_atomic [OF ok, of "props payload"]
    by (simp_all add: stop_request_ok_def stop_cost_def stop_types_def)
  show ?thesis
    unfolding dispatch_def
    by (intro atomic_if step limit market cancel; (rule stops, assumption | simp add: atomic_Inl))
qed

end
