(* ===== verification/AbstractBook.thy ===== *)
theory AbstractBook
  imports Commands
begin

text \<open>
  The abstract engine: what an order book promises, with no heap, no clock and no event
  objects.  A book is its two priority lists, its waiting stop orders, the last trade price
  and the event counter; a command is a function on it.  \<open>abs_book\<close> reads the abstract book
  off a concrete one; the theory \<open>AbstractRefine\<close> shows that the engine computes this
  specification.  Timestamps are left out (\<open>untimed\<close>): a triggered stop gets the wall clock
  of the node that runs it.
\<close>

subsection \<open>State\<close>

record AbstractBook =
  ab_symbol :: string
  ab_bids :: "OrderNode list"
  ab_asks :: "OrderNode list"
  ab_stops :: "(jsval \<times> jsobj) list"
  ab_last :: "int option"
  ab_sequence :: int

definition ab_side :: "Side \<Rightarrow> AbstractBook \<Rightarrow> OrderNode list" where
  "ab_side sd b = (case sd of BUY \<Rightarrow> ab_bids b | SELL \<Rightarrow> ab_asks b)"

definition ab_set_side :: "Side \<Rightarrow> OrderNode list \<Rightarrow> AbstractBook \<Rightarrow> AbstractBook" where
  "ab_set_side sd rs b = (case sd of BUY \<Rightarrow> b\<lparr>ab_bids := rs\<rparr> | SELL \<Rightarrow> b\<lparr>ab_asks := rs\<rparr>)"

definition untimed :: "OrderNode \<Rightarrow> OrderNode" where
  "untimed n = n\<lparr>on_timestamp := 0\<rparr>"

definition untimed_trade :: "Trade \<Rightarrow> Trade" where
  "untimed_trade t = t\<lparr>tr_timestamp := 0\<rparr>"

definition abs_book :: "OrderBook \<Rightarrow> AbstractBook" where
  "abs_book s = \<lparr>ab_symbol = ob_symbol s, ab_bids = map untimed (resting BUY s), ab_asks = map untimed (resting SELL s),
     ab_stops = map (\<lambda>(k, so). (k, getStopOrderSnapshot so)) (ob_stopOrdersById s),
     ab_last = ob_lastTradePriceTicks s, ab_sequence = ob_sequence s\<rparr>"

lemma ab_side_set [simp]:
  "ab_side sd (ab_set_side sd rs b) = rs" "ab_side (opp sd) (ab_set_side sd rs b) = ab_side (opp sd) b"
  "ab_side sd (ab_set_side (opp sd) rs b) = ab_side sd b"
  "ab_symbol (ab_set_side sd rs b) = ab_symbol b" "ab_stops (ab_set_side sd rs b) = ab_stops b"
  "ab_last (ab_set_side sd rs b) = ab_last b" "ab_sequence (ab_set_side sd rs b) = ab_sequence b"
  by (cases sd; simp add: ab_side_def ab_set_side_def)+

lemma abs_book_sel [simp]:
  "ab_symbol (abs_book s) = ob_symbol s" "ab_side sd (abs_book s) = map untimed (resting sd s)"
  "ab_last (abs_book s) = ob_lastTradePriceTicks s" "ab_sequence (abs_book s) = ob_sequence s"
  "ab_stops (abs_book s) = map (\<lambda>(k, so). (k, getStopOrderSnapshot so)) (ob_stopOrdersById s)"
  by (cases sd; simp add: abs_book_def ab_side_def)+

lemma abstract_eqI:
  assumes "ab_symbol a = ab_symbol b" "\<And>sd. ab_side sd a = ab_side sd b" "ab_stops a = ab_stops b"
    "ab_last a = ab_last b" "ab_sequence a = ab_sequence b"
  shows "a = b"
  using assms(2) [of BUY] assms(2) [of SELL] assms(1,3-5) by (simp add: ab_side_def)

subsection \<open>Placing an order\<close>

text \<open>Match against the other side, rest the remainder of a limit order; also the unfilled quantity.\<close>

definition ab_place :: "bool \<Rightarrow> OrderNode \<Rightarrow> AbstractBook \<Rightarrow> (Trade list \<times> int) \<times> AbstractBook" where
  "ab_place market n b =
    (case spec_match (accepts (on_side n) market (price_of n)) (rem n) (ab_side (opp (on_side n)) b) of (fs, rs, q) \<Rightarrow>
      ((map (trade_of (on_side n) (ab_symbol b) n) fs, q),
       (let b1 = ab_set_side (opp (on_side n)) rs b
        in if \<not> market \<and> 0 < q
           then ab_set_side (on_side n) (spec_insert (rank (on_side n)) (consumed (rem n - q) n) (ab_side (on_side n) b)) b1
           else b1)))"

subsection \<open>Stop orders\<close>

definition ab_observe :: "int option \<Rightarrow> AbstractBook \<Rightarrow> AbstractBook" where
  "ab_observe p b = b\<lparr>ab_last := p, ab_stops := (case p of None \<Rightarrow> ab_stops b
     | Some t \<Rightarrow> map (\<lambda>(k, so). (k, getStopOrderSnapshot (updateTrailingStopOrder t so))) (ab_stops b))\<rparr>"

definition ab_eligible :: "AbstractBook \<Rightarrow> jsobj \<Rightarrow> bool" where
  "ab_eligible b so = (case ab_last b of None \<Rightarrow> False | Some p \<Rightarrow> isEligible p so)"

text \<open>The market or limit order a stop becomes.\<close>

definition ab_stop_node :: "string \<Rightarrow> jsobj \<Rightarrow> OrderNode res" where
  "ab_stop_node symb so = new_OrderNode (if market_stop so then triggered_market_input symb 0 so
     else triggered_limit_input symb 0 so)"

text \<open>
  One triggered stop: its trades and the number of its events.  (The order of a well-formed
  stop can always be constructed; the first case does not occur.)
\<close>

definition ab_trigger :: "jsobj \<Rightarrow> AbstractBook \<Rightarrow> (Trade list \<times> nat) \<times> AbstractBook" where
  "ab_trigger so b = (case ab_stop_node (ab_symbol b) so of Inl e \<Rightarrow> (([], 0), b)
     | Inr n \<Rightarrow> (case ab_place (market_stop so) n b of ((ts, q), b') \<Rightarrow>
         ((ts, 2 + length ts + (if \<not> market_stop so \<and> q = rem n then 1 else 0)), b')))"

fun ab_trigger_all :: "jsobj list \<Rightarrow> AbstractBook \<Rightarrow> (Trade list \<times> nat) \<times> AbstractBook" where
  "ab_trigger_all [] b = (([], 0), b)"
| "ab_trigger_all (so # sos) b = (case ab_trigger so b of ((ts, k), b1) \<Rightarrow>
     (case ab_trigger_all sos b1 of ((ts', k'), b2) \<Rightarrow> ((ts @ ts', k + k'), b2)))"

lemma ab_place_stops [simp]: "ab_stops (snd (ab_place market n b)) = ab_stops b"
  by (simp add: ab_place_def Let_def split: prod.split)

lemma ab_trigger_stops [simp]: "ab_stops (snd (ab_trigger so b)) = ab_stops b"
  using ab_place_stops [of "market_stop so" _ b]
  by (auto simp: ab_trigger_def split: sum.split prod.split simp del: ab_place_stops) (metis snd_conv)

lemma ab_trigger_all_stops [simp]: "ab_stops (snd (ab_trigger_all sos b)) = ab_stops b"
proof (induction sos arbitrary: b)
  case (Cons so sos)
  obtain ts k b1 where 1: "ab_trigger so b = ((ts, k), b1)" by (metis prod.exhaust)
  obtain ts' k' b2 where 2: "ab_trigger_all sos b1 = ((ts', k'), b2)" by (metis prod.exhaust)
  show ?case using Cons [of b1] ab_trigger_stops [of so b] 1 2 by simp
qed simp

text \<open>
  The trigger loop: the last price moves the trailing stops, the stops it triggers leave the
  book and are executed in order, and their trades start the next round.
\<close>

definition ab_hit :: "AbstractBook \<Rightarrow> (jsval \<times> jsobj) list" where
  "ab_hit b = filter (\<lambda>(k, so). ab_eligible b so) (ab_stops b)"

definition ab_round :: "AbstractBook \<Rightarrow> (Trade list \<times> nat) \<times> AbstractBook" where
  "ab_round b = ab_trigger_all (map snd (ab_hit b))
     (b\<lparr>ab_stops := filter (\<lambda>(k, so). \<not> ab_eligible b so) (ab_stops b)\<rparr>)"

lemma ab_observe_length [simp]: "length (ab_stops (ab_observe p b)) = length (ab_stops b)"
  by (simp add: ab_observe_def split: option.split)

lemma ab_round_less:
  assumes "ab_hit b \<noteq> []"
  shows "length (ab_stops (snd (ab_round b))) < length (ab_stops b)"
proof -
  let ?P = "\<lambda>x. case x of (k, so) \<Rightarrow> ab_eligible b so"
  have "0 < length (filter ?P (ab_stops b))" using assms by (simp add: ab_hit_def)
  then have "length (filter (\<lambda>x. \<not> ?P x) (ab_stops b)) < length (ab_stops b)"
    using sum_length_filter_compl [of ?P "ab_stops b"] by linarith
  then show ?thesis by (simp add: ab_round_def split_def)
qed

function ab_cycles :: "Trade list \<Rightarrow> AbstractBook \<Rightarrow> (Trade list \<times> jsval list \<times> nat) \<times> AbstractBook" where
  "ab_cycles latest b =
    (if latest = [] then (([], [], 0), b)
     else let b1 = ab_observe (tr_priceTicks (last latest)) b; r = ab_round b1
          in if ab_hit b1 = [] then (([], [], 0), b1)
             else (case ab_cycles (fst (fst r)) (snd r) of ((ts, ids, k), b2) \<Rightarrow>
                     ((fst (fst r) @ ts, map fst (ab_hit b1) @ ids, snd (fst r) + k), b2)))"
  by pat_completeness auto

termination
  by (relation "measure (\<lambda>(latest, b). length (ab_stops b))")
    (use ab_round_less in \<open>force+\<close>)

declare ab_cycles.simps [simp del]

subsection \<open>Commands\<close>

text \<open>A limit or market order: placed, then the stop orders its trades trigger.\<close>

definition ab_run :: "bool \<Rightarrow> OrderNode \<Rightarrow> AbstractBook \<Rightarrow> (Trade list \<times> jsval list) \<times> AbstractBook" where
  "ab_run market n b = (case ab_place market n b of ((ts, q), b1) \<Rightarrow>
     (case ab_cycles ts b1 of ((ts', ids, k), b2) \<Rightarrow>
       ((ts @ ts', ids),
        b2\<lparr>ab_sequence := ab_sequence b + int (length ts + (if \<not> market \<and> 0 < q then 4 else 3) + k)\<rparr>)))"

definition ab_id_used :: "AbstractBook \<Rightarrow> jsval \<Rightarrow> bool" where
  "ab_id_used b v \<longleftrightarrow> v \<in> set (map (\<lambda>r. JStr (on_orderId r)) (ab_bids b @ ab_asks b)) \<or> v \<in> set (map fst (ab_stops b))"

type_synonym outcome = "js_error + (Trade list \<times> jsval list)"

definition ab_order :: "bool \<Rightarrow> jsobj \<Rightarrow> AbstractBook \<Rightarrow> outcome \<times> AbstractBook" where
  "ab_order market o1 b =
    (if ab_id_used b (getp o1 ''orderId'') then (Inl (OrderAlreadyExists (getp o1 ''orderId'')), b)
     else (case new_OrderNode (if market then market_input (ab_symbol b) o1 else limit_input (ab_symbol b) o1) of
         Inl e \<Rightarrow> (Inl e, b)
       | Inr n \<Rightarrow> (case ab_run market (untimed n) b of (out, b') \<Rightarrow> (Inr out, b'))))"

text \<open>A stop order joins the waiting ones, behind them; two events.\<close>

definition ab_register :: "jsobj \<Rightarrow> (AbstractBook \<Rightarrow> js_error + jsobj) \<Rightarrow> AbstractBook \<Rightarrow> outcome \<times> AbstractBook" where
  "ab_register o1 object b =
    (if ab_id_used b (getp o1 ''orderId'') then (Inl (OrderAlreadyExists (getp o1 ''orderId'')), b)
     else (case object b of Inl e \<Rightarrow> (Inl e, b)
       | Inr so \<Rightarrow> (Inr ([], []), b\<lparr>ab_stops := ab_stops b @ [(getp o1 ''orderId'', getStopOrderSnapshot so)],
                                 ab_sequence := ab_sequence b + 2\<rparr>)))"

definition ab_trailing :: "jsobj \<Rightarrow> AbstractBook \<Rightarrow> js_error + jsobj" where
  "ab_trailing o1 b = (case ab_last b of None \<Rightarrow> Inl NoTradeYet
     | Some p \<Rightarrow> (case as_integer (getp o1 ''trailingAmountTicks'') of None \<Rightarrow> Inl TrailingAmountInvalid
        | Some t \<Rightarrow> if t \<le> 0 then Inl TrailingAmountInvalid else Inr (trailing_stop_object (ab_symbol b) p t o1)))"

text \<open>Cancellation; the counter does not move when a stop order is cancelled.\<close>

definition ab_cancel :: "jsval \<Rightarrow> AbstractBook \<Rightarrow> outcome \<times> AbstractBook" where
  "ab_cancel v b =
    (if v \<in> set (map fst (ab_stops b)) then (Inr ([], []), b\<lparr>ab_stops := map_delete (ab_stops b) v\<rparr>)
     else if v \<in> set (map (\<lambda>r. JStr (on_orderId r)) (ab_bids b @ ab_asks b))
       then (Inr ([], []), b\<lparr>ab_bids := spec_cancel (str_of v) (ab_bids b), ab_asks := spec_cancel (str_of v) (ab_asks b),
               ab_sequence := ab_sequence b + 2\<rparr>)
     else (Inl (OrderNotFound v), b))"

definition ab_dispatch :: "jsval \<Rightarrow> jsval \<Rightarrow> AbstractBook \<Rightarrow> outcome \<times> AbstractBook" where
  "ab_dispatch type payload b =
    (let known = type \<in> {JStr ''PLACE_LIMIT_ORDER'', JStr ''PLACE_MARKET_ORDER'', JStr ''PLACE_STOP_MARKET_ORDER'',
           JStr ''PLACE_STOP_LIMIT_ORDER'', JStr ''PLACE_TRAILING_STOP_MARKET_ORDER'', JStr ''CANCEL_ORDER''};
         o1 = props payload
     in if \<not> known then (Inl (UnsupportedCommand type), b)
        else if nullish payload then (Inl TypeErr, b)
        else if type = JStr ''PLACE_LIMIT_ORDER'' then ab_order False o1 b
        else if type = JStr ''PLACE_MARKET_ORDER'' then ab_order True o1 b
        else if type = JStr ''PLACE_STOP_MARKET_ORDER'' then ab_register o1 (\<lambda>b. Inr (stop_market_object (ab_symbol b) o1)) b
        else if type = JStr ''PLACE_STOP_LIMIT_ORDER'' then ab_register o1 (\<lambda>b. Inr (stop_limit_object (ab_symbol b) o1)) b
        else if type = JStr ''PLACE_TRAILING_STOP_MARKET_ORDER'' then ab_register o1 (ab_trailing o1) b
        else ab_cancel (getp o1 ''orderId'') b)"

text \<open>The outcome of a concrete command, as far as the specification says.\<close>

definition outcome_of :: "js_error + CommandResult \<Rightarrow> outcome" where
  "outcome_of r = (case r of Inl e \<Rightarrow> Inl e
     | Inr (Placed res) \<Rightarrow> Inr (map untimed_trade (pr_trades res), map (\<lambda>so. getp so ''orderId'') (pr_triggeredOrders res))
     | Inr (Cancelled res) \<Rightarrow> Inr ([], []))"

end
