(* ===== verification/AbstractRefine.thy ===== *)
theory AbstractRefine
  imports AbstractBook
begin

text \<open>
  The engine refines the abstract book: every command on a well-formed book does, seen
  through \<open>abs_book\<close>, what \<open>ab_dispatch\<close> says.  The abstract book has no heap and no clock,
  so two nodes whose books look alike stay alike whatever their addresses and clocks.
\<close>

subsection \<open>Timestamps do not matter to matching\<close>

lemma untimed_simps [simp]:
  "on_orderId (untimed n) = on_orderId n" "on_side (untimed n) = on_side n" "rem (untimed n) = rem n"
  "price_of (untimed n) = price_of n" "on_priceTicks (untimed n) = on_priceTicks n" "on_status (untimed n) = on_status n"
  "filled_by k (untimed n) = untimed (filled_by k n)" "consumed k (untimed n) = untimed (consumed k n)"
  "on_timestamp (untimed n) = 0" "untimed (untimed n) = untimed n"
  by (simp_all add: untimed_def price_of_def filled_by_def consumed_def)

lemma untimed_trade_of: "trade_of sd symb (untimed n) (untimed r, k) = untimed_trade (trade_of sd symb n (r, k))"
  by (cases sd) (simp_all add: trade_of_def untimed_trade_def)

lemma untimed_trade_simps [simp]: "tr_priceTicks (untimed_trade t) = tr_priceTicks t"
  by (simp add: untimed_trade_def)

lemma spec_match_untimed:
  "spec_match ok q rs = (fs, rs', q') \<Longrightarrow>
     spec_match ok q (map untimed rs) = (map (\<lambda>(r, k). (untimed r, k)) fs, map untimed rs', q')"
  by (induction ok q rs arbitrary: fs rs' q' rule: spec_match.induct) (auto split: if_splits prod.splits)

lemma spec_insert_untimed:
  "spec_insert rnk (untimed n) (map untimed rs) = map untimed (spec_insert rnk n rs)"
  by (simp add: spec_insert_def takeWhile_map dropWhile_map comp_def)

lemma spec_cancel_untimed: "spec_cancel i (map untimed rs) = map untimed (spec_cancel i rs)"
  by (simp add: spec_cancel_def filter_map comp_def)

lemma untimed_trades:
  "map (trade_of sd symb (untimed n)) (map (\<lambda>(r, k). (untimed r, k)) fs) = map untimed_trade (map (trade_of sd symb n) fs)"
  by (simp add: untimed_trade_of split_def)

subsection \<open>Placing\<close>

lemma ab_place_frame: "ab_place market n (b\<lparr>ab_stops := X\<rparr>) =
    (fst (ab_place market n b), (snd (ab_place market n b))\<lparr>ab_stops := X\<rparr>)"
  by (cases "on_side n") (simp_all add: ab_place_def ab_side_def ab_set_side_def Let_def split: prod.split)

lemma ab_trigger_frame: "ab_trigger so (b\<lparr>ab_stops := X\<rparr>) =
    (fst (ab_trigger so b), (snd (ab_trigger so b))\<lparr>ab_stops := X\<rparr>)"
  by (auto simp: ab_trigger_def ab_place_frame split: sum.split prod.split)

lemma placed_refines:
  assumes pl: "placed market n s fs q s'"
  shows "ab_place market (untimed n) (abs_book s) =
    ((map untimed_trade (map (trade_of (on_side n) (ob_symbol s) n) fs), q), abs_book s')"
proof -
  have sp: "spec_match (accepts (on_side n) market (price_of n)) (rem n) (resting (opp (on_side n)) s) =
      (fs, resting (opp (on_side n)) s', q)" and qt: "quiet s s'"
    and own: "resting (on_side n) s' = (if \<not> market \<and> 0 < q
       then spec_insert (rank (on_side n)) (consumed (rem n - q) n) (resting (on_side n) s) else resting (on_side n) s)"
    using pl by (simp_all add: placed_def spec_of_def)
  have b: "snd (ab_place market (untimed n) (abs_book s)) = abs_book s'"
  proof (rule abstract_eqI)
    fix sd
    have sd: "sd = on_side n \<or> sd = opp (on_side n)" by (cases sd; cases "on_side n") auto
    show "ab_side sd (snd (ab_place market (untimed n) (abs_book s))) = ab_side sd (abs_book s')"
      using spec_match_untimed [OF sp] sd own
      by (auto simp: ab_place_def Let_def spec_insert_untimed)
  qed (use spec_match_untimed [OF sp] qt in \<open>auto simp: ab_place_def Let_def quiet_def\<close>)
  have "fst (ab_place market (untimed n) (abs_book s)) =
      (map untimed_trade (map (trade_of (on_side n) (ob_symbol s) n) fs), q)"
    using spec_match_untimed [OF sp] untimed_trades by (simp add: ab_place_def)
  then show ?thesis using b by (simp add: prod_eq_iff)
qed

subsection \<open>The stop orders of the abstract book\<close>

lemma snapshot_reads:
  "getp (getStopOrderSnapshot so) ''orderId'' = getp so ''orderId''" "getp (getStopOrderSnapshot so) ''userId'' = getp so ''userId''"
  "getp (getStopOrderSnapshot so) ''symbol'' = getp so ''symbol''" "getp (getStopOrderSnapshot so) ''side'' = getp so ''side''"
  "getp (getStopOrderSnapshot so) ''type'' = getp so ''type''" "getp (getStopOrderSnapshot so) ''triggerPriceTicks'' = getp so ''triggerPriceTicks''"
  "getp (getStopOrderSnapshot so) ''priceTicks'' = getp so ''priceTicks''" "getp (getStopOrderSnapshot so) ''quantity'' = getp so ''quantity''"
  "getp (getStopOrderSnapshot so) ''remainingQuantity'' = getp so ''remainingQuantity''" "getp (getStopOrderSnapshot so) ''status'' = getp so ''status''"
  "getp (getStopOrderSnapshot so) ''timestamp'' = getp so ''timestamp''"
  "getp (getStopOrderSnapshot so) ''trailingAmountTicks'' = coalesce (getp so ''trailingAmountTicks'') JNull"
  "getp (getStopOrderSnapshot so) ''peakPriceTicks'' = coalesce (getp so ''peakPriceTicks'') JNull"
  "getp (getStopOrderSnapshot so) ''valleyPriceTicks'' = coalesce (getp so ''valleyPriceTicks'') JNull"
  by (simp_all add: getStopOrderSnapshot_def)

lemma coalesce_null: "v \<noteq> JUndef \<Longrightarrow> coalesce v JNull = v"
  by (simp add: coalesce_def nullish_def)

lemma coalesce_idem: "coalesce (coalesce v JNull) JNull = coalesce v JNull"
  by (simp add: coalesce_def nullish_def)

lemma snapshot_idem: "getStopOrderSnapshot (getStopOrderSnapshot so) = getStopOrderSnapshot so"
  unfolding getStopOrderSnapshot_def [of "getStopOrderSnapshot so"] snapshot_reads coalesce_idem
  by (simp add: getStopOrderSnapshot_def)

lemma snapshot_cong:
  "(\<And>k. k \<noteq> ''trailingAmountTicks'' \<Longrightarrow> k \<noteq> ''peakPriceTicks'' \<Longrightarrow> k \<noteq> ''valleyPriceTicks'' \<Longrightarrow> getp a k = getp b k) \<Longrightarrow>
   coalesce (getp a ''trailingAmountTicks'') JNull = coalesce (getp b ''trailingAmountTicks'') JNull \<Longrightarrow>
   coalesce (getp a ''peakPriceTicks'') JNull = coalesce (getp b ''peakPriceTicks'') JNull \<Longrightarrow>
   coalesce (getp a ''valleyPriceTicks'') JNull = coalesce (getp b ''valleyPriceTicks'') JNull \<Longrightarrow>
   getStopOrderSnapshot a = getStopOrderSnapshot b"
  by (simp add: getStopOrderSnapshot_def)

lemma trailing_snapshot:
  assumes "trailing_fields so"
  shows "getp (getStopOrderSnapshot so) ''trailingAmountTicks'' = getp so ''trailingAmountTicks''"
    "getp (getStopOrderSnapshot so) ''peakPriceTicks'' = getp so ''peakPriceTicks''"
    "getp (getStopOrderSnapshot so) ''valleyPriceTicks'' = getp so ''valleyPriceTicks''"
proof -
  have "getp so ''trailingAmountTicks'' \<noteq> JUndef" using assms by (auto simp: trailing_fields_def pos_int_def as_integer_def)
  then show "getp (getStopOrderSnapshot so) ''trailingAmountTicks'' = getp so ''trailingAmountTicks''"
    by (simp add: snapshot_reads coalesce_null)
qed (use assms in \<open>simp_all add: snapshot_reads coalesce_null trailing_fields_def\<close>)

text \<open>The ratchet reads and writes only what the snapshot keeps.\<close>

lemma update_snapshot:
  assumes "stop_ok k so"
  shows "getStopOrderSnapshot (updateTrailingStopOrder p (getStopOrderSnapshot so)) =
    getStopOrderSnapshot (updateTrailingStopOrder p so)"
proof (cases "getp so ''type'' = type_val TRAILING_STOP_MARKET")
  case True
  then have tf: "trailing_fields so" using assms by (simp add: stop_ok_def)
  have W: "getStopOrderSnapshot (setp (setp (getStopOrderSnapshot so) i v) j w) = getStopOrderSnapshot (setp (setp so i v) j w)" for i j v w
    by (simp add: getStopOrderSnapshot_def [of "setp (setp _ i v) j w"] snapshot_reads coalesce_idem)
  show ?thesis
    using True isValidSide_iff [of "getp so ''side''"] assms
    by (auto simp: updateTrailingStopOrder_def Let_def snapshot_reads(4,5) trailing_snapshot [OF tf] W snapshot_idem
        stop_ok_def side_of_Some simp del: side_val.simps type_val.simps)
next
  case False
  then show ?thesis by (simp add: updateTrailingStopOrder_def snapshot_reads snapshot_idem)
qed

lemma eligible_snapshot: "isEligible p (getStopOrderSnapshot so) = isEligible p so"
  by (simp add: isEligible_def snapshot_reads)

lemma market_stop_snapshot: "market_stop (getStopOrderSnapshot so) = market_stop so"
  by (simp add: market_stop_def snapshot_reads)

subsection \<open>Triggered stops\<close>

lemma ab_stops_self: "b\<lparr>ab_stops := ab_stops b\<rparr> = b"
  by simp

lemma new_OrderNode_Inr_eq:
  "new_OrderNode o1 = Inr n \<longleftrightarrow>
     valid_order_input (setp (setp o1 ''type'' (dflt (getp o1 ''type'') (type_val LIMIT))) ''priceTicks'' (dflt (getp o1 ''priceTicks'') JNull)) \<and>
     n = \<lparr> on_orderId = str_of (getp o1 ''orderId''), on_userId = str_of (getp o1 ''userId''),
           on_side = the (side_of (getp o1 ''side'')), on_symbol = str_of (getp o1 ''symbol''),
           on_type = the (type_of (dflt (getp o1 ''type'') (type_val LIMIT))),
           on_priceTicks = as_integer (dflt (getp o1 ''priceTicks'') JNull),
           on_timestamp = int_of (getp o1 ''timestamp''), on_initialQuantity = int_of (getp o1 ''quantity''),
           on_remainingQuantity = int_of (getp o1 ''quantity''), on_status = OPEN,
           on_prev = None, on_next = None, on_priceLevel = None \<rparr>"
  unfolding validateOrderInput_ok_iff [symmetric]
  by (auto simp: new_OrderNode_def Let_def seqE_eq_Inr)

lemma stop_node_untimed:
  assumes "stop_order_node symb now so n"
  shows "ab_stop_node symb (getStopOrderSnapshot so) = Inr (untimed n)"
proof -
  let ?i = "\<lambda>t. if market_stop so then triggered_market_input symb t so else triggered_limit_input symb t so"
  have "new_OrderNode (?i now) = Inr n" using assms by (simp add: stop_order_node_def)
  then have "new_OrderNode (?i 0) = Inr (untimed n)"
    unfolding new_OrderNode_Inr_eq setp_valid
    by (cases "market_stop so") (simp_all add: triggered_market_input_def triggered_limit_input_def untimed_def dflt_def
        del: type_val.simps)
  moreover have "ab_stop_node symb (getStopOrderSnapshot so) = new_OrderNode (?i 0)"
    by (simp add: ab_stop_node_def market_stop_snapshot triggered_market_input_def triggered_limit_input_def snapshot_reads)
  ultimately show ?thesis by simp
qed

lemma abs_book_ticks: "links_ok s \<Longrightarrow> abs_book (s\<lparr>ob_ticks := k\<rparr>) = abs_book s"
  by (rule abstract_eqI) (simp_all add: frame_resting [OF _ same_structure_scalars(4)])

text \<open>The abstract book without its stop orders.\<close>

lemma abs_book_stops:
  assumes "links_ok s"
  shows "(abs_book (s\<lparr>ob_stopOrdersById := m\<rparr>))\<lparr>ab_stops := X\<rparr> = (abs_book s)\<lparr>ab_stops := X\<rparr>"
  by (simp add: abs_book_def frame_resting [OF assms same_structure_scalars(5)])

lemma trigger_refines:
  assumes lk: "links_ok s" and run: "stop_ran s k so t s'"
  shows "ab_trigger (getStopOrderSnapshot so) ((abs_book s)\<lparr>ab_stops := X\<rparr>) =
    ((map untimed_trade (tg_trades t), length (tg_events t)), (abs_book s')\<lparr>ab_stops := X\<rparr>)"
proof -
  let ?s1 = "s\<lparr>ob_stopOrdersById := map_delete (ob_stopOrdersById s) k\<rparr>"
  obtain n fs q where n: "stop_order_node (ob_symbol s) (ob_clock s (ob_ticks s)) so n"
    and pl: "placed (market_stop so) n (?s1\<lparr>ob_ticks := Suc (ob_ticks s)\<rparr>) fs q s'"
    and t: "tg_trades t = map (trade_of (on_side n) (ob_symbol s) n) fs"
      "length (tg_events t) = 2 + length fs + (if \<not> market_stop so \<and> q = rem n then 1 else 0)"
    using run unfolding stop_ran_def by blast
  have "links_ok ?s1" by (rule frame_links [OF lk same_structure_scalars(5)])
  then have "ab_place (market_stop so) (untimed n) (abs_book ?s1) =
      ((map untimed_trade (tg_trades t), q), abs_book s')"
    using placed_refines [OF pl] abs_book_ticks by (simp add: t(1))
  then have "ab_place (market_stop so) (untimed n) ((abs_book ?s1)\<lparr>ab_stops := X\<rparr>) =
      ((map untimed_trade (tg_trades t), q), (abs_book s')\<lparr>ab_stops := X\<rparr>)"
    by (simp add: ab_place_frame)
  then show ?thesis
    using stop_node_untimed [OF n] t
    by (simp add: ab_trigger_def market_stop_snapshot abs_book_stops [OF lk])
qed

lemma trigger_all_refines:
  assumes "book_ok s" "\<And>so. so \<in> set sos \<Longrightarrow> (stop_id so, so) \<in> set (ob_stopOrdersById s)"
    and "distinct (map stop_id sos)" "triggerStopOrders sos s = (Inr t, s')"
  shows "ab_trigger_all (map getStopOrderSnapshot sos) ((abs_book s)\<lparr>ab_stops := X\<rparr>) =
    ((map untimed_trade (tg_trades t), length (tg_events t)), (abs_book s')\<lparr>ab_stops := X\<rparr>)"
  using assms
proof (induction sos arbitrary: s t)
  case Nil
  then show ?case by (auto simp: no_triggered_def)
next
  case (Cons so sos)
  have so: "(stop_id so, so) \<in> set (ob_stopOrdersById s)" using Cons.prems(2) by simp
  obtain t1 s1 where 1: "triggerStopOrder so s = (Inr t1, s1)" "book_ok s1"
    "ob_stopOrdersById s1 = map_delete (ob_stopOrdersById s) (stop_id so)"
    "ob_lastTradePriceTicks s1 = ob_lastTradePriceTicks s" "run_frame s (tg_trades t1) s1"
    "tg_orders t1 = [getStopOrderSnapshot (setp so ''status'' (status_val TRIGGERED))]" "stop_ran s (stop_id so) so t1 s1"
    by (rule triggerStopOrder_ok [OF Cons.prems(1) so])
  have lk: "links_ok s" using Cons.prems(1) by (simp add: book_ok_def)
  have in1: "(stop_id so', so') \<in> set (ob_stopOrdersById s1)" if "so' \<in> set sos" for so'
    using Cons.prems(2,3) that 1(3) by (auto simp: set_map_delete image_iff)
  obtain ts where ts: "triggerStopOrders sos s1 = (Inr ts, s')" "t = add_triggered t1 ts"
    using Cons.prems(4) 1(1) by (auto simp: bindE_Inr bindE_eq_Inr)
  have "distinct (map stop_id sos)" using Cons.prems(3) by simp
  from Cons.IH [OF 1(2) in1 this ts(1)] trigger_refines [OF lk 1(7), of X] show ?case
    by (simp add: ts(2) add_triggered_def)
qed

subsection \<open>The trigger loop\<close>

lemma observe_refines:
  assumes "book_ok s"
  shows "abs_book (with_last p s) = ab_observe p (abs_book s)"
proof (rule abstract_eqI)
  have lk: "links_ok s" and st: "stops_ok s" using assms by (simp_all add: book_ok_def)
  let ?s1 = "s\<lparr>ob_lastTradePriceTicks := p\<rparr>"
  have lk1: "links_ok ?s1" by (rule frame_links [OF lk same_structure_scalars(2)])
  have "resting sd (with_last p s) = resting sd s" for sd
    using frame_resting [OF lk1 same_structure_scalars(5)] frame_resting [OF lk same_structure_scalars(2)]
    by (simp add: with_last_eq)
  then show "ab_side sd (abs_book (with_last p s)) = ab_side sd (ab_observe p (abs_book s))" for sd
    by (cases sd) (simp_all add: ab_side_def abs_book_def ab_observe_def)
  show "ab_stops (abs_book (with_last p s)) = ab_stops (ab_observe p (abs_book s))"
    using update_snapshot [OF stops_okD(1) [OF st]] by (auto simp: with_last_eq ab_observe_def split: option.split)
qed (simp_all add: ab_observe_def with_last_eq)

lemma ab_eligible_refines: "ab_eligible (abs_book s) (getStopOrderSnapshot so) = eligible_here s so"
  by (simp add: ab_eligible_def eligible_here_def eligible_snapshot split: option.split)

lemma hit_refines:
  "ab_hit (abs_book s) = map (\<lambda>(k, so). (k, getStopOrderSnapshot so)) (filter (\<lambda>(k, so). eligible_here s so) (ob_stopOrdersById s))"
  "map snd (ab_hit (abs_book s)) = map getStopOrderSnapshot (getEligibleStopOrders s)"
  "ab_hit (abs_book s) = [] \<longleftrightarrow> getEligibleStopOrders s = []"
  by (simp_all add: ab_hit_def filter_map comp_def split_def ab_eligible_refines eligible_filter)

lemma round_refines:
  assumes ok: "book_ok s" and run: "triggerStopOrders (getEligibleStopOrders s) s = (Inr t, s')"
  shows "ab_round (abs_book s) = ((map untimed_trade (tg_trades t), length (tg_events t)), abs_book s')"
    "map (\<lambda>so. getp so ''orderId'') (tg_orders t) = map fst (ab_hit (abs_book s))"
proof -
  let ?E = "getEligibleStopOrders s"
  have st: "stops_ok s" using ok by (simp add: book_ok_def)
  obtain t1 s1 where b: "triggerStopOrders ?E s = (Inr t1, s1)" "book_ok s1"
    "ob_stopOrdersById s1 = filter (\<lambda>(k, so). \<not> eligible_here s so) (ob_stopOrdersById s)"
    "ob_lastTradePriceTicks s1 = ob_lastTradePriceTicks s" "run_frame s (tg_trades t1) s1"
    "tg_orders t1 = map triggered_snapshot ?E" by (rule trigger_batch [OF ok])
  have eq: "t1 = t" "s1 = s'" using b(1) run by simp_all
  have E: "(stop_id so, so) \<in> set (ob_stopOrdersById s)" if "so \<in> set ?E" for so
    using that stop_keys [OF st] by (force simp: eligible_filter)
  have ids: "map stop_id ?E = map fst (filter (\<lambda>(k, so). eligible_here s so) (ob_stopOrdersById s))"
    using stop_keys [OF st] by (simp add: eligible_filter)
  have d: "distinct (map stop_id ?E)"
    using st unfolding ids by (simp add: stops_ok_def distinct_map_filter)
  let ?X = "filter (\<lambda>(k, so). \<not> ab_eligible (abs_book s) so) (ab_stops (abs_book s))"
  have X: "?X = ab_stops (abs_book s')"
    using b(3) by (simp add: eq filter_map comp_def split_def ab_eligible_refines)
  show "ab_round (abs_book s) = ((map untimed_trade (tg_trades t), length (tg_events t)), abs_book s')"
    using trigger_all_refines [OF ok E d run, of ?X] unfolding ab_round_def hit_refines(2) X ab_stops_self .
  show "map (\<lambda>so. getp so ''orderId'') (tg_orders t) = map fst (ab_hit (abs_book s))"
    using b(6) ids by (simp add: eq comp_def snapshot_id hit_refines(1) split_def)
qed

lemma cycles_refines:
  assumes "book_ok s" "stopCycles cycles latest acc s = (Inr t, s')"
  shows "\<exists>ts ids k. ab_cycles (map untimed_trade latest) (abs_book s) = ((ts, ids, k), abs_book s') \<and>
    map untimed_trade (tg_trades t) = map untimed_trade (tg_trades acc) @ ts \<and>
    map (\<lambda>so. getp so ''orderId'') (tg_orders t) = map (\<lambda>so. getp so ''orderId'') (tg_orders acc) @ ids \<and>
    length (tg_events t) = length (tg_events acc) + k"
  using assms
proof (induction cycles latest acc s rule: stopCycles.induct)
  case (1 cycles latest acc s)
  show ?case
  proof (cases "latest = []")
    case True
    then show ?thesis using "1.prems"(2) by (simp add: stopCycles.simps ab_cycles.simps)
  next
    case ne: False
    define s1 where "s1 = with_last (tr_priceTicks (last latest)) s"
    have s1': "snd (updateTrailingStopOrders (s\<lparr>ob_lastTradePriceTicks := tr_priceTicks (last latest)\<rparr>)) = s1"
      by (simp add: s1_def with_last_def)
    have nlim: "\<not> maxCycles < cycles + 1"
      using "1.prems"(2) ne by (auto simp: stopCycles.simps split: if_splits)
    have ok1: "book_ok s1" using with_last_ok [OF "1.prems"(1)] unfolding s1_def .
    have obs: "ab_observe (tr_priceTicks (last (map untimed_trade latest))) (abs_book s) = abs_book s1"
      using ne by (simp add: s1_def observe_refines [OF "1.prems"(1)] last_map)
    have ab: "ab_cycles (map untimed_trade latest) (abs_book s) =
        (if getEligibleStopOrders s1 = [] then (([], [], 0), abs_book s1)
         else (case ab_cycles (fst (fst (ab_round (abs_book s1)))) (snd (ab_round (abs_book s1))) of ((ts, ids, k), b2) \<Rightarrow>
           ((fst (fst (ab_round (abs_book s1))) @ ts, map fst (ab_hit (abs_book s1)) @ ids, snd (fst (ab_round (abs_book s1))) + k), b2)))"
      using ne by (subst ab_cycles.simps) (simp add: Let_def obs hit_refines(3))
    show ?thesis
    proof (cases "getEligibleStopOrders s1 = []")
      case True
      then have "t = acc" "s' = s1" using "1.prems"(2) ne nlim by (simp_all add: stopCycles.simps Let_def s1')
      then show ?thesis using True by (simp add: ab)
    next
      case False
      obtain r s2 where r: "triggerStopOrders (getEligibleStopOrders s1) s1 = (r, s2)" by (metis prod.exhaust)
      obtain t1 where t1: "r = Inr t1" "stopCycles (cycles + 1) (tg_trades t1) (add_triggered acc t1) s2 = (Inr t, s')"
        using "1.prems"(2) ne nlim False r by (cases r) (simp_all add: stopCycles.simps [of cycles] Let_def s1')
      have run: "triggerStopOrders (getEligibleStopOrders s1) s1 = (Inr t1, s2)" using r t1(1) by simp
      have ok2: "book_ok s2" using trigger_batch [OF ok1] run by (metis prod.inject)
      note R = round_refines [OF ok1 run]
      from "1.IH" [OF ne nlim s1' [symmetric] refl False r [symmetric] t1(1) ok2 t1(2)] R show ?thesis
        using False by (auto simp: ab add_triggered_def)
    qed
  qed
qed

subsection \<open>Commands\<close>

lemma abs_bookkept: "links_ok s \<Longrightarrow> abs_book (bookkept k q s) = (abs_book s)\<lparr>ab_sequence := q\<rparr>"
  using bookkept_resting by (simp add: abs_book_def)

lemma run_refines:
  assumes ok: "book_ok s" and run: "command_run market n s res s'"
  shows "ab_run market (untimed n) (abs_book s) =
    ((map untimed_trade (pr_trades res), map (\<lambda>so. getp so ''orderId'') (pr_triggeredOrders res)), abs_book s')"
proof -
  let ?ts = "\<lambda>fs. map (trade_of (on_side n) (ob_symbol s) n) fs"
  obtain fs q s1 t s2 where pl: "placed market n s fs q s1" and ok1: "book_ok s1" and ok2: "book_ok s2"
    and pr: "processStopOrdersAfterTrades (?ts fs) s1 = (Inr t, s2)"
    and s': "s' = bookkept (Suc (ob_ticks s2)) (ob_sequence s + int (length (pr_events res))) s2"
    and res: "pr_trades res = ?ts fs @ tg_trades t" "pr_triggeredOrders res = tg_orders t"
    and len: "length (pr_events res) = events_count market q fs t"
    using run unfolding command_run_def by blast
  have lk2: "links_ok s2" using ok2 by (simp add: book_ok_def)
  note P = placed_refines [OF pl]
  have "\<exists>ts ids k. ab_cycles (map untimed_trade (?ts fs)) (abs_book s1) = ((ts, ids, k), abs_book s2) \<and>
      map untimed_trade (tg_trades t) = ts \<and> map (\<lambda>so. getp so ''orderId'') (tg_orders t) = ids \<and> length (tg_events t) = k"
  proof (cases "fs = []")
    case True
    then show ?thesis using pr by (auto simp: processStopOrdersAfterTrades_def ab_cycles.simps no_triggered_def)
  next
    case False
    then have "stopCycles 0 (?ts fs) no_triggered s1 = (Inr t, s2)" using pr by (simp add: processStopOrdersAfterTrades_def)
    from cycles_refines [OF ok1 this] show ?thesis by (auto simp: no_triggered_def)
  qed
  then show ?thesis
    using P by (auto simp: ab_run_def res len events_count_def s' abs_bookkept [OF lk2])
qed

lemma id_used_refines:
  assumes "book_ok s"
  shows "ab_id_used (abs_book s) v \<longleftrightarrow> \<not> id_free s v"
proof -
  have lk: "links_ok s" using assms by (simp add: book_ok_def)
  have r: "v \<in> set (map (\<lambda>r. JStr (on_orderId r)) (ab_bids (abs_book s) @ ab_asks (abs_book s))) \<longleftrightarrow> orders_get s v \<noteq> None"
  proof (cases "\<exists>i. v = JStr i")
    case True
    then obtain i where v: "v = JStr i" by blast
    have "(\<exists>sd. \<exists>n \<in> set (resting sd s). on_orderId n = i) \<longleftrightarrow>
        i \<in> on_orderId ` set (resting BUY s) \<or> i \<in> on_orderId ` set (resting SELL s)"
      by (metis (full_types) Side.exhaust imageE image_eqI)
    then show ?thesis using orders_iff [OF lk, of i] by (auto simp: v abs_book_def image_iff)
  next
    case False
    then have "orders_get s v = None" by (cases v) (simp_all add: orders_get_def)
    then show ?thesis using False by auto
  qed
  have k: "v \<in> set (map fst (ab_stops (abs_book s))) \<longleftrightarrow> map_has (ob_stopOrdersById s) v"
    by (force simp: map_has_iff)
  show ?thesis unfolding ab_id_used_def id_free_def r k by simp
qed

lemma order_refines:
  assumes ok: "book_ok s" and few: "stop_count s < maxCycles"
  shows "ab_order market o1 (abs_book s) =
    (case (if market then placeMarketOrder o1 s else placeLimitOrder o1 s) of
       (Inl e, s') \<Rightarrow> (Inl e, abs_book s')
     | (Inr res, s') \<Rightarrow> (outcome_of (Inr (Placed res)), abs_book s'))"
proof (cases "id_free s (getp o1 ''orderId'')")
  case False
  then show ?thesis
    using placeLimitOrder_refused(1) [OF False] placeMarketOrder_refused(1) [OF False] by (simp add: ab_order_def id_used_refines [OF ok])
next
  case free: True
  let ?i = "if market then market_input (ob_symbol s) o1 else limit_input (ob_symbol s) o1"
  have few': "length (ob_stopOrdersById s) < maxCycles" using few by (simp add: stop_count_def)
  show ?thesis
  proof (cases "new_OrderNode ?i")
    case (Inl e)
    then have "(if market then placeMarketOrder o1 s else placeLimitOrder o1 s) = (Inl e, s)"
      using placeLimitOrder_refused(2) [OF free] placeMarketOrder_refused(2) [OF free] by (simp split: if_splits)
    then show ?thesis using Inl free by (simp add: ab_order_def id_used_refines [OF ok] split: if_splits)
  next
    case (Inr n)
    obtain res s' where r: "(if market then placeMarketOrder o1 s else placeLimitOrder o1 s) = (Inr res, s')"
      "command_run market n s res s'"
    proof (cases market)
      case True
      then have "market_ready s o1 n" using Inr free by (simp add: market_ready_def)
      from placeMarketOrder_run [OF ok this few'] that True show ?thesis by auto
    next
      case False
      then have "limit_ready s o1 n" using Inr free by (simp add: limit_ready_def)
      from placeLimitOrder_run [OF ok this few'] that False show ?thesis by auto
    qed
    then show ?thesis
      using Inr free run_refines [OF ok r(2)]
      by (simp add: ab_order_def id_used_refines [OF ok] outcome_of_def split: if_splits)
  qed
qed

lemma register_refines:
  assumes ok: "book_ok s" and so: "stop_ok (getp o1 ''orderId'') so" and free: "id_free s (getp o1 ''orderId'')"
  obtains res s' where "register_stop (getp o1 ''orderId'') so s = (Inr res, s')" "outcome_of (Inr (Placed res)) = Inr ([], [])"
    "abs_book s' = (abs_book s)\<lparr>ab_stops := ab_stops (abs_book s) @ [(getp o1 ''orderId'', getStopOrderSnapshot so)],
       ab_sequence := ab_sequence (abs_book s) + 2\<rparr>"
proof -
  let ?k = "getp o1 ''orderId''"
  note W = with_stop_ok [OF ok so free]
  have lk: "links_ok (with_stop ?k so s)" using W(1) by (simp add: book_ok_def)
  obtain res s' where r: "register_stop ?k so s = (Inr res, s')" "pr_trades res = []" "pr_triggeredOrders res = []"
    "s' = bookkept (Suc (ob_ticks s)) (ob_sequence s + 2) (with_stop ?k so s)"
    by (simp add: register_stop_eq Let_def)
  have sc: "ob_symbol (with_stop ?k so s) = ob_symbol s" "ob_lastTradePriceTicks (with_stop ?k so s) = ob_lastTradePriceTicks s"
    by (simp_all add: with_stop_def)
  have "abs_book s' = (abs_book s)\<lparr>ab_stops := ab_stops (abs_book s) @ [(?k, getStopOrderSnapshot so)],
       ab_sequence := ab_sequence (abs_book s) + 2\<rparr>"
    unfolding r(4) abs_bookkept [OF lk] using W(2,3) sc by (simp add: abs_book_def)
  with r show ?thesis using that by (simp add: outcome_of_def)
qed

lemma stop_refines:
  assumes ok: "book_ok s"
  shows "stop_fields_ok o1 \<Longrightarrow> ab_register o1 (\<lambda>b. Inr (stop_market_object (ab_symbol b) o1)) (abs_book s) =
      (case placeStopMarketOrder o1 s of (r, s') \<Rightarrow> (outcome_of (map_sum id Placed r), abs_book s'))"
    "stop_fields_ok o1 \<Longrightarrow> pos_int (getp o1 ''priceTicks'') \<Longrightarrow> ab_register o1 (\<lambda>b. Inr (stop_limit_object (ab_symbol b) o1)) (abs_book s) =
      (case placeStopLimitOrder o1 s of (r, s') \<Rightarrow> (outcome_of (map_sum id Placed r), abs_book s'))"
    "stop_fields_ok o1 \<Longrightarrow> ab_register o1 (ab_trailing o1) (abs_book s) =
      (case placeTrailingStopMarketOrder o1 s of (r, s') \<Rightarrow> (outcome_of (map_sum id Placed r), abs_book s'))"
proof -
  let ?k = "getp o1 ''orderId''"
  have R: "(case register_stop ?k so s of (r, s') \<Rightarrow> (outcome_of (map_sum id Placed r), abs_book s')) =
      (Inr ([], []), (abs_book s)\<lparr>ab_stops := ab_stops (abs_book s) @ [(?k, getStopOrderSnapshot so)],
         ab_sequence := ab_sequence (abs_book s) + 2\<rparr>)" if "stop_ok ?k so" "id_free s ?k" for so
    by (rule register_refines [OF ok that]) simp
  note O = stop_objects_ok [of o1]
  show "stop_fields_ok o1 \<Longrightarrow> ab_register o1 (\<lambda>b. Inr (stop_market_object (ab_symbol b) o1)) (abs_book s) =
      (case placeStopMarketOrder o1 s of (r, s') \<Rightarrow> (outcome_of (map_sum id Placed r), abs_book s'))"
    using R [OF O(1)] by (simp add: ab_register_def id_used_refines [OF ok] placeStopMarketOrder_def bindE_assert_id
        outcome_of_def [of "Inl _"])
  show "stop_fields_ok o1 \<Longrightarrow> pos_int (getp o1 ''priceTicks'') \<Longrightarrow> ab_register o1 (\<lambda>b. Inr (stop_limit_object (ab_symbol b) o1)) (abs_book s) =
      (case placeStopLimitOrder o1 s of (r, s') \<Rightarrow> (outcome_of (map_sum id Placed r), abs_book s'))"
    using R [OF O(2)] by (simp add: ab_register_def id_used_refines [OF ok] placeStopLimitOrder_def bindE_assert_id
        outcome_of_def [of "Inl _"])
  show "stop_fields_ok o1 \<Longrightarrow> ab_register o1 (ab_trailing o1) (abs_book s) =
      (case placeTrailingStopMarketOrder o1 s of (r, s') \<Rightarrow> (outcome_of (map_sum id Placed r), abs_book s'))"
    using R [OF O(3)] by (auto simp: ab_register_def ab_trailing_def id_used_refines [OF ok] placeTrailingStopMarketOrder_def
        bindE_assert_id outcome_of_def [of "Inl _"] split: option.split)
qed

lemma cancel_refines:
  assumes ok: "book_ok s"
  shows "ab_cancel v (abs_book s) = (case cancelOrder v s of (r, s') \<Rightarrow> (outcome_of (map_sum id Cancelled r), abs_book s'))"
proof (cases "map_get (ob_stopOrdersById s) v")
  case (Some so)
  let ?s1 = "s\<lparr>ob_stopOrdersById := map_delete (ob_stopOrdersById s) v\<rparr>"
  obtain res where c: "cancelOrder v s = (Inr res, ?s1\<lparr>ob_ticks := Suc (ob_ticks s)\<rparr>)" and ok1: "book_ok ?s1"
    and r: "\<forall>sd. resting sd ?s1 = resting sd s" using cancelOrder_stop [OF ok Some] by (auto simp: Let_def)
  have lk1: "links_ok ?s1" using ok1 by (simp add: book_ok_def)
  have del: "map (\<lambda>(k, so). (k, getStopOrderSnapshot so)) (map_delete m v) = map_delete (map (\<lambda>(k, so). (k, getStopOrderSnapshot so)) m) v" for m
    by (simp add: map_delete_def filter_map comp_def split_def)
  have "abs_book (?s1\<lparr>ob_ticks := Suc (ob_ticks s)\<rparr>) = (abs_book s)\<lparr>ab_stops := map_delete (ab_stops (abs_book s)) v\<rparr>"
    unfolding abs_book_ticks [OF lk1] using r by (simp add: abs_book_def del)
  moreover have "v \<in> fst ` set (ob_stopOrdersById s)" using map_get_Some_in [OF Some] by force
  then have "v \<in> set (map fst (ab_stops (abs_book s)))" by force
  ultimately show ?thesis using c by (simp add: ab_cancel_def outcome_of_def)
next
  case None
  then have nk: "v \<notin> set (map fst (ab_stops (abs_book s)))" by (force simp: map_get_None_iff)
  have used: "v \<in> set (map (\<lambda>r. JStr (on_orderId r)) (ab_bids (abs_book s) @ ab_asks (abs_book s))) \<longleftrightarrow> orders_get s v \<noteq> None"
    using id_used_refines [OF ok, of v] nk None unfolding ab_id_used_def id_free_def map_has_def by argo
  show ?thesis
  proof (cases "orders_get s v")
    case (Some a)
    then obtain i where i: "v = JStr i" "map_get (ob_ordersById s) i = Some a"
      by (cases v) (simp_all add: orders_get_def)
    obtain res s1 where c: "cancelOrder (JStr i) s = (Inr res, bookkept (Suc (ob_ticks s)) (ob_sequence s + 2) s1)"
      "book_ok s1" "\<forall>sd. resting sd s1 = spec_cancel i (resting sd s)" "ob_stopOrdersById s1 = ob_stopOrdersById s"
      and q: "ob_symbol s1 = ob_symbol s" "ob_lastTradePriceTicks s1 = ob_lastTradePriceTicks s"
      using cancelOrder_resting [OF ok i(2)] unfolding Let_def by blast
    have lk1: "links_ok s1" using c(2) by (simp add: book_ok_def)
    have "abs_book (bookkept (Suc (ob_ticks s)) (ob_sequence s + 2) s1) = (abs_book s)\<lparr>ab_bids := spec_cancel i (ab_bids (abs_book s)),
        ab_asks := spec_cancel i (ab_asks (abs_book s)), ab_sequence := ab_sequence (abs_book s) + 2\<rparr>"
      unfolding abs_bookkept [OF lk1] using c(3,4) q by (simp add: abs_book_def spec_cancel_untimed)
    then show ?thesis using c(1) i(1) nk used Some by (simp add: ab_cancel_def outcome_of_def)
  next
    case N: None
    then show ?thesis using cancelOrder_unknown [OF N None] nk used by (simp add: ab_cancel_def outcome_of_def)
  qed
qed

text \<open>Every command of the engine, seen from outside, is the abstract command.\<close>

lemma dispatch_refines:
  assumes ok: "book_ok s" and few: "stop_count s < maxCycles" and req: "stop_request_ok type payload"
  shows "(case dispatch type payload s of (r, s') \<Rightarrow> (outcome_of r, abs_book s')) = ab_dispatch type payload (abs_book s)"
proof -
  let ?o = "props payload"
  have B: "(case bindE m (\<lambda>r. ret (g r)) s of (r, s') \<Rightarrow> (outcome_of r, abs_book s')) =
      (case m s of (r, s') \<Rightarrow> (outcome_of (map_sum id g r), abs_book s'))" for m :: "'r bprog" and g
    by (simp add: bindE_def split: prod.split sum.split)
  have L: "(case (case x of (Inl e, s') \<Rightarrow> (Inl e, abs_book s') | (Inr res, s') \<Rightarrow> (outcome_of (Inr (Placed res)), abs_book s')) of p \<Rightarrow> p) =
      (case x of (r, s') \<Rightarrow> (outcome_of (map_sum id Placed r), abs_book s'))" for x
    by (cases x; cases "fst x") (simp_all add: outcome_of_def)
  have P: "with_payload payload f s = (if nullish payload then (Inl TypeErr, s) else f ?o s)" for f :: "jsobj \<Rightarrow> 'r bprog"
    by (simp add: with_payload_def)
  have lim: "ab_order False ?o (abs_book s) = (case placeLimitOrder ?o s of (r, s') \<Rightarrow> (outcome_of (map_sum id Placed r), abs_book s'))"
    "ab_order True ?o (abs_book s) = (case placeMarketOrder ?o s of (r, s') \<Rightarrow> (outcome_of (map_sum id Placed r), abs_book s'))"
    using order_refines [OF ok few, of False ?o] order_refines [OF ok few, of True ?o] L by simp_all
  have st: "type = JStr ''PLACE_STOP_MARKET_ORDER'' \<Longrightarrow> stop_fields_ok ?o"
    "type = JStr ''PLACE_STOP_LIMIT_ORDER'' \<Longrightarrow> stop_fields_ok ?o \<and> pos_int (getp ?o ''priceTicks'')"
    "type = JStr ''PLACE_TRAILING_STOP_MARKET_ORDER'' \<Longrightarrow> stop_fields_ok ?o"
    using req by (simp_all add: stop_request_ok_def stop_types_def)
  have e: "outcome_of (map_sum id g (Inl x)) = Inl x" for g :: "'r \<Rightarrow> CommandResult" and x by (simp add: outcome_of_def)
  show ?thesis
    unfolding dispatch_def ab_dispatch_def Let_def
    using st by (simp add: B P lim stop_refines [OF ok] cancel_refines [OF ok] e outcome_of_def [of "Inl _"])
qed

lemma view_stop_count: "abs_book s = abs_book t \<Longrightarrow> stop_count s = stop_count t"
proof -
  assume "abs_book s = abs_book t"
  then have "length (ab_stops (abs_book s)) = length (ab_stops (abs_book t))" by simp
  then show ?thesis by (simp add: stop_count_def)
qed

text \<open>Two books that look alike answer alike and stay alike.\<close>

lemma dispatch_same_view:
  assumes "book_ok s" "book_ok t" "abs_book s = abs_book t" "stop_count s < maxCycles" "stop_request_ok type payload"
  shows "abs_book (snd (dispatch type payload s)) = abs_book (snd (dispatch type payload t))"
    "outcome_of (fst (dispatch type payload s)) = outcome_of (fst (dispatch type payload t))"
proof -
  have few: "stop_count t < maxCycles" using view_stop_count [OF assms(3)] assms(4) by simp
  have "(outcome_of (fst (dispatch type payload s)), abs_book (snd (dispatch type payload s))) =
      (outcome_of (fst (dispatch type payload t)), abs_book (snd (dispatch type payload t)))"
    using dispatch_refines [OF assms(1,4,5)] dispatch_refines [OF assms(2) few assms(5)]
    by (simp add: assms(3) split_def)
  then show "abs_book (snd (dispatch type payload s)) = abs_book (snd (dispatch type payload t))"
    "outcome_of (fst (dispatch type payload s)) = outcome_of (fst (dispatch type payload t))" by simp_all
qed

lemma outcome_refused: "isl (outcome_of r) \<longleftrightarrow> isl r"
  by (simp add: outcome_of_def split: sum.split CommandResult.split)

end
