(* ===== verification/Replay.thy ===== *)
theory Replay
  imports AbstractRefine
begin

text \<open>
  Sequences of commands.  The active worker executes the commands of a symbol one by one and
  logs those that did not throw; a standby, or a restarted node, executes the log.  The
  locale \<open>command_log\<close> states when that is enough: a command that throws leaves the state
  as it was.  It is interpreted on the order book.  The registry runs the commands of
  each symbol on that symbol's book alone.
\<close>

subsection \<open>Logging and replaying\<close>

text \<open>
  \<open>good k s\<close>: the state \<open>s\<close> is good for commands of total cost \<open>k\<close>.
\<close>

locale command_log =
  fixes run :: "'s \<Rightarrow> 'c \<Rightarrow> ('e + 'r) \<times> 's"
    and good :: "nat \<Rightarrow> 's \<Rightarrow> bool"
    and admissible :: "'c \<Rightarrow> bool"
    and cost :: "'c \<Rightarrow> nat"
  assumes run_fail: "good (cost c + k) s \<Longrightarrow> admissible c \<Longrightarrow> run s c = (Inl e, s') \<Longrightarrow> s' = s"
    and run_good: "good (cost c + k) s \<Longrightarrow> admissible c \<Longrightarrow> run s c = (Inr x, s') \<Longrightarrow> good k s'"
    and good_less: "good (j + k) s \<Longrightarrow> good k s"
begin

abbreviation total_cost :: "'c list \<Rightarrow> nat" where
  "total_cost cs \<equiv> sum_list (map cost cs)"

fun run_all :: "'s \<Rightarrow> 'c list \<Rightarrow> 's" where
  "run_all s [] = s"
| "run_all s (c # cs) = run_all (snd (run s c)) cs"

text \<open>The commands that were carried out, in order: what the active node logs.\<close>

fun logged :: "'s \<Rightarrow> 'c list \<Rightarrow> 'c list" where
  "logged s [] = []"
| "logged s (c # cs) = (case run s c of (Inl e, s') \<Rightarrow> logged s' cs | (Inr x, s') \<Rightarrow> c # logged s' cs)"

lemma step_good:
  assumes "good (cost c + k) s" "admissible c"
  shows "good k (snd (run s c))"
proof (cases "run s c")
  case (Pair r s')
  then show ?thesis using run_fail [OF assms] run_good [OF assms] good_less [OF assms(1)] by (cases r) auto
qed

text \<open>Replaying the log gives the state of the node that wrote it.\<close>

lemma replay:
  "good (total_cost cs) s \<Longrightarrow> (\<And>c. c \<in> set cs \<Longrightarrow> admissible c) \<Longrightarrow> run_all s (logged s cs) = run_all s cs"
proof (induction cs arbitrary: s)
  case (Cons c cs)
  have g: "good (cost c + total_cost cs) s" "admissible c" using Cons.prems by simp_all
  have IH: "run_all s' (logged s' cs) = run_all s' cs" if "s' = snd (run s c)" for s'
    using Cons.IH [of s'] Cons.prems(2) step_good [OF g] that by simp
  obtain r s' where rs: "run s c = (r, s')" by (cases "run s c")
  show ?case
  proof (cases r)
    case (Inl e)
    then have "s' = s" using run_fail [OF g] rs by simp
    then show ?thesis using IH [of s'] rs Inl by simp
  next
    case (Inr x)
    then show ?thesis using IH [of s'] rs by simp
  qed
qed simp

text \<open>Nothing in the log is refused when it is replayed.\<close>

lemma replay_accepts:
  "good (total_cost cs) s \<Longrightarrow> (\<And>c. c \<in> set cs \<Longrightarrow> admissible c) \<Longrightarrow> logged s (logged s cs) = logged s cs"
proof (induction cs arbitrary: s)
  case (Cons c cs)
  have g: "good (cost c + total_cost cs) s" "admissible c" using Cons.prems by simp_all
  have IH: "logged s' (logged s' cs) = logged s' cs" if "s' = snd (run s c)" for s'
    using Cons.IH [of s'] Cons.prems(2) step_good [OF g] that by simp
  obtain r s' where rs: "run s c = (r, s')" by (cases "run s c")
  show ?case
  proof (cases r)
    case (Inl e)
    then have "s' = s" using run_fail [OF g] rs by simp
    then show ?thesis using IH [of s'] rs Inl by simp
  next
    case (Inr x)
    then show ?thesis using IH [of s'] rs by simp
  qed
qed simp

lemma run_all_append: "run_all s (xs @ ys) = run_all (run_all s xs) ys"
  by (induction xs arbitrary: s) simp_all

lemma logged_append: "logged s (xs @ ys) = logged s xs @ logged (run_all s xs) ys"
  by (induction xs arbitrary: s) (auto split: prod.split sum.split)

text \<open>A checkpoint and the commands logged after it are enough.\<close>

lemma replay_from_checkpoint:
  assumes "good (total_cost (xs @ ys)) s" "\<And>c. c \<in> set (xs @ ys) \<Longrightarrow> admissible c"
  shows "run_all (run_all s xs) (logged (run_all s xs) ys) = run_all s (xs @ ys)"
proof -
  have g: "good (total_cost ys) (run_all s xs)" using assms
  proof (induction xs arbitrary: s)
    case (Cons c xs)
    then show ?case using step_good [of c "total_cost (xs @ ys)" s] by (simp add: add.assoc)
  qed simp
  show ?thesis using replay [OF g] assms(2) by (simp add: run_all_append)
qed

end

text \<open>
  A second node need not have the same state, only one that looks the same: \<open>view\<close> is what
  matters of a state, and states that look the same refuse the same commands and go on looking
  the same.
\<close>

locale observed_log = command_log +
  fixes view :: "'a \<Rightarrow> 'v"
  assumes view_run: "good (cost c + k) s \<Longrightarrow> good (cost c + k) t \<Longrightarrow> admissible c \<Longrightarrow> view s = view t \<Longrightarrow>
      view (snd (run s c)) = view (snd (run t c)) \<and> isl (fst (run s c)) = isl (fst (run t c))"
begin

lemma run_all_view:
  "good (total_cost cs) s \<Longrightarrow> good (total_cost cs) t \<Longrightarrow> (\<And>c. c \<in> set cs \<Longrightarrow> admissible c) \<Longrightarrow> view s = view t \<Longrightarrow>
     view (run_all s cs) = view (run_all t cs)"
proof (induction cs arbitrary: s t)
  case (Cons c cs)
  have g: "good (cost c + total_cost cs) s" "good (cost c + total_cost cs) t" "admissible c" using Cons.prems by simp_all
  show ?case
    using Cons.IH [OF step_good [OF g(1,3)] step_good [OF g(2,3)]] view_run [OF g Cons.prems(4)] Cons.prems(3) by simp
qed simp

text \<open>A node in a state that looks the same replays the log to a state that looks the same.\<close>

lemma replay_view:
  "good (total_cost cs) s \<Longrightarrow> good (total_cost cs) t \<Longrightarrow> (\<And>c. c \<in> set cs \<Longrightarrow> admissible c) \<Longrightarrow> view s = view t \<Longrightarrow>
     view (run_all t (logged s cs)) = view (run_all s cs)"
proof (induction cs arbitrary: s t)
  case (Cons c cs)
  have g: "good (cost c + total_cost cs) s" "good (cost c + total_cost cs) t" "admissible c" using Cons.prems by simp_all
  obtain r s' where rs: "run s c = (r, s')" by (cases "run s c")
  have s': "good (total_cost cs) s'" using step_good [OF g(1,3)] rs by simp
  show ?case
  proof (cases r)
    case (Inl e)
    then have "s' = s" using run_fail [OF g(1,3)] rs by simp
    then show ?thesis using Cons.IH [OF s' good_less [OF g(2)]] Cons.prems(3,4) rs Inl by simp
  next
    case (Inr x)
    have "view s' = view (snd (run t c))" using view_run [OF g Cons.prems(4)] rs by simp
    then show ?thesis using Cons.IH [OF s' step_good [OF g(2,3)]] Cons.prems(3) rs Inr by simp
  qed
qed simp

lemma run_all_good: "good (total_cost cs + k) s \<Longrightarrow> (\<And>c. c \<in> set cs \<Longrightarrow> admissible c) \<Longrightarrow> good k (run_all s cs)"
proof (induction cs arbitrary: s)
  case (Cons c cs)
  have "good (total_cost cs + k) (snd (run s c))"
    by (rule step_good) (use Cons.prems in \<open>simp_all add: add.assoc\<close>)
  then show ?case using Cons.IH [of "snd (run s c)"] Cons.prems(2) by simp
qed simp

end

subsection \<open>The commands of one book\<close>

definition run_command :: "OrderBook \<Rightarrow> jsval \<times> jsval \<Rightarrow> (js_error + CommandResult) \<times> OrderBook" where
  "run_command s c = dispatch (fst c) (snd c) s"

definition book_good :: "nat \<Rightarrow> OrderBook \<Rightarrow> bool" where
  "book_good k s \<longleftrightarrow> book_ok s \<and> stop_count s + k < maxCycles"

definition admissible_command :: "jsval \<times> jsval \<Rightarrow> bool" where
  "admissible_command c \<longleftrightarrow> stop_request_ok (fst c) (snd c)"

definition command_cost :: "jsval \<times> jsval \<Rightarrow> nat" where
  "command_cost c = stop_cost (fst c)"

interpretation book_log: command_log run_command book_good admissible_command command_cost
proof unfold_locales
  fix c k s
  assume g: "book_good (command_cost c + k) s" "admissible_command c"
  have A: "atomic (command_cost c) s (run_command s c)"
    unfolding run_command_def command_cost_def
    by (rule dispatch_atomic) (use g in \<open>simp_all add: book_good_def admissible_command_def\<close>)
  show "run_command s c = (Inl e, s') \<Longrightarrow> s' = s" for e s' using A by (auto simp: atomic_def)
  show "run_command s c = (Inr x, s') \<Longrightarrow> book_good k s'" for x s'
    using A g by (auto simp: atomic_def book_good_def)
next
  show "book_good (j + k) s \<Longrightarrow> book_good k s" for j k s by (simp add: book_good_def)
qed

interpretation book_view: observed_log run_command book_good admissible_command command_cost abs_book
proof unfold_locales
  fix c k s t
  assume g: "book_good (command_cost c + k) s" "book_good (command_cost c + k) t" "admissible_command c"
    and v: "abs_book s = abs_book t"
  have h: "book_ok s" "book_ok t" "stop_count s < maxCycles" "stop_request_ok (fst c) (snd c)"
    using g by (simp_all add: book_good_def admissible_command_def)
  note D = dispatch_same_view [OF h(1,2) v h(3,4)]
  have "isl (fst (run_command s c)) = isl (fst (run_command t c))"
    using arg_cong [OF D(2), of isl] by (simp add: run_command_def outcome_refused)
  then show "abs_book (snd (run_command s c)) = abs_book (snd (run_command t c)) \<and>
      isl (fst (run_command s c)) = isl (fst (run_command t c))"
    using D(1) by (simp add: run_command_def)
qed

subsection \<open>The registry runs each symbol's commands on its own book\<close>

definition fresh_book :: "(nat \<Rightarrow> nat) \<Rightarrow> string \<Rightarrow> OrderBook" where
  "fresh_book clock symbol = (case new_OrderBook clock (JStr symbol) of Inr b \<Rightarrow> b | Inl e \<Rightarrow> undefined)"

text \<open>The book of a symbol; a symbol without a book has the one it would get.\<close>

definition book_of :: "(nat \<Rightarrow> nat) \<Rightarrow> registry \<Rightarrow> string \<Rightarrow> OrderBook" where
  "book_of clock r symbol = (case map_get r symbol of Some b \<Rightarrow> b | None \<Rightarrow> fresh_book clock symbol)"

definition run_commands :: "(nat \<Rightarrow> nat) \<Rightarrow> jsobj list \<Rightarrow> registry \<Rightarrow> registry" where
  "run_commands clock commands r = foldl (\<lambda>r c. snd (executeOrderCommand clock c r)) r commands"

definition commands_of :: "string \<Rightarrow> jsobj list \<Rightarrow> (jsval \<times> jsval) list" where
  "commands_of symbol commands = map (\<lambda>c. (getp c ''type'', getp c ''payload''))
     (filter (\<lambda>c. getp c ''symbol'' = JStr symbol) commands)"

lemma getOrCreateBook_eq:
  assumes "trim symbol \<noteq> []"
  shows "getOrCreateBook clock (JStr symbol) r =
    (Inr symbol, if map_has r symbol then r else map_set r symbol (fresh_book clock symbol))"
  using assms by (simp add: getOrCreateBook_def validateSymbol_def bindE_def new_OrderBook_def fresh_book_def)

lemma executeOrderCommand_eq:
  assumes "trim symbol \<noteq> []" "getp c ''symbol'' = JStr symbol"
  shows "executeOrderCommand clock c r =
    (case dispatch (getp c ''type'') (getp c ''payload'') (book_of clock r symbol) of
      (x, b) \<Rightarrow> (x, map_set r symbol b))"
proof -
  have m: "map_set (map_set r symbol b1) symbol b2 = map_set r symbol b2" for b1 b2
    by (induction r symbol b1 rule: map_set.induct) auto
  show ?thesis
    using assms
    by (auto simp: executeOrderCommand_def bindE_Inr [OF getOrCreateBook_eq] on_book_def book_of_def map_get_set m
        map_has_def split: option.split prod.split)
qed

lemma executeOrderCommand_bad_symbol:
  assumes "\<not> nonEmptyString (getp c ''symbol'')"
  shows "executeOrderCommand clock c r = (Inl (NotNonEmptyString ''symbol''), r)"
  using assms by (simp add: executeOrderCommand_def getOrCreateBook_def validateSymbol_def bindE_def)

lemma book_of_step:
  "book_of clock (snd (executeOrderCommand clock c r)) symbol =
    (if getp c ''symbol'' = JStr symbol \<and> trim symbol \<noteq> []
     then snd (run_command (book_of clock r symbol) (getp c ''type'', getp c ''payload''))
     else book_of clock r symbol)"
proof (cases "nonEmptyString (getp c ''symbol'')")
  case True
  then obtain t where t: "getp c ''symbol'' = JStr t" "trim t \<noteq> []" by (auto simp: nonEmptyString_iff)
  show ?thesis
    using t by (auto simp: executeOrderCommand_eq [OF t(2,1)] book_of_def map_get_set run_command_def split: prod.split)
next
  case False
  then show ?thesis by (auto simp: executeOrderCommand_bad_symbol)
qed

lemma book_of_run:
  assumes "trim symbol \<noteq> []"
  shows "book_of clock (run_commands clock commands r) symbol =
    book_log.run_all (book_of clock r symbol) (commands_of symbol commands)"
proof (induction commands arbitrary: r)
  case (Cons c commands)
  have "run_commands clock (c # commands) r = run_commands clock commands (snd (executeOrderCommand clock c r))"
    by (simp add: run_commands_def)
  then show ?case using Cons [of "snd (executeOrderCommand clock c r)"] assms
    by (simp add: book_of_step commands_of_def)
qed (simp add: run_commands_def commands_of_def)

lemma fresh_book_ok: "trim symbol \<noteq> [] \<Longrightarrow> book_ok (fresh_book clock symbol) \<and> stop_count (fresh_book clock symbol) = 0"
  using new_OrderBook_ok(1,3) [of clock "JStr symbol" "fresh_book clock symbol"]
  by (simp add: fresh_book_def new_OrderBook_def stop_count_def)

subsection \<open>The command log\<close>

text \<open>
  What the worker appends to the command log: the commands \<^verbatim>\<open>executeOrderCommand\<close> carried
  out, in order.
\<close>

fun command_log_of :: "(nat \<Rightarrow> nat) \<Rightarrow> registry \<Rightarrow> jsobj list \<Rightarrow> jsobj list" where
  "command_log_of clock r [] = []"
| "command_log_of clock r (c # commands) =
    (case executeOrderCommand clock c r of
       (Inl e, r') \<Rightarrow> command_log_of clock r' commands
     | (Inr x, r') \<Rightarrow> c # command_log_of clock r' commands)"

lemma command_log_of_symbol:
  assumes t: "trim symbol \<noteq> []"
  shows "commands_of symbol (command_log_of clock r commands) =
    book_log.logged (book_of clock r symbol) (commands_of symbol commands)"
proof (induction commands arbitrary: r)
  case (Cons c commands)
  obtain x r' where ex: "executeOrderCommand clock c r = (x, r')" by (cases "executeOrderCommand clock c r")
  have b: "book_of clock r' symbol = (if getp c ''symbol'' = JStr symbol \<and> trim symbol \<noteq> []
     then snd (run_command (book_of clock r symbol) (getp c ''type'', getp c ''payload''))
     else book_of clock r symbol)" using book_of_step [of clock c r symbol] ex by simp
  show ?case
  proof (cases "getp c ''symbol'' = JStr symbol")
    case True
    obtain b' where rc: "run_command (book_of clock r symbol) (getp c ''type'', getp c ''payload'') = (x, b')"
      using ex executeOrderCommand_eq [OF t True, of clock r] by (auto simp: run_command_def split: prod.splits)
    then have "book_of clock r' symbol = b'" using b True t by simp
    then show ?thesis using Cons [of r'] True ex rc by (cases x) (simp_all add: commands_of_def)
  next
    case False
    then show ?thesis using Cons [of r'] b ex by (cases x) (simp_all add: commands_of_def)
  qed
qed (simp add: commands_of_def)

text \<open>The requests a node can be sure to honour: well-formed stop orders, fewer than a thousand per symbol.\<close>

definition admissible_history :: "jsobj list \<Rightarrow> bool" where
  "admissible_history commands \<longleftrightarrow>
     (\<forall>c \<in> set commands. stop_request_ok (getp c ''type'') (getp c ''payload'')) \<and>
     length (filter (\<lambda>c. getp c ''type'' \<in> stop_types) commands) < maxCycles"

lemma commands_of_cost:
  "sum_list (map command_cost (commands_of symbol commands)) \<le> length (filter (\<lambda>c. getp c ''type'' \<in> stop_types) commands)"
  by (induction commands) (auto simp: commands_of_def command_cost_def stop_cost_def)

lemma history_good:
  assumes "admissible_history commands" "trim symbol \<noteq> []"
  shows "book_good (sum_list (map command_cost (commands_of symbol commands))) (book_of clock [] symbol)"
    "\<And>c. c \<in> set (commands_of symbol commands) \<Longrightarrow> admissible_command c"
  using assms fresh_book_ok [OF assms(2), of clock] commands_of_cost [of symbol commands]
  by (auto simp: admissible_history_def book_good_def book_of_def commands_of_def admissible_command_def)

lemma fresh_view: "trim symbol \<noteq> [] \<Longrightarrow> abs_book (fresh_book clock symbol) = abs_book (fresh_book clock' symbol)"
  using new_OrderBook_ok(4) [of clock "JStr symbol" "fresh_book clock symbol"]
    new_OrderBook_ok(4) [of clock' "JStr symbol" "fresh_book clock' symbol"]
  by (simp add: fresh_book_def new_OrderBook_def abs_book_def)

lemma book_of_empty [simp]: "book_of clock [] symbol = fresh_book clock symbol"
  by (simp add: book_of_def)

text \<open>A node that starts empty and replays the log of another looks like it, for each symbol.\<close>

lemma replay_registry_view:
  assumes h: "admissible_history commands" and t: "trim symbol \<noteq> []"
  shows "abs_book (book_of clock' (run_commands clock' (command_log_of clock [] commands) []) symbol) =
    abs_book (book_of clock (run_commands clock commands []) symbol)"
  unfolding book_of_run [OF t] command_log_of_symbol [OF t]
  by (rule book_view.replay_view [OF history_good(1) [OF h t] history_good(1) [OF h t] history_good(2) [OF h t]])
    (simp_all add: fresh_view [OF t, of clock clock'])

end
