(* ===== verification/BookDepth.thy ===== *)
theory BookDepth
  imports MatchRefine
begin

text \<open>
  What the published snapshot of a book says: each side lists its price levels from best to
  worst, every level once, with the total quantity and the number of the orders resting
  there.  \<open>depth\<close> is the specification, computed from the priority list.
\<close>

definition depth :: "OrderNode list \<Rightarrow> (int \<times> int \<times> nat) list" where
  "depth rs = map (\<lambda>p. (p, rem_sum (filter (\<lambda>r. price_of r = p) rs), length (filter (\<lambda>r. price_of r = p) rs)))
     (remdups (map price_of rs))"

lemma remdups_replicate_append: "0 < n \<Longrightarrow> p \<notin> set ys \<Longrightarrow> remdups (replicate n p @ ys) = p # remdups ys"
proof (induction n)
  case (Suc n)
  then show ?case by (cases n) simp_all
qed simp

lemma depth_blocks:
  assumes "distinct (map fst L)" "\<And>x. x \<in> set L \<Longrightarrow> g x \<noteq> [] \<and> (\<forall>r \<in> set (g x). price_of r = fst x)"
  shows "depth (concat (map g L)) = map (\<lambda>x. (fst x, rem_sum (g x), length (g x))) L"
proof -
  have rd: "remdups (map price_of (concat (map g L))) = map fst L"
    using assms
  proof (induction L)
    case (Cons x L)
    have "price_of r \<noteq> fst x" if z: "z \<in> set L" "r \<in> set (g z)" for r z
      using Cons.prems(1) Cons.prems(2) [of z] z by (metis distinct.simps(2) image_eqI list.set_intros(2) list.simps(9) set_map)
    then have rest: "fst x \<notin> set (map price_of (concat (map g L)))" by fastforce
    have "map price_of (g x) = map (\<lambda>_. fst x) (g x)" using Cons.prems(2) [of x] by simp
    then have rep: "map price_of (g x) = replicate (length (g x)) (fst x)" by (simp only: map_replicate_const)
    have "remdups (map price_of (g x) @ map price_of (concat (map g L))) = fst x # remdups (map price_of (concat (map g L)))"
      using Cons.prems(2) [of x] unfolding rep by (intro remdups_replicate_append rest) simp
    then show ?case using Cons by simp
  qed simp
  have fl: "filter (\<lambda>r. price_of r = fst x) (concat (map g L)) = g x" if "x \<in> set L" for x
    using assms that
  proof (induction L)
    case (Cons y L)
    have e: "filter (\<lambda>r. price_of r = fst y) (concat (map g L)) = []"
    proof -
      have "price_of r \<noteq> fst y" if z: "z \<in> set L" "r \<in> set (g z)" for r z
        using Cons.prems(1) Cons.prems(2) [of z] z by (metis distinct.simps(2) image_eqI list.set_intros(2) list.simps(9) set_map)
      then show ?thesis by (auto simp: filter_empty_conv)
    qed
    show ?case
    proof (cases "x = y")
      case True
      then show ?thesis using e Cons.prems(2) [of y] by simp
    next
      case False
      then have x: "x \<in> set L" using Cons.prems(3) by simp
      then have "fst x \<noteq> fst y" using Cons.prems(1) by (auto simp: rev_image_eqI)
      then have "filter (\<lambda>r. price_of r = fst x) (g y) = []" using Cons.prems(2) [of y] by (auto simp: filter_empty_conv)
      moreover have "filter (\<lambda>r. price_of r = fst x) (concat (map g L)) = g x"
        using Cons.prems x by (intro Cons.IH) auto
      ultimately show ?thesis by simp
    qed
  qed simp
  show ?thesis unfolding depth_def rd using fl by simp
qed

lemma sort_key_map: "sort_key f (map g xs) = map g (sort_key (\<lambda>x. f (g x)) xs)"
proof (induction xs)
  case (Cons x xs)
  have "insort_key f (g x) (map g ys) = map g (insort_key (\<lambda>x. f (g x)) x ys)" for ys
    by (induction ys) auto
  then show ?case using Cons by simp
qed simp

lemma sort_key_cong_on: "(\<And>x. x \<in> set xs \<Longrightarrow> f x = h x) \<Longrightarrow> sort_key f xs = sort_key h xs"
proof (induction xs)
  case (Cons x xs)
  have "insort_key f x ys = insort_key h x ys" if "set ys \<subseteq> set xs" for ys
    using that Cons.prems by (induction ys) auto
  then show ?case using Cons by simp
qed simp

lemma side_snapshot:
  assumes ok: "links_ok s"
  shows "getBookSideSnapshot s (side_map sd s) sd = map (\<lambda>x. level_snapshot s (snd x)) (sorted_side sd s)"
proof -
  have "rank sd (int_of (getp (level_snapshot s (snd x)) ''priceTicks'')) = (case x of (p, l) \<Rightarrow> rank sd p)"
    if "x \<in> set (side_map sd s)" for x
    using level_okD(3) [OF ok, of "fst x" "snd x" sd] that by (simp add: level_snapshot_def Let_def split_def)
  then have "sort_key (\<lambda>x. rank sd (int_of (getp (level_snapshot s (snd x)) ''priceTicks''))) (side_map sd s) =
      sorted_side sd s" unfolding sorted_side_def by (rule sort_key_cong_on)
  then show ?thesis
    by (simp add: getBookSideSnapshot_def map_values_def sort_key_map comp_def)
qed

lemma level_snapshot_content:
  assumes ok: "links_ok s" and pl: "(p, l) \<in> set (side_map sd s)"
  shows "getp (level_snapshot s l) ''priceTicks'' = JInt p"
    "getp (level_snapshot s l) ''totalQuantity'' = JInt (rem_sum (content s l))"
    "getp (level_snapshot s l) ''orderCount'' = JInt (int (length (content s l)))"
  using level_okD(1,3) [OF ok pl]
  by (simp_all add: level_snapshot_def Let_def level_rep_def content_def comp_def)

lemma side_snapshot_depth:
  assumes ok: "links_ok s"
  shows "map (\<lambda>lv. (getp lv ''priceTicks'', getp lv ''totalQuantity'', getp lv ''orderCount''))
      (getBookSideSnapshot s (side_map sd s) sd) =
    map (\<lambda>(p, q, c). (JInt p, JInt q, JInt (int c))) (depth (resting sd s))"
proof -
  have "depth (concat (map (\<lambda>x. content s (snd x)) (sorted_side sd s))) =
      map (\<lambda>x. (fst x, rem_sum (content s (snd x)), length (content s (snd x)))) (sorted_side sd s)"
  proof (rule depth_blocks)
    show "distinct (map fst (sorted_side sd s))" by (rule sorted_side_distinct [OF ok])
    fix x assume x: "x \<in> set (sorted_side sd s)"
    then have pl: "(fst x, snd x) \<in> set (side_map sd s)" by simp
    show "content s (snd x) \<noteq> [] \<and> (\<forall>r \<in> set (content s (snd x)). price_of r = fst x)"
      using level_okD(2) [OF ok pl] content_price [OF ok pl] by (simp add: content_def)
  qed
  then have d: "depth (resting sd s) =
      map (\<lambda>x. (fst x, rem_sum (content s (snd x)), length (content s (snd x)))) (sorted_side sd s)"
    by (simp add: resting_def split_def)
  show ?thesis
    using level_snapshot_content [OF ok, of _ _ sd] unfolding side_snapshot [OF ok] d by auto
qed

text \<open>The best price is the price of the first order of the priority list.\<close>

lemma best_resting:
  assumes ok: "links_ok s"
  shows "best sd s = (case resting sd s of [] \<Rightarrow> None | r # _ \<Rightarrow> Some (price_of r))"
proof (cases "sorted_side sd s")
  case Nil
  then show ?thesis by (simp add: best_none resting_def)
next
  case (Cons x L)
  obtain p l where "x = (p, l)" by (cases x)
  then have hd: "sorted_side sd s = (p, l) # L" using Cons by simp
  from resting_hd [OF ok this] best_hd(1) [OF ok hd] show ?thesis by fastforce
qed

end
