(* ===== verification/QuietBooks.thy ===== *)
theory QuietBooks
  imports Replay BookDepth
begin

text \<open>
  A book without stop orders, where a command's effect is that of its own order alone; the
  sample book on which properties are exercised; and the effect of a malformed stop order,
  which the engine accepts and cannot execute.
\<close>

subsection \<open>No stop orders\<close>

lemma no_eligible: "ob_stopOrdersById s = [] \<Longrightarrow> getEligibleStopOrders s = []"
  by (simp add: eligible_filter)

lemma process_no_stops:
  assumes "ob_stopOrdersById s = []"
  shows "processStopOrdersAfterTrades ts s =
    (Inr no_triggered, if ts = [] then s else s\<lparr>ob_lastTradePriceTicks := tr_priceTicks (last ts)\<rparr>)"
proof -
  let ?s = "s\<lparr>ob_lastTradePriceTicks := tr_priceTicks (last ts)\<rparr>"
  have "with_last (tr_priceTicks (last ts)) s = ?s"
    using assms by (simp add: with_last_eq split: option.split)
  moreover have "getEligibleStopOrders ?s = []" by (rule no_eligible) (simp add: assms)
  ultimately show ?thesis
    by (simp add: processStopOrdersAfterTrades_def stopCycles.simps [of 0] maxCycles_def Let_def with_last_def [symmetric])
qed

definition quiet_effect :: "bool \<Rightarrow> OrderNode \<Rightarrow> OrderBook \<Rightarrow> PlaceResult \<Rightarrow> OrderBook \<Rightarrow> bool" where
  "quiet_effect market n s res s' \<longleftrightarrow>
    (case spec_match (accepts (on_side n) market (price_of n)) (rem n) (resting (opp (on_side n)) s) of (fs, rs, q) \<Rightarrow>
       book_ok s' \<and> ob_stopOrdersById s' = [] \<and> ob_symbol s' = ob_symbol s \<and>
       resting (opp (on_side n)) s' = rs \<and>
       resting (on_side n) s' = (if \<not> market \<and> 0 < q
         then spec_insert (rank (on_side n)) (consumed (rem n - q) n) (resting (on_side n) s)
         else resting (on_side n) s) \<and>
       pr_order res = node_snapshot (order_result market n q) \<and>
       pr_trades res = map (trade_of (on_side n) (ob_symbol s) n) fs \<and> pr_triggeredOrders res = [] \<and>
       ob_trades s' = ob_trades s @ pr_trades res)"

lemma command_run_quiet:
  assumes run: "command_run market n s res s'" and none: "ob_stopOrdersById s = []"
  shows "quiet_effect market n s res s'"
proof -
  obtain fs q s1 t s2 where pl: "placed market n s fs q s1"
    and pr: "processStopOrdersAfterTrades (map (trade_of (on_side n) (ob_symbol s) n) fs) s1 = (Inr t, s2)"
    and s': "s' = bookkept (Suc (ob_ticks s2)) (ob_sequence s + int (length (pr_events res))) s2"
    and res: "pr_trades res = map (trade_of (on_side n) (ob_symbol s) n) fs @ tg_trades t"
      "pr_triggeredOrders res = tg_orders t" "pr_order res = node_snapshot (nodes s2 (nextRef s))"
    and ok: "book_ok s'" and ok2: "book_ok s2" using run unfolding command_run_def by blast
  have q1: "quiet s s1" and ok1: "links_ok s1" using pl by (simp_all add: placed_def)
  have none1: "ob_stopOrdersById s1 = []" using q1 none by (simp add: quiet_def)
  have t: "t = no_triggered" and s2: "s2 = s1 \<or> (\<exists>p. s2 = s1\<lparr>ob_lastTradePriceTicks := p\<rparr>)"
    using pr unfolding process_no_stops [OF none1] by (auto split: if_splits)
  have same: "same_structure s1 s2" using s2 same_structure_scalars(2) by auto
  have R: "resting sd s' = resting sd s1" for sd
    using bookkept_resting [of s2] frame_resting [OF ok1 same] ok2 by (simp add: s' book_ok_def)
  have "nodes s2 = nodes s1" "ob_trades s2 = ob_trades s1" "ob_symbol s2 = ob_symbol s1" "ob_stopOrdersById s2 = []"
    using s2 none1 by auto
  then show ?thesis
    using pl q1 res t R ok
    by (simp add: quiet_effect_def placed_def spec_of_def quiet_def s' no_triggered_def placed_snapshot [OF pl])
qed

lemma limit_effect:
  assumes "book_ok s" "ob_stopOrdersById s = []" "limit_ready s o1 n"
  shows "\<exists>res s'. placeLimitOrder o1 s = (Inr res, s') \<and> quiet_effect False n s res s'"
  using placeLimitOrder_run [OF assms(1,3)] command_run_quiet [OF _ assms(2)] assms(2) by (fastforce simp: maxCycles_def)

lemma market_effect:
  assumes "book_ok s" "ob_stopOrdersById s = []" "market_ready s o1 n"
  shows "\<exists>res s'. placeMarketOrder o1 s = (Inr res, s') \<and> quiet_effect True n s res s'"
  using placeMarketOrder_run [OF assms(1,3)] command_run_quiet [OF _ assms(2)] assms(2) by (fastforce simp: maxCycles_def)

subsection \<open>A sample book\<close>

definition sample_input :: "string \<Rightarrow> Side \<Rightarrow> int \<Rightarrow> int \<Rightarrow> jsobj" where
  "sample_input i sd p q = [(''orderId'', JStr i), (''userId'', JStr ''u''), (''side'', side_val sd),
     (''priceTicks'', JInt p), (''quantity'', JInt q), (''timestamp'', JInt 7)]"

definition sample_node :: "string \<Rightarrow> Side \<Rightarrow> int \<Rightarrow> int \<Rightarrow> OrderNode" where
  "sample_node i sd p q = \<lparr> on_orderId = i, on_userId = ''u'', on_side = sd, on_symbol = ''BTC-INR'',
     on_type = LIMIT, on_priceTicks = Some p, on_timestamp = 7, on_initialQuantity = q, on_remainingQuantity = q,
     on_status = OPEN, on_prev = None, on_next = None, on_priceLevel = None \<rparr>"

definition sample_market_node :: "string \<Rightarrow> Side \<Rightarrow> int \<Rightarrow> OrderNode" where
  "sample_market_node i sd q = (sample_node i sd 1 q)\<lparr>on_type := MARKET, on_priceTicks := None\<rparr>"

definition sample_book :: OrderBook where
  "sample_book = snd (placeLimitOrder (sample_input ''a2'' SELL 102 4)
     (snd (placeLimitOrder (sample_input ''b1'' BUY 99 6)
     (snd (placeLimitOrder (sample_input ''a1'' SELL 101 5) (fresh_book id ''BTC-INR''))))))"

lemma sample_new:
  assumes "trim i \<noteq> []" "0 < p" "0 < q"
  shows "new_OrderNode (limit_input ''BTC-INR'' (sample_input i sd p q)) = Inr (sample_node i sd p q)"
proof -
  let ?o = "limit_input ''BTC-INR'' (sample_input i sd p q)"
  have sp: "trim ''u'' \<noteq> []" "trim ''BTC-INR'' \<noteq> []" by code_simp+
  have "valid_order_input (setp (setp ?o ''type'' (type_val LIMIT)) ''priceTicks'' (JInt p))"
    using assms sp by (simp add: valid_order_input_def limit_input_def sample_input_def dflt_def
        isValidOrderType_def del: of_int_numeral)
  then show ?thesis
    using assms by (simp add: new_OrderNode_def Let_def sample_node_def limit_input_def sample_input_def dflt_def
      validateOrderInput_ok_iff [THEN iffD2] type_of_def)
qed

lemma id_free_quiet:
  assumes "book_ok s" "ob_stopOrdersById s = []"
  shows "id_free s (JStr i) \<longleftrightarrow> (\<forall>sd. i \<notin> on_orderId ` set (resting sd s))"
  using orders_iff [of s i] assms by (auto simp: id_free_def map_has_def book_ok_def)

text \<open>A book of the sample market with the given sides.\<close>

definition sample_state :: "OrderBook \<Rightarrow> OrderNode list \<Rightarrow> OrderNode list \<Rightarrow> bool" where
  "sample_state s bs as \<longleftrightarrow> book_ok s \<and> ob_stopOrdersById s = [] \<and> ob_symbol s = ''BTC-INR'' \<and>
     resting BUY s = bs \<and> resting SELL s = as"

lemma Side_cases_all: "(\<forall>sd. P sd) \<longleftrightarrow> P BUY \<and> P SELL"
  by (metis Side.exhaust)

lemma sample_ready:
  assumes "sample_state s bs as" "i \<notin> on_orderId ` set bs" "i \<notin> on_orderId ` set as" "trim i \<noteq> []" "0 < p" "0 < q"
  shows "limit_ready s (sample_input i sd p q) (sample_node i sd p q)"
proof -
  have "id_free s (JStr i)"
    using assms(1-3) id_free_quiet [of s i] by (auto simp: sample_state_def Side_cases_all)
  then show ?thesis
    using assms(1) sample_new [OF assms(4-6)] by (simp add: limit_ready_def sample_state_def sample_input_def)
qed

lemma sample_step:
  assumes st: "sample_state s bs as" and id: "i \<notin> on_orderId ` set bs" "i \<notin> on_orderId ` set as"
    and v: "trim i \<noteq> []" "0 < p" "0 < q"
    and m: "spec_match (accepts sd False p) q (case sd of BUY \<Rightarrow> as | SELL \<Rightarrow> bs) = ([], case sd of BUY \<Rightarrow> as | SELL \<Rightarrow> bs, q)"
  shows "sample_state (snd (placeLimitOrder (sample_input i sd p q) s))
    (case sd of BUY \<Rightarrow> spec_insert (rank BUY) (sample_node i sd p q) bs | SELL \<Rightarrow> bs)
    (case sd of BUY \<Rightarrow> as | SELL \<Rightarrow> spec_insert (rank SELL) (sample_node i sd p q) as)"
proof -
  have b: "book_ok s" "ob_stopOrdersById s = []" using st by (simp_all add: sample_state_def)
  obtain res s' where "placeLimitOrder (sample_input i sd p q) s = (Inr res, s')"
    and e: "quiet_effect False (sample_node i sd p q) s res s'"
    using limit_effect [OF b sample_ready [OF st id v]] by blast
  then show ?thesis
    using st m v(3)
    by (cases sd) (simp_all add: quiet_effect_def sample_state_def sample_node_def price_of_def consumed_def)
qed

lemma sample_start: "sample_state (fresh_book id ''BTC-INR'') [] []"
proof -
  have t: "trim ''BTC-INR'' \<noteq> []" by code_simp
  show ?thesis
    using fresh_book_ok [OF t] new_OrderBook_ok [of id "JStr ''BTC-INR''" "fresh_book id ''BTC-INR''"] t
    by (simp add: sample_state_def fresh_book_def new_OrderBook_def)
qed

lemma sample_trims: "trim ''a1'' \<noteq> []" "trim ''a2'' \<noteq> []" "trim ''b1'' \<noteq> []" "trim ''b2'' \<noteq> []" "trim ''u'' \<noteq> []"
  by code_simp+

lemma sample_book_state:
  "sample_state sample_book [sample_node ''b1'' BUY 99 6] [sample_node ''a1'' SELL 101 5, sample_node ''a2'' SELL 102 4]"
proof -
  let ?s1 = "snd (placeLimitOrder (sample_input ''a1'' SELL 101 5) (fresh_book id ''BTC-INR''))"
  have 1: "sample_state ?s1 [] [sample_node ''a1'' SELL 101 5]"
    using sample_step [OF sample_start, of "''a1''" 101 5 SELL] sample_trims by (simp add: spec_insert_def)
  let ?s2 = "snd (placeLimitOrder (sample_input ''b1'' BUY 99 6) ?s1)"
  have 2: "sample_state ?s2 [sample_node ''b1'' BUY 99 6] [sample_node ''a1'' SELL 101 5]"
    using sample_step [OF 1, of "''b1''" 99 6 BUY] sample_trims
    by (simp add: spec_insert_def accepts_def price_of_def sample_node_def)
  show ?thesis
    using sample_step [OF 2, of "''a2''" 102 4 SELL] sample_trims
    by (simp add: sample_book_def spec_insert_def accepts_def price_of_def sample_node_def rank_def)
qed

lemma sample_facts:
  "book_ok sample_book" "ob_stopOrdersById sample_book = []" "ob_symbol sample_book = ''BTC-INR''"
  "resting BUY sample_book = [sample_node ''b1'' BUY 99 6]"
  "resting SELL sample_book = [sample_node ''a1'' SELL 101 5, sample_node ''a2'' SELL 102 4]"
  "stop_count sample_book = 0" "links_ok sample_book"
proof -
  show ok: "book_ok sample_book" "ob_stopOrdersById sample_book = []" "ob_symbol sample_book = ''BTC-INR''"
    "resting BUY sample_book = [sample_node ''b1'' BUY 99 6]"
    "resting SELL sample_book = [sample_node ''a1'' SELL 101 5, sample_node ''a2'' SELL 102 4]"
    using sample_book_state by (simp_all add: sample_state_def)
  then show "stop_count sample_book = 0" "links_ok sample_book" by (simp_all add: stop_count_def book_ok_def)
qed

lemma sample_limit_ready: "limit_ready sample_book (sample_input ''b2'' BUY 101 8) (sample_node ''b2'' BUY 101 8)"
  by (rule sample_ready [OF sample_book_state]) (use sample_trims in \<open>simp_all add: sample_node_def\<close>)

lemma sample_market_ready:
  "market_ready sample_book (sample_input ''b2'' BUY 101 8) (sample_market_node ''b2'' BUY 8)"
proof -
  let ?o = "market_input ''BTC-INR'' (sample_input ''b2'' BUY 101 8)"
  have "id_free sample_book (JStr ''b2'')"
    using id_free_quiet [OF sample_facts(1,2), of "''b2''"] by (simp add: Side_cases_all sample_facts sample_node_def)
  moreover have "trim ''BTC-INR'' \<noteq> []" by code_simp
  then have "valid_order_input (setp (setp ?o ''type'' (type_val MARKET)) ''priceTicks'' JNull)"
    using sample_trims by (simp add: valid_order_input_def market_input_def sample_input_def dflt_def
        isValidOrderType_def isValidSide_def nullish_def)
  then have "new_OrderNode ?o = Inr (sample_market_node ''b2'' BUY 8)"
    by (simp add: new_OrderNode_def Let_def sample_market_node_def sample_node_def market_input_def sample_input_def
        dflt_def validateOrderInput_ok_iff [THEN iffD2] type_of_def side_of_def)
  ultimately show ?thesis by (simp add: market_ready_def sample_facts(3) sample_input_def)
qed

end
