(* ===== verification/Effects.thy ===== *)
theory Effects
  imports QuietBooks
begin

text \<open>
  What a command does beyond its own book-keeping, in the form the properties use: the
  order's own trades in the priority of the other side, the position of a resting order,
  conservation of quantity, the effect of a cancellation on the priority lists, and the
  state of the stop orders when a command returns.
\<close>

subsection \<open>The trades of an order\<close>

text \<open>
  \<open>ks\<close> are the quantities taken, one after the other, from the front of the priority list
  \<open>rs\<close> by an order of quantity \<open>q\<close>: only from acceptable orders, every order but the
  last in full, and as long as there is an acceptable order and quantity left.
\<close>

definition priority_fills :: "(int \<Rightarrow> bool) \<Rightarrow> int \<Rightarrow> OrderNode list \<Rightarrow> int list \<Rightarrow> bool" where
  "priority_fills ok q rs ks \<longleftrightarrow> length ks \<le> length rs \<and> sum_list ks \<le> q \<and>
     (\<forall>i < length ks. 0 < ks ! i \<and> ks ! i \<le> rem (rs ! i) \<and> ok (price_of (rs ! i))) \<and>
     (\<forall>i. Suc i < length ks \<longrightarrow> ks ! i = rem (rs ! i)) \<and>
     (sum_list ks < q \<longrightarrow> (\<forall>i < length ks. ks ! i = rem (rs ! i)) \<and>
        (\<forall>r \<in> set (drop (length ks) rs). \<not> ok (price_of r)))"

lemma spec_match_left_full:
  "spec_match ok q rs = (fs, rs', q') \<Longrightarrow> live rs \<Longrightarrow> 0 < q' \<Longrightarrow> rs' = drop (length fs) rs \<and> (\<forall>(r, k) \<in> set fs. k = rem r)"
  by (induction ok q rs arbitrary: fs rs' q' rule: spec_match.induct) (auto split: if_splits prod.splits)


lemma spec_match_priority_fills:
  assumes m: "spec_match (accepts sd ignore limit) q rs = (fs, rs', q')" and q: "0 \<le> q" and lv: "live rs"
    and srt: "sorted (map (\<lambda>r. rank (opp sd) (price_of r)) rs)"
  shows "priority_fills (accepts sd ignore limit) q rs (map snd fs)" "fs = zip (take (length fs) rs) (map snd fs)"
proof -
  have pre: "map fst fs = take (length fs) rs" by (rule spec_match_prefix [OF m])
  have len: "length fs \<le> length rs" using arg_cong [OF pre, of length] by simp
  have nth: "fst (fs ! i) = rs ! i" if "i < length fs" for i
    using arg_cong [OF pre, of "\<lambda>xs. xs ! i"] that by simp
  show z: "fs = zip (take (length fs) rs) (map snd fs)" using pre by (metis zip_map_fst_snd)
  have sum: "q = q' + fill_sum fs" using spec_match_conserves [OF m] by simp
  have q': "0 \<le> q'" using spec_match_nonneg [OF m q lv] by simp
  have each: "0 < snd (fs ! i) \<and> snd (fs ! i) \<le> rem (rs ! i) \<and> accepts sd ignore limit (price_of (rs ! i))"
    if "i < length fs" for i
  proof -
    have "(fst (fs ! i), snd (fs ! i)) \<in> set fs" using that by simp
    from spec_match_fills_pos [OF m lv this] nth [OF that] show ?thesis by simp
  qed
  have full: "snd (fs ! i) = rem (rs ! i)" if "Suc i < length fs" for i
    using spec_match_all_but_last_full [OF m that] nth [of i] that by simp
  have rest: "(\<forall>i < length fs. snd (fs ! i) = rem (rs ! i)) \<and> (\<forall>r \<in> set (drop (length fs) rs). \<not> accepts sd ignore limit (price_of r))"
    if "0 < q'"
  proof -
    note L = spec_match_left_full [OF m lv that]
    have "snd (fs ! i) = rem (rs ! i)" if "i < length fs" for i
      using L nth [OF that] nth_mem [OF that] by (auto simp: split_def)
    moreover have "\<not> accepts sd ignore limit (price_of r)" if "r \<in> set (drop (length fs) rs)" for r
      using any_price.match_exhausts [OF m \<open>0 < q'\<close> srt] L that by simp
    ultimately show ?thesis by blast
  qed
  show "priority_fills (accepts sd ignore limit) q rs (map snd fs)"
    unfolding priority_fills_def using len sum q' each full rest by simp
qed

text \<open>The order's own trades come first in the result; the rest are those of triggered stops.\<close>

lemma command_run_own:
  assumes run: "command_run market n s res s'" and ok: "book_ok s" and n: "fresh_order n"
  obtains ks t where "priority_fills (accepts (on_side n) market (price_of n)) (rem n) (resting (opp (on_side n)) s) ks"
    "pr_trades res = map (trade_of (on_side n) (ob_symbol s) n) (zip (take (length ks) (resting (opp (on_side n)) s)) ks) @ t"
proof -
  have lk: "links_ok s" using ok by (simp add: book_ok_def)
  obtain fs q s1 t where pl: "placed market n s fs q s1"
    and tr: "pr_trades res = map (trade_of (on_side n) (ob_symbol s) n) fs @ t"
    using run unfolding command_run_def by blast
  have sp: "spec_match (accepts (on_side n) market (price_of n)) (rem n) (resting (opp (on_side n)) s) =
      (fs, resting (opp (on_side n)) s1, q)" using pl by (simp add: placed_def spec_of_def)
  have q: "0 \<le> rem n" using n by (simp add: fresh_order_def)
  have lv: "live (resting (opp (on_side n)) s)" using resting_props(1) [OF lk] by blast
  note P = spec_match_priority_fills [OF sp q lv resting_sorted [OF lk]]
  show ?thesis by (rule that [OF P(1)]) (use P(2) tr in simp)
qed

subsection \<open>Cancellation\<close>

lemma cancel_effect:
  assumes ok: "book_ok s" and r: "r \<in> set (resting sd s)"
  shows "\<exists>res s'. cancelOrder (JStr (on_orderId r)) s = (Inr res, s') \<and> book_ok s' \<and>
    (\<forall>sd'. resting sd' s' = spec_cancel (on_orderId r) (resting sd' s)) \<and>
    ob_stopOrdersById s' = ob_stopOrdersById s \<and> ob_trades s' = ob_trades s \<and>
    getp res ''order'' = JObj (node_snapshot (r\<lparr>on_status := CANCELLED\<rparr>))"
proof -
  have lk: "links_ok s" using ok by (simp add: book_ok_def)
  obtain p l a where pl: "(p, l) \<in> set (side_map sd s)" "a \<in> set (level_addrs s l)" and ra: "r = core (nodes s a)"
    using r by (auto simp: resting_member)
  have g: "map_get (ob_ordersById s) (on_orderId r) = Some a"
    using level_member(3) [OF lk pl] by (simp add: member_ok_def ra)
  have snap: "node_snapshot ((nodes s a)\<lparr>on_status := CANCELLED\<rparr>) = node_snapshot (r\<lparr>on_status := CANCELLED\<rparr>)"
    by (simp add: ra core_def node_snapshot_def filledQuantity_def)
  obtain s1 where s1: "cancelOrder (JStr (on_orderId r)) s =
      (Inr (cancel_result (node_snapshot (r\<lparr>on_status := CANCELLED\<rparr>)) (stamped (ob_symbol s) (ob_sequence s)
        [createOrderCancelledEvent (node_snapshot (r\<lparr>on_status := CANCELLED\<rparr>)),
         createBookUpdatedEvent (snapshot s1) (ob_clock s (ob_ticks s))])),
       bookkept (Suc (ob_ticks s)) (ob_sequence s + 2) s1)"
    "book_ok s1" "\<forall>sd. resting sd s1 = spec_cancel (on_orderId r) (resting sd s)"
    "ob_stopOrdersById s1 = ob_stopOrdersById s" "ob_trades s1 = ob_trades s"
    using cancelOrder_resting [OF ok g] unfolding Let_def snap by blast
  have lk1: "links_ok s1" using s1(2) by (simp add: book_ok_def)
  show ?thesis
    using s1 bookkept_ok [OF s1(2)] bookkept_resting [OF lk1] by (simp add: cancel_result_def)
qed

subsection \<open>Quantities\<close>

lemma trade_quantity [simp]: "tr_quantity (trade_of sd symb n x) = snd x"
  by (simp add: trade_of_def split_def)

lemma trade_quantities [simp]: "tr_quantity \<circ> trade_of sd symb n = snd"
  by (simp add: fun_eq_iff)

lemma spec_insert_sum: "rem_sum (spec_insert rnk n rs) = rem n + rem_sum rs"
proof -
  let ?P = "\<lambda>r. rnk (price_of r) \<le> rnk (price_of n)"
  have "rem_sum rs = rem_sum (takeWhile ?P rs) + rem_sum (dropWhile ?P rs)"
    by (metis map_append sum_list_append takeWhile_dropWhile_id)
  then show ?thesis by (simp add: spec_insert_def)
qed

subsection \<open>Which orders are accepted\<close>

text \<open>What a limit, respectively a market order must hold; the code checks it in \<^verbatim>\<open>Validate.js\<close>.\<close>

definition nonneg_int :: "jsval \<Rightarrow> bool" where
  "nonneg_int v \<longleftrightarrow> (case as_integer v of Some n \<Rightarrow> 0 \<le> n | None \<Rightarrow> False)"

definition market_fields_ok :: "jsobj \<Rightarrow> bool" where
  "market_fields_ok o1 \<longleftrightarrow> nonEmptyString (getp o1 ''orderId'') \<and> nonEmptyString (getp o1 ''userId'') \<and>
     isValidSide (getp o1 ''side'') \<and> pos_int (getp o1 ''quantity'') \<and> nonneg_int (getp o1 ''timestamp'')"

definition limit_fields_ok :: "jsobj \<Rightarrow> bool" where
  "limit_fields_ok o1 \<longleftrightarrow> market_fields_ok o1 \<and> pos_int (getp o1 ''priceTicks'')"

lemma new_OrderNode_Inr_iff:
  "(\<exists>n. new_OrderNode o1 = Inr n) \<longleftrightarrow>
     valid_order_input (setp (setp o1 ''type'' (dflt (getp o1 ''type'') (type_val LIMIT)))
       ''priceTicks'' (dflt (getp o1 ''priceTicks'') JNull))"
  unfolding validateOrderInput_ok_iff [symmetric]
  by (simp add: new_OrderNode_def Let_def seqE_eq_Inr)

lemma limit_input_accepted:
  assumes "trim symb \<noteq> []"
  shows "(\<exists>n. new_OrderNode (limit_input symb o1) = Inr n) \<longleftrightarrow> limit_fields_ok o1"
    "(\<exists>n. new_OrderNode (market_input symb o1) = Inr n) \<longleftrightarrow> market_fields_ok o1"
  unfolding new_OrderNode_Inr_iff setp_valid using assms
  by (auto simp: limit_input_def market_input_def limit_fields_ok_def market_fields_ok_def pos_int_def nonneg_int_def
      dflt_def nullish_def isValidOrderType_def)

lemma accepted_iff:
  assumes ok: "book_ok s" and few: "stop_count s < maxCycles"
  shows "(\<exists>res s'. placeLimitOrder o1 s = (Inr res, s')) \<longleftrightarrow> id_free s (getp o1 ''orderId'') \<and> limit_fields_ok o1"
    "(\<exists>res s'. placeMarketOrder o1 s = (Inr res, s')) \<longleftrightarrow> id_free s (getp o1 ''orderId'') \<and> market_fields_ok o1"
proof -
  have t: "trim (ob_symbol s) \<noteq> []" using ok by (simp add: book_ok_def)
  have few': "length (ob_stopOrdersById s) < maxCycles" using few by (simp add: stop_count_def)
  show "(\<exists>res s'. placeLimitOrder o1 s = (Inr res, s')) \<longleftrightarrow> id_free s (getp o1 ''orderId'') \<and> limit_fields_ok o1"
    unfolding limit_input_accepted(1) [OF t, symmetric]
    using placeLimitOrder_refused [of s o1] placeLimitOrder_run [OF ok _ few', of o1]
    by (cases "new_OrderNode (limit_input (ob_symbol s) o1)"; cases "id_free s (getp o1 ''orderId'')")
      (auto simp: limit_ready_def)
  show "(\<exists>res s'. placeMarketOrder o1 s = (Inr res, s')) \<longleftrightarrow> id_free s (getp o1 ''orderId'') \<and> market_fields_ok o1"
    unfolding limit_input_accepted(2) [OF t, symmetric]
    using placeMarketOrder_refused [of s o1] placeMarketOrder_run [OF ok _ few', of o1]
    by (cases "new_OrderNode (market_input (ob_symbol s) o1)"; cases "id_free s (getp o1 ''orderId'')")
      (auto simp: market_ready_def)
qed

lemma id_in_use:
  assumes "book_ok s"
  shows "r \<in> set (resting sd s) \<Longrightarrow> \<not> id_free s (JStr (on_orderId r))"
    "(k, so) \<in> set (ob_stopOrdersById s) \<Longrightarrow> \<not> id_free s k"
proof -
  have "links_ok s" using assms by (simp add: book_ok_def)
  from orders_iff [OF this, of "on_orderId r"]
  show "r \<in> set (resting sd s) \<Longrightarrow> \<not> id_free s (JStr (on_orderId r))" by (auto simp: id_free_def)
  show "(k, so) \<in> set (ob_stopOrdersById s) \<Longrightarrow> \<not> id_free s k" by (force simp: id_free_def map_has_iff)
qed

text \<open>A refusal by identifier, in each of the five methods.\<close>

lemma taken_id_refused:
  assumes "\<not> id_free s (getp o1 ''orderId'')"
  defines "refused \<equiv> (Inl (OrderAlreadyExists (getp o1 ''orderId'')), s)"
  shows "placeLimitOrder o1 s = refused" "placeMarketOrder o1 s = refused" "placeStopMarketOrder o1 s = refused"
    "placeStopLimitOrder o1 s = refused" "placeTrailingStopMarketOrder o1 s = refused"
  using assms(1) unfolding refused_def
  by (simp_all add: placeLimitOrder_def placeMarketOrder_def placeStopMarketOrder_def placeStopLimitOrder_def
      placeTrailingStopMarketOrder_def bindE_assert_id)

lemma cancelled_id_free:
  assumes ok: "book_ok s" and r: "r \<in> set (resting sd s)" and ok': "book_ok s'"
    and c: "\<And>sd'. resting sd' s' = spec_cancel (on_orderId r) (resting sd' s)"
    and st: "ob_stopOrdersById s' = ob_stopOrdersById s"
  shows "id_free s' (JStr (on_orderId r))"
proof -
  have lk: "links_ok s" "links_ok s'" and so: "stops_ok s" using ok ok' by (simp_all add: book_ok_def)
  have "map_get (ob_ordersById s') (on_orderId r) = None"
    using orders_iff [OF lk(2), of "on_orderId r"] by (auto simp: c spec_cancel_def)
  moreover have "map_get (ob_ordersById s) (on_orderId r) \<noteq> None"
    using orders_iff [OF lk(1), of "on_orderId r"] r by blast
  then have "JStr (on_orderId r) \<notin> fst ` set (ob_stopOrdersById s)"
    using stops_okD(2) [OF so, of "JStr (on_orderId r)"] by auto
  ultimately show ?thesis by (simp add: id_free_def map_has_iff st)
qed

subsection \<open>Event numbers\<close>

definition numbered :: "OrderBook \<Rightarrow> PlaceResult \<Rightarrow> OrderBook \<Rightarrow> bool" where
  "numbered s res s' \<longleftrightarrow> map seq_of (pr_events res) = map (\<lambda>i. JInt (ob_sequence s + 1 + int i)) [0..<length (pr_events res)] \<and>
     ob_sequence s' = ob_sequence s + int (length (pr_events res))"

lemma register_numbered: "register_stop k so s = (Inr res, s') \<Longrightarrow> numbered s res s'"
  by (auto simp: register_stop_eq Let_def numbered_def stamped_seqs [where es = "[_, _]"] simp del: stamped_simps)

lemma command_run_numbered: "command_run market n s res s' \<Longrightarrow> numbered s res s'"
  by (auto simp: command_run_def numbered_def)

lemma place_numbered:
  assumes ok: "book_ok s" and few: "stop_count s < maxCycles"
  shows "placeLimitOrder o1 s = (Inr res, s') \<Longrightarrow> numbered s res s'"
    "placeMarketOrder o1 s = (Inr res, s') \<Longrightarrow> numbered s res s'"
    "placeStopMarketOrder o1 s = (Inr res, s') \<Longrightarrow> numbered s res s'"
    "placeStopLimitOrder o1 s = (Inr res, s') \<Longrightarrow> numbered s res s'"
    "placeTrailingStopMarketOrder o1 s = (Inr res, s') \<Longrightarrow> numbered s res s'"
  using placeLimitOrder_total [OF ok few [unfolded stop_count_def], of o1]
    placeMarketOrder_total [OF ok few [unfolded stop_count_def], of o1]
    register_numbered command_run_numbered
  by (auto simp: placeStopMarketOrder_def placeStopLimitOrder_def placeTrailingStopMarketOrder_def bindE_assert_id
      split: if_splits option.splits)

lemma dispatch_numbered:
  assumes ok: "book_ok s" and few: "stop_count s < maxCycles"
    and d: "dispatch type payload s = (Inr (Placed res), s')"
  shows "numbered s res s'"
  using d place_numbered [OF ok few, of "props payload" res s']
  by (auto simp: dispatch_def with_payload_def bindE_eq_Inr split: if_splits)

end
