(* ===== verification/EngineProperties.thy ===== *)
theory EngineProperties
  imports Effects BookDepth
begin

text \<open>
  The properties of the matching engine (\<^verbatim>\<open>src/engine\<close>), each with a witness on a
  concrete book: what a placed order trades and leaves behind, price-time priority, the
  limits on prices and quantities, cancellation, refused requests, and the stop orders.
\<close>

subsection \<open>Placing orders\<close>

text \<open>
  C4. A valid limit order on a book without stop orders: the call returns, its trades are
  those of matching the order against the other side's priority list, that list becomes what
  the matching leaves, the remainder joins its own side behind every order at least as good,
  and the reported order shows the fills.
\<close>

theorem limit_order_refines:
  assumes "book_ok s" "ob_stopOrdersById s = []" "limit_ready s o1 n"
    and "spec_match (accepts (on_side n) False (price_of n)) (rem n) (resting (opp (on_side n)) s) = (fs, rs, q)"
  shows "\<exists>res s'. placeLimitOrder o1 s = (Inr res, s') \<and> book_ok s' \<and>
    pr_trades res = map (trade_of (on_side n) (ob_symbol s) n) fs \<and>
    resting (opp (on_side n)) s' = rs \<and>
    resting (on_side n) s' = (if 0 < q then spec_insert (rank (on_side n)) (consumed (rem n - q) n) (resting (on_side n) s)
      else resting (on_side n) s) \<and>
    pr_order res = node_snapshot (consumed (rem n - q) n) \<and>
    ob_trades s' = ob_trades s @ pr_trades res"
  using limit_effect [OF assms(1-3)] assms(4) by (auto simp: quiet_effect_def order_result_def)

theorem limit_order_refines_witness:
  "\<exists>res s'. placeLimitOrder (sample_input ''b2'' BUY 101 8) sample_book = (Inr res, s') \<and>
    map tr_quantity (pr_trades res) = [5] \<and>
    resting SELL s' = [sample_node ''a2'' SELL 102 4] \<and>
    map on_orderId (resting BUY s') = [''b2'', ''b1''] \<and> map rem (resting BUY s') = [3, 6]"
proof -
  let ?n = "sample_node ''b2'' BUY 101 8"
  have m: "spec_match (accepts (on_side ?n) False (price_of ?n)) (rem ?n) (resting (opp (on_side ?n)) sample_book) =
      ([(sample_node ''a1'' SELL 101 5, 5)], [sample_node ''a2'' SELL 102 4], 3)"
    by (simp add: sample_node_def accepts_def price_of_def sample_facts)
  show ?thesis
    using limit_order_refines [OF sample_facts(1,2) sample_limit_ready m]
    by (auto simp: sample_node_def trade_of_def sample_facts spec_insert_def consumed_def price_of_def rank_def)
qed

text \<open>
  C20. A valid market order on a book without stop orders trades against the other side in
  priority order whatever the prices, never enters its own side, and what cannot be filled is
  reported as cancelled.
\<close>

theorem market_order_refines:
  assumes "book_ok s" "ob_stopOrdersById s = []" "market_ready s o1 n"
    and "spec_match (\<lambda>p. True) (rem n) (resting (opp (on_side n)) s) = (fs, rs, q)"
  shows "\<exists>res s'. placeMarketOrder o1 s = (Inr res, s') \<and> book_ok s' \<and>
    pr_trades res = map (trade_of (on_side n) (ob_symbol s) n) fs \<and>
    resting (opp (on_side n)) s' = rs \<and> resting (on_side n) s' = resting (on_side n) s \<and>
    (0 < q \<longrightarrow> rs = [] \<and> getp (pr_order res) ''status'' = status_val CANCELLED) \<and>
    getp (pr_order res) ''remainingQuantity'' = JInt q"
proof -
  have acc: "accepts (on_side n) True (price_of n) = (\<lambda>p. True)" by (simp add: accepts_def fun_eq_iff)
  have "0 < q \<Longrightarrow> rs = []" using spec_match_stops [OF assms(4)] by auto
  then show ?thesis
    using market_effect [OF assms(1-3)] assms(4)
    by (auto simp: quiet_effect_def order_result_def acc snapshot_props Let_def)
qed

theorem market_order_refines_witness:
  "\<exists>res s'. placeMarketOrder (sample_input ''b2'' BUY 101 8) sample_book = (Inr res, s') \<and>
    map tr_priceTicks (pr_trades res) = [Some 101, Some 102] \<and> map tr_quantity (pr_trades res) = [5, 3] \<and>
    map rem (resting SELL s') = [1] \<and> resting BUY s' = resting BUY sample_book"
proof -
  let ?n = "sample_market_node ''b2'' BUY 8"
  have m: "spec_match (\<lambda>p. True) (rem ?n) (resting (opp (on_side ?n)) sample_book) =
      ([(sample_node ''a1'' SELL 101 5, 5), (sample_node ''a2'' SELL 102 4, 3)],
       [filled_by 3 (sample_node ''a2'' SELL 102 4)], 0)"
    by (simp add: sample_market_node_def sample_node_def sample_facts)
  show ?thesis
    using market_order_refines [OF sample_facts(1,2) sample_market_ready m]
    by (auto simp: sample_market_node_def sample_node_def trade_of_def sample_facts)
qed

text \<open>
  C8. Every command is atomic on a well-formed book that holds fewer than a thousand stop
  orders: either it is refused and the book is exactly as before, or it is carried out and the
  book is well-formed again (linked price levels, identifiers, totals, uncrossed sides,
  executable stop orders).  Stop order requests must be well-formed, which the engine does
  not check.
\<close>

theorem commands_atomic:
  assumes "book_ok s" "stop_count s < maxCycles" "stop_request_ok type payload"
  shows "(\<exists>e. dispatch type payload s = (Inl e, s)) \<or>
    (\<exists>x s'. dispatch type payload s = (Inr x, s') \<and> book_ok s' \<and> stop_count s' \<le> stop_count s + stop_cost type)"
  using dispatch_atomic [OF assms] by (simp add: atomic_def)

lemma sample_few_stops: "stop_count sample_book < maxCycles"
  by (simp add: sample_facts maxCycles_def)

theorem commands_atomic_witness:
  "(\<exists>e. dispatch (JStr ''PLACE_LIMIT_ORDER'') (JObj (sample_input ''b1'' BUY 101 8)) sample_book = (Inl e, sample_book)) \<or>
    (\<exists>x s'. dispatch (JStr ''PLACE_LIMIT_ORDER'') (JObj (sample_input ''b1'' BUY 101 8)) sample_book = (Inr x, s') \<and>
      book_ok s' \<and> stop_count s' = 0)"
proof -
  have "stop_request_ok (JStr ''PLACE_LIMIT_ORDER'') (JObj (sample_input ''b1'' BUY 101 8))"
    "stop_cost (JStr ''PLACE_LIMIT_ORDER'') = 0"
    by (simp_all add: stop_request_ok_def stop_types_def stop_cost_def)
  then show ?thesis
    using commands_atomic [OF sample_facts(1) sample_few_stops, of "JStr ''PLACE_LIMIT_ORDER''"
      "JObj (sample_input ''b1'' BUY 101 8)"] by (simp add: sample_facts)
qed

text \<open>
  C9. The book is never crossed: after any command the best bid is below the best ask
  whenever both exist.
\<close>

definition best_crossed :: "OrderBook \<Rightarrow> bool" where
  "best_crossed s = (case (getBestBidPriceTicks s, getBestAskPriceTicks s) of
     (Some b, Some a) \<Rightarrow> a \<le> b | _ \<Rightarrow> False)"

lemma ok_not_crossed: "book_ok s \<Longrightarrow> \<not> best_crossed s"
proof -
  assume ok: "book_ok s"
  then have lk: "links_ok s" and nc: "not_crossed s" by (simp_all add: book_ok_def)
  have b: "getBestBidPriceTicks s = (case resting BUY s of [] \<Rightarrow> None | r # _ \<Rightarrow> Some (price_of r))"
    "getBestAskPriceTicks s = (case resting SELL s of [] \<Rightarrow> None | r # _ \<Rightarrow> Some (price_of r))"
    using best_resting [OF lk, of BUY] best_resting [OF lk, of SELL] by (simp_all add: best_def)
  show ?thesis
    using nc by (auto simp: best_crossed_def b not_crossed_def uncrossed_def split: list.splits)
qed

theorem book_never_crossed:
  assumes "book_ok s" "stop_count s < maxCycles" "stop_request_ok type payload"
  shows "\<not> best_crossed (snd (dispatch type payload s))"
  using dispatch_atomic [OF assms] ok_not_crossed assms(1) by (auto simp: atomic_def)

theorem book_never_crossed_witness:
  "\<not> best_crossed (snd (dispatch (JStr ''PLACE_LIMIT_ORDER'') (JObj (sample_input ''b2'' BUY 101 8)) sample_book))"
  by (rule book_never_crossed [OF sample_facts(1) sample_few_stops])
    (simp add: stop_request_ok_def stop_types_def)

subsection \<open>Priority and conservation\<close>

text \<open>
  C5. Price-time priority on any well-formed book: a limit order takes from the other side
  front to back, only at prices within its limit, every order in full before the next, and
  stops only when it is filled or no order of the other side is within its limit.  The
  order's own trades come first in the result, the trades of triggered stops after them.
\<close>

theorem limit_price_time_priority:
  assumes "book_ok s" "stop_count s < maxCycles" "limit_ready s o1 n"
  shows "\<exists>res s' ks t. placeLimitOrder o1 s = (Inr res, s') \<and>
    priority_fills (accepts (on_side n) False (price_of n)) (rem n) (resting (opp (on_side n)) s) ks \<and>
    pr_trades res = map (trade_of (on_side n) (ob_symbol s) n)
      (zip (take (length ks) (resting (opp (on_side n)) s)) ks) @ t"
proof -
  obtain res s' where r: "placeLimitOrder o1 s = (Inr res, s')" "command_run False n s res s'"
    using placeLimitOrder_run [OF assms(1,3)] assms(2) by (auto simp: stop_count_def)
  obtain ks t where "priority_fills (accepts (on_side n) False (price_of n)) (rem n) (resting (opp (on_side n)) s) ks"
    "pr_trades res = map (trade_of (on_side n) (ob_symbol s) n) (zip (take (length ks) (resting (opp (on_side n)) s)) ks) @ t"
    by (rule command_run_own [OF r(2) assms(1) limit_ready_facts(1) [OF assms(3)]])
  with r(1) show ?thesis by (intro exI conjI)
qed

theorem limit_price_time_priority_witness:
  "\<exists>res s' ks t. placeLimitOrder (sample_input ''b2'' BUY 101 8) sample_book = (Inr res, s') \<and>
    priority_fills (accepts BUY False 101) 8 (resting SELL sample_book) ks \<and>
    pr_trades res = map (trade_of BUY ''BTC-INR'' (sample_node ''b2'' BUY 101 8))
      (zip (take (length ks) (resting SELL sample_book)) ks) @ t"
  using limit_price_time_priority [OF sample_facts(1) sample_few_stops sample_limit_ready]
  by (simp add: sample_node_def price_of_def sample_facts(3))



text \<open>
  Time priority: a limit order that finds nothing to trade with stands behind every
  order of its side with the same or a better price and in front of every worse one, and the
  order of the others is as before.
\<close>

theorem resting_position:
  assumes "book_ok s" "ob_stopOrdersById s = []" "limit_ready s o1 n"
    and "\<forall>r \<in> set (resting (opp (on_side n)) s). \<not> accepts (on_side n) False (price_of n) (price_of r)"
  shows "\<exists>res s' xs ys. placeLimitOrder o1 s = (Inr res, s') \<and> pr_trades res = [] \<and>
    resting (on_side n) s = xs @ ys \<and> resting (on_side n) s' = xs @ n # ys \<and>
    (\<forall>r \<in> set xs. rank (on_side n) (price_of r) \<le> rank (on_side n) (price_of n)) \<and>
    (\<forall>r \<in> set ys. rank (on_side n) (price_of n) < rank (on_side n) (price_of r)) \<and>
    resting (opp (on_side n)) s' = resting (opp (on_side n)) s"
proof -
  obtain res s' where r: "placeLimitOrder o1 s = (Inr res, s')" "quiet_effect False n s res s'"
    using limit_effect [OF assms(1-3)] by blast
  have "0 < rem n" using limit_ready_facts(1) [OF assms(3)] by (simp add: fresh_order_def)
  moreover have "spec_match (accepts (on_side n) False (price_of n)) (rem n) (resting (opp (on_side n)) s) =
      ([], resting (opp (on_side n)) s, rem n)"
    using assms(4) by (cases "resting (opp (on_side n)) s") auto
  ultimately have e: "resting (on_side n) s' = spec_insert (rank (on_side n)) n (resting (on_side n) s)"
    "resting (opp (on_side n)) s' = resting (opp (on_side n)) s" "pr_trades res = []"
    using r(2) by (auto simp: quiet_effect_def consumed_def)
  have "links_ok s" using assms(1) by (simp add: book_ok_def)
  from spec_insert_position [OF resting_sorted [OF this], of "on_side n" n] r(1) e show ?thesis by metis
qed

theorem resting_position_witness:
  "\<exists>res s'. placeLimitOrder (sample_input ''b2'' BUY 99 8) sample_book = (Inr res, s') \<and>
    map on_orderId (resting BUY s') = [''b1'', ''b2'']"
proof -
  have rd: "limit_ready sample_book (sample_input ''b2'' BUY 99 8) (sample_node ''b2'' BUY 99 8)"
    by (rule sample_ready [OF sample_book_state]) (use sample_trims in \<open>simp_all add: sample_node_def\<close>)
  obtain res s' xs ys where "placeLimitOrder (sample_input ''b2'' BUY 99 8) sample_book = (Inr res, s')"
    and b: "[sample_node ''b1'' BUY 99 6] = xs @ ys" "resting BUY s' = xs @ sample_node ''b2'' BUY 99 8 # ys"
      "\<forall>r \<in> set ys. rank BUY 99 < rank BUY (price_of r)"
    using resting_position [OF sample_facts(1,2) rd]
    by (auto simp: sample_facts sample_node_def accepts_def price_of_def)
  then show ?thesis by (cases xs) (auto simp: sample_node_def price_of_def rank_def)
qed

subsection \<open>Cancellation, refusals and event numbers\<close>

text \<open>
  C22. Cancelling a resting order removes exactly that order: the priority lists keep every
  other order in its place, stop orders and trades are untouched, the book is well-formed,
  the identifier is free again, and the result shows the order as cancelled.
\<close>

theorem cancel_removes_exactly:
  assumes "book_ok s" "r \<in> set (resting sd s)"
  shows "\<exists>res s'. cancelOrder (JStr (on_orderId r)) s = (Inr res, s') \<and> book_ok s' \<and>
    (\<forall>sd'. resting sd' s' = filter (\<lambda>x. on_orderId x \<noteq> on_orderId r) (resting sd' s)) \<and>
    id_free s' (JStr (on_orderId r)) \<and>
    ob_stopOrdersById s' = ob_stopOrdersById s \<and> ob_trades s' = ob_trades s \<and>
    getp res ''order'' = JObj (node_snapshot (r\<lparr>on_status := CANCELLED\<rparr>))"
proof -
  obtain res s' where r: "cancelOrder (JStr (on_orderId r)) s = (Inr res, s')" "book_ok s'"
    "\<And>sd'. resting sd' s' = spec_cancel (on_orderId r) (resting sd' s)"
    "ob_stopOrdersById s' = ob_stopOrdersById s" "ob_trades s' = ob_trades s"
    "getp res ''order'' = JObj (node_snapshot (r\<lparr>on_status := CANCELLED\<rparr>))"
    using cancel_effect [OF assms] by blast
  have "id_free s' (JStr (on_orderId r))" by (rule cancelled_id_free [OF assms r(2-4)])
  then show ?thesis using r by (auto simp: spec_cancel_def)
qed

theorem cancel_removes_exactly_witness:
  "\<exists>res s'. cancelOrder (JStr ''a1'') sample_book = (Inr res, s') \<and>
    resting SELL s' = [sample_node ''a2'' SELL 102 4] \<and> resting BUY s' = [sample_node ''b1'' BUY 99 6]"
proof -
  have "sample_node ''a1'' SELL 101 5 \<in> set (resting SELL sample_book)" by (simp add: sample_facts)
  from cancel_removes_exactly [OF sample_facts(1) this] show ?thesis
    by (auto simp: sample_node_def sample_facts)
qed

text \<open>
  C27. A limit order is accepted exactly when its identifier is not in use and its fields are
  valid: non-blank identifiers, a side, a positive integer quantity and price, a non-negative
  integer timestamp.  Otherwise the book is as before.
\<close>

theorem limit_accepted_iff:
  assumes "book_ok s" "stop_count s < maxCycles"
  shows "((\<exists>res s'. placeLimitOrder o1 s = (Inr res, s')) \<longleftrightarrow> id_free s (getp o1 ''orderId'') \<and> limit_fields_ok o1) \<and>
    ((\<exists>res s'. placeLimitOrder o1 s = (Inr res, s')) \<or> (\<exists>e. placeLimitOrder o1 s = (Inl e, s)))"
  using accepted_iff(1) [OF assms] placeLimitOrder_total [OF assms(1) assms(2) [unfolded stop_count_def], of o1] by blast

theorem limit_accepted_iff_witness:
  "\<not> (\<exists>res s'. placeLimitOrder (setp (sample_input ''b2'' BUY 101 8) ''priceTicks'' (JStr ''101'')) sample_book = (Inr res, s'))"
  using limit_accepted_iff [OF sample_facts(1) sample_few_stops,
      of "setp (sample_input ''b2'' BUY 101 8) ''priceTicks'' (JStr ''101'')"]
  by (simp add: limit_fields_ok_def pos_int_def)

text \<open>
  No two live orders share an identifier: the identifier of a resting order or of a
  waiting stop order is refused by all five placement methods, and the book is as before.
\<close>

theorem duplicate_identifier_refused:
  assumes "book_ok s"
    and "(\<exists>sd. \<exists>r \<in> set (resting sd s). getp o1 ''orderId'' = JStr (on_orderId r)) \<or>
      (\<exists>so. (getp o1 ''orderId'', so) \<in> set (ob_stopOrdersById s))"
  shows "placeLimitOrder o1 s = (Inl (OrderAlreadyExists (getp o1 ''orderId'')), s) \<and>
    placeMarketOrder o1 s = (Inl (OrderAlreadyExists (getp o1 ''orderId'')), s) \<and>
    placeStopMarketOrder o1 s = (Inl (OrderAlreadyExists (getp o1 ''orderId'')), s) \<and>
    placeStopLimitOrder o1 s = (Inl (OrderAlreadyExists (getp o1 ''orderId'')), s) \<and>
    placeTrailingStopMarketOrder o1 s = (Inl (OrderAlreadyExists (getp o1 ''orderId'')), s)"
  using taken_id_refused [of s o1] id_in_use [OF assms(1)] assms(2) by metis

theorem duplicate_identifier_refused_witness:
  "placeStopMarketOrder (sample_input ''a2'' BUY 101 8) sample_book = (Inl (OrderAlreadyExists (JStr ''a2'')), sample_book)"
proof -
  have "\<exists>sd. \<exists>r \<in> set (resting sd sample_book). getp (sample_input ''a2'' BUY 101 8) ''orderId'' = JStr (on_orderId r)"
    by (rule exI [of _ SELL]) (simp add: sample_facts sample_input_def sample_node_def)
  with duplicate_identifier_refused [OF sample_facts(1), of "sample_input ''a2'' BUY 101 8"] show ?thesis
    by (simp add: sample_input_def)
qed

text \<open>
  C28. The events of a placement command carry consecutive sequence numbers that continue
  the book's counter, and the counter ends at the last one.
\<close>

theorem events_numbered:
  assumes "book_ok s" "stop_count s < maxCycles" "dispatch type payload s = (Inr (Placed res), s')"
  shows "map (\<lambda>e. getp e ''sequence'') (pr_events res) =
      map (\<lambda>i. JInt (ob_sequence s + 1 + int i)) [0..<length (pr_events res)] \<and>
    ob_sequence s' = ob_sequence s + int (length (pr_events res))"
  using dispatch_numbered [OF assms] by (simp add: numbered_def seq_of_def [abs_def])

theorem events_numbered_witness:
  "\<exists>res s'. dispatch (JStr ''PLACE_LIMIT_ORDER'') (JObj (sample_input ''b2'' BUY 101 8)) sample_book = (Inr (Placed res), s') \<and>
    ob_sequence s' = ob_sequence sample_book + int (length (pr_events res))"
proof -
  obtain res s' where "placeLimitOrder (sample_input ''b2'' BUY 101 8) sample_book = (Inr res, s')"
    using limit_effect [OF sample_facts(1,2) sample_limit_ready] by blast
  then have d: "dispatch (JStr ''PLACE_LIMIT_ORDER'') (JObj (sample_input ''b2'' BUY 101 8)) sample_book = (Inr (Placed res), s')"
    by (simp add: dispatch_def with_payload_def nullish_def bindE_def)
  from events_numbered [OF sample_facts(1) sample_few_stops d] d show ?thesis by blast
qed


subsection \<open>Snapshots, levels and validation\<close>



text \<open>
  C30. A price level is a FIFO queue: an order appended to a level is its last, the front is
  the order that arrived first, removing any order keeps the others in their places, the total
  and the count follow, and \<^verbatim>\<open>toArray\<close> lists the orders in arrival order.
\<close>

theorem level_is_fifo:
  assumes "level_rep (nodes s) l (levels s l) as" "a \<notin> set as" "appendable (levels s l) (nodes s a)" "b \<in> set (as @ [a])"
  shows "\<exists>s1 s2. append_level l (Some a) s = (Inr (), s1) \<and> remove_level l (Some b) s1 = (Inr (), s2) \<and>
    level_rep (nodes s1) l (levels s1 l) (as @ [a]) \<and> level_rep (nodes s2) l (levels s2 l) (remove1 b (as @ [a])) \<and>
    fst (peek_level l s1) = Inr (Some (hd (as @ [a]))) \<and>
    toArray s1 l = Some (map (\<lambda>c. node_snapshot (nodes s c)) (as @ [a]))"
proof -
  let ?s1 = "s\<lparr>nodes := appended_nodes (nodes s) l as a,
     levels := (levels s)(l := appended_level (levels s l) as a (on_remainingQuantity (nodes s a)))\<rparr>"
  have rep: "level_rep (nodes ?s1) l (levels ?s1 l) (as @ [a])" using appended_rep [OF assms(1-3)] by simp
  obtain xs ys where b: "as @ [a] = xs @ b # ys" using assms(4) by (meson split_list)
  have rep': "level_rep (nodes ?s1) l (levels ?s1 l) (xs @ b # ys)" using rep by (simp only: b)
  let ?s2 = "?s1\<lparr>nodes := removed_nodes (nodes ?s1) xs b ys,
     levels := (levels ?s1)(l := removed_level (levels ?s1 l) xs ys (on_remainingQuantity (nodes ?s1 b)))\<rparr>"
  have "distinct (xs @ b # ys)" using rep' by (simp add: level_rep_def)
  then have r1: "remove1 b (as @ [a]) = xs @ ys" by (simp only: b remove_mid)
  have "level_rep (nodes ?s2) l (levels ?s2 l) (xs @ ys)" using removed_rep [OF rep'] by simp
  then have rep2: "level_rep (nodes ?s2) l (levels ?s2 l) (remove1 b (as @ [a]))" by (simp only: r1)
  have snaps: "map (\<lambda>c. node_snapshot (nodes ?s1 c)) (as @ [a]) = map (\<lambda>c. node_snapshot (nodes s c)) (as @ [a])"
    by simp
  have "pl_head (levels ?s1 l) = Some (hd (as @ [a]))" using rep by (cases as) (simp_all add: level_rep_def)
  then have "fst (peek_level l ?s1) = Inr (Some (hd (as @ [a])))" by (simp add: peek_level_def)
  with append_level_eq [OF assms(1-3)] remove_level_eq [OF rep'] rep rep2 toArray_rep [OF rep, unfolded snaps]
  show ?thesis by blast
qed

theorem level_is_fifo_witness:
  "\<exists>s1 s2. append_level 0 (Some 2) (\<lparr>nodes = (\<lambda>_. no_node)(2 := (sample_node ''a1'' SELL 101 5)),
      levels = (\<lambda>_. fresh_level 101), nextRef = 3\<rparr> :: heap) = (Inr (), s1) \<and>
    remove_level 0 (Some 2) s1 = (Inr (), s2) \<and> level_rep (nodes s2) 0 (levels s2 0) []"
proof -
  let ?s = "\<lparr>nodes = (\<lambda>_. no_node)(2 := (sample_node ''a1'' SELL 101 5)), levels = (\<lambda>_. fresh_level 101), nextRef = 3\<rparr> :: heap"
  have "level_rep (nodes ?s) 0 (levels ?s 0) []" by (simp add: level_rep_def fresh_level_def)
  moreover have "appendable (levels ?s 0) (nodes ?s 2)" by (simp add: appendable_def fresh_level_def sample_node_def)
  ultimately show ?thesis using level_is_fifo [of ?s 0 "[]" 2 2] by auto
qed

text \<open>
  Validation refuses exactly the inputs that are not orders, and it refuses them before
  anything is built: an order object is constructed if and only if every field passes.
\<close>

theorem order_built_iff_valid:
  "(\<exists>n. new_OrderNode o1 = Inr n) \<longleftrightarrow>
     valid_order_input (setp (setp o1 ''type'' (dflt (getp o1 ''type'') (type_val LIMIT)))
       ''priceTicks'' (dflt (getp o1 ''priceTicks'') JNull))"
  unfolding validateOrderInput_ok_iff [symmetric] by (auto simp: new_OrderNode_def Let_def seqE_eq_Inr)

text \<open>
  A fill either happens as a whole or is refused: the guards of \<^verbatim>\<open>fill\<close> let through
  exactly the fills that keep an order consistent with its status and quantities.
\<close>

theorem fill_keeps_order:
  assumes "node_ok n"
  shows "case fill q n of
      Inl e \<Rightarrow> \<not> (isActive n \<and> 0 < q \<and> q \<le> on_remainingQuantity n)
    | Inr m \<Rightarrow> isActive n \<and> 0 < q \<and> q \<le> on_remainingQuantity n \<and> node_ok m \<and>
        on_remainingQuantity m + q = on_remainingQuantity n \<and> filledQuantity m = filledQuantity n + q \<and>
        (isFilled m \<longleftrightarrow> q = on_remainingQuantity n)"
  using assms by (auto simp: fill_def Let_def node_ok_def filledQuantity_def isFilled_def isActive_def isCancelled_def)

theorem fill_keeps_order_witness:
  "\<exists>m. fill 3 (sample_node ''a1'' SELL 101 5) = Inr m \<and> node_ok m \<and> on_remainingQuantity m + 3 = 5 \<and> \<not> isFilled m"
proof -
  have ok: "node_ok (sample_node ''a1'' SELL 101 5)" by (simp add: node_ok_def sample_node_def)
  show ?thesis
    using fill_keeps_order [OF ok, of 3]
    by (auto simp: sample_node_def isActive_def isFilled_def isCancelled_def split: sum.splits)
qed

text \<open>
  The accepted event and the fill event of an order carry no quantity: they read a field
  the order's snapshot does not have; and any order with something left, also one that has
  traded nothing, is announced as partially filled.
\<close>

theorem order_events_lack_quantity:
  "getp (createOrderAcceptedEvent (node_snapshot n)) ''quantity'' = JUndef \<and>
   getp (createOrderFillEvent (node_snapshot n)) ''quantity'' = JUndef \<and>
   getp (createOrderFillEvent (node_snapshot n)) ''type'' =
     (if on_remainingQuantity n = 0 then JStr ''ORDER_FILLED'' else JStr ''ORDER_PARTIALLY_FILLED'')"
  by (simp add: accepted_quantity_undefined fill_event_quantity_undefined fill_event_type)

end
