(* ===== verification/StopProperties.thy ===== *)
theory StopProperties
  imports Effects
begin

text \<open>
  The properties of stop orders: the trigger loop returns, leaves no triggered stop behind,
  triggers each stop at most once, and sets the last trade price; a trailing stop follows the
  best price at its distance; and what a malformed stop order does to later commands.
\<close>

subsection \<open>Commands on a book with stop orders\<close>

lemma eligible_cong:
  "ob_stopOrdersById s' = ob_stopOrdersById s \<Longrightarrow> ob_lastTradePriceTicks s' = ob_lastTradePriceTicks s \<Longrightarrow>
     getEligibleStopOrders s' = getEligibleStopOrders s"
  by (simp add: getEligibleStopOrders_def split: option.split)

text \<open>The state of the stop orders when a limit or a market order returns.\<close>

definition settled :: "OrderBook \<Rightarrow> PlaceResult \<Rightarrow> OrderBook \<Rightarrow> bool" where
  "settled s res s' \<longleftrightarrow>
     (pr_trades res \<noteq> [] \<longrightarrow> getEligibleStopOrders s' = [] \<and>
        ob_lastTradePriceTicks s' = tr_priceTicks (last (pr_trades res))) \<and>
     mset (map fst (ob_stopOrdersById s)) = mset (map fst (ob_stopOrdersById s')) +
       mset (map (\<lambda>so. getp so ''orderId'') (pr_triggeredOrders res))"

lemma command_run_settled:
  assumes "command_run market n s res s'"
  shows "settled s res s'"
proof -
  let ?ts = "\<lambda>fs. map (trade_of (on_side n) (ob_symbol s) n) fs"
  obtain fs q s1 t s2 where pl: "placed market n s fs q s1"
    and none: "fs = [] \<longrightarrow> t = no_triggered \<and> s2 = s1"
    and some: "fs \<noteq> [] \<longrightarrow> cycles_result (?ts fs) no_triggered s1 t s2"
    and s': "s' = bookkept (Suc (ob_ticks s2)) (ob_sequence s + int (length (pr_events res))) s2"
    and res: "pr_trades res = ?ts fs @ tg_trades t" "pr_triggeredOrders res = tg_orders t"
    using assms unfolding command_run_def by blast
  have st1: "ob_stopOrdersById s1 = ob_stopOrdersById s" using pl by (simp add: placed_def quiet_def)
  have el: "getEligibleStopOrders s' = getEligibleStopOrders s2" unfolding s' by (rule eligible_cong) simp_all
  show ?thesis
  proof (cases "fs = []")
    case True
    then show ?thesis using none st1 by (simp add: settled_def res s' no_triggered_def)
  next
    case False
    then have c: "cycles_result (?ts fs) no_triggered s1 t s2" using some by simp
    then show ?thesis
      using False st1 unfolding settled_def el
      by (auto simp: cycles_result_def res s' no_triggered_def)
  qed
qed

lemma place_settled:
  assumes ok: "book_ok s" and few: "stop_count s < maxCycles"
  shows "placeLimitOrder o1 s = (Inr res, s') \<Longrightarrow> settled s res s'"
    "placeMarketOrder o1 s = (Inr res, s') \<Longrightarrow> settled s res s'"
  using placeLimitOrder_total [OF ok few [unfolded stop_count_def], of o1]
    placeMarketOrder_total [OF ok few [unfolded stop_count_def], of o1] command_run_settled by auto

subsection \<open>Trailing stops\<close>

lemma ticks_JInt: "ticks_minus p (JInt a) = JInt (p - a)" "ticks_plus p (JInt a) = JInt (p + a)"
  by (simp_all add: ticks_minus_def ticks_plus_def number_val_def)

lemma trailing_sell_step:
  assumes "getp so ''type'' = type_val TRAILING_STOP_MARKET" "getp so ''side'' = side_val SELL"
    "getp so ''peakPriceTicks'' = JInt m" "getp so ''trailingAmountTicks'' = JInt a" "getp so ''triggerPriceTicks'' = JInt (m - a)"
    "so' = updateTrailingStopOrder p so"
  shows "getp so' ''type'' = type_val TRAILING_STOP_MARKET" "getp so' ''side'' = side_val SELL"
    "getp so' ''peakPriceTicks'' = JInt (max m p)" "getp so' ''trailingAmountTicks'' = JInt a"
    "getp so' ''triggerPriceTicks'' = JInt (max m p - a)"
  using assms by (simp_all add: updateTrailingStopOrder_def Let_def ticks_JInt)

lemma trailing_buy_step:
  assumes "getp so ''type'' = type_val TRAILING_STOP_MARKET" "getp so ''side'' = side_val BUY"
    "getp so ''valleyPriceTicks'' = JInt m" "getp so ''trailingAmountTicks'' = JInt a" "getp so ''triggerPriceTicks'' = JInt (m + a)"
    "so' = updateTrailingStopOrder p so"
  shows "getp so' ''type'' = type_val TRAILING_STOP_MARKET" "getp so' ''side'' = side_val BUY"
    "getp so' ''valleyPriceTicks'' = JInt (min m p)" "getp so' ''trailingAmountTicks'' = JInt a"
    "getp so' ''triggerPriceTicks'' = JInt (min m p + a)"
  using assms by (simp_all add: updateTrailingStopOrder_def Let_def ticks_JInt)

lemma trailing_sell_run:
  assumes "getp so ''type'' = type_val TRAILING_STOP_MARKET" "getp so ''side'' = side_val SELL"
    "getp so ''peakPriceTicks'' = JInt m" "getp so ''trailingAmountTicks'' = JInt a" "getp so ''triggerPriceTicks'' = JInt (m - a)"
  shows "getp (foldl (\<lambda>so p. updateTrailingStopOrder p so) so ps) ''triggerPriceTicks'' = JInt (foldl max m ps - a)"
  using assms
proof (induction ps arbitrary: so m)
  case (Cons p ps)
  from Cons.IH [OF trailing_sell_step [OF Cons.prems refl]] show ?case by simp
qed simp

lemma trailing_buy_run:
  assumes "getp so ''type'' = type_val TRAILING_STOP_MARKET" "getp so ''side'' = side_val BUY"
    "getp so ''valleyPriceTicks'' = JInt m" "getp so ''trailingAmountTicks'' = JInt a" "getp so ''triggerPriceTicks'' = JInt (m + a)"
  shows "getp (foldl (\<lambda>so p. updateTrailingStopOrder p so) so ps) ''triggerPriceTicks'' = JInt (foldl min m ps + a)"
  using assms
proof (induction ps arbitrary: so m)
  case (Cons p ps)
  from Cons.IH [OF trailing_buy_step [OF Cons.prems refl]] show ?case by simp
qed simp

subsection \<open>A sample book with a stop order\<close>

definition sample_stop :: jsobj where
  "sample_stop = [(''orderId'', JStr ''s1''), (''userId'', JStr ''u''), (''side'', side_val SELL),
     (''triggerPriceTicks'', JInt 101), (''quantity'', JInt 2), (''timestamp'', JInt 7)]"

definition sample_stop_book :: OrderBook where
  "sample_stop_book = snd (placeStopMarketOrder sample_stop sample_book)"

lemma sample_stop_free: "id_free sample_book (getp sample_stop ''orderId'')"
  using id_free_quiet [OF sample_facts(1,2), of "''s1''"]
  by (simp add: sample_stop_def Side_cases_all sample_facts sample_node_def)

lemma sample_stop_facts:
  "book_ok sample_stop_book" "stop_count sample_stop_book < maxCycles"
  "ob_stopOrdersById sample_stop_book = [(JStr ''s1'', stop_market_object ''BTC-INR'' sample_stop)]"
  "ob_symbol sample_stop_book = ''BTC-INR''" "resting sd sample_stop_book = resting sd sample_book"
proof -
  have t: "trim ''s1'' \<noteq> []" by code_simp
  have f: "stop_fields_ok sample_stop" using t sample_trims(5) by (simp add: stop_fields_ok_def sample_stop_def pos_int_def isValidSide_def)
  note W = with_stop_ok [OF sample_facts(1) stop_objects_ok(1) [OF f, of "''BTC-INR''"] sample_stop_free]
  obtain k q where b: "sample_stop_book = bookkept k q
      (with_stop (getp sample_stop ''orderId'') (stop_market_object ''BTC-INR'' sample_stop) sample_book)"
    by (simp add: sample_stop_book_def placeStop_eqs(1) [OF sample_stop_free] register_stop_eq Let_def sample_facts(3))
  show "book_ok sample_stop_book" unfolding b by (rule bookkept_ok [OF W(1)])
  show so: "ob_stopOrdersById sample_stop_book = [(JStr ''s1'', stop_market_object ''BTC-INR'' sample_stop)]"
    using W(2) by (simp add: b sample_facts(2) sample_stop_def)
  then show "stop_count sample_stop_book < maxCycles" by (simp add: stop_count_def maxCycles_def)
  show "ob_symbol sample_stop_book = ''BTC-INR''" by (simp add: b with_stop_def sample_facts(3))
  have "links_ok (with_stop (getp sample_stop ''orderId'') (stop_market_object ''BTC-INR'' sample_stop) sample_book)"
    using W(1) by (simp add: book_ok_def)
  from bookkept_resting [OF this] W(3) show "resting sd sample_stop_book = resting sd sample_book" by (simp add: b)
qed

subsection \<open>Malformed stop orders\<close>

text \<open>
  The placement up to the trigger loop does not depend on the stop orders: a limit order is
  matched and rested first.  An error of the loop is then the error of the whole call, and
  the state it leaves is the one with the order's own trades in it.
\<close>

lemma limit_until_triggers:
  assumes lk: "links_ok s" and nc: "not_crossed s" and rd: "limit_ready s o1 n"
  obtains fs q s2 where "placed False n s fs q s2"
    "\<And>e s3. processStopOrdersAfterTrades (map (trade_of (on_side n) (ob_symbol s) n) fs) s2 = (Inl e, s3) \<Longrightarrow>
       placeLimitOrder o1 s = (Inl e, s3)"
proof -
  note F = limit_ready_facts [OF rd]
  have new: "new_OrderNode (limit_input (ob_symbol s) o1) = Inr n" and free: "id_free s (JStr (on_orderId n))"
    using rd F(4) by (simp_all add: limit_ready_def)
  obtain fs q s1 where run: "match_order (on_side n) (nextRef s) False (allocated n s) =
      (Inr (map (trade_of (on_side n) (ob_symbol s) n) fs), s1)" and am: "after_match False n s fs q s1"
    by (rule match_new_after [OF lk F(1), of False])
  let ?ts = "map (trade_of (on_side n) (ob_symbol s) n) fs" and ?a = "nextRef s"
  obtain s2 where kr: "keep_rest ?a s1 = (Inr (), s2)" and pl: "placed False n s fs q s2"
    using keep_rest_placed [OF lk nc F(1) am F(2,3,6)] by blast
  have idn: "on_orderId (nodes s1 ?a) = on_orderId n" by (rule after_match_node(5) [OF am F(1) lk])
  have "placeLimitOrder o1 s = (Inl e, s3)" if pr: "processStopOrdersAfterTrades ?ts s2 = (Inl e, s3)" for e s3
  proof -
    have R: "bindE (match_order (on_side n) ?a False) k1 (allocated n s) = k1 ?ts s1"
      "bindE (processStopOrdersAfterTrades ?ts) k2 s2 = (Inl e, s3)" for k1 k2 :: "_ \<Rightarrow> PlaceResult bprog"
      using run pr by (simp_all add: bindE_def)
    show ?thesis
      unfolding placeLimitOrder_def F(4,5) bindE_assert_id bindE_gets new bindE_liftE sum.case side_if
        bindE_alloc R(1) str_of_JStr rest_report [OF kr idn [symmetric]] R(2)
      using free by simp
  qed
  with pl show ?thesis by (rule that)
qed

text \<open>A stop whose order cannot be constructed makes the loop throw.\<close>

lemma broken_stop_throws:
  assumes ts: "ts \<noteq> []" "tr_priceTicks (last ts) = Some p"
    and st: "ob_stopOrdersById s = [(k, so)]" and ty: "getp so ''type'' = type_val STOP_MARKET"
    and el: "isEligible p so" and bad: "\<not> pos_int (getp so ''remainingQuantity'')"
  shows "\<exists>e s'. processStopOrdersAfterTrades ts s = (Inl e, s') \<and> ob_trades s' = ob_trades s"
proof -
  let ?s1 = "with_last (Some p) s" and ?so = "setp so ''status'' (status_val TRIGGERED)"
  have up: "updateTrailingStopOrder p so = so" using ty by (simp add: updateTrailingStopOrder_def)
  have e: "getEligibleStopOrders ?s1 = [so]"
    using el by (simp add: eligible_filter with_last_eq st up eligible_here_def)
  let ?s2 = "?s1\<lparr>ob_stopOrdersById := map_delete (ob_stopOrdersById ?s1) (getp so ''orderId'')\<rparr>"
  have "new_OrderNode (triggered_market_input symb now ?so) \<noteq> Inr n" for symb now n
  proof
    assume "new_OrderNode (triggered_market_input symb now ?so) = Inr n"
    from new_OrderNode_fields [OF this] bad show False
      by (auto simp: triggered_market_input_def pos_int_iff node_ok_def)
  qed
  then obtain e' where n: "new_OrderNode (triggered_market_input (ob_symbol ?s2) (ob_clock ?s2 (ob_ticks ?s2)) ?so) = Inl e'"
    by (metis sum.exhaust)
  let ?s3 = "?s2\<lparr>ob_ticks := Suc (ob_ticks ?s2)\<rparr>"
  have "executeTriggeredStopOrder ?so ?s2 = (Inl e', ?s3)"
    using ty n by (simp add: executeTriggeredStopOrder_def bindE_Inr [OF date_now_apply] del: type_val.simps)
  then have "triggerStopOrder so ?s1 = (Inl e', ?s3)"
    by (simp add: triggerStopOrder_def Let_def bindE_def)
  then have "triggerStopOrders [so] ?s1 = (Inl e', ?s3)" by (simp add: bindE_def)
  then have "processStopOrdersAfterTrades ts s = (Inl e', ?s3)"
    using ts e by (simp add: processStopOrdersAfterTrades_def stopCycles.simps [of 0] maxCycles_def Let_def with_last_def [symmetric])
  moreover have "ob_trades ?s3 = ob_trades s" by (simp add: with_last_eq)
  ultimately show ?thesis by blast
qed

lemma broken_stop_book:
  assumes ok: "book_ok s" and none: "ob_stopOrdersById s = []"
    and free: "id_free s (getp bad ''orderId'')"
  defines "b \<equiv> snd (placeStopMarketOrder bad s)"
  shows "links_ok b" "not_crossed b" "ob_symbol b = ob_symbol s" "ob_trades b = ob_trades s"
    "ob_stopOrdersById b = [(getp bad ''orderId'', stop_market_object (ob_symbol s) bad)]"
    "resting sd b = resting sd s" "orders_get b v = orders_get s v" "\<exists>res. placeStopMarketOrder bad s = (Inr res, b)"
proof -
  let ?so = "stop_market_object (ob_symbol s) bad" and ?k = "getp bad ''orderId''"
  obtain j q where b: "b = bookkept j q (with_stop ?k ?so s)"
    by (simp add: b_def placeStop_eqs(1) [OF free] register_stop_eq Let_def)
  have lk: "links_ok s" using ok by (simp add: book_ok_def)
  have same: "same_structure s (with_stop ?k ?so s)" unfolding with_stop_def by (rule same_structure_scalars)
  note lk1 = frame_links [OF lk same] and r1 = frame_resting [OF lk same]
  show lkb: "links_ok b" unfolding b by (rule frame_links [OF lk1 bookkept_same])
  show rb: "resting sd b = resting sd s" for sd unfolding b using bookkept_resting [OF lk1] r1 by simp
  show "not_crossed b" using ok rb by (simp add: book_ok_def not_crossed_def)
  show "ob_symbol b = ob_symbol s" "ob_trades b = ob_trades s" by (simp_all add: b with_stop_def)
  show "ob_stopOrdersById b = [(?k, ?so)]" by (simp add: b with_stop_def none)
  show "orders_get b v = orders_get s v" by (rule orders_get_cong) (simp add: b with_stop_def)
  show "\<exists>res. placeStopMarketOrder bad s = (Inr res, b)"
    by (simp add: b_def placeStop_eqs(1) [OF free] register_stop_eq Let_def)
qed

text \<open>A limit order that was ready stays so after a stop order with another identifier.\<close>

lemma ready_after_stop:
  assumes "book_ok s" "ob_stopOrdersById s = []" "id_free s (getp bad ''orderId'')"
    and rd: "limit_ready s o1 n" and other: "getp o1 ''orderId'' \<noteq> getp bad ''orderId''"
  shows "limit_ready (snd (placeStopMarketOrder bad s)) o1 n"
proof -
  note B = broken_stop_book [OF assms(1-3)]
  have "orders_get (snd (placeStopMarketOrder bad s)) (getp o1 ''orderId'') = None"
    unfolding B(7) using rd by (simp add: limit_ready_def id_free_def)
  then show ?thesis
    using rd other by (simp add: limit_ready_def id_free_def B(3,5) map_has_def)
qed

subsection \<open>Properties\<close>

text \<open>
  C19. The trigger loop ends and never reaches its cycle limit: with fewer than a thousand
  stop orders waiting it returns on any trades, and the book is well-formed.
\<close>

theorem trigger_loop_returns:
  assumes "book_ok s" "stop_count s < maxCycles"
  shows "\<exists>t s'. processStopOrdersAfterTrades trades s = (Inr t, s') \<and> book_ok s' \<and>
    ob_trades s' = ob_trades s @ tg_trades t"
  using process_ok [OF assms(1) assms(2) [unfolded stop_count_def], of trades] unfolding run_frame_def by metis

theorem trigger_loop_returns_witness:
  "\<exists>t s'. processStopOrdersAfterTrades [trade_of BUY ''BTC-INR'' (sample_node ''b2'' BUY 101 8) (sample_node ''a1'' SELL 101 5, 5)]
     sample_stop_book = (Inr t, s') \<and> book_ok s'"
  using trigger_loop_returns [OF sample_stop_facts(1,2)] by blast

text \<open>No stop order with an integer trigger is triggered by the last trade price.\<close>

lemma none_eligible:
  assumes "getEligibleStopOrders s = []" "ob_lastTradePriceTicks s = Some p" "so \<in> set (map_values (ob_stopOrdersById s))"
    "getp so ''triggerPriceTicks'' = JInt t"
  shows "(getp so ''side'' = side_val BUY \<longrightarrow> p < t) \<and> (getp so ''side'' = side_val SELL \<longrightarrow> t < p)"
proof -
  have "\<not> isEligible p so" using assms(1-3) by (auto simp: getEligibleStopOrders_def filter_empty_conv)
  then show ?thesis using assms(4) by (auto simp: isEligible_def)
qed


lemma sample_stop_ready: "limit_ready sample_stop_book (sample_input ''b2'' BUY 101 8) (sample_node ''b2'' BUY 101 8)"
  unfolding sample_stop_book_def
  by (rule ready_after_stop [OF sample_facts(1,2) sample_stop_free sample_limit_ready])
    (simp add: sample_input_def sample_stop_def)

lemma sample_stop_run:
  obtains res s' t where "placeLimitOrder (sample_input ''b2'' BUY 101 8) sample_stop_book = (Inr res, s')"
    "pr_trades res = trade_of BUY ''BTC-INR'' (sample_node ''b2'' BUY 101 8) (sample_node ''a1'' SELL 101 5, 5) # t"
proof -
  let ?n = "sample_node ''b2'' BUY 101 8"
  obtain res s' where r: "placeLimitOrder (sample_input ''b2'' BUY 101 8) sample_stop_book = (Inr res, s')"
    "command_run False ?n sample_stop_book res s'"
    using placeLimitOrder_run [OF sample_stop_facts(1) sample_stop_ready] sample_stop_facts(2) by (auto simp: stop_count_def)
  obtain fs q s1 t where pl: "placed False ?n sample_stop_book fs q s1"
    and tr: "pr_trades res = map (trade_of (on_side ?n) (ob_symbol sample_stop_book) ?n) fs @ t"
    using r(2) unfolding command_run_def by blast
  have "spec_match (accepts BUY False 101) 8 [sample_node ''a1'' SELL 101 5, sample_node ''a2'' SELL 102 4] =
      ([(sample_node ''a1'' SELL 101 5, 5)], [sample_node ''a2'' SELL 102 4], 3)"
    by (simp add: sample_node_def accepts_def price_of_def)
  then have "fs = [(sample_node ''a1'' SELL 101 5, 5)]"
    using pl by (simp add: placed_def spec_of_def sample_stop_facts(5) sample_facts(5) sample_node_def price_of_def)
  then show ?thesis using that [OF r(1)] tr by (simp add: sample_stop_facts(4) sample_node_def)
qed


text \<open>
  C24. Every stop order is triggered at most once and none is lost: the stop orders that
  waited before a limit order are those that wait after it together with those it reports as
  triggered, each once.
\<close>

theorem stops_trigger_once:
  assumes "book_ok s" "stop_count s < maxCycles" "placeLimitOrder o1 s = (Inr res, s')"
  shows "mset (map_keys (ob_stopOrdersById s)) =
    mset (map_keys (ob_stopOrdersById s')) + mset (map (\<lambda>so. getp so ''orderId'') (pr_triggeredOrders res))"
  using place_settled(1) [OF assms] by (simp add: settled_def map_keys_def)

theorem stops_trigger_once_witness:
  "\<exists>res s'. placeLimitOrder (sample_input ''b2'' BUY 101 8) sample_stop_book = (Inr res, s') \<and>
    size (mset (map_keys (ob_stopOrdersById s'))) + length (pr_triggeredOrders res) = 1"
proof -
  obtain res s' t where r: "placeLimitOrder (sample_input ''b2'' BUY 101 8) sample_stop_book = (Inr res, s')"
    "pr_trades res = trade_of BUY ''BTC-INR'' (sample_node ''b2'' BUY 101 8) (sample_node ''a1'' SELL 101 5, 5) # t"
    by (rule sample_stop_run)
  have "size (mset (map_keys (ob_stopOrdersById sample_stop_book))) = 1"
    by (simp add: sample_stop_facts(3) map_keys_def)
  then show ?thesis using stops_trigger_once [OF sample_stop_facts(1,2) r(1)] r(1) by auto
qed



text \<open>
  C33. A stop order with a quantity that is not a positive integer is accepted, and then the
  limit order whose trade triggers it is refused although its own trades have been made: the
  error leaves the book with those trades in it.
\<close>

theorem malformed_stop_breaks_other_order:
  assumes "book_ok s" "ob_stopOrdersById s = []" "id_free s (getp bad ''orderId'')"
    and "\<not> pos_int (getp bad ''quantity'')"
    and "limit_ready (snd (placeStopMarketOrder bad s)) o1 n"
    and "spec_match (accepts (on_side n) False (price_of n)) (rem n) (resting (opp (on_side n)) s) = (fs @ [(r, k)], rs, q)"
    and "on_priceTicks r = Some p" "isEligible p bad"
  shows "(\<exists>res. fst (placeStopMarketOrder bad s) = Inr res) \<and>
    (\<exists>e s'. placeLimitOrder o1 (snd (placeStopMarketOrder bad s)) = (Inl e, s') \<and>
      ob_trades s' = ob_trades s @ map (trade_of (on_side n) (ob_symbol s) n) (fs @ [(r, k)]))"
proof -
  let ?b = "snd (placeStopMarketOrder bad s)" and ?so = "stop_market_object (ob_symbol s) bad"
  note B = broken_stop_book [OF assms(1-3)]
  obtain fs' q' s2 where pl: "placed False n ?b fs' q' s2"
    and T: "\<And>e s3. processStopOrdersAfterTrades (map (trade_of (on_side n) (ob_symbol ?b) n) fs') s2 = (Inl e, s3) \<Longrightarrow>
       placeLimitOrder o1 ?b = (Inl e, s3)"
    using limit_until_triggers [OF B(1,2) assms(5)] by blast
  have fs': "fs' = fs @ [(r, k)]" using pl assms(6) by (simp add: placed_def spec_of_def B(6))
  have st: "ob_stopOrdersById s2 = [(getp bad ''orderId'', ?so)]" using pl B(5) by (simp add: placed_def quiet_def)
  have "isEligible p ?so" "\<not> pos_int (getp ?so ''remainingQuantity'')" "getp ?so ''type'' = type_val STOP_MARKET"
    using assms(4,8) by (simp_all add: isEligible_def stop_market_object_def)
  from broken_stop_throws [OF _ _ st this(3,1,2), of "map (trade_of (on_side n) (ob_symbol s) n) fs'"]
  obtain e s3 where "processStopOrdersAfterTrades (map (trade_of (on_side n) (ob_symbol s) n) fs') s2 = (Inl e, s3)"
    "ob_trades s3 = ob_trades s2" using assms(7) by (auto simp: fs' trade_of_def)
  moreover have "ob_trades s2 = ob_trades s @ map (trade_of (on_side n) (ob_symbol s) n) fs'"
    using pl B(3,4) by (simp add: placed_def)
  moreover have "\<exists>res. fst (placeStopMarketOrder bad s) = Inr res" using B(8) by (metis fst_conv)
  ultimately show ?thesis using T [of e s3] B(3) by (auto simp: fs')
qed

theorem malformed_stop_breaks_other_order_witness:
  "\<exists>e s'. placeLimitOrder (sample_input ''b2'' BUY 101 8)
      (snd (placeStopMarketOrder (setp sample_stop ''quantity'' (JInt 0)) sample_book)) = (Inl e, s') \<and>
    ob_trades s' \<noteq> ob_trades sample_book"
proof -
  let ?bad = "setp sample_stop ''quantity'' (JInt 0)" and ?n = "sample_node ''b2'' BUY 101 8"
  have free: "id_free sample_book (getp ?bad ''orderId'')" using sample_stop_free by simp
  have rd: "limit_ready (snd (placeStopMarketOrder ?bad sample_book)) (sample_input ''b2'' BUY 101 8) ?n"
    by (rule ready_after_stop [OF sample_facts(1,2) free sample_limit_ready]) (simp add: sample_input_def sample_stop_def)
  have m: "spec_match (accepts (on_side ?n) False (price_of ?n)) (rem ?n) (resting (opp (on_side ?n)) sample_book) =
      ([] @ [(sample_node ''a1'' SELL 101 5, 5)], [sample_node ''a2'' SELL 102 4], 3)"
    by (simp add: sample_node_def accepts_def price_of_def sample_facts(5))
  have bad: "\<not> pos_int (getp ?bad ''quantity'')" by (simp add: pos_int_def)
  have el: "isEligible 101 ?bad" by (simp add: isEligible_def sample_stop_def)
  have "on_priceTicks (sample_node ''a1'' SELL 101 5) = Some 101" by (simp add: sample_node_def)
  from malformed_stop_breaks_other_order [OF sample_facts(1,2) free bad rd m this el] show ?thesis by auto
qed

text \<open>
  The events of a cancelled stop order are not numbered: unlike every other command,
  cancelling a stop order returns its two events without a sequence number, the book update
  without a symbol, and leaves the book's counter where it was.
\<close>

theorem stop_cancel_events_unnumbered:
  assumes "book_ok s" "map_get (ob_stopOrdersById s) k = Some so"
  shows "\<exists>res s' e1 e2. cancelOrder k s = (Inr res, s') \<and> getp res ''events'' = JArr [JObj e1, JObj e2] \<and>
    getp e1 ''sequence'' = JUndef \<and> getp e2 ''sequence'' = JUndef \<and> getp e2 ''symbol'' = JUndef \<and>
    ob_sequence s' = ob_sequence s \<and> map_get (ob_stopOrdersById s') k = None \<and>
    (\<forall>sd. resting sd s' = resting sd s)"
proof -
  let ?s1 = "s\<lparr>ob_stopOrdersById := map_delete (ob_stopOrdersById s) k\<rparr>"
  let ?snap = "getStopOrderSnapshot (setp so ''status'' (status_val CANCELLED))"
  have c: "cancelOrder k s = (Inr (cancel_result ?snap [createOrderCancelledEvent ?snap,
      createBookUpdatedEvent (snapshot ?s1) (ob_clock s (ob_ticks s))]), ?s1\<lparr>ob_ticks := Suc (ob_ticks s)\<rparr>)"
    and ok1: "book_ok ?s1" and r: "\<forall>sd. resting sd ?s1 = resting sd s"
    using cancelOrder_stop [OF assms] by (simp_all add: Let_def)
  have "?s1\<lparr>ob_ticks := Suc (ob_ticks s)\<rparr> = bookkept (Suc (ob_ticks s)) (ob_sequence ?s1) ?s1" by (simp add: bookkept_def)
  moreover have "links_ok ?s1" using ok1 by (simp add: book_ok_def)
  ultimately have "resting sd (?s1\<lparr>ob_ticks := Suc (ob_ticks s)\<rparr>) = resting sd s" for sd
    using bookkept_resting r by metis
  then show ?thesis
    by (simp add: c cancel_result_def createOrderCancelledEvent_def createBookUpdatedEvent_def map_get_delete)
qed

theorem stop_cancel_events_unnumbered_witness:
  "\<exists>res s'. cancelOrder (JStr ''s1'') sample_stop_book = (Inr res, s') \<and> ob_sequence s' = ob_sequence sample_stop_book"
  using stop_cancel_events_unnumbered [OF sample_stop_facts(1), of "JStr ''s1''"] by (fastforce simp: sample_stop_facts(3))

end
