(* ===== verification/Partitioner.thy ===== *)
theory Partitioner
  imports EngineTypes "HOL-Library.Word"
begin

unbundle bit_operations_syntax

text \<open>
  \<^verbatim>\<open>src/application/partitioning/symbolPartitioner.js\<close>: the djb2 hash of a symbol on
  32-bit integers, the partition of a symbol, and the names of a partition's queue and
  leader lock.  The bit operators of JavaScript convert to a signed 32-bit integer, so the
  hash is a \<open>32 word\<close>; \<open>hash_int\<close> is the same loop on numbers, with the conversions
  written out, and the two are shown to agree.
\<close>

subsection \<open>The hash\<close>

text \<open>The loop of \<^verbatim>\<open>hashSymbol\<close>; \<^verbatim>\<open>charCodeAt\<close> of a character is its code unit.\<close>

fun hash_loop :: "32 word \<Rightarrow> string \<Rightarrow> 32 word" where
  "hash_loop hash [] = hash"
| "hash_loop hash (c # symbol) = hash_loop ((push_bit 5 hash + hash) XOR of_nat (of_char c)) symbol"

definition hashSymbol :: "jsval \<Rightarrow> int res" where
  "hashSymbol symbol = (if \<not> nonEmptyString symbol then Inl (NotNonEmptyString ''symbol'')
     else Inr \<bar>sint (hash_loop 5381 (case symbol of JStr s \<Rightarrow> s | _ \<Rightarrow> []))\<bar>)"

definition is_partition_count :: "jsval \<Rightarrow> bool" where
  "is_partition_count v \<longleftrightarrow> (case as_integer v of Some n \<Rightarrow> 1 \<le> n | None \<Rightarrow> False)"

definition getPartitionId :: "jsval \<Rightarrow> jsval \<Rightarrow> int res" where
  "getPartitionId symbol partitionCount =
    (case as_integer partitionCount of None \<Rightarrow> Inl PartitionCountInvalid
     | Some n \<Rightarrow> if n < 1 then Inl PartitionCountInvalid
         else seqE (hashSymbol symbol) (\<lambda>h. Inr (h mod n)))"

definition assertValidPartitionConfig :: "jsval \<Rightarrow> jsval \<Rightarrow> unit res" where
  "assertValidPartitionConfig partitionId partitionCount =
    (case as_integer partitionCount of None \<Rightarrow> Inl PartitionCountInvalid
     | Some n \<Rightarrow> if n < 1 then Inl PartitionCountInvalid
         else (case as_integer partitionId of None \<Rightarrow> Inl PartitionIdInvalid
           | Some i \<Rightarrow> if i < 0 \<or> n \<le> i then Inl PartitionIdInvalid else Inr ()))"

definition isSymbolAssignedToPartition :: "jsval \<Rightarrow> jsval \<Rightarrow> jsval \<Rightarrow> bool res" where
  "isSymbolAssignedToPartition symbol partitionId partitionCount =
     seqE (getPartitionId symbol partitionCount) (\<lambda>i. Inr (partitionId = JInt i))"

text \<open>The decimal text of a partition number in a template string.\<close>

fun show_nat :: "nat \<Rightarrow> string" where
  "show_nat n = (if n < 10 then [char_of (48 + n)] else show_nat (n div 10) @ [char_of (48 + n mod 10)])"

definition getPartitionQueueName :: "nat \<Rightarrow> string" where
  "getPartitionQueueName partitionId = ''order.commands.partition.'' @ show_nat partitionId"

definition getPartitionLeaderKey :: "nat \<Rightarrow> string" where
  "getPartitionLeaderKey partitionId = ''matching:leader:partition:'' @ show_nat partitionId"

subsection \<open>The hash on numbers\<close>

text \<open>
  \<^verbatim>\<open>ToInt32\<close>, and the loop as the engine runs it: a shift converted to 32 bits, an exact
  sum of numbers, an exclusive or that converts again.
\<close>

definition to_int32 :: "int \<Rightarrow> int" where
  "to_int32 = signed_take_bit 31"

fun hash_int :: "int \<Rightarrow> string \<Rightarrow> int" where
  "hash_int hash [] = hash"
| "hash_int hash (c # symbol) = hash_int (to_int32 (to_int32 (to_int32 (hash * 2 ^ 5) + hash) XOR of_char c)) symbol"

lemma sint_word_int: "sint (word_of_int n :: 32 word) = to_int32 n"
  by (simp add: to_int32_def signed_of_int)

lemma word_step:
  "sint ((push_bit 5 h + h) XOR of_nat (of_char c) :: 32 word) =
     to_int32 (to_int32 (to_int32 (sint h * 2 ^ 5) + sint h) XOR of_char c)"
proof -
  let ?x = "to_int32 (sint h * 2 ^ 5) + sint h"
  have wrap: "word_of_int (to_int32 n) = (word_of_int n :: 32 word)" for n
    by (simp add: sint_word_int [symmetric])
  have c: "(of_nat (of_char c) :: 32 word) = word_of_int (of_char c)"
    by (metis of_int_of_nat_eq of_nat_of_char)
  have "(push_bit 5 h + h :: 32 word) = word_of_int (to_int32 ?x)"
    by (simp add: wrap push_bit_eq_mult)
  then have "(push_bit 5 h + h) XOR of_nat (of_char c) = (word_of_int (to_int32 ?x XOR of_char c) :: 32 word)"
    by (simp only: c word_wi_log_defs)
  then show ?thesis by (simp add: sint_word_int)
qed

lemma hash_loop_int: "sint (hash_loop h s) = hash_int (sint h) s"
  by (induction h s rule: hash_loop.induct) (simp_all only: hash_loop.simps hash_int.simps word_step)

text \<open>The intermediate sum stays within the exact integers of a double.\<close>

lemma to_int32_range: "- (2 ^ 31) \<le> to_int32 n" "to_int32 n < 2 ^ 31"
  using signed_take_bit_int_greater_eq_minus_exp [of 31 n] signed_take_bit_int_less_exp [of 31 n]
  by (simp_all add: to_int32_def)

lemma sum_exact:
  assumes "- (2 ^ 31) \<le> h" "h < 2 ^ 31"
  shows "\<bar>to_int32 (h * 2 ^ 5) + h\<bar> < 2 ^ 53"
  using to_int32_range [of "h * 2 ^ 5"] assms by simp

subsection \<open>Partitions\<close>

lemma getPartitionId_Inr:
  "getPartitionId v c = Inr i \<longleftrightarrow> (\<exists>n h. c = JInt n \<and> 1 \<le> n \<and> hashSymbol v = Inr h \<and> i = h mod n)"
  by (auto simp: getPartitionId_def as_integer_Some seqE_eq_Inr split: option.splits if_splits)

lemma getPartitionId_range: "getPartitionId v (JInt n) = Inr i \<Longrightarrow> 0 \<le> i \<and> i < n"
  by (auto simp: getPartitionId_Inr)

lemma hashSymbol_total: "nonEmptyString v \<Longrightarrow> \<exists>h. hashSymbol v = Inr h"
  by (simp add: hashSymbol_def)

subsection \<open>Decimal texts are different for different numbers\<close>

declare show_nat.simps [simp del]

lemma digit_value_char: "d < 10 \<Longrightarrow> digit_value (char_of (48 + d)) = d"
  by (auto simp: digit_value_def Let_def of_char_of)

lemma show_nat_value: "digits_value 10 (show_nat n) = n"
proof (induction n rule: show_nat.induct)
  case (1 n)
  show ?case
  proof (cases "n < 10")
    case True
    then show ?thesis using digit_value_char [of n] by (simp add: show_nat.simps [of n] digits_value_def)
  next
    case False
    then have "digits_value 10 (show_nat n) = 10 * digits_value 10 (show_nat (n div 10)) + n mod 10"
      using digit_value_char [of "n mod 10"] by (simp add: show_nat.simps [of n] digits_value_def)
    then show ?thesis using 1 [OF False] by simp
  qed
qed

lemma show_nat_inj: "show_nat m = show_nat n \<longleftrightarrow> m = n"
  by (metis show_nat_value)


subsection \<open>Properties\<close>

lemma hash_bound: "hashSymbol v = Inr h \<Longrightarrow> 0 \<le> h \<and> h \<le> 2 ^ 31"
  using sint_greater_eq [of "hash_loop 5381 (case v of JStr s \<Rightarrow> s | _ \<Rightarrow> [])"]
    sint_less [of "hash_loop 5381 (case v of JStr s \<Rightarrow> s | _ \<Rightarrow> [])"]
  by (auto simp: hashSymbol_def split: if_splits)

text \<open>
  C31. Every symbol belongs to exactly one partition of a valid configuration: the partition
  exists, lies in the range, is the only one to which the symbol is assigned, and no two
  partitions share a queue or a leader lock.
\<close>

theorem one_partition_per_symbol:
  assumes "nonEmptyString symbol" "0 < n"
  shows "\<exists>i. getPartitionId symbol (JInt n) = Inr (int i) \<and> int i < n \<and>
    (\<forall>j. isSymbolAssignedToPartition symbol (JInt j) (JInt n) = Inr (j = int i)) \<and>
    (\<forall>k. getPartitionQueueName k = getPartitionQueueName i \<longrightarrow> k = i) \<and>
    (\<forall>k. getPartitionLeaderKey k = getPartitionLeaderKey i \<longrightarrow> k = i)"
proof -
  obtain h where h: "hashSymbol symbol = Inr h" using hashSymbol_total [OF assms(1)] by blast
  then have g: "getPartitionId symbol (JInt n) = Inr (h mod n)" using assms(2) by (simp add: getPartitionId_Inr)
  have "0 \<le> h mod n" "h mod n < n" using assms(2) by simp_all
  then have i: "int (nat (h mod n)) = h mod n" by simp
  have "isSymbolAssignedToPartition symbol (JInt j) (JInt n) = Inr (j = h mod n)" for j
    by (simp add: isSymbolAssignedToPartition_def g)
  with g i \<open>h mod n < n\<close> show ?thesis
    by (intro exI [of _ "nat (h mod n)"]) (auto simp: getPartitionQueueName_def getPartitionLeaderKey_def show_nat_inj)
qed

theorem one_partition_per_symbol_witness:
  "\<exists>i. getPartitionId (JStr ''BTC-INR'') (JInt 3) = Inr (int i) \<and> int i < 3"
proof -
  have "nonEmptyString (JStr ''BTC-INR'')" by code_simp
  from one_partition_per_symbol [OF this, of 3] show ?thesis by auto
qed

text \<open>
  C32. The hash on 32-bit words is the loop the source writes on numbers, with its two
  conversions per character, and stays within the integers a double represents exactly.
\<close>

theorem hash_is_exact:
  "hashSymbol (JStr s) = (if trim s = [] then Inl (NotNonEmptyString ''symbol'') else Inr \<bar>hash_int 5381 s\<bar>) \<and>
   \<bar>hash_int 5381 s\<bar> \<le> 2 ^ 31 \<and> (\<forall>h. \<bar>h\<bar> \<le> 2 ^ 31 \<longrightarrow> \<bar>to_int32 (h * 2 ^ 5) + h\<bar> < 2 ^ 53)"
proof -
  have i: "sint (hash_loop 5381 s) = hash_int 5381 s" using hash_loop_int [of 5381 s] by simp
  have "- (2 ^ 31) \<le> sint (hash_loop 5381 s)" "sint (hash_loop 5381 s) < 2 ^ 31"
    using sint_greater_eq [of "hash_loop 5381 s"] sint_less [of "hash_loop 5381 s"] by simp_all
  moreover have "\<bar>to_int32 (h * 2 ^ 5) + h\<bar> < 2 ^ 53" if "\<bar>h\<bar> \<le> 2 ^ 31" for h
    using to_int32_range [of "h * 2 ^ 5"] that by (simp add: abs_le_iff abs_less_iff)
  ultimately show ?thesis using i by (simp add: hashSymbol_def abs_le_iff)
qed

theorem hash_is_exact_witness: "\<bar>to_int32 (5381 * 2 ^ 5) + 5381\<bar> < (2 ^ 53 :: int)"
  using hash_is_exact [of "[]"] by (elim conjE allE [of _ 5381]) simp

text \<open>
  With three partitions the symbols of the deployment guide land on partitions 0, 1 and 0:
  the third one, \<^verbatim>\<open>SOL-INR\<close>, is not on the partition the guide names (2), which then owns none
  of the three.
\<close>

theorem documented_symbols:
  "getPartitionId (JStr ''BTC-INR'') (JInt 3) = Inr 0 \<and> getPartitionId (JStr ''ETH-INR'') (JInt 3) = Inr 1 \<and>
   getPartitionId (JStr ''SOL-INR'') (JInt 3) = Inr 0"
proof -
  have n: "nonEmptyString (JStr ''BTC-INR'')" "nonEmptyString (JStr ''ETH-INR'')" "nonEmptyString (JStr ''SOL-INR'')"
    by code_simp+
  have h: "sint (hash_loop 5381 ''BTC-INR'') = 1580274600" "sint (hash_loop 5381 ''ETH-INR'') = 1606879204"
    "sint (hash_loop 5381 ''SOL-INR'') = - 10278003"
    by code_simp+
  show ?thesis using n by (simp add: getPartitionId_def hashSymbol_def h)
qed

end
