(* ===== verification/Recovery.thy ===== *)
theory Recovery
  imports BookDepth AbstractRefine
begin

text \<open>
  The checkpoint of an order book (\<^verbatim>\<open>src/engine/OrderBook.js\<close>): \<^verbatim>\<open>toRecoverySnapshot\<close>
  writes the two sides, the stop orders and the counters as plain data,
  \<^verbatim>\<open>fromRecoverySnapshot\<close> builds a book from such data.  Between the two the snapshot is
  stored as JSON text (\<open>json_clean\<close>).  The restoring code reads an arbitrary JSON value: what
  it does on a malformed one is a branch of the model.
\<close>

subsection \<open>Writing a checkpoint\<close>

text \<open>\<^verbatim>\<open>toArray\<close> of a cyclic level does not return (\<open>None\<close>).\<close>

definition level_recovery :: "OrderBook \<Rightarrow> nat \<Rightarrow> jsobj option" where
  "level_recovery s l = map_option (\<lambda>orders.
     [(''priceTicks'', JInt (pl_priceTicks (levels s l))),
      (''totalQuantity'', JInt (pl_totalQuantity (levels s l))),
      (''orderCount'', JInt (pl_orderCount (levels s l))),
      (''orders'', JArr (map JObj orders))]) (toArray s l)"

definition getBookSideRecoverySnapshot :: "OrderBook \<Rightarrow> (int, nat) jsmap \<Rightarrow> Side \<Rightarrow> jsobj list option" where
  "getBookSideRecoverySnapshot s bookSide side =
     map_option (sort_key (\<lambda>lv. rank side (int_of (getp lv ''priceTicks''))))
       (those (map (level_recovery s) (map_values bookSide)))"

definition toRecoverySnapshot :: "jsval \<Rightarrow> OrderBook \<Rightarrow> jsobj option" where
  "toRecoverySnapshot lastCommandStreamId s =
     (case getBookSideRecoverySnapshot s (ob_bids s) BUY of None \<Rightarrow> None
      | Some bids \<Rightarrow> (case getBookSideRecoverySnapshot s (ob_asks s) SELL of None \<Rightarrow> None
        | Some asks \<Rightarrow> Some
           [(''symbol'', JStr (ob_symbol s)),
            (''sequence'', JInt (ob_sequence s)),
            (''lastTradePriceTicks'', price_val (ob_lastTradePriceTicks s)),
            (''lastCommandStreamId'', lastCommandStreamId),
            (''bids'', JArr (map JObj bids)),
            (''asks'', JArr (map JObj asks)),
            (''stopOrders'', JArr (map (\<lambda>so. JObj (getStopOrderSnapshot so)) (map_values (ob_stopOrdersById s))))]))"

subsection \<open>Restoring a book\<close>

text \<open>The values \<^verbatim>\<open>for (const x of v)\<close> visits; a value that is not iterable throws.\<close>

definition js_iter :: "jsval \<Rightarrow> jsval list res" where
  "js_iter v = (case v of JArr vs \<Rightarrow> Inr vs | JStr cs \<Rightarrow> Inr (map (\<lambda>c. JStr [c]) cs) | _ \<Rightarrow> Inl TypeErr)"

text \<open>
  One order of a level.  A remaining quantity that is no integer is kept as \<open>0\<close>: \<^verbatim>\<open>append\<close>, the
  next thing to look at it, rejects both alike.
\<close>

definition restoreOrder :: "nat \<Rightarrow> jsval \<Rightarrow> unit bprog" where
  "restoreOrder priceLevel orderSnapshot =
    (if nullish orderSnapshot then throw TypeErr
     else (let o1 = props orderSnapshot; remaining = getp o1 ''remainingQuantity''
       in if \<not> truthy remaining \<or> num_le (to_number remaining) (Fin 0) then ret ()
          else bindE (liftE (new_OrderNode (spread o1 [(''quantity'', coalesce (getp o1 ''initialQuantity'') remaining)]))) (\<lambda>n.
               bindE (alloc_node (n\<lparr>on_remainingQuantity := int_of remaining,
                                   on_status := status_of (getp o1 ''status'')\<rparr>)) (\<lambda>orderNode.
               bindE (append_level priceLevel (Some orderNode)) (\<lambda>_.
               modify (\<lambda>s. s\<lparr>ob_ordersById := map_set (ob_ordersById s) (on_orderId (nodes s orderNode)) orderNode\<rparr>))))))"

fun restoreOrders :: "nat \<Rightarrow> jsval list \<Rightarrow> unit bprog" where
  "restoreOrders priceLevel [] = ret ()"
| "restoreOrders priceLevel (orderSnapshot # orders) =
     bindE (restoreOrder priceLevel orderSnapshot) (\<lambda>_. restoreOrders priceLevel orders)"

definition restoreLevel :: "Side \<Rightarrow> jsval \<Rightarrow> unit bprog" where
  "restoreLevel sd levelSnapshot =
    (if nullish levelSnapshot then throw TypeErr
     else bindE (liftE (new_PriceLevel (getp (props levelSnapshot) ''priceTicks''))) (\<lambda>lv.
          bindE (alloc_level lv) (\<lambda>priceLevel.
          bindE (liftE (js_iter (coalesce (getp (props levelSnapshot) ''orders'') (JArr [])))) (\<lambda>orders.
          bindE (restoreOrders priceLevel orders) (\<lambda>_.
          modify (\<lambda>s. if 0 < pl_orderCount (levels s priceLevel)
            then upd_side sd (\<lambda>m. map_set m (pl_priceTicks (levels s priceLevel)) priceLevel) s else s))))))"

fun restoreLevels :: "Side \<Rightarrow> jsval list \<Rightarrow> unit bprog" where
  "restoreLevels sd [] = ret ()"
| "restoreLevels sd (levelSnapshot # rest) = bindE (restoreLevel sd levelSnapshot) (\<lambda>_. restoreLevels sd rest)"

definition restoreBookSideFromRecoverySnapshot :: "Side \<Rightarrow> jsval \<Rightarrow> unit bprog" where
  "restoreBookSideFromRecoverySnapshot sd recorded = bindE (liftE (js_iter recorded)) (restoreLevels sd)"

text \<open>
  The stop orders are copied one by one.  (A string or an array in the place of a stop order
  would be copied as its indexed elements, which nothing reads; the copy here is empty.)
\<close>

definition restoreStop :: "jsval \<Rightarrow> unit bprog" where
  "restoreStop stopOrderSnapshot =
    (if nullish stopOrderSnapshot then throw TypeErr
     else modify (\<lambda>s. s\<lparr>ob_stopOrdersById := map_set (ob_stopOrdersById s)
            (getp (props stopOrderSnapshot) ''orderId'') (spread [] (props stopOrderSnapshot))\<rparr>))"

fun restoreStops :: "jsval list \<Rightarrow> unit bprog" where
  "restoreStops [] = ret ()"
| "restoreStops (stopOrderSnapshot # stops) = bindE (restoreStop stopOrderSnapshot) (\<lambda>_. restoreStops stops)"

text \<open>
  The sequence and the last trade price are integers in the book, and a snapshot this program
  wrote has integers there; a snapshot with another value there, which the code would copy
  unchecked, is read as having none.
\<close>

definition fromRecoverySnapshot :: "(nat \<Rightarrow> nat) \<Rightarrow> jsval \<Rightarrow> OrderBook res" where
  "fromRecoverySnapshot clock snap =
    (if nullish snap then Inl TypeErr
     else seqE (new_OrderBook clock (getp (props snap) ''symbol'')) (\<lambda>book.
       (case bindE (modify (\<lambda>s. s\<lparr>ob_sequence := int_of (coalesce (getp (props snap) ''sequence'') (JInt 0)),
                              ob_lastTradePriceTicks := as_integer (coalesce (getp (props snap) ''lastTradePriceTicks'') JNull)\<rparr>)) (\<lambda>_.
             bindE (restoreBookSideFromRecoverySnapshot BUY (coalesce (getp (props snap) ''bids'') (JArr []))) (\<lambda>_.
             bindE (restoreBookSideFromRecoverySnapshot SELL (coalesce (getp (props snap) ''asks'') (JArr []))) (\<lambda>_.
             bindE (liftE (js_iter (coalesce (getp (props snap) ''stopOrders'') (JArr [])))) restoreStops))) book of
          (Inl e, _) \<Rightarrow> Inl e
        | (Inr _, book') \<Rightarrow> Inr book')))"

subsection \<open>What a checkpoint contains\<close>

lemma those_map_Some: "(\<And>x. x \<in> set xs \<Longrightarrow> f x = Some (g x)) \<Longrightarrow> those (map f xs) = Some (map g xs)"
  by (induction xs) auto

text \<open>The level a list of orders is written as.\<close>

definition level_record :: "int \<Rightarrow> OrderNode list \<Rightarrow> jsobj" where
  "level_record p rs =
     [(''priceTicks'', JInt p), (''totalQuantity'', JInt (rem_sum rs)), (''orderCount'', JInt (int (length rs))),
      (''orders'', JArr (map (\<lambda>r. JObj (node_snapshot r)) rs))]"

definition side_blocks :: "Side \<Rightarrow> OrderBook \<Rightarrow> (int \<times> OrderNode list) list" where
  "side_blocks sd s = map (\<lambda>(p, l). (p, content s l)) (sorted_side sd s)"

lemma resting_blocks: "resting sd s = concat (map snd (side_blocks sd s))"
  by (simp add: resting_def side_blocks_def comp_def split_def)

lemma level_recovery_content:
  assumes ok: "links_ok s" and pl: "(p, l) \<in> set (side_map sd s)"
  shows "level_recovery s l = Some (level_record p (content s l))"
  using toArray_rep [OF level_okD(1) [OF ok pl]] level_okD(1,3) [OF ok pl]
  by (simp add: level_recovery_def level_record_def content_def level_rep_def comp_def)

lemma side_recovery:
  assumes ok: "links_ok s"
  shows "getBookSideRecoverySnapshot s (side_map sd s) sd =
    Some (map (\<lambda>(p, rs). level_record p rs) (side_blocks sd s))"
proof -
  let ?g = "\<lambda>x. level_record (fst x) (content s (snd x))"
  have "those (map (level_recovery s) (map_values (side_map sd s))) = Some (map ?g (side_map sd s))"
    using level_recovery_content [OF ok, of _ _ sd] by (simp add: map_values_def comp_def those_map_Some)
  moreover have "sort_key (\<lambda>lv. rank sd (int_of (getp lv ''priceTicks''))) (map ?g (side_map sd s)) =
      map ?g (sorted_side sd s)"
    by (simp add: sort_key_map sorted_side_def level_record_def split_def)
  ultimately show ?thesis
    by (simp add: getBookSideRecoverySnapshot_def side_blocks_def comp_def split_def)
qed

lemma toRecoverySnapshot_eq:
  assumes ok: "links_ok s"
  shows "toRecoverySnapshot i s = Some
     [(''symbol'', JStr (ob_symbol s)), (''sequence'', JInt (ob_sequence s)),
      (''lastTradePriceTicks'', price_val (ob_lastTradePriceTicks s)), (''lastCommandStreamId'', i),
      (''bids'', JArr (map (\<lambda>(p, rs). JObj (level_record p rs)) (side_blocks BUY s))),
      (''asks'', JArr (map (\<lambda>(p, rs). JObj (level_record p rs)) (side_blocks SELL s))),
      (''stopOrders'', JArr (map (\<lambda>so. JObj (getStopOrderSnapshot so)) (map_values (ob_stopOrdersById s))))]"
  using side_recovery [OF ok, of BUY] side_recovery [OF ok, of SELL]
  by (simp add: toRecoverySnapshot_def side_map_def comp_def split_def)

end
