(* ===== verification/RecoveryProofs.thy ===== *)
theory RecoveryProofs
  imports Recovery Replay
begin

text \<open>
  Restoring a checkpoint gives back the book: the priority lists, the stop orders, the last
  trade price and the counter are those of the book that was written, and the invariant
  holds.  A level is rebuilt apart from the book and joined to it when it is complete;
  \<open>building\<close> describes the state in between.
\<close>

subsection \<open>One order\<close>

text \<open>An order as it rests in a level, without its links.\<close>

definition at_rest :: "Side \<Rightarrow> string \<Rightarrow> int \<Rightarrow> OrderNode \<Rightarrow> bool" where
  "at_rest sd symb p n \<longleftrightarrow> node_ok n \<and> isActive n \<and> node_static n \<and> on_type n = LIMIT \<and> on_side n = sd \<and>
     on_symbol n = symb \<and> on_priceTicks n = Some p \<and>
     on_prev n = None \<and> on_next n = None \<and> on_priceLevel n = None"

lemma core_None: "core n = n \<longleftrightarrow> on_prev n = None \<and> on_next n = None \<and> on_priceLevel n = None"
  unfolding core_def by (metis (no_types, lifting) OrderNode.ext_inject OrderNode.surjective OrderNode.update_convs(11-13))

lemma at_rest_core: "at_rest sd symb p n \<Longrightarrow> core n = n"
  by (simp add: at_rest_def core_None)

lemma at_rest_rem: "at_rest sd symb p n \<Longrightarrow> 0 < on_remainingQuantity n"
  using live_rem [of undefined n] by (simp add: at_rest_def live_node_def)

lemma at_rest_price: "at_rest sd symb p n \<Longrightarrow> 0 < p"
  by (auto simp: at_rest_def node_static_def)

lemma snapshot_node:
  assumes "at_rest sd symb p n"
  shows "new_OrderNode (spread (node_snapshot n) [(''quantity'', JInt (on_initialQuantity n))]) =
    Inr (n\<lparr>on_remainingQuantity := on_initialQuantity n, on_status := OPEN\<rparr>)"
proof -
  let ?o = "spread (node_snapshot n) [(''quantity'', JInt (on_initialQuantity n))]"
  have get: "getp ?o ''orderId'' = JStr (on_orderId n)" "getp ?o ''userId'' = JStr (on_userId n)"
    "getp ?o ''symbol'' = JStr (on_symbol n)" "getp ?o ''side'' = side_val (on_side n)"
    "getp ?o ''type'' = type_val LIMIT" "getp ?o ''priceTicks'' = JInt p"
    "getp ?o ''timestamp'' = JInt (on_timestamp n)" "getp ?o ''quantity'' = JInt (on_initialQuantity n)"
    using assms by (simp_all add: node_snapshot_def at_rest_def price_val_def)
  have ok: "trim (on_orderId n) \<noteq> []" "trim (on_userId n) \<noteq> []" "trim (on_symbol n) \<noteq> []" "0 \<le> on_timestamp n"
    "0 < p" "0 < on_initialQuantity n" "on_priceTicks n = Some p" "on_type n = LIMIT"
    using assms by (auto simp: at_rest_def node_static_def node_ok_def)
  have links: "on_prev n = None" "on_next n = None" "on_priceLevel n = None"
    using assms by (simp_all add: at_rest_def)
  have eq: "dflt (JInt p) JNull = JInt p" "dflt (type_val LIMIT) (type_val LIMIT) = type_val LIMIT"
    "type_val LIMIT \<noteq> type_val MARKET"
    by (simp_all add: dflt_def)
  let ?i = "setp (setp ?o ''type'' (type_val LIMIT)) ''priceTicks'' (JInt p)"
  have get': "getp ?i ''orderId'' = JStr (on_orderId n)" "getp ?i ''userId'' = JStr (on_userId n)"
    "getp ?i ''symbol'' = JStr (on_symbol n)" "getp ?i ''side'' = side_val (on_side n)"
    "getp ?i ''type'' = type_val LIMIT" "getp ?i ''priceTicks'' = JInt p"
    "getp ?i ''timestamp'' = JInt (on_timestamp n)" "getp ?i ''quantity'' = JInt (on_initialQuantity n)"
    by (simp_all only: getp_setp get) simp_all
  have v: "valid_order_input ?i"
    unfolding valid_order_input_def get' eq using ok by (simp del: type_val.simps side_val.simps)
  show ?thesis
    unfolding new_OrderNode_Inr_eq get eq
  proof (rule conjI [OF v OrderNode.equality])
  qed (use ok links in \<open>simp_all del: type_val.simps side_val.simps\<close>)
qed

lemma status_restored: "node_ok n \<Longrightarrow> status_of (status_val (on_status n)) = on_status n"
  by (rule status_of_val) (auto simp: node_ok_def)

definition joined :: "nat \<Rightarrow> nat list \<Rightarrow> OrderNode \<Rightarrow> OrderBook \<Rightarrow> OrderBook" where
  "joined l as n s = s\<lparr>nodes := appended_nodes ((nodes s)(nextRef s := n)) l as (nextRef s),
     levels := (levels s)(l := appended_level (levels s l) as (nextRef s) (on_remainingQuantity n)),
     nextRef := Suc (nextRef s), ob_ordersById := map_set (ob_ordersById s) (on_orderId n) (nextRef s)\<rparr>"

lemma restoreOrder_eq:
  assumes rep: "level_rep (nodes s) l (levels s l) as" and new: "nextRef s \<notin> set as"
    and n: "at_rest sd symb (pl_priceTicks (levels s l)) n"
  shows "restoreOrder l (JObj (node_snapshot n)) s = (Inr (), joined l as n s)"
proof -
  let ?o = "node_snapshot n" and ?a = "nextRef s"
  let ?s = "s\<lparr>nodes := (nodes s)(?a := n), nextRef := Suc ?a\<rparr>"
  have pos: "0 < on_remainingQuantity n" by (rule at_rest_rem [OF n])
  have get: "getp ?o ''remainingQuantity'' = JInt (on_remainingQuantity n)"
    "getp ?o ''initialQuantity'' = JInt (on_initialQuantity n)" "getp ?o ''status'' = status_val (on_status n)"
    by (simp_all add: node_snapshot_def)
  have keep: "n\<lparr>on_remainingQuantity := on_initialQuantity n, on_status := OPEN,
      on_remainingQuantity := on_remainingQuantity n, on_status := on_status n\<rparr> = n" by simp
  have "level_rep (nodes ?s) l (levels ?s l) as"
    using rep new level_rep_cong [of as "nodes ?s" "nodes s" l "levels s l"] by force
  from append_level_eq [OF this new]
  have ap: "append_level l (Some ?a) ?s = (Inr (), ?s\<lparr>nodes := appended_nodes (nodes ?s) l as ?a,
      levels := (levels s)(l := appended_level (levels s l) as ?a (on_remainingQuantity n))\<rparr>)"
    using n pos by (simp add: appendable_def at_rest_def)
  have id: "on_orderId (appended_nodes ((nodes s)(?a := n)) l as ?a ?a) = on_orderId n" by simp
  show ?thesis
    using pos n status_restored [of n] unfolding restoreOrder_def nullish_def
    by (simp add: Let_def get coalesce_def nullish_def truthy_def snapshot_node [OF n] keep alloc_node_def bindE_def ap
        at_rest_def joined_def id del: spread_simps)
qed

subsection \<open>A level under construction\<close>

definition same_scalars :: "OrderBook \<Rightarrow> OrderBook \<Rightarrow> bool" where
  "same_scalars b s \<longleftrightarrow> ob_symbol s = ob_symbol b \<and> ob_bids s = ob_bids b \<and> ob_asks s = ob_asks b \<and>
     ob_stopOrdersById s = ob_stopOrdersById b \<and> ob_trades s = ob_trades b \<and>
     ob_lastTradePriceTicks s = ob_lastTradePriceTicks b \<and> ob_sequence s = ob_sequence b \<and>
     ob_clock s = ob_clock b \<and> ob_ticks s = ob_ticks b"

definition building :: "int \<Rightarrow> nat list \<Rightarrow> OrderNode list \<Rightarrow> OrderBook \<Rightarrow> OrderBook \<Rightarrow> bool" where
  "building p as rs b s \<longleftrightarrow> level_rep (nodes s) (nextRef b) (levels s (nextRef b)) as \<and>
     pl_priceTicks (levels s (nextRef b)) = p \<and> map (\<lambda>a. core (nodes s a)) as = rs \<and>
     (\<forall>a \<in> set as. nextRef b < a \<and> a < nextRef s) \<and> nextRef b < nextRef s \<and>
     (\<forall>a < nextRef b. nodes s a = nodes b a \<and> levels s a = levels b a) \<and>
     ob_ordersById s = ob_ordersById b @ zip (map on_orderId rs) as \<and> same_scalars b s"

lemma building_start:
  "building p [] [] b (b\<lparr>levels := (levels b)(nextRef b := fresh_level p), nextRef := Suc (nextRef b)\<rparr>)"
  by (simp add: building_def level_rep_def same_scalars_def) (simp add: fresh_level_def)

lemma building_length: "building p as rs b s \<Longrightarrow> length rs = length as"
  by (auto simp: building_def)

lemma building_step:
  assumes bl: "building p as rs b s" and n: "at_rest sd symb p n"
    and new: "on_orderId n \<notin> fst ` set (ob_ordersById s)"
  shows "building p (as @ [nextRef s]) (rs @ [n]) b (joined (nextRef b) as n s)"
proof -
  let ?l = "nextRef b" and ?a = "nextRef s" and ?s = "joined (nextRef b) as n s"
  let ?ns = "(nodes s)(nextRef s := n)"
  have out: "?a \<notin> set as" "?l < ?a" using bl by (auto simp: building_def)
  have rep: "level_rep ?ns ?l (levels s ?l) as"
    using bl out level_rep_cong [of as ?ns "nodes s" ?l "levels s ?l"] by (force simp: building_def)
  have ap: "appendable (levels s ?l) (?ns ?a)"
    using n at_rest_rem [OF n] bl by (simp add: appendable_def at_rest_def building_def)
  have e: "nodes ?s = appended_nodes ?ns ?l as ?a"
    "levels ?s ?l = appended_level (levels s ?l) as ?a (on_remainingQuantity (?ns ?a))"
    by (simp_all add: joined_def)
  have r: "level_rep (nodes ?s) ?l (levels ?s ?l) (as @ [?a])"
    unfolding e by (rule appended_rep [OF rep out(1) ap])
  have c: "map (\<lambda>a. core (nodes ?s a)) (as @ [?a]) = rs @ [n]"
    using bl out at_rest_core [OF n] by (auto simp: joined_def building_def)
  have low: "\<forall>a < ?l. nodes ?s a = nodes b a \<and> levels ?s a = levels b a"
  proof (intro allI impI)
    fix a assume a: "a < ?l"
    then have "a \<notin> set as" "a \<noteq> ?a" "a \<noteq> ?l" using bl out by (auto simp: building_def)
    then show "nodes ?s a = nodes b a \<and> levels ?s a = levels b a"
      using bl a by (simp add: joined_def building_def appended_other)
  qed
  have ids: "ob_ordersById ?s = ob_ordersById b @ zip (map on_orderId (rs @ [n])) (as @ [?a])"
    using map_set_fresh [OF new, of ?a] bl building_length [OF bl] by (simp add: joined_def building_def)
  have "same_scalars b ?s" using bl by (simp add: building_def same_scalars_def joined_def)
  then show ?thesis
    using bl r c low ids out by (simp add: building_def) (auto simp: joined_def)
qed


subsection \<open>A complete level joins the book\<close>

definition opened :: "Side \<Rightarrow> int \<Rightarrow> OrderBook \<Rightarrow> OrderBook \<Rightarrow> OrderBook" where
  "opened sd p b s = upd_side sd (\<lambda>m. map_set m p (nextRef b)) s"

lemma opened_sel [simp]:
  "nodes (opened sd p b s) = nodes s" "levels (opened sd p b s) = levels s" "nextRef (opened sd p b s) = nextRef s"
  "ob_symbol (opened sd p b s) = ob_symbol s" "ob_ordersById (opened sd p b s) = ob_ordersById s"
  "ob_stopOrdersById (opened sd p b s) = ob_stopOrdersById s" "ob_trades (opened sd p b s) = ob_trades s"
  "ob_lastTradePriceTicks (opened sd p b s) = ob_lastTradePriceTicks s" "ob_sequence (opened sd p b s) = ob_sequence s"
  "ob_clock (opened sd p b s) = ob_clock s" "ob_ticks (opened sd p b s) = ob_ticks s"
  by (cases sd; simp add: opened_def upd_side_def)+

text \<open>The book a level joins: the level is worse than every level already there.\<close>

definition joinable :: "Side \<Rightarrow> int \<Rightarrow> OrderNode list \<Rightarrow> OrderBook \<Rightarrow> bool" where
  "joinable sd p rs b \<longleftrightarrow> links_ok b \<and> (\<forall>(p', l) \<in> set (side_map sd b). rank sd p' < rank sd p) \<and> rs \<noteq> [] \<and>
     (\<forall>n \<in> set rs. at_rest sd (ob_symbol b) p n) \<and> distinct (map on_orderId rs) \<and>
     set (map on_orderId rs) \<inter> fst ` set (ob_ordersById b) = {}"

lemma opened_side:
  assumes "building p as rs b s" "joinable sd p rs b"
  shows "side_map sd' (opened sd p b s) = (if sd' = sd then side_map sd b @ [(p, nextRef b)] else side_map sd' b)"
proof -
  have "p \<notin> fst ` set (side_map sd b)" using assms(2) by (auto simp: joinable_def)
  then have "map_set (side_map sd b) p (nextRef b) = side_map sd b @ [(p, nextRef b)]" by (rule map_set_fresh)
  then show ?thesis
    using assms(1) by (cases sd; cases sd') (auto simp: opened_def upd_side_def side_map_def building_def same_scalars_def)
qed

lemma opened_addrs:
  assumes bl: "building p as rs b s" and ok: "links_ok b"
  shows "level_addrs (opened sd p b s) (nextRef b) = as"
    "(p', l) \<in> set (side_map sd' b) \<Longrightarrow> level_addrs (opened sd p b s) l = level_addrs b l \<and>
       level_rep (nodes s) l (levels s l) (level_addrs b l) \<and> levels s l = levels b l"
    "(p', l) \<in> set (side_map sd' b) \<Longrightarrow> a \<in> set (level_addrs b l) \<Longrightarrow> nodes s a = nodes b a \<and> a < nextRef b"
proof -
  show "level_addrs (opened sd p b s) (nextRef b) = as"
    using bl level_addrs_rep [of "opened sd p b s" "nextRef b" as] by (simp add: building_def)
  show A: "nodes s a = nodes b a \<and> a < nextRef b" if "(p', l) \<in> set (side_map sd' b)" "a \<in> set (level_addrs b l)" for p' l sd' a
    using level_okD(6) [OF ok that] bl by (simp add: member_ok_def building_def)
  assume pl: "(p', l) \<in> set (side_map sd' b)"
  have l: "levels s l = levels b l" using level_okD(5) [OF ok pl] bl by (simp add: building_def)
  have "level_rep (nodes s) l (levels s l) (level_addrs b l)"
    using level_okD(1) [OF ok pl] level_rep_cong [of "level_addrs b l" "nodes s" "nodes b"] A [OF pl] l by simp
  then show "level_addrs (opened sd p b s) l = level_addrs b l \<and>
       level_rep (nodes s) l (levels s l) (level_addrs b l) \<and> levels s l = levels b l"
    using l level_addrs_rep [of "opened sd p b s" l "level_addrs b l"] by simp
qed

lemma building_nth:
  assumes "building p as rs b s" "a \<in> set as"
  shows "\<exists>n \<in> set rs. core (nodes s a) = n \<and> (on_orderId n, a) \<in> set (zip (map on_orderId rs) as)"
proof -
  have rs: "rs = map (\<lambda>a. core (nodes s a)) as" using assms(1) by (simp add: building_def)
  have "zip (map on_orderId rs) as = map (\<lambda>a. (on_orderId (nodes s a), a)) as"
    unfolding rs by (induction as) simp_all
  then show ?thesis using assms(2) rs by auto
qed

lemma opened_links:
  assumes bl: "building p as rs b s" and j: "joinable sd p rs b"
  shows "links_ok (opened sd p b s)"
proof (rule links_okI)
  let ?s = "opened sd p b s"
  have ok: "links_ok b" using j by (simp add: joinable_def)
  note sm = opened_side [OF bl j]
  have new: "p \<notin> fst ` set (side_map sd b)" using j by (auto simp: joinable_def)
  have low: "l < nextRef b" if "(p', l) \<in> set (side_map sd' b)" for p' l sd' by (rule level_okD(5) [OF ok that])
  have wf: "map_wf (side_map sd' ?s)" for sd' using side_map_wf [OF ok, of sd'] new by (auto simp: sm)
  show wfs: "map_wf (ob_bids ?s)" "map_wf (ob_asks ?s)"
    using wf [of BUY] wf [of SELL] by (simp_all only: side_map_def Side.case)
  have inj: "sd1 = sd2 \<and> p1 = p2"
    if "(p1, l') \<in> set (side_map sd1 ?s)" "(p2, l') \<in> set (side_map sd2 ?s)" for sd1 sd2 p1 p2 l'
    using that low [of p1 l' sd1] low [of p2 l' sd2] level_unique [OF ok, of p1 l' sd1 p2 sd2]
    by (auto simp: sm split: if_splits)
  have "distinct (levels_of ?s)" using wfs by (auto simp: levels_of_def distinct_map inj_on_def)
  moreover have "inj_on (snd \<circ> snd) (set (levels_of ?s))" using inj by (auto intro!: inj_onI simp: levels_of_iff)
  ultimately show "distinct (map (snd \<circ> snd) (levels_of ?s))" by (simp add: distinct_map)
  have ids: "ob_ordersById ?s = ob_ordersById b @ zip (map on_orderId rs) as" using bl by (simp add: building_def)
  have "map fst (ob_ordersById ?s) = map fst (ob_ordersById b) @ map on_orderId rs"
    unfolding ids using building_length [OF bl] by simp
  then show wfi: "map_wf (ob_ordersById ?s)"
    using ok j by (simp add: links_ok_but_def joinable_def Int_commute)
  have get: "map_get (ob_ordersById ?s) i = Some a" if "(i, a) \<in> set (ob_ordersById ?s)" for i a
    using map_get_iff [OF wfi] that by simp
  have scal: "ob_symbol s = ob_symbol b" using bl by (simp add: building_def same_scalars_def)
  show "level_ok {} ?s (sd', p', l)" if pl: "(p', l) \<in> set (side_map sd' ?s)" for sd' p' l
  proof (cases "l = nextRef b")
    case True
    then have e: "sd' = sd" "p' = p" using pl low by (auto simp: sm split: if_splits)
    have "member_ok {} ?s sd a" if a: "a \<in> set as" for a
    proof -
      obtain n where n: "n \<in> set rs" "core (nodes s a) = n" "(on_orderId n, a) \<in> set (zip (map on_orderId rs) as)"
        using building_nth [OF bl a] by blast
      have "at_rest sd (ob_symbol b) p n" using j n(1) by (simp add: joinable_def)
      moreover have "map_get (ob_ordersById ?s) (on_orderId n) = Some a" using get n(3) by (simp only: ids) simp
      moreover have "a < nextRef s" using bl a by (simp add: building_def)
      ultimately show ?thesis using scal unfolding n(2) [symmetric] by (simp add: member_ok_def at_rest_def live_node_def)
    qed
    moreover have "0 < p"
      using j at_rest_price [of sd "ob_symbol b" p "hd rs"] by (simp add: joinable_def)
    moreover have "as \<noteq> []" using j building_length [OF bl] by (auto simp: joinable_def)
    ultimately show ?thesis
      using bl opened_addrs(1) [OF bl ok] by (simp add: level_ok_def True e building_def)
  next
    case False
    then have pb: "(p', l) \<in> set (side_map sd' b)" using pl by (auto simp: sm split: if_splits)
    have "member_ok {} ?s sd' a" if a: "a \<in> set (level_addrs b l)" for a
    proof -
      have m: "member_ok {} b sd' a" by (rule level_okD(6) [OF ok pb a])
      moreover have "map_get (ob_ordersById ?s) (on_orderId (nodes b a)) = Some a"
        by (rule get) (use m in \<open>simp only: ids, simp add: member_ok_def map_get_Some_in\<close>)
      moreover have "nextRef b < nextRef s" using bl by (simp add: building_def)
      ultimately show ?thesis
        using opened_addrs(3) [OF bl ok pb a] scal by (simp add: member_ok_def live_node_def)
    qed
    then show ?thesis
      using level_okD [OF ok pb] opened_addrs(2) [OF bl ok pb, of sd] bl by (simp add: level_ok_def building_def)
  qed
  show "indexed ?s (i, a)" if "(i, a) \<in> set (ob_ordersById ?s)" for i a
  proof -
    from that consider "(i, a) \<in> set (ob_ordersById b)" | "(i, a) \<in> set (zip (map on_orderId rs) as)"
      unfolding ids by auto
    then show ?thesis
    proof cases
      case 1
      obtain sd' p' l where x: "on_orderId (nodes b a) = i" "(p', l) \<in> set (side_map sd' b)" "a \<in> set (level_addrs b l)"
        by (rule indexedE [OF ok 1])
      show ?thesis
        by (rule indexedI [of _ _ _ p' l sd'])
          (use x opened_addrs(2) [OF bl ok x(2), of sd] opened_addrs(3) [OF bl ok x(2,3)] in \<open>auto simp: sm\<close>)
    next
      case 2
      have rs: "rs = map (\<lambda>a. core (nodes s a)) as" using bl by (simp add: building_def)
      have "zip (map on_orderId rs) as = map (\<lambda>a. (on_orderId (nodes s a), a)) as"
        unfolding rs by (induction as) simp_all
      then have "a \<in> set as" "on_orderId (nodes s a) = i" using 2 by auto
      then show ?thesis
        by (intro indexedI [of _ _ _ p "nextRef b" sd]) (simp_all add: sm opened_addrs(1) [OF bl ok])
    qed
  qed
qed

lemma opened_resting:
  assumes bl: "building p as rs b s" and j: "joinable sd p rs b"
  shows "resting sd (opened sd p b s) = resting sd b @ rs"
    "sd' \<noteq> sd \<Longrightarrow> resting sd' (opened sd p b s) = resting sd' b"
proof -
  let ?s = "opened sd p b s"
  have ok: "links_ok b" using j by (simp add: joinable_def)
  note sm = opened_side [OF bl j]
  have old: "content ?s l = content b l" if "(p', l) \<in> set (side_map sd' b)" for p' l sd'
    using opened_addrs(2,3) [OF bl ok that] by (simp add: content_def)
  have new: "content ?s (nextRef b) = rs"
    using bl opened_addrs(1) [OF bl ok] by (simp add: content_def building_def)
  have "sorted_side sd ?s = sorted_side sd b @ [(p, nextRef b)]"
  proof (rule sorted_key_unique [of "\<lambda>x. rank sd (fst x)"])
    have r: "rank sd (fst x) < rank sd p" if "x \<in> set (sorted_side sd b)" for x
      using j that by (auto simp: joinable_def)
    show "sorted (map (\<lambda>x. rank sd (fst x)) (sorted_side sd ?s))" by (simp add: sorted_side_def split_def)
    show "sorted (map (\<lambda>x. rank sd (fst x)) (sorted_side sd b @ [(p, nextRef b)]))"
      using r by (auto simp: sorted_append less_imp_le) (simp add: sorted_side_def split_def)
    have inj: "distinct (map fst xs) \<Longrightarrow> distinct (map (\<lambda>x. rank sd (fst x)) xs)" for xs :: "(int \<times> nat) list"
      by (simp add: distinct_map inj_on_def)
    show "distinct (map (\<lambda>x. rank sd (fst x)) (sorted_side sd ?s))"
      by (rule inj, rule sorted_side_distinct(1) [OF opened_links [OF bl j]])
    show "distinct (map (\<lambda>x. rank sd (fst x)) (sorted_side sd b @ [(p, nextRef b)]))"
      using inj [OF sorted_side_distinct(1) [OF ok, of sd]] r by (fastforce dest: r)
  qed (simp add: sm)
  moreover have "map (\<lambda>(p, l). content ?s l) (sorted_side sd b) = map (\<lambda>(p, l). content b l) (sorted_side sd b)"
    using old by (intro map_cong) auto
  ultimately show "resting sd ?s = resting sd b @ rs" unfolding resting_def by (simp only: map_append concat_append) (simp add: new)
  show "resting sd' ?s = resting sd' b" if "sd' \<noteq> sd"
    using that old by (intro resting_cong) (simp_all add: sm)
qed


subsection \<open>One level and one side\<close>

lemma restoreOrders_eq:
  assumes "building p as rs b s" "\<And>n. n \<in> set ns \<Longrightarrow> at_rest sd symb p n"
    and "distinct (map on_orderId (rs @ ns))" "set (map on_orderId ns) \<inter> fst ` set (ob_ordersById b) = {}"
  shows "\<exists>as' s'. restoreOrders (nextRef b) (map (\<lambda>n. JObj (node_snapshot n)) ns) s = (Inr (), s') \<and>
    building p as' (rs @ ns) b s'"
  using assms
proof (induction ns arbitrary: as rs s)
  case (Cons n ns)
  have n: "at_rest sd symb p n" using Cons.prems(2) by simp
  have keys: "fst ` set (ob_ordersById s) = fst ` set (ob_ordersById b) \<union> on_orderId ` set rs"
  proof -
    have "map fst (ob_ordersById s) = map fst (ob_ordersById b) @ map on_orderId rs"
      using Cons.prems(1) building_length [OF Cons.prems(1)] by (simp add: building_def)
    from arg_cong [OF this, of set] show ?thesis by simp
  qed
  have new: "on_orderId n \<notin> fst ` set (ob_ordersById s)" unfolding keys using Cons.prems(3,4) by auto
  have "restoreOrder (nextRef b) (JObj (node_snapshot n)) s = (Inr (), joined (nextRef b) as n s)"
    by (rule restoreOrder_eq [where sd = sd and symb = symb]) (use Cons.prems(1) n in \<open>auto simp: building_def\<close>)
  moreover obtain as' s' where "restoreOrders (nextRef b) (map (\<lambda>n. JObj (node_snapshot n)) ns) (joined (nextRef b) as n s) = (Inr (), s')"
    "building p as' ((rs @ [n]) @ ns) b s'"
    using Cons.IH [OF building_step [OF Cons.prems(1) n new]] Cons.prems(2-4) by auto
  ultimately show ?case by (auto simp: bindE_def)
qed auto

text \<open>A side of a book to which levels are added, from best to worst.\<close>

definition grown :: "Side \<Rightarrow> (int \<times> OrderNode list) list \<Rightarrow> OrderBook \<Rightarrow> OrderBook \<Rightarrow> bool" where
  "grown sd blocks b s \<longleftrightarrow> links_ok s \<and> resting sd s = resting sd b @ concat (map snd blocks) \<and>
     resting (opp sd) s = resting (opp sd) b \<and>
     map fst (ob_ordersById s) = map fst (ob_ordersById b) @ map on_orderId (concat (map snd blocks)) \<and>
     map fst (side_map sd s) = map fst (side_map sd b) @ map fst blocks \<and>
     map fst (side_map (opp sd) s) = map fst (side_map (opp sd) b) \<and>
     ob_symbol s = ob_symbol b \<and> ob_stopOrdersById s = ob_stopOrdersById b \<and>
     ob_lastTradePriceTicks s = ob_lastTradePriceTicks b \<and> ob_sequence s = ob_sequence b"

lemma restoreLevel_eq:
  assumes j: "joinable sd p rs b"
  shows "\<exists>s. restoreLevel sd (JObj (level_record p rs)) b = (Inr (), s) \<and> grown sd [(p, rs)] b s"
proof -
  let ?l = "nextRef b"
  let ?b = "b\<lparr>levels := (levels b)(?l := fresh_level p), nextRef := Suc ?l\<rparr>"
  have p: "0 < p" using j at_rest_price [of sd "ob_symbol b" p "hd rs"] by (simp add: joinable_def)
  have lv: "new_PriceLevel (JInt p) = Inr (fresh_level p)"
    using new_PriceLevel_ok [OF p] by (simp add: price_val_def)
  have get: "getp (level_record p rs) ''priceTicks'' = JInt p"
    "getp (level_record p rs) ''orders'' = JArr (map (\<lambda>n. JObj (node_snapshot n)) rs)"
    by (simp_all add: level_record_def)
  obtain as s where run: "restoreOrders ?l (map (\<lambda>n. JObj (node_snapshot n)) rs) ?b = (Inr (), s)"
    and "building p as ([] @ rs) b s"
    using restoreOrders_eq [OF building_start [of p b], where ns = rs and sd = sd and symb = "ob_symbol b"] j by (auto simp: joinable_def)
  then have bl: "building p as rs b s" by simp
  have "0 < length as" using j building_length [OF bl] by (auto simp: joinable_def)
  then have "0 < pl_orderCount (levels s ?l)" "pl_priceTicks (levels s ?l) = p"
    using bl by (simp_all add: building_def level_rep_def)
  then have "restoreLevel sd (JObj (level_record p rs)) b = (Inr (), opened sd p b s)"
    using run by (simp add: restoreLevel_def nullish_def get lv alloc_level_def bindE_def coalesce_def js_iter_def opened_def)
  moreover have "grown sd [(p, rs)] b (opened sd p b s)"
    using opened_links [OF bl j] opened_resting [OF bl j] opened_side [OF bl j] building_length [OF bl] bl
    by (simp add: grown_def) (simp add: building_def same_scalars_def)
  ultimately show ?thesis by blast
qed

lemma joinableD:
  assumes "joinable sd p rs b" "grown sd [(p, rs)] b s" "joinable sd p' rs' b"
    "rank sd p < rank sd p'" "set (map on_orderId rs) \<inter> set (map on_orderId rs') = {}"
  shows "joinable sd p' rs' s"
proof -
  have m: "map fst (side_map sd s) = map fst (side_map sd b) @ [p]"
    "map fst (ob_ordersById s) = map fst (ob_ordersById b) @ map on_orderId rs"
    using assms(2) by (simp_all add: grown_def)
  have k1: "rank sd q < rank sd p'" if q: "q \<in> fst ` set (side_map sd s)" for q
  proof -
    have "q = p \<or> q \<in> fst ` set (side_map sd b)" using q arg_cong [OF m(1), of set] by auto
    then show ?thesis using assms(3,4) by (auto simp: joinable_def)
  qed
  have "fst ` set (ob_ordersById s) = fst ` set (ob_ordersById b) \<union> set (map on_orderId rs)"
    using arg_cong [OF m(2), of set] by simp
  moreover have "set (map on_orderId rs') \<inter> fst ` set (ob_ordersById b) = {}"
    using assms(3) unfolding joinable_def by blast
  ultimately have k2: "set (map on_orderId rs') \<inter> fst ` set (ob_ordersById s) = {}" using assms(5) by blast
  have "\<forall>(q, l) \<in> set (side_map sd s). rank sd q < rank sd p'"
  proof clarify
    fix q l assume "(q, l) \<in> set (side_map sd s)"
    then have "q \<in> fst ` set (side_map sd s)" by force
    then show "rank sd q < rank sd p'" by (rule k1)
  qed
  then show ?thesis using k2 assms(2,3) by (simp add: joinable_def grown_def)
qed

lemma restoreLevels_eq:
  assumes "links_ok b" "\<And>p rs. (p, rs) \<in> set blocks \<Longrightarrow> joinable sd p rs b"
    and "sorted_wrt (<) (map (\<lambda>x. rank sd (fst x)) blocks)" "distinct (map on_orderId (concat (map snd blocks)))"
  shows "\<exists>s. restoreLevels sd (map (\<lambda>(p, rs). JObj (level_record p rs)) blocks) b = (Inr (), s) \<and> grown sd blocks b s"
  using assms
proof (induction blocks arbitrary: b)
  case Nil
  then show ?case by (simp add: grown_def)
next
  case (Cons x blocks)
  obtain p rs where x: "x = (p, rs)" by (cases x)
  have j: "joinable sd p rs b" using Cons.prems(2) x by simp
  obtain s where s: "restoreLevel sd (JObj (level_record p rs)) b = (Inr (), s)" "grown sd [(p, rs)] b s"
    using restoreLevel_eq [OF j] by blast
  have "joinable sd p' rs' s" if y: "(p', rs') \<in> set blocks" for p' rs'
  proof (rule joinableD [OF j s(2)])
    show "joinable sd p' rs' b" using Cons.prems(2) y by simp
    show "rank sd p < rank sd p'" using Cons.prems(3) y x by force
    show "set (map on_orderId rs) \<inter> set (map on_orderId rs') = {}" using Cons.prems(4) y x by fastforce
  qed
  moreover have "links_ok s" using s(2) by (simp add: grown_def)
  ultimately obtain s' where s': "restoreLevels sd (map (\<lambda>(p, rs). JObj (level_record p rs)) blocks) s = (Inr (), s')"
    "grown sd blocks s s'"
    using Cons.IH [of s] Cons.prems(3,4) by auto
  then show ?case using s x by (auto simp: bindE_def grown_def)
qed


subsection \<open>The levels survive the JSON text\<close>

lemma plain_node:
  assumes "node_ok n" shows "json_clean (JObj (node_snapshot n)) = JObj (node_snapshot n)"
proof -
  have v: "json_plain (side_val sd) \<and> side_val sd \<noteq> JUndef" "json_plain (type_val t) \<and> type_val t \<noteq> JUndef"
    "json_plain (price_val q) \<and> price_val q \<noteq> JUndef" for sd t q
    by (cases sd; simp) ((cases t; simp), (cases q; simp add: price_val_def))
  have "json_plain (status_val (on_status n))" "status_val (on_status n) \<noteq> JUndef"
    using assms by (auto simp: node_ok_def)
  then show ?thesis
    unfolding json_clean_obj using v by (intro arg_cong [of _ _ JObj] clean_props_id)
      (simp_all add: node_snapshot_def not_sym [of _ JUndef])
qed

lemma plain_level:
  assumes "\<And>n. n \<in> set rs \<Longrightarrow> node_ok n"
  shows "json_clean (JObj (level_record p rs)) = JObj (level_record p rs)"
proof -
  have "json_plain (JArr (map (\<lambda>r. JObj (node_snapshot r)) rs))"
    using plain_node assms by (simp add: json_plain_def)
  then show ?thesis
    unfolding json_clean_obj by (intro arg_cong [of _ _ JObj] clean_props_id) (simp_all add: level_record_def)
qed

lemma plain_levels:
  assumes "\<And>p rs n. (p, rs) \<in> set blocks \<Longrightarrow> n \<in> set rs \<Longrightarrow> node_ok n"
  shows "json_clean (JArr (map (\<lambda>(p, rs). JObj (level_record p rs)) blocks)) =
    JArr (map (\<lambda>(p, rs). JObj (level_record p rs)) blocks)"
  using plain_level assms by fastforce

lemma block_rests:
  assumes ok: "links_ok s" and x: "(p, rs) \<in> set (side_blocks sd s)"
  shows "rs \<noteq> []" "n \<in> set rs \<Longrightarrow> at_rest sd (ob_symbol s) p n"
proof -
  obtain l where l: "(p, l) \<in> set (side_map sd s)" "rs = content s l" using x by (auto simp: side_blocks_def)
  show "rs \<noteq> []" using level_okD(2) [OF ok l(1)] l(2) by (simp add: content_def)
next
  obtain l where l: "(p, l) \<in> set (side_map sd s)" "rs = content s l" using x by (auto simp: side_blocks_def)
  assume "n \<in> set rs"
  then obtain a where a: "a \<in> set (level_addrs s l)" "n = core (nodes s a)" using l(2) by (auto simp: content_def)
  show "at_rest sd (ob_symbol s) p n"
    using level_member(2,3) [OF ok l(1) a(1)] a(2)
    by (simp add: at_rest_def member_ok_def live_node_def)
qed

lemma block_order:
  assumes ok: "links_ok s"
  shows "sorted_wrt (<) (map (\<lambda>x. rank sd (fst x)) (side_blocks sd s))"
proof -
  let ?ks = "map (\<lambda>x. rank sd (fst x)) (sorted_side sd s)"
  have "sorted ?ks" by (simp add: sorted_side_def split_def)
  moreover have "distinct ?ks"
    using sorted_side_distinct(1) [OF ok, of sd] by (simp add: distinct_map inj_on_def)
  ultimately have "sorted_wrt (<) ?ks" by (simp add: strict_sorted_iff)
  then show ?thesis by (simp add: side_blocks_def comp_def split_def)
qed

subsection \<open>The stop orders\<close>

lemma setp_fresh: "k \<notin> fst ` set ps \<Longrightarrow> setp ps k v = ps @ [(k, v)]"
  by (induction ps k v rule: setp.induct) auto

lemma spread_append: "distinct (map fst (a @ b)) \<Longrightarrow> spread a b = a @ b"
proof (induction b arbitrary: a)
  case (Cons x b)
  then show ?case using setp_fresh [of "fst x" a "snd x"] by (cases x) auto
qed simp

definition restored_stop :: "jsobj \<Rightarrow> jsobj" where
  "restored_stop so = clean_props (getStopOrderSnapshot so)"

lemma snapshot_keys: "distinct (map fst (getStopOrderSnapshot so))"
  by (simp add: getStopOrderSnapshot_def)

lemma plain_snapshot: "plain_props so \<Longrightarrow> plain_props (getStopOrderSnapshot so)"
  using plain_getp [of so] by (simp add: getStopOrderSnapshot_def coalesce_def)

lemma restored_get: "plain_props so \<Longrightarrow> getp (restored_stop so) k = getp (getStopOrderSnapshot so) k"
  unfolding restored_stop_def by (rule plain_getp_clean [OF snapshot_keys plain_snapshot])

lemma restored_snapshot:
  assumes "plain_props so" shows "getStopOrderSnapshot (restored_stop so) = getStopOrderSnapshot so"
  using snapshot_cong [of "restored_stop so" "getStopOrderSnapshot so"] restored_get [OF assms] snapshot_idem by simp

lemma restored_ok:
  assumes "stop_ok k so" shows "stop_ok k (restored_stop so)"
proof -
  have p: "plain_props so" using assms by (simp add: stop_ok_def)
  have "plain_props (restored_stop so)"
    unfolding restored_stop_def by (intro plain_clean plain_snapshot p)
  then show ?thesis
    using assms trailing_snapshot [of so] by (simp add: stop_ok_def trailing_fields_def restored_get [OF p] snapshot_reads)
qed

lemma restoreStops_eq:
  assumes "map_wf (ob_stopOrdersById s @ kvs)" "\<And>k so. (k, so) \<in> set kvs \<Longrightarrow> stop_ok k so"
  shows "restoreStops (map (\<lambda>x. JObj (restored_stop (snd x))) kvs) s =
    (Inr (), s\<lparr>ob_stopOrdersById := ob_stopOrdersById s @ map (\<lambda>(k, so). (k, restored_stop so)) kvs\<rparr>)"
  using assms
proof (induction kvs arbitrary: s)
  case (Cons x kvs)
  obtain k so where x: "x = (k, so)" by (cases x)
  have st: "stop_ok k so" using Cons.prems(2) x by simp
  then have p: "plain_props so" and id: "getp so ''orderId'' = k" by (simp_all add: stop_ok_def)
  have new: "k \<notin> fst ` set (ob_stopOrdersById s)" using Cons.prems(1) x by auto
  have get: "getp (restored_stop so) ''orderId'' = k" using id by (simp add: restored_get [OF p] snapshot_reads)
  have "distinct (map fst (restored_stop so))"
    using snapshot_keys [of so] by (simp add: restored_stop_def clean_props_def comp_def distinct_map_filter)
  then have cp: "spread [] (restored_stop so) = restored_stop so" using spread_append [of "[]"] by simp
  let ?s = "s\<lparr>ob_stopOrdersById := ob_stopOrdersById s @ [(k, restored_stop so)]\<rparr>"
  have "restoreStop (JObj (restored_stop so)) s = (Inr (), ?s)"
    by (simp add: restoreStop_def nullish_def get cp map_set_fresh [OF new])
  moreover have "restoreStops (map (\<lambda>x. JObj (restored_stop (snd x))) kvs) ?s =
      (Inr (), ?s\<lparr>ob_stopOrdersById := ob_stopOrdersById ?s @ map (\<lambda>(k, so). (k, restored_stop so)) kvs\<rparr>)"
    using Cons.IH [of ?s] Cons.prems x by simp
  ultimately show ?case by (simp add: bindE_def x)
qed simp


subsection \<open>The whole book\<close>

lemma grown_side:
  assumes ok: "links_ok s" and b: "links_ok b" "ob_symbol b = ob_symbol s" "side_map sd b = []"
    and new: "set (map on_orderId (resting sd s)) \<inter> fst ` set (ob_ordersById b) = {}"
  shows "\<exists>t. restoreBookSideFromRecoverySnapshot sd
      (JArr (map (\<lambda>(p, rs). JObj (level_record p rs)) (side_blocks sd s))) b = (Inr (), t) \<and>
    grown sd (side_blocks sd s) b t"
proof -
  have j: "joinable sd p rs b" if x: "(p, rs) \<in> set (side_blocks sd s)" for p rs
  proof -
    have sub: "set rs \<subseteq> set (resting sd s)" using x by (auto simp: resting_blocks)
    have "distinct (map on_orderId (concat (map snd (side_blocks sd s))))"
      using resting_ids_distinct [OF ok, of sd] by (simp only: resting_blocks)
    then have "distinct (map on_orderId rs)" using split_list [OF x] by auto
    then show ?thesis using block_rests [OF ok x] b new sub by (auto simp: joinable_def)
  qed
  have "distinct (map on_orderId (concat (map snd (side_blocks sd s))))"
    using resting_ids_distinct [OF ok, of sd] by (simp only: resting_blocks)
  from restoreLevels_eq [OF b(1) j block_order [OF ok] this]
  show ?thesis by (simp add: restoreBookSideFromRecoverySnapshot_def js_iter_def)
qed

lemma sides_disjoint:
  assumes ok: "links_ok s"
  shows "set (map on_orderId (resting BUY s)) \<inter> set (map on_orderId (resting SELL s)) = {}"
proof -
  have "map_get (ob_ordersById s) (on_orderId n) = Some a \<Longrightarrow> True" for n a ..
  have "a = b" if "(p, l) \<in> set (side_map BUY s)" "a \<in> set (level_addrs s l)" "(q, k) \<in> set (side_map SELL s)"
    "b \<in> set (level_addrs s k)" "on_orderId (nodes s a) = on_orderId (nodes s b)" for p l a q k b
    using level_member(3) [OF ok that(1,2)] level_member(3) [OF ok that(3,4)] that(5) by (simp add: member_ok_def)
  moreover have "on_side (nodes s a) = BUY" if "(p, l) \<in> set (side_map BUY s)" "a \<in> set (level_addrs s l)" for p l a
    using level_member(3) [OF ok that] by (simp add: member_ok_def)
  moreover have "on_side (nodes s a) = SELL" if "(p, l) \<in> set (side_map SELL s)" "a \<in> set (level_addrs s l)" for p l a
    using level_member(3) [OF ok that] by (simp add: member_ok_def)
  ultimately show ?thesis by (fastforce simp: resting_member)
qed

lemma stored_ids:
  assumes ok: "links_ok s"
  shows "fst ` set (ob_ordersById s) = set (map on_orderId (resting BUY s)) \<union> set (map on_orderId (resting SELL s))"
proof -
  have "i \<in> fst ` set (ob_ordersById s) \<longleftrightarrow> (\<exists>sd. i \<in> on_orderId ` set (resting sd s))" for i
  proof
    assume "i \<in> fst ` set (ob_ordersById s)"
    then obtain a where "(i, a) \<in> set (ob_ordersById s)" by auto
    from indexedE [OF ok this] obtain sd p l where x: "on_orderId (nodes s a) = i"
      "(p, l) \<in> set (side_map sd s)" "a \<in> set (level_addrs s l)" by blast
    then have "core (nodes s a) \<in> set (resting sd s)" unfolding resting_member by blast
    then have "on_orderId (core (nodes s a)) \<in> on_orderId ` set (resting sd s)" by (rule imageI)
    then show "\<exists>sd. i \<in> on_orderId ` set (resting sd s)" using x(1) by auto
  next
    assume "\<exists>sd. i \<in> on_orderId ` set (resting sd s)"
    then obtain sd p l a where "(p, l) \<in> set (side_map sd s)" "a \<in> set (level_addrs s l)" "i = on_orderId (nodes s a)"
      by (auto simp: resting_member)
    with level_member(3) [OF ok this(1,2)] show "i \<in> fst ` set (ob_ordersById s)"
      by (auto simp: member_ok_def dest!: map_get_Some_in intro: rev_image_eqI)
  qed
  moreover have "(\<exists>sd. P sd) \<longleftrightarrow> P BUY \<or> P SELL" for P by (metis Side.exhaust)
  ultimately have "i \<in> fst ` set (ob_ordersById s) \<longleftrightarrow>
      i \<in> on_orderId ` set (resting BUY s) \<or> i \<in> on_orderId ` set (resting SELL s)" for i by simp
  then show ?thesis unfolding set_map by blast
qed

text \<open>Reading back what \<open>toRecoverySnapshot\<close> wrote gives the book, with fresh objects.\<close>

lemma restore_book:
  assumes ok: "book_ok s"
  obtains snap b where "toRecoverySnapshot i s = Some snap"
    "fromRecoverySnapshot clock (json_clean (JObj snap)) = Inr b" "book_ok b" "\<And>sd. resting sd b = resting sd s"
    "abs_book b = abs_book s"
proof -
  have lk: "links_ok s" and nc: "not_crossed s" and symb: "trim (ob_symbol s) \<noteq> []" and st: "stops_ok s"
    using ok by (simp_all add: book_ok_def)
  define snap where "snap =
     [(''symbol'', JStr (ob_symbol s)), (''sequence'', JInt (ob_sequence s)),
      (''lastTradePriceTicks'', price_val (ob_lastTradePriceTicks s)), (''lastCommandStreamId'', i),
      (''bids'', JArr (map (\<lambda>(p, rs). JObj (level_record p rs)) (side_blocks BUY s))),
      (''asks'', JArr (map (\<lambda>(p, rs). JObj (level_record p rs)) (side_blocks SELL s))),
      (''stopOrders'', JArr (map (\<lambda>so. JObj (getStopOrderSnapshot so)) (map_values (ob_stopOrdersById s))))]"
  have snap: "toRecoverySnapshot i s = Some snap" unfolding snap_def by (rule toRecoverySnapshot_eq [OF lk])
  have node: "node_ok n" if "(p, rs) \<in> set (side_blocks sd s)" "n \<in> set rs" for p rs n sd
    using block_rests(2) [OF lk that] by (simp add: at_rest_def)
  have "distinct (map fst snap)" by (simp add: snap_def)
  note get = getp_clean [OF this]
  have pv: "json_clean (price_val q) = price_val q" "as_integer (coalesce (price_val q) JNull) = q" for q
    by (cases q; simp add: price_val_def coalesce_def nullish_def)+
  have fields: "getp (clean_props snap) ''symbol'' = JStr (ob_symbol s)"
    "getp (clean_props snap) ''sequence'' = JInt (ob_sequence s)"
    "getp (clean_props snap) ''lastTradePriceTicks'' = price_val (ob_lastTradePriceTicks s)"
    "getp (clean_props snap) ''bids'' = JArr (map (\<lambda>(p, rs). JObj (level_record p rs)) (side_blocks BUY s))"
    "getp (clean_props snap) ''asks'' = JArr (map (\<lambda>(p, rs). JObj (level_record p rs)) (side_blocks SELL s))"
    "getp (clean_props snap) ''stopOrders'' = JArr (map (\<lambda>x. JObj (restored_stop (snd x))) (ob_stopOrdersById s))"
    unfolding get using plain_levels [of "side_blocks BUY s", OF node] plain_levels [of "side_blocks SELL s", OF node]
    by (simp_all add: snap_def pv restored_stop_def clean_props_def map_values_def comp_def del: json_clean.simps(1))
      (simp add: clean_props_def)
  define b0 where "b0 = \<lparr> nodes = (\<lambda>_. no_node), levels = (\<lambda>_. no_level), nextRef = 0,
       ob_symbol = ob_symbol s, ob_bids = [], ob_asks = [], ob_ordersById = [],
       ob_stopOrdersById = [], ob_trades = [], ob_lastTradePriceTicks = ob_lastTradePriceTicks s,
       ob_sequence = ob_sequence s, ob_clock = clock, ob_ticks = 0 \<rparr>"
  have b0: "links_ok b0" "side_map sd b0 = []" "resting sd b0 = []" for sd
  proof -
    show "links_ok b0" by (simp add: b0_def links_ok_but_def levels_of_def)
    show "side_map sd b0 = []" by (cases sd) (simp_all add: b0_def side_map_def)
    then show "resting sd b0 = []" by (simp add: resting_def sorted_side_def)
  qed
  obtain b1 where run1: "restoreBookSideFromRecoverySnapshot BUY
      (JArr (map (\<lambda>(p, rs). JObj (level_record p rs)) (side_blocks BUY s))) b0 = (Inr (), b1)"
    and g1: "grown BUY (side_blocks BUY s) b0 b1"
    using grown_side [OF lk b0(1), of BUY] b0(2) by (auto simp: b0_def)
  have l1: "links_ok b1" "ob_symbol b1 = ob_symbol s" using g1 by (simp_all add: grown_def b0_def)
  have "map fst (side_map (opp BUY) b1) = map fst (side_map (opp BUY) b0)" using g1 by (simp only: grown_def)
  then have e1: "side_map SELL b1 = []" using b0(2) by simp
  have "map fst (ob_ordersById b1) = map on_orderId (resting BUY s)"
    using g1 by (simp add: grown_def b0_def resting_blocks)
  from arg_cong [OF this, of set] have k1: "set (map on_orderId (resting SELL s)) \<inter> fst ` set (ob_ordersById b1) = {}"
    using sides_disjoint [OF lk] by auto
  obtain b2 where run2: "restoreBookSideFromRecoverySnapshot SELL
      (JArr (map (\<lambda>(p, rs). JObj (level_record p rs)) (side_blocks SELL s))) b1 = (Inr (), b2)"
    and g2: "grown SELL (side_blocks SELL s) b1 b2"
    using grown_side [OF lk l1 e1 k1] by auto
  have st2: "ob_stopOrdersById b2 = []" using g1 g2 by (simp add: grown_def b0_def)
  define b where "b = b2\<lparr>ob_stopOrdersById := map (\<lambda>(k, so). (k, restored_stop so)) (ob_stopOrdersById s)\<rparr>"
  have run3: "restoreStops (map (\<lambda>x. JObj (restored_stop (snd x))) (ob_stopOrdersById s)) b2 = (Inr (), b)"
    using restoreStops_eq [of b2 "ob_stopOrdersById s"] st by (auto simp: st2 b_def stops_ok_def)
  have same: "same_structure b2 b" by (simp add: same_structure_def b_def side_map_def split: Side.split)
  have rest2: "resting sd b2 = resting sd s" for sd
    using g1 g2 b0(3) by (cases sd) (simp_all add: grown_def resting_blocks)
  have rest: "resting sd b = resting sd s" for sd
    using frame_resting [of "{}" b2 b sd, OF _ same] g2 rest2 [of sd] unfolding grown_def by simp
  have ids: "fst ` set (ob_ordersById b) = fst ` set (ob_ordersById s)"
  proof -
    have "map fst (ob_ordersById b) = map on_orderId (resting BUY s) @ map on_orderId (resting SELL s)"
      using g1 g2 by (simp add: grown_def b0_def resting_blocks b_def)
    from arg_cong [OF this, of set] show ?thesis unfolding stored_ids [OF lk] by simp
  qed
  have "stops_ok b"
  proof -
    have "orders_get b k = None" if k: "(k, so) \<in> set (ob_stopOrdersById s)" for k so
      using stops_okD(2) [OF st k] ids by (cases k) (auto simp: orders_get_def map_get_None_iff)
    then show ?thesis using st restored_ok by (auto simp: stops_ok_def b_def comp_def split_def)
  qed
  moreover have "links_ok b" using frame_links [OF _ same] g2 by (simp add: grown_def)
  moreover have scal: "ob_symbol b = ob_symbol s" "ob_lastTradePriceTicks b = ob_lastTradePriceTicks s" "ob_sequence b = ob_sequence s"
    using g1 g2 by (simp_all add: grown_def b0_def b_def)
  moreover have "not_crossed b" using nc rest by (simp add: not_crossed_def)
  ultimately have bok: "book_ok b" using symb by (simp add: book_ok_def)
  have "map (\<lambda>(k, so). (k, getStopOrderSnapshot so)) (ob_stopOrdersById b) =
      map (\<lambda>(k, so). (k, getStopOrderSnapshot so)) (ob_stopOrdersById s)"
    using st restored_snapshot by (auto simp: b_def stops_ok_def stop_ok_def)
  then have abs: "abs_book b = abs_book s" using rest scal by (intro abstract_eqI) simp_all
  have "new_OrderBook clock (JStr (ob_symbol s)) = Inr (b0\<lparr>ob_sequence := 0, ob_lastTradePriceTicks := None\<rparr>)"
    using symb by (simp add: new_OrderBook_def b0_def)
  moreover have "b0\<lparr>ob_sequence := 0, ob_lastTradePriceTicks := None, ob_sequence := ob_sequence s,
      ob_lastTradePriceTicks := ob_lastTradePriceTicks s\<rparr> = b0" by (simp add: b0_def)
  moreover have "coalesce (JInt n) d = JInt n" "coalesce (JArr vs) d = JArr vs" "\<not> nullish (JObj ps)" for n vs ps d
    by (simp_all add: coalesce_def nullish_def)
  ultimately have "fromRecoverySnapshot clock (JObj (clean_props snap)) = Inr b"
    by (simp add: fromRecoverySnapshot_def fields pv js_iter_def bindE_def run1 run2 run3)
  then have "fromRecoverySnapshot clock (json_clean (JObj snap)) = Inr b" by (simp only: json_clean_obj)
  then show ?thesis by (rule that [OF snap _ bok rest abs])
qed


subsection \<open>A checkpoint and the later log\<close>

lemma run_commands_append: "run_commands clock (xs @ ys) r = run_commands clock ys (run_commands clock xs r)"
  by (simp add: run_commands_def)

lemma commands_of_append: "commands_of symbol (xs @ ys) = commands_of symbol xs @ commands_of symbol ys"
  by (simp add: commands_of_def)

lemma book_of_single [simp]: "book_of clock [(symbol, b)] symbol = b"
  by (simp add: book_of_def)

lemma checkpoint_replay_view:
  assumes h: "admissible_history (xs @ ys)" and t: "trim symbol \<noteq> []"
  obtains snap b where "toRecoverySnapshot i (book_of clock (run_commands clock xs []) symbol) = Some snap"
    "fromRecoverySnapshot clock' (json_clean (JObj snap)) = Inr b"
    "abs_book (book_of clock' (run_commands clock' (command_log_of clock (run_commands clock xs []) ys) [(symbol, b)]) symbol) =
      abs_book (book_of clock (run_commands clock (xs @ ys) []) symbol)"
proof -
  let ?r = "run_commands clock xs []" and ?cx = "commands_of symbol xs" and ?cy = "commands_of symbol ys"
  let ?s = "book_of clock ?r symbol"
  have hg: "book_good (sum_list (map command_cost (commands_of symbol (xs @ ys)))) (fresh_book clock symbol)"
    and adm: "\<And>c. c \<in> set (commands_of symbol (xs @ ys)) \<Longrightarrow> admissible_command c"
    using history_good(1) [OF h t, of clock] history_good(2) [OF h t] by simp_all
  have s: "?s = book_log.run_all (fresh_book clock symbol) ?cx" by (simp add: book_of_run [OF t])
  have g: "book_good (sum_list (map command_cost ?cy)) ?s"
    unfolding s by (rule book_view.run_all_good) (use hg adm in \<open>simp_all add: commands_of_append\<close>)
  then have ok: "book_ok ?s" by (simp add: book_good_def)
  obtain snap b where R: "toRecoverySnapshot i ?s = Some snap" "fromRecoverySnapshot clock' (json_clean (JObj snap)) = Inr b"
    "book_ok b" "abs_book b = abs_book ?s"
    by (rule restore_book [OF ok])
  have gb: "book_good (sum_list (map command_cost ?cy)) b"
    using g R(3,4) view_stop_count [of b ?s] by (simp add: book_good_def)
  have "abs_book (book_log.run_all b (book_log.logged ?s ?cy)) = abs_book (book_log.run_all ?s ?cy)"
    by (rule book_view.replay_view [OF g gb]) (use adm R(4) in \<open>simp_all add: commands_of_append\<close>)
  then show ?thesis
    by (intro that [OF R(1,2)]) (simp add: book_of_run [OF t] command_log_of_symbol [OF t] commands_of_append book_log.run_all_append)
qed

end
