(* ===== verification/Redis.thy ===== *)
theory Redis
  imports Json Partitioner
begin

text \<open>
  The interface of the Redis client the stores of \<^verbatim>\<open>src/infrastructure/redis\<close> use.  Redis is
  not part of the program: it is a parameter, a function that runs a list of calls (a
  \<^verbatim>\<open>multi\<close>, or a single call) on an unknown world and answers, or fails.  \<open>documented\<close>
  states what the Redis documentation promises of such a function: the hypothesis of the
  properties that rest on it.  A text is kept as what it is read as: \<open>Json v\<close> is the JSON text
  of \<open>v\<close>, \<open>Plain s\<close> any other text.
\<close>

subsection \<open>Texts\<close>

datatype stored = Plain string | Json jsval

definition json_text :: "jsval \<Rightarrow> stored" where
  "json_text v = Json (json_clean v)"

definition json_parse :: "stored \<Rightarrow> jsval res" where
  "json_parse t = (case t of Json v \<Rightarrow> Inr v | Plain s \<Rightarrow> Inl SyntaxErr)"

lemma json_parse_text [simp]: "json_parse (json_text v) = Inr (json_clean v)"
  by (simp add: json_parse_def json_text_def)

text \<open>
  A value in a template string.  (Of a number that is no integer only the integer part is
  written; no key of the program is made from one.)
\<close>

definition show_int :: "int \<Rightarrow> string" where
  "show_int n = (if n < 0 then CHR ''-'' # show_nat (nat (- n)) else show_nat (nat n))"

fun js_text :: "jsval \<Rightarrow> string" where
  "js_text JUndef = ''undefined''"
| "js_text JNull = ''null''"
| "js_text (JBool b) = (if b then ''true'' else ''false'')"
| "js_text (JNum r) = show_int \<lfloor>r\<rfloor>"
| "js_text (JStr s) = s"
| "js_text (JObj ps) = ''[object Object]''"
| "js_text (JArr []) = []"
| "js_text (JArr [v]) = (if nullish v then [] else js_text v)"
| "js_text (JArr (v # w # vs)) = (if nullish v then [] else js_text v) @ '','' @ js_text (JArr (w # vs))"

text \<open>An argument of a Redis call must be a string; the client throws on anything else.\<close>

definition text_arg :: "jsval \<Rightarrow> stored res" where
  "text_arg v = (case v of JStr s \<Rightarrow> Inr (Plain s) | _ \<Rightarrow> Inl TypeErr)"

definition text_val :: "stored \<Rightarrow> jsval" where
  "text_val t = (case t of Plain s \<Rightarrow> JStr s | Json v \<Rightarrow> v)"

subsection \<open>Calls and answers\<close>

datatype expiry = Forever | Seconds nat | IfAbsentMs nat   \<comment> \<open>no option, \<open>EX\<close>, \<open>NX\<close> with \<open>PX\<close>\<close>

type_synonym fields = "(string \<times> stored) list"

datatype redis_call =
    XAdd string fields nat                    \<comment> \<open>key, fields, \<open>MAXLEN ~\<close> threshold\<close>
  | XRange string string string nat           \<comment> \<open>key, start, end, \<open>COUNT\<close>\<close>
  | XRevRange string nat
  | XRead string string nat                   \<comment> \<open>key, after this id, \<open>COUNT\<close>\<close>
  | XLen string
  | SAdd string stored
  | SIsMember string stored
  | SMembers string
  | SetKey string stored expiry
  | GetKey string
  | PExpire string nat
  | Del string
  | IfEquals string stored redis_call           \<comment> \<open>a script: \<open>if GET key == arg then call else 0\<close>\<close>
  | LPush string "stored list"
  | LTrim string nat int
  | LRange string nat int
  | PublishTo string stored

datatype reply = RNil | ROk | RNum int | RBool bool | RText stored | RTexts "stored list" | REntries "(string \<times> fields) list"

type_synonym 'w redis = "redis_call list \<Rightarrow> ('w, js_error, reply list) prog"

definition redis_call :: "'w redis \<Rightarrow> redis_call \<Rightarrow> ('w, js_error, reply) prog" where
  "redis_call redis c = bindE (redis [c]) (\<lambda>rs. ret (case rs of [] \<Rightarrow> RNil | r # _ \<Rightarrow> r))"

definition reply_text :: "reply \<Rightarrow> stored option" where
  "reply_text r = (case r of RText t \<Rightarrow> Some t | _ \<Rightarrow> None)"

definition reply_texts :: "reply \<Rightarrow> stored list" where
  "reply_texts r = (case r of RTexts ts \<Rightarrow> ts | _ \<Rightarrow> [])"

definition reply_entries :: "reply \<Rightarrow> (string \<times> fields) list" where
  "reply_entries r = (case r of REntries es \<Rightarrow> es | _ \<Rightarrow> [])"

definition reply_bool :: "reply \<Rightarrow> bool" where
  "reply_bool r \<longleftrightarrow> (case r of RBool b \<Rightarrow> b | RNum n \<Rightarrow> n \<noteq> 0 | _ \<Rightarrow> False)"

definition reply_num :: "reply \<Rightarrow> int" where
  "reply_num r = (case r of RNum n \<Rightarrow> n | _ \<Rightarrow> 0)"

text \<open>The value of a field of a stream entry.\<close>

definition field :: "fields \<Rightarrow> string \<Rightarrow> stored option" where
  "field = map_get"

subsection \<open>What Redis documents\<close>

record Store =
  st_streams :: "string \<Rightarrow> (string \<times> fields) list"
  st_sets :: "string \<Rightarrow> stored list"
  st_texts :: "string \<Rightarrow> (stored \<times> nat option) option"     \<comment> \<open>with the time it expires\<close>
  st_lists :: "string \<Rightarrow> stored list"
  st_time :: nat                                          \<comment> \<open>in milliseconds\<close>

text \<open>Stream identifiers \<^verbatim>\<open>ms-seq\<close> and their order.\<close>

definition id_of :: "string \<Rightarrow> nat \<times> nat" where
  "id_of s = (digits_value 10 (takeWhile is_digit s), digits_value 10 (drop 1 (dropWhile is_digit s)))"

definition id_less :: "string \<Rightarrow> string \<Rightarrow> bool" where
  "id_less i j \<longleftrightarrow> fst (id_of i) < fst (id_of j) \<or> fst (id_of i) = fst (id_of j) \<and> snd (id_of i) < snd (id_of j)"

text \<open>The bounds of \<^verbatim>\<open>XRANGE\<close>: \<^verbatim>\<open>-\<close>, \<^verbatim>\<open>+\<close>, an identifier, or \<^verbatim>\<open>(\<close> and an identifier to leave out.\<close>

definition above :: "string \<Rightarrow> string \<Rightarrow> bool" where
  "above start i \<longleftrightarrow> start = ''-'' \<or>
     (case start of [] \<Rightarrow> True | c # s \<Rightarrow> if c = CHR ''('' then id_less s i else \<not> id_less i start)"

definition below :: "string \<Rightarrow> string \<Rightarrow> bool" where
  "below stop i \<longleftrightarrow> stop = ''+'' \<or>
     (case stop of [] \<Rightarrow> True | c # s \<Rightarrow> if c = CHR ''('' then id_less i s else \<not> id_less stop i)"

definition live_text :: "Store \<Rightarrow> string \<Rightarrow> stored option" where
  "live_text st k = (case st_texts st k of None \<Rightarrow> None
     | Some (t, None) \<Rightarrow> Some t
     | Some (t, Some d) \<Rightarrow> if st_time st < d then Some t else None)"

text \<open>A range of a list; a negative end counts from the tail.\<close>

definition list_slice :: "nat \<Rightarrow> int \<Rightarrow> 'a list \<Rightarrow> 'a list" where
  "list_slice a b xs = drop a (take (nat (1 + (if b < 0 then int (length xs) + b else b))) xs)"

text \<open>One call: its possible answers and the store after it.\<close>

fun answers :: "redis_call \<Rightarrow> reply \<Rightarrow> Store \<Rightarrow> Store \<Rightarrow> bool" where
  "answers (XAdd k f n) r st st' \<longleftrightarrow> (\<exists>i d. r = RText (Plain i) \<and> (\<forall>e \<in> set (st_streams st k). id_less (fst e) i) \<and>
     id_less ''0-0'' i \<and> (d = 0 \<or> d + n \<le> Suc (length (st_streams st k))) \<and>
     st' = st\<lparr>st_streams := (st_streams st)(k := drop d (st_streams st k @ [(i, f)]))\<rparr>)"
| "answers (XRange k lo hi n) r st st' \<longleftrightarrow> st' = st \<and>
     r = REntries (take n (filter (\<lambda>e. above lo (fst e) \<and> below hi (fst e)) (st_streams st k)))"
| "answers (XRevRange k n) r st st' \<longleftrightarrow> st' = st \<and> r = REntries (take n (rev (st_streams st k)))"
| "answers (XRead k i n) r st st' \<longleftrightarrow> st' = st \<and>
     (let es = take n (filter (\<lambda>e. id_less i (fst e)) (st_streams st k)) in r = (if es = [] then RNil else REntries es))"
| "answers (XLen k) r st st' \<longleftrightarrow> st' = st \<and> r = RNum (int (length (st_streams st k)))"
| "answers (SAdd k t) r st st' \<longleftrightarrow> (\<exists>n. r = RNum n) \<and>
     st' = st\<lparr>st_sets := (st_sets st)(k := List.insert t (st_sets st k))\<rparr>"
| "answers (SIsMember k t) r st st' \<longleftrightarrow> st' = st \<and> r = RBool (t \<in> set (st_sets st k))"
| "answers (SMembers k) r st st' \<longleftrightarrow> st' = st \<and> (\<exists>ts. r = RTexts ts \<and> set ts = set (st_sets st k) \<and> distinct ts)"
| "answers (SetKey k t x) r st st' \<longleftrightarrow> (case x of
       Forever \<Rightarrow> r = ROk \<and> st' = st\<lparr>st_texts := (st_texts st)(k := Some (t, None))\<rparr>
     | Seconds n \<Rightarrow> r = ROk \<and> st' = st\<lparr>st_texts := (st_texts st)(k := Some (t, Some (st_time st + 1000 * n)))\<rparr>
     | IfAbsentMs n \<Rightarrow> if live_text st k = None
         then r = ROk \<and> st' = st\<lparr>st_texts := (st_texts st)(k := Some (t, Some (st_time st + n)))\<rparr>
         else r = RNil \<and> st' = st)"
| "answers (GetKey k) r st st' \<longleftrightarrow> st' = st \<and> r = (case live_text st k of None \<Rightarrow> RNil | Some t \<Rightarrow> RText t)"
| "answers (PExpire k n) r st st' \<longleftrightarrow> (case live_text st k of
       None \<Rightarrow> r = RNum 0 \<and> st' = st
     | Some t \<Rightarrow> r = RNum 1 \<and> st' = st\<lparr>st_texts := (st_texts st)(k := Some (t, Some (st_time st + n)))\<rparr>)"
| "answers (Del k) r st st' \<longleftrightarrow> r = RNum (if live_text st k = None then 0 else 1) \<and>
     st' = st\<lparr>st_texts := (st_texts st)(k := None)\<rparr>"
| "answers (IfEquals k t c) r st st' \<longleftrightarrow>
     (if live_text st k = Some t then answers c r st st' else r = RNum 0 \<and> st' = st)"
| "answers (LPush k ts) r st st' \<longleftrightarrow> r = RNum (int (length ts + length (st_lists st k))) \<and>
     st' = st\<lparr>st_lists := (st_lists st)(k := rev ts @ st_lists st k)\<rparr>"
| "answers (LTrim k a b) r st st' \<longleftrightarrow> r = ROk \<and>
     st' = st\<lparr>st_lists := (st_lists st)(k := list_slice a b (st_lists st k))\<rparr>"
| "answers (LRange k a b) r st st' \<longleftrightarrow> st' = st \<and> r = RTexts (list_slice a b (st_lists st k))"
| "answers (PublishTo k t) r st st' \<longleftrightarrow> st' = st \<and> (\<exists>n. r = RNum n)"

fun answers_all :: "redis_call list \<Rightarrow> reply list \<Rightarrow> Store \<Rightarrow> Store \<Rightarrow> bool" where
  "answers_all [] rs st st' \<longleftrightarrow> rs = [] \<and> st' = st"
| "answers_all (c # cs) rs st st' \<longleftrightarrow> (\<exists>r qs st1. rs = r # qs \<and> answers c r st st1 \<and> answers_all cs qs st1 st')"

text \<open>
  The documented behaviour, over a view of the world: time passes, then the calls are carried
  out together; when the client reports a failure they were carried out or they were not.
\<close>

definition documented :: "'w redis \<Rightarrow> ('w \<Rightarrow> Store) \<Rightarrow> bool" where
  "documented redis view \<longleftrightarrow> (\<forall>cs w. case redis cs w of (out, w') \<Rightarrow>
     \<exists>t \<ge> st_time (view w). let st = (view w)\<lparr>st_time := t\<rparr> in
       (case out of Inr rs \<Rightarrow> answers_all cs rs st (view w')
        | Inl e \<Rightarrow> view w' = st \<or> (\<exists>rs. answers_all cs rs st (view w'))))"

definition reliable :: "'w redis \<Rightarrow> bool" where
  "reliable redis \<longleftrightarrow> (\<forall>cs w. \<exists>rs w'. redis cs w = (Inr rs, w'))"

lemma documented_reply:
  assumes "documented redis view" "redis cs w = (Inr rs, w')"
  obtains t where "st_time (view w) \<le> t" "answers_all cs rs ((view w)\<lparr>st_time := t\<rparr>) (view w')"
proof -
  have "case redis cs w of (out, w') \<Rightarrow> \<exists>t \<ge> st_time (view w). let st = (view w)\<lparr>st_time := t\<rparr> in
       (case out of Inr rs \<Rightarrow> answers_all cs rs st (view w')
        | Inl e \<Rightarrow> view w' = st \<or> (\<exists>rs. answers_all cs rs st (view w')))"
    by (rule assms(1) [unfolded documented_def, THEN spec, THEN spec])
  then show ?thesis using that assms(2) by (auto simp: Let_def)
qed

lemma documented_call:
  assumes "documented redis view" "redis_call redis c w = (Inr r, w')"
  obtains t where "st_time (view w) \<le> t" "answers c r ((view w)\<lparr>st_time := t\<rparr>) (view w')"
proof -
  obtain rs where rs: "redis [c] w = (Inr rs, w')" "r = (case rs of [] \<Rightarrow> RNil | r # _ \<Rightarrow> r)"
    using assms(2) by (auto simp: redis_call_def bindE_eq_Inr)
  obtain t where t: "st_time (view w) \<le> t" "answers_all [c] rs ((view w)\<lparr>st_time := t\<rparr>) (view w')"
    by (rule documented_reply [OF assms(1) rs(1)])
  then have "answers c r ((view w)\<lparr>st_time := t\<rparr>) (view w')" using rs(2) by auto
  then show ?thesis by (rule that [OF t(1)])
qed

lemma reliable_call: "reliable redis \<Longrightarrow> \<exists>r w'. redis_call redis c w = (Inr r, w')"
  unfolding reliable_def redis_call_def by (metis bindE_Inr ret_apply)

end
