(* ===== verification/RedisStores.thy ===== *)
theory RedisStores
  imports Redis DomainEvent
begin

text \<open>
  The stores of \<^verbatim>\<open>src/infrastructure/redis\<close>: the command log, the event log, the command
  statuses, the published book, the checkpoints and the market event channel, each operation
  as the calls of Redis it makes.  The lemmas say what each does to the store a documented
  Redis keeps.  (Waiting for the connection is not modelled; a connection that cannot be made
  is a failed call.)
\<close>

type_synonym ('w, 'r) rdprog = "('w, js_error, 'r) prog"

subsection \<open>RedisCommandLog.js\<close>

definition commandLogStreamKey :: "jsval \<Rightarrow> string" where
  "commandLogStreamKey symbol = ''stream:'' @ js_text symbol @ '':commands''"

definition processedCommandIdsKey :: "jsval \<Rightarrow> string" where
  "processedCommandIdsKey symbol = ''commands:'' @ js_text symbol @ '':processed-ids''"

definition command_symbols_key :: string where
  "command_symbols_key = ''commands:symbols''"

definition maxCommandsPerSymbol :: nat where
  "maxCommandsPerSymbol = 100000"

definition log_fields :: "nat \<Rightarrow> jsobj \<Rightarrow> fields res" where
  "log_fields processedAt command =
     seqE (text_arg (getp command ''commandId'')) (\<lambda>i.
     seqE (text_arg (getp command ''symbol'')) (\<lambda>s.
     seqE (text_arg (getp command ''type'')) (\<lambda>ty.
     Inr [(''commandId'', i), (''symbol'', s), (''type'', ty),
          (''payload'', json_text (coalesce (getp command ''payload'') (JObj []))),
          (''createdAt'', Plain (js_text (coalesce (getp command ''createdAt'') (JStr [])))),
          (''processedAt'', Plain (js_text (JInt (int processedAt)))),
          (''command'', json_text (JObj (spread command [(''processedAt'', JInt (int processedAt))])))])))"

definition appendProcessedCommand :: "'w redis \<Rightarrow> nat \<Rightarrow> jsobj \<Rightarrow> ('w, jsval) rdprog" where
  "appendProcessedCommand redis processedAt command =
     bindE (liftE (log_fields processedAt command)) (\<lambda>fields.
     bindE (liftE (text_arg (getp command ''commandId''))) (\<lambda>commandId.
     bindE (liftE (text_arg (getp command ''symbol''))) (\<lambda>symbol.
     bindE (redis [XAdd (commandLogStreamKey (getp command ''symbol'')) fields maxCommandsPerSymbol,
                   SAdd (processedCommandIdsKey (getp command ''symbol'')) commandId,
                   SAdd command_symbols_key symbol]) (\<lambda>results.
     ret (case results of RText t # _ \<Rightarrow> text_val t | _ \<Rightarrow> JUndef)))))"

definition command_getSymbols :: "'w redis \<Rightarrow> ('w, stored list) rdprog" where
  "command_getSymbols redis = bindE (redis_call redis (SMembers command_symbols_key)) (\<lambda>r. ret (reply_texts r))"

definition isCommandProcessed :: "'w redis \<Rightarrow> jsval \<Rightarrow> jsval \<Rightarrow> ('w, bool) rdprog" where
  "isCommandProcessed redis symbol commandId =
     bindE (liftE (text_arg commandId)) (\<lambda>i.
     bindE (redis_call redis (SIsMember (processedCommandIdsKey symbol) i)) (\<lambda>r. ret (reply_bool r)))"

record LogEntry =
  le_id :: string
  le_command :: jsval

definition log_entry :: "string \<times> fields \<Rightarrow> LogEntry res" where
  "log_entry e = (case field (snd e) ''command'' of
      None \<Rightarrow> Inl SyntaxErr
    | Some t \<Rightarrow> seqE (json_parse t) (\<lambda>v. Inr \<lparr> le_id = fst e, le_command = v \<rparr>))"

fun mapE :: "('a \<Rightarrow> 'b res) \<Rightarrow> 'a list \<Rightarrow> 'b list res" where
  "mapE f [] = Inr []"
| "mapE f (x # xs) = seqE (f x) (\<lambda>y. seqE (mapE f xs) (\<lambda>ys. Inr (y # ys)))"

definition getProcessedCommands :: "'w redis \<Rightarrow> jsval \<Rightarrow> string \<Rightarrow> string \<Rightarrow> nat \<Rightarrow> ('w, LogEntry list) rdprog" where
  "getProcessedCommands redis symbol start end' count' =
     bindE (redis_call redis (XRange (commandLogStreamKey symbol) start end' count')) (\<lambda>r.
     liftE (mapE log_entry (reply_entries r)))"

definition getProcessedCommandsAfter :: "'w redis \<Rightarrow> jsval \<Rightarrow> jsval \<Rightarrow> nat \<Rightarrow> ('w, LogEntry list) rdprog" where
  "getProcessedCommandsAfter redis symbol streamId count' =
     bindE (redis_call redis (XRange (commandLogStreamKey symbol) (CHR ''('' # js_text streamId) ''+'' count')) (\<lambda>r.
     liftE (mapE log_entry (reply_entries r)))"

text \<open>(The program reads with \<^verbatim>\<open>blockMs: 0\<close>: no \<^verbatim>\<open>BLOCK\<close> option.)\<close>

definition readNextProcessedCommands :: "'w redis \<Rightarrow> jsval \<Rightarrow> string \<Rightarrow> nat \<Rightarrow> ('w, LogEntry list) rdprog" where
  "readNextProcessedCommands redis symbol lastStreamId count' =
     bindE (redis_call redis (XRead (commandLogStreamKey symbol) lastStreamId count')) (\<lambda>r.
     case r of RNil \<Rightarrow> ret [] | _ \<Rightarrow> liftE (mapE log_entry (reply_entries r)))"

definition getLatestCommandStreamId :: "'w redis \<Rightarrow> jsval \<Rightarrow> ('w, string) rdprog" where
  "getLatestCommandStreamId redis symbol =
     bindE (redis_call redis (XRevRange (commandLogStreamKey symbol) 1)) (\<lambda>r.
     ret (case reply_entries r of [] \<Rightarrow> ''0-0'' | e # _ \<Rightarrow> fst e))"

definition getCommandCount :: "'w redis \<Rightarrow> jsval \<Rightarrow> ('w, int) rdprog" where
  "getCommandCount redis symbol =
     bindE (redis_call redis (XLen (commandLogStreamKey symbol))) (\<lambda>r. ret (reply_num r))"

subsection \<open>RedisEventLog.js\<close>

definition eventStreamKey :: "jsval \<Rightarrow> string" where
  "eventStreamKey symbol = ''stream:'' @ js_text symbol @ '':events''"

definition maxEventsPerSymbol :: nat where
  "maxEventsPerSymbol = 10000"

definition event_fields :: "jsval \<Rightarrow> jsobj \<Rightarrow> fields res" where
  "event_fields symbol event =
     seqE (text_arg (getp event ''type'')) (\<lambda>ty.
     seqE (text_arg (coalesce (getp event ''symbol'') symbol)) (\<lambda>s.
     Inr [(''type'', ty), (''symbol'', s),
          (''sequence'', Plain (js_text (coalesce (getp event ''sequence'') (JStr [])))),
          (''payload'', json_text (JObj event))]))"

definition appendEvents :: "'w redis \<Rightarrow> jsval \<Rightarrow> jsobj list \<Rightarrow> ('w, unit) rdprog" where
  "appendEvents redis symbol events =
    (if events = [] then ret ()
     else bindE (liftE (mapE (event_fields symbol) events)) (\<lambda>fs.
          bindE (redis (map (\<lambda>f. XAdd (eventStreamKey symbol) f maxEventsPerSymbol) fs)) (\<lambda>_. ret ())))"

definition event_entry :: "string \<times> fields \<Rightarrow> (string \<times> jsval) res" where
  "event_entry e = (case field (snd e) ''payload'' of
      None \<Rightarrow> Inl SyntaxErr
    | Some t \<Rightarrow> seqE (json_parse t) (\<lambda>v. Inr (fst e, v)))"

definition getEvents :: "'w redis \<Rightarrow> jsval \<Rightarrow> string \<Rightarrow> string \<Rightarrow> nat \<Rightarrow> ('w, (string \<times> jsval) list) rdprog" where
  "getEvents redis symbol start end' count' =
     bindE (redis_call redis (XRange (eventStreamKey symbol) start end' count')) (\<lambda>r.
     liftE (mapE event_entry (reply_entries r)))"

definition getEventCount :: "'w redis \<Rightarrow> jsval \<Rightarrow> ('w, int) rdprog" where
  "getEventCount redis symbol = bindE (redis_call redis (XLen (eventStreamKey symbol))) (\<lambda>r. ret (reply_num r))"

subsection \<open>RedisCommandStatusStore.js\<close>

definition commandStatusKey :: "jsval \<Rightarrow> string" where
  "commandStatusKey commandId = ''command:'' @ js_text commandId @ '':status''"

definition status_ttl_seconds :: nat where
  "status_ttl_seconds = 10 * 60"

definition saveStatus :: "'w redis \<Rightarrow> jsobj \<Rightarrow> ('w, unit) rdprog" where
  "saveStatus redis commandStatus =
     bindE (redis_call redis (SetKey (commandStatusKey (getp commandStatus ''commandId''))
       (json_text (JObj commandStatus)) (Seconds status_ttl_seconds))) (\<lambda>_. ret ())"

text \<open>Reading a key: a missing or empty text is null.\<close>

definition parsed_reply :: "reply \<Rightarrow> ('w, jsval) rdprog" where
  "parsed_reply r = (case reply_text r of None \<Rightarrow> ret JNull
     | Some t \<Rightarrow> if t = Plain [] then ret JNull else liftE (json_parse t))"

definition getStatus :: "'w redis \<Rightarrow> jsval \<Rightarrow> ('w, jsval) rdprog" where
  "getStatus redis commandId = bindE (redis_call redis (GetKey (commandStatusKey commandId))) parsed_reply"

subsection \<open>RedisBookReadModel.js\<close>

definition bookSnapshotKey :: "jsval \<Rightarrow> string" where
  "bookSnapshotKey symbol = ''book:'' @ js_text symbol @ '':snapshot''"

definition recentTradesKey :: "jsval \<Rightarrow> string" where
  "recentTradesKey symbol = ''book:'' @ js_text symbol @ '':recent-trades''"

definition book_symbols_key :: string where
  "book_symbols_key = ''books:symbols''"

definition recentTradesLimit :: nat where
  "recentTradesLimit = 1000"

text \<open>\<^verbatim>\<open>Promise.all\<close> of two calls: both are made, it fails when one does.\<close>

definition both :: "('w, 'a) rdprog \<Rightarrow> ('w, 'b) rdprog \<Rightarrow> ('w, unit) rdprog" where
  "both m n = (\<lambda>w. case m w of (a, w1) \<Rightarrow> (case n w1 of (b, w2) \<Rightarrow>
     ((case a of Inl e \<Rightarrow> Inl e | Inr _ \<Rightarrow> (case b of Inl e \<Rightarrow> Inl e | Inr _ \<Rightarrow> Inr ())), w2)))"

definition saveBookSnapshot :: "'w redis \<Rightarrow> jsval \<Rightarrow> jsobj \<Rightarrow> ('w, unit) rdprog" where
  "saveBookSnapshot redis symbol snapshot =
     bindE (liftE (text_arg symbol)) (\<lambda>s.
     both (redis_call redis (SetKey (bookSnapshotKey symbol) (json_text (JObj snapshot)) Forever))
          (redis_call redis (SAdd book_symbols_key s)))"

text \<open>\<^verbatim>\<open>sort\<close> of strings is by code unit.\<close>

fun text_less_eq :: "string \<Rightarrow> string \<Rightarrow> bool" where
  "text_less_eq [] t = True"
| "text_less_eq (c # s) [] = False"
| "text_less_eq (c # s) (d # t) = ((of_char c :: nat) < of_char d \<or> c = d \<and> text_less_eq s t)"

fun text_insert :: "string \<Rightarrow> string list \<Rightarrow> string list" where
  "text_insert s [] = [s]"
| "text_insert s (t # ts) = (if text_less_eq s t then s # t # ts else t # text_insert s ts)"

definition plain_text :: "stored \<Rightarrow> string" where
  "plain_text t = (case t of Plain s \<Rightarrow> s | Json v \<Rightarrow> [])"

definition book_getSymbols :: "'w redis \<Rightarrow> ('w, string list) rdprog" where
  "book_getSymbols redis = bindE (redis_call redis (SMembers book_symbols_key)) (\<lambda>r.
     ret (foldr text_insert (map plain_text (reply_texts r)) []))"

definition getBookSnapshot :: "'w redis \<Rightarrow> jsval \<Rightarrow> ('w, jsval) rdprog" where
  "getBookSnapshot redis symbol = bindE (redis_call redis (GetKey (bookSnapshotKey symbol))) parsed_reply"

definition appendTrades :: "'w redis \<Rightarrow> jsval \<Rightarrow> jsval list \<Rightarrow> ('w, unit) rdprog" where
  "appendTrades redis symbol trades =
    (if trades = [] then ret ()
     else bindE (redis_call redis (LPush (recentTradesKey symbol) (map json_text trades))) (\<lambda>_.
          bindE (redis_call redis (LTrim (recentTradesKey symbol) 0 (int recentTradesLimit - 1))) (\<lambda>_. ret ())))"

definition getTrades :: "'w redis \<Rightarrow> jsval \<Rightarrow> nat \<Rightarrow> ('w, jsval list) rdprog" where
  "getTrades redis symbol limit = bindE (redis_call redis (LRange (recentTradesKey symbol) 0 (int limit - 1))) (\<lambda>r.
     liftE (mapE json_parse (reply_texts r)))"

subsection \<open>RedisRecoverySnapshotStore.js\<close>

definition recoverySnapshotKey :: "jsval \<Rightarrow> string" where
  "recoverySnapshotKey symbol = ''recovery:'' @ js_text symbol @ '':snapshot''"

definition saveRecoverySnapshot :: "'w redis \<Rightarrow> jsval \<Rightarrow> jsobj \<Rightarrow> ('w, unit) rdprog" where
  "saveRecoverySnapshot redis symbol snapshot =
     bindE (redis_call redis (SetKey (recoverySnapshotKey symbol) (json_text (JObj snapshot)) Forever)) (\<lambda>_. ret ())"

definition getRecoverySnapshot :: "'w redis \<Rightarrow> jsval \<Rightarrow> ('w, jsval) rdprog" where
  "getRecoverySnapshot redis symbol = bindE (redis_call redis (GetKey (recoverySnapshotKey symbol))) parsed_reply"

subsection \<open>RedisMarketEventPubSub.js\<close>

definition market_events_channel :: string where
  "market_events_channel = ''market:events''"

text \<open>A failure of the publication is swallowed.\<close>

definition publishMarketEvents :: "'w redis \<Rightarrow> nat \<Rightarrow> jsval \<Rightarrow> jsobj list \<Rightarrow> ('w, unit) rdprog" where
  "publishMarketEvents redis publishedAt symbol events =
    (if events = [] then ret ()
     else (\<lambda>w. case redis_call redis (PublishTo market_events_channel (json_text (JObj
         [(''symbol'', symbol), (''events'', JArr (map JObj events)), (''publishedAt'', JInt (int publishedAt))]))) w of
       (_, w') \<Rightarrow> (Inr (), w')))"

text \<open>The subscriber's handler: the symbol and the events of a message, or the error it reports.\<close>

definition market_message :: "stored \<Rightarrow> (string \<times> jsval list) res" where
  "market_message message = seqE (json_parse message) (\<lambda>payload.
     if nullish payload then Inl TypeErr
     else (case (getp (props payload) ''symbol'', getp (props payload) ''events'') of
         (JStr symbol, JArr events) \<Rightarrow> Inr (symbol, events)
       | _ \<Rightarrow> Inl InvalidMarketPayload))"

end
