(* ===== verification/RedisDemo.thy ===== *)
theory RedisDemo
  imports RedisStores
begin

text \<open>
  A Redis that does what the documentation says, never fails, never trims and takes no time: an
  instance of the parameter on which the properties that assume \<open>documented\<close> are evaluated.
\<close>

definition next_id :: "(string \<times> fields) list \<Rightarrow> string" where
  "next_id es = show_nat (Suc (fold max (map (\<lambda>e. fst (id_of (fst e))) es) 0)) @ ''-0''"

fun demo_call :: "redis_call \<Rightarrow> Store \<Rightarrow> reply \<times> Store" where
  "demo_call (XAdd k f n) st = (RText (Plain (next_id (st_streams st k))),
     st\<lparr>st_streams := (st_streams st)(k := st_streams st k @ [(next_id (st_streams st k), f)])\<rparr>)"
| "demo_call (XRange k lo hi n) st =
     (REntries (take n (filter (\<lambda>e. above lo (fst e) \<and> below hi (fst e)) (st_streams st k))), st)"
| "demo_call (XRevRange k n) st = (REntries (take n (rev (st_streams st k))), st)"
| "demo_call (XRead k i n) st = ((let es = take n (filter (\<lambda>e. id_less i (fst e)) (st_streams st k))
     in if es = [] then RNil else REntries es), st)"
| "demo_call (XLen k) st = (RNum (int (length (st_streams st k))), st)"
| "demo_call (SAdd k t) st = (RNum (if t \<in> set (st_sets st k) then 0 else 1),
     st\<lparr>st_sets := (st_sets st)(k := List.insert t (st_sets st k))\<rparr>)"
| "demo_call (SIsMember k t) st = (RBool (t \<in> set (st_sets st k)), st)"
| "demo_call (SMembers k) st = (RTexts (remdups (st_sets st k)), st)"
| "demo_call (SetKey k t x) st = (case x of
       Forever \<Rightarrow> (ROk, st\<lparr>st_texts := (st_texts st)(k := Some (t, None))\<rparr>)
     | Seconds n \<Rightarrow> (ROk, st\<lparr>st_texts := (st_texts st)(k := Some (t, Some (st_time st + 1000 * n)))\<rparr>)
     | IfAbsentMs n \<Rightarrow> if live_text st k = None
         then (ROk, st\<lparr>st_texts := (st_texts st)(k := Some (t, Some (st_time st + n)))\<rparr>)
         else (RNil, st))"
| "demo_call (GetKey k) st = (case live_text st k of None \<Rightarrow> RNil | Some t \<Rightarrow> RText t, st)"
| "demo_call (PExpire k n) st = (case live_text st k of
       None \<Rightarrow> (RNum 0, st)
     | Some t \<Rightarrow> (RNum 1, st\<lparr>st_texts := (st_texts st)(k := Some (t, Some (st_time st + n)))\<rparr>))"
| "demo_call (Del k) st = (RNum (if live_text st k = None then 0 else 1), st\<lparr>st_texts := (st_texts st)(k := None)\<rparr>)"
| "demo_call (IfEquals k t c) st = (if live_text st k = Some t then demo_call c st else (RNum 0, st))"
| "demo_call (LPush k ts) st = (RNum (int (length ts + length (st_lists st k))),
     st\<lparr>st_lists := (st_lists st)(k := rev ts @ st_lists st k)\<rparr>)"
| "demo_call (LTrim k a b) st = (ROk, st\<lparr>st_lists := (st_lists st)(k := list_slice a b (st_lists st k))\<rparr>)"
| "demo_call (LRange k a b) st = (RTexts (list_slice a b (st_lists st k)), st)"
| "demo_call (PublishTo k t) st = (RNum 0, st)"

fun demo_calls :: "redis_call list \<Rightarrow> Store \<Rightarrow> reply list \<times> Store" where
  "demo_calls [] st = ([], st)"
| "demo_calls (c # cs) st = (case demo_call c st of (r, st1) \<Rightarrow> (case demo_calls cs st1 of (rs, st2) \<Rightarrow> (r # rs, st2)))"

definition demo_redis :: "Store redis" where
  "demo_redis cs st = (case demo_calls cs st of (rs, st') \<Rightarrow> (Inr rs, st'))"

definition demo_store :: Store where
  "demo_store = \<lparr> st_streams = (\<lambda>_. []), st_sets = (\<lambda>_. []), st_texts = (\<lambda>_. None), st_lists = (\<lambda>_. []), st_time = 0 \<rparr>"

subsection \<open>It is documented\<close>

lemma is_digit_char: "n < 10 \<Longrightarrow> is_digit (char_of (48 + n :: nat))"
  by (simp add: is_digit_def of_char_of)

lemma show_nat_digits: "list_all is_digit (show_nat n)"
proof (induction n rule: show_nat.induct)
  case (1 n)
  then show ?case using is_digit_char [of n] is_digit_char [of "n mod 10"] by (simp add: show_nat.simps [of n])
qed

lemma id_of_show: "id_of (show_nat n @ ''-0'') = (n, 0)"
proof -
  have d: "is_digit c" if "c \<in> set (show_nat n)" for c using show_nat_digits [of n] that by (simp add: list_all_iff)
  have "\<not> is_digit (CHR ''-'')" by (simp add: is_digit_def)
  then have "takeWhile is_digit (show_nat n @ ''-0'') = show_nat n" "dropWhile is_digit (show_nat n @ ''-0'') = ''-0''"
    using d by (simp_all add: takeWhile_append2 dropWhile_append2)
  moreover have "digits_value 10 ''0'' = 0" by (simp add: digits_value_def digit_value_def Let_def)
  ultimately show ?thesis by (simp add: id_of_def show_nat_value)
qed

lemma fold_max_ge: "x \<in> set xs \<or> x \<le> a \<Longrightarrow> x \<le> fold max xs (a :: nat)"
proof (induction xs arbitrary: a)
  case (Cons y xs)
  then have "x \<in> set xs \<or> x \<le> max y a" by (auto simp: le_max_iff_disj)
  then show ?case using Cons.IH [of "max y a"] by simp
qed simp

lemma next_id_less: "e \<in> set es \<Longrightarrow> id_less (fst e) (next_id es)"
  using fold_max_ge [of "fst (id_of (fst e))" "map (\<lambda>e. fst (id_of (fst e))) es" 0]
  by (simp add: id_less_def next_id_def id_of_show less_Suc_eq_le)

lemma next_id_start: "id_less ''0-0'' (next_id es)"
proof -
  have "id_of ''0-0'' = (0, 0)"
    by (simp add: id_of_def is_digit_def digits_value_def digit_value_def Let_def)
  then show ?thesis by (simp add: id_less_def next_id_def id_of_show)
qed

lemma demo_answers: "answers c (fst (demo_call c st)) st (snd (demo_call c st))"
proof (induction c arbitrary: st)
  case (XAdd k f n)
  then show ?case using next_id_less next_id_start by (auto intro: exI [of _ 0])
next
  case (SetKey k t x)
  then show ?case by (cases x) simp_all
qed (auto simp: Let_def split: option.split)

lemma demo_calls_answers: "answers_all cs (fst (demo_calls cs st)) st (snd (demo_calls cs st))"
proof (induction cs arbitrary: st)
  case (Cons c cs)
  then show ?case using demo_answers [of c st] Cons [of "snd (demo_call c st)"]
    by (auto simp: split_def)
qed simp

lemma demo_documented: "documented demo_redis id"
  unfolding documented_def
proof (intro allI)
  fix cs and w :: Store
  have "answers_all cs (fst (demo_calls cs w)) (w\<lparr>st_time := st_time w\<rparr>) (snd (demo_calls cs w))"
    using demo_calls_answers [of cs w] by simp
  then show "case demo_redis cs w of (out, w') \<Rightarrow> \<exists>t \<ge> st_time (id w). let st = (id w)\<lparr>st_time := t\<rparr> in
       (case out of Inr rs \<Rightarrow> answers_all cs rs st (id w')
        | Inl e \<Rightarrow> id w' = st \<or> (\<exists>rs. answers_all cs rs st (id w')))"
    by (auto simp: demo_redis_def split_def Let_def intro!: exI [of _ "st_time w"])
qed

lemma demo_reliable: "reliable demo_redis"
  by (auto simp: reliable_def demo_redis_def split: prod.split)

end
