(* ===== verification/StandbyReplica.thy ===== *)
theory StandbyReplica
  imports RedisDemo RecoveryProofs
begin

text \<open>
  \<^verbatim>\<open>src/application/recovery/replayCommand.js\<close> and
  \<^verbatim>\<open>src/application/replication/StandbyReplica.js\<close>: a node rebuilds the books from the
  checkpoints and the command log, and a standby keeps following the log.  The state of a node
  is its registry of books, the world Redis lives in, and the stream position it has replayed
  for each symbol.
\<close>

record 'w Replica =
  rp_books :: registry
  rp_world :: 'w
  rp_lastReplayedStreamIds :: "(string, string) jsmap"

type_synonym ('w, 'r) rpprog = "('w Replica, js_error, 'r) prog"

definition on_books :: "'r rprog \<Rightarrow> ('w, 'r) rpprog" where
  "on_books f = (\<lambda>s. case f (rp_books s) of (r, b) \<Rightarrow> (r, s\<lparr>rp_books := b\<rparr>))"

definition on_world :: "('w, 'r) rdprog \<Rightarrow> ('w, 'r) rpprog" where
  "on_world f = (\<lambda>s. case f (rp_world s) of (r, w) \<Rightarrow> (r, s\<lparr>rp_world := w\<rparr>))"

subsection \<open>replayCommand.js\<close>

definition execute_entry :: "(nat \<Rightarrow> nat) \<Rightarrow> LogEntry \<Rightarrow> ('w, unit) rpprog" where
  "execute_entry clock entry =
    (if nullish (le_command entry) then throw TypeErr
     else bindE (on_books (executeOrderCommand clock (props (le_command entry)))) (\<lambda>_. ret ()))"

fun replay_entries :: "(nat \<Rightarrow> nat) \<Rightarrow> LogEntry list \<Rightarrow> ('w, unit) rpprog" where
  "replay_entries clock [] = ret ()"
| "replay_entries clock (entry # es) = bindE (execute_entry clock entry) (\<lambda>_. replay_entries clock es)"

record RecoveryResult =
  rr_symbol :: string
  rr_mode :: string
  rr_replayedCommandCount :: nat
  rr_lastCommandStreamId :: string

definition replaySymbolFromCommandLog :: "'w redis \<Rightarrow> (nat \<Rightarrow> nat) \<Rightarrow> string \<Rightarrow> ('w, RecoveryResult) rpprog" where
  "replaySymbolFromCommandLog redis clock symbol =
     bindE (on_world (getProcessedCommands redis (JStr symbol) ''-'' ''+'' 100000)) (\<lambda>commands.
     bindE (replay_entries clock commands) (\<lambda>_.
     ret \<lparr> rr_symbol = symbol, rr_mode = ''full-replay'', rr_replayedCommandCount = length commands,
           rr_lastCommandStreamId = (if commands = [] then ''0-0'' else le_id (last commands)) \<rparr>))"

definition recoverSymbolFromCommandLog :: "'w redis \<Rightarrow> (nat \<Rightarrow> nat) \<Rightarrow> string \<Rightarrow> ('w, RecoveryResult) rpprog" where
  "recoverSymbolFromCommandLog redis clock symbol =
     bindE (on_world (getRecoverySnapshot redis (JStr symbol))) (\<lambda>snap.
     let checkpoint = getp (props snap) ''lastCommandStreamId'' in
     if \<not> truthy snap \<or> \<not> truthy checkpoint then replaySymbolFromCommandLog redis clock symbol
     else bindE (liftE (fromRecoverySnapshot clock snap)) (\<lambda>restoredBook.
          bindE (on_books (setBook (JStr symbol) restoredBook)) (\<lambda>_.
          bindE (on_world (getProcessedCommandsAfter redis (JStr symbol) checkpoint 100000)) (\<lambda>commandsAfterSnapshot.
          bindE (replay_entries clock commandsAfterSnapshot) (\<lambda>_.
          ret \<lparr> rr_symbol = symbol, rr_mode = ''snapshot-plus-incremental-replay'',
                rr_replayedCommandCount = length commandsAfterSnapshot,
                rr_lastCommandStreamId = (if commandsAfterSnapshot = [] then js_text checkpoint
                  else le_id (last commandsAfterSnapshot)) \<rparr>)))))"

fun recoverSymbols :: "'w redis \<Rightarrow> (nat \<Rightarrow> nat) \<Rightarrow> string list \<Rightarrow> ('w, RecoveryResult list) rpprog" where
  "recoverSymbols redis clock [] = ret []"
| "recoverSymbols redis clock (symbol # symbols) =
     bindE (recoverSymbolFromCommandLog redis clock symbol) (\<lambda>result.
     bindE (recoverSymbols redis clock symbols) (\<lambda>results. ret (result # results)))"

definition replayAllSymbolsFromCommandLog :: "'w redis \<Rightarrow> (nat \<Rightarrow> nat) \<Rightarrow> bool \<Rightarrow> ('w, RecoveryResult list) rpprog" where
  "replayAllSymbolsFromCommandLog redis clock reset =
     bindE (if reset then on_books reset_registry else ret ()) (\<lambda>_.
     bindE (on_world (command_getSymbols redis)) (\<lambda>symbols.
     recoverSymbols redis clock (map plain_text symbols)))"

subsection \<open>StandbyReplica.js\<close>

definition set_position :: "string \<Rightarrow> string \<Rightarrow> ('w, unit) rpprog" where
  "set_position symbol i = modify (\<lambda>s. s\<lparr>rp_lastReplayedStreamIds := map_set (rp_lastReplayedStreamIds s) symbol i\<rparr>)"

fun track_results :: "jsval \<Rightarrow> jsval \<Rightarrow> RecoveryResult list \<Rightarrow> ('w, unit) rpprog" where
  "track_results partitionId partitionCount [] = ret ()"
| "track_results partitionId partitionCount (result # results) =
     bindE (liftE (isSymbolAssignedToPartition (JStr (rr_symbol result)) partitionId partitionCount)) (\<lambda>assigned.
     bindE (if assigned then set_position (rr_symbol result) (rr_lastCommandStreamId result) else ret ()) (\<lambda>_.
     track_results partitionId partitionCount results))"

definition initialize :: "'w redis \<Rightarrow> (nat \<Rightarrow> nat) \<Rightarrow> jsval \<Rightarrow> jsval \<Rightarrow> ('w, RecoveryResult list) rpprog" where
  "initialize redis clock partitionId partitionCount =
     bindE (replayAllSymbolsFromCommandLog redis clock True) (\<lambda>recoveryResults.
     bindE (modify (\<lambda>s. s\<lparr>rp_lastReplayedStreamIds := []\<rparr>)) (\<lambda>_.
     bindE (track_results partitionId partitionCount recoveryResults) (\<lambda>_.
     ret recoveryResults)))"

fun discover_each :: "'w redis \<Rightarrow> (nat \<Rightarrow> nat) \<Rightarrow> jsval \<Rightarrow> jsval \<Rightarrow> string list \<Rightarrow> ('w, unit) rpprog" where
  "discover_each redis clock partitionId partitionCount [] = ret ()"
| "discover_each redis clock partitionId partitionCount (symbol # symbols) =
     bindE (gets (\<lambda>s. map_has (rp_lastReplayedStreamIds s) symbol)) (\<lambda>tracked.
     bindE (if tracked then ret ()
            else bindE (liftE (isSymbolAssignedToPartition (JStr symbol) partitionId partitionCount)) (\<lambda>assigned.
                 if \<not> assigned then ret ()
                 else bindE (recoverSymbolFromCommandLog redis clock symbol) (\<lambda>result.
                      set_position symbol (rr_lastCommandStreamId result)))) (\<lambda>_.
     discover_each redis clock partitionId partitionCount symbols))"

definition discoverSymbols :: "'w redis \<Rightarrow> (nat \<Rightarrow> nat) \<Rightarrow> jsval \<Rightarrow> jsval \<Rightarrow> ('w, unit) rpprog" where
  "discoverSymbols redis clock partitionId partitionCount =
     bindE (on_world (command_getSymbols redis)) (\<lambda>symbols.
     discover_each redis clock partitionId partitionCount (map plain_text symbols))"

text \<open>The batch of one turn of the loop; the position moves with every entry that was executed.\<close>

fun follow_entries :: "(nat \<Rightarrow> nat) \<Rightarrow> string \<Rightarrow> LogEntry list \<Rightarrow> ('w, unit) rpprog" where
  "follow_entries clock symbol [] = ret ()"
| "follow_entries clock symbol (entry # es) =
     bindE (execute_entry clock entry) (\<lambda>_.
     bindE (set_position symbol (le_id entry)) (\<lambda>_. follow_entries clock symbol es))"

definition position_of :: "'w Replica \<Rightarrow> string \<Rightarrow> string" where
  "position_of s symbol = (case map_get (rp_lastReplayedStreamIds s) symbol of None \<Rightarrow> ''0-0'' | Some i \<Rightarrow> i)"

text \<open>
  The loop runs until a read finds nothing new; against an active node that keeps appending it
  need not end, which is the value \<open>None\<close>.
\<close>

partial_function (option) replayAvailableCommands ::
    "'w redis \<Rightarrow> (nat \<Rightarrow> nat) \<Rightarrow> string \<Rightarrow> nat \<Rightarrow> 'w Replica \<Rightarrow> ((js_error + nat) \<times> 'w Replica) option" where
  "replayAvailableCommands redis clock symbol replayed s =
    (case on_world (readNextProcessedCommands redis (JStr symbol) (position_of s symbol) 100) s of
       (Inl e, s1) \<Rightarrow> Some (Inl e, s1)
     | (Inr entries, s1) \<Rightarrow>
         if entries = [] then Some (Inr replayed, s1)
         else (case follow_entries clock symbol entries s1 of
             (Inl e, s2) \<Rightarrow> Some (Inl e, s2)
           | (Inr _, s2) \<Rightarrow> replayAvailableCommands redis clock symbol (replayed + length entries) s2))"

fun catch_up_each :: "'w redis \<Rightarrow> (nat \<Rightarrow> nat) \<Rightarrow> string list \<Rightarrow> nat \<Rightarrow> 'w Replica \<Rightarrow> ((js_error + nat) \<times> 'w Replica) option" where
  "catch_up_each redis clock [] replayed s = Some (Inr replayed, s)"
| "catch_up_each redis clock (symbol # symbols) replayed s =
    (case replayAvailableCommands redis clock symbol 0 s of
       None \<Rightarrow> None
     | Some (Inl e, s1) \<Rightarrow> Some (Inl e, s1)
     | Some (Inr n, s1) \<Rightarrow> catch_up_each redis clock symbols (replayed + n) s1)"

definition catchUp :: "'w redis \<Rightarrow> (nat \<Rightarrow> nat) \<Rightarrow> jsval \<Rightarrow> jsval \<Rightarrow> 'w Replica \<Rightarrow> ((js_error + nat) \<times> 'w Replica) option" where
  "catchUp redis clock partitionId partitionCount s =
    (case discoverSymbols redis clock partitionId partitionCount s of
       (Inl e, s1) \<Rightarrow> Some (Inl e, s1)
     | (Inr _, s1) \<Rightarrow> catch_up_each redis clock (map_keys (rp_lastReplayedStreamIds s1)) 0 s1)"

end
