(* ===== verification/LeaderElection.thy ===== *)
theory LeaderElection
  imports RedisDemo
begin

text \<open>
  \<^verbatim>\<open>src/infrastructure/redis/RedisLeaderElection.js\<close>: the leader of a partition is the node
  whose identifier is stored under the partition's lock key, which expires unless it is
  renewed.  The two scripts the code sends to Redis are the compare-and-act calls
  \<open>RENEW_SCRIPT\<close> and \<open>RELEASE_SCRIPT\<close>.
\<close>

definition LEADER_KEY :: string where
  "LEADER_KEY = ''matching:leader''"

definition LEADER_LOCK_TTL_MS :: nat where
  "LEADER_LOCK_TTL_MS = 5000"

definition LEADER_RENEW_INTERVAL_MS :: nat where
  "LEADER_RENEW_INTERVAL_MS = 2000"

definition getLeaderKey :: "jsval \<Rightarrow> string" where
  "getLeaderKey partitionId =
    (if is_number partitionId then ''matching:leader:partition:'' @ js_text partitionId else LEADER_KEY)"

definition RENEW_SCRIPT :: "string \<Rightarrow> stored \<Rightarrow> nat \<Rightarrow> redis_call" where
  "RENEW_SCRIPT key arg ttl = IfEquals key arg (PExpire key ttl)"

definition RELEASE_SCRIPT :: "string \<Rightarrow> stored \<Rightarrow> redis_call" where
  "RELEASE_SCRIPT key arg = IfEquals key arg (Del key)"

definition tryAcquireLeadership :: "'w redis \<Rightarrow> string \<Rightarrow> jsval \<Rightarrow> ('w, bool) rdprog" where
  "tryAcquireLeadership redis workerId partitionId =
     bindE (redis_call redis (SetKey (getLeaderKey partitionId) (Plain workerId) (IfAbsentMs LEADER_LOCK_TTL_MS)))
       (\<lambda>result. ret (result = ROk))"

definition renewLeadership :: "'w redis \<Rightarrow> string \<Rightarrow> jsval \<Rightarrow> ('w, bool) rdprog" where
  "renewLeadership redis workerId partitionId =
     bindE (redis_call redis (RENEW_SCRIPT (getLeaderKey partitionId) (Plain workerId) LEADER_LOCK_TTL_MS))
       (\<lambda>result. ret (result = RNum 1))"

definition releaseLeadership :: "'w redis \<Rightarrow> string \<Rightarrow> jsval \<Rightarrow> ('w, bool) rdprog" where
  "releaseLeadership redis workerId partitionId =
     bindE (redis_call redis (RELEASE_SCRIPT (getLeaderKey partitionId) (Plain workerId)))
       (\<lambda>result. ret (result = RNum 1))"

definition getCurrentLeader :: "'w redis \<Rightarrow> jsval \<Rightarrow> ('w, stored option) rdprog" where
  "getCurrentLeader redis partitionId =
     bindE (redis_call redis (GetKey (getLeaderKey partitionId))) (\<lambda>r. ret (reply_text r))"

definition hasLeadership :: "'w redis \<Rightarrow> string \<Rightarrow> jsval \<Rightarrow> ('w, bool) rdprog" where
  "hasLeadership redis workerId partitionId =
     bindE (getCurrentLeader redis partitionId) (\<lambda>leader. ret (leader = Some (Plain workerId)))"

subsection \<open>The lock\<close>

text \<open>What the nodes can do to the lock of a partition.\<close>

datatype lease_action = Acquire | Renew | Release | Check

fun lease_op :: "'w redis \<Rightarrow> jsval \<Rightarrow> lease_action \<Rightarrow> string \<Rightarrow> ('w, bool) rdprog" where
  "lease_op redis partitionId Acquire workerId = tryAcquireLeadership redis workerId partitionId"
| "lease_op redis partitionId Renew workerId = renewLeadership redis workerId partitionId"
| "lease_op redis partitionId Release workerId = releaseLeadership redis workerId partitionId"
| "lease_op redis partitionId Check workerId = hasLeadership redis workerId partitionId"

text \<open>The operations of several nodes, one after the other, and what they answered.\<close>

fun lease_run :: "'w redis \<Rightarrow> jsval \<Rightarrow> (string \<times> lease_action) list \<Rightarrow> 'w \<Rightarrow> (js_error + bool) list \<times> 'w" where
  "lease_run redis partitionId [] w = ([], w)"
| "lease_run redis partitionId ((workerId, x) # ops) w =
     (case lease_op redis partitionId x workerId w of (r, w1) \<Rightarrow>
       (case lease_run redis partitionId ops w1 of (rs, w2) \<Rightarrow> (r # rs, w2)))"

text \<open>The lock is held by a node, at least until a time.\<close>

definition holds_until :: "Store \<Rightarrow> string \<Rightarrow> string \<Rightarrow> nat \<Rightarrow> bool" where
  "holds_until st k workerId d \<longleftrightarrow> (\<exists>d'. st_texts st k = Some (Plain workerId, Some d') \<and> d \<le> d')"

lemma holds_live: "holds_until st k A d \<Longrightarrow> st_time st < d \<Longrightarrow> live_text st k = Some (Plain A)"
  by (auto simp: holds_until_def live_text_def)

definition lease_call :: "jsval \<Rightarrow> lease_action \<Rightarrow> string \<Rightarrow> redis_call" where
  "lease_call partitionId x workerId = (let k = getLeaderKey partitionId; a = Plain workerId in
     case x of Acquire \<Rightarrow> SetKey k a (IfAbsentMs LEADER_LOCK_TTL_MS)
     | Renew \<Rightarrow> RENEW_SCRIPT k a LEADER_LOCK_TTL_MS | Release \<Rightarrow> RELEASE_SCRIPT k a | Check \<Rightarrow> GetKey k)"

definition lease_yes :: "lease_action \<Rightarrow> string \<Rightarrow> reply \<Rightarrow> bool" where
  "lease_yes x workerId r = (case x of Acquire \<Rightarrow> r = ROk | Renew \<Rightarrow> r = RNum 1 | Release \<Rightarrow> r = RNum 1
     | Check \<Rightarrow> reply_text r = Some (Plain workerId))"

lemma lease_op_call:
  "lease_op redis partitionId x workerId =
     bindE (redis_call redis (lease_call partitionId x workerId)) (\<lambda>r. ret (lease_yes x workerId r))"
  by (cases x) (simp_all add: tryAcquireLeadership_def renewLeadership_def releaseLeadership_def hasLeadership_def
    getCurrentLeader_def bindE_assoc lease_call_def lease_yes_def Let_def bindE_def ret_def fun_eq_iff split: sum.split prod.split)

lemmas lease_simps = lease_call_def lease_yes_def RENEW_SCRIPT_def RELEASE_SCRIPT_def Let_def

text \<open>While a node holds the lock, nothing another node does changes it or answers yes.\<close>

lemma lease_answers:
  assumes "answers (lease_call p x B) r st st'" "live_text st (getLeaderKey p) = Some (Plain A)" "B \<noteq> A"
  shows "st' = st \<and> \<not> lease_yes x B r"
  using assms by (cases x) (auto simp: lease_simps reply_text_def)

lemma lease_answers_own:
  assumes "answers (lease_call p x A) r st st'" "lease_yes x A r" "x = Acquire \<or> x = Renew"
  shows "holds_until st' (getLeaderKey p) A (st_time st + LEADER_LOCK_TTL_MS) \<and> st_time st' = st_time st"
  using assms by (auto simp: lease_simps holds_until_def split: if_splits option.splits)

lemma documented_failure:
  assumes "documented redis view" "redis cs w = (Inl e, w')"
  obtains t where "st_time (view w) \<le> t"
    "view w' = (view w)\<lparr>st_time := t\<rparr> \<or> (\<exists>rs. answers_all cs rs ((view w)\<lparr>st_time := t\<rparr>) (view w'))"
proof -
  have "case redis cs w of (out, w') \<Rightarrow> \<exists>t \<ge> st_time (view w). let st = (view w)\<lparr>st_time := t\<rparr> in
       (case out of Inr rs \<Rightarrow> answers_all cs rs st (view w')
        | Inl e \<Rightarrow> view w' = st \<or> (\<exists>rs. answers_all cs rs st (view w')))"
    by (rule assms(1) [unfolded documented_def, THEN spec, THEN spec])
  then show ?thesis using that assms(2) by (auto simp: Let_def)
qed

text \<open>One operation of another node.\<close>

lemma lease_other:
  assumes doc: "documented redis view" and run: "lease_op redis p x B w = (r, w1)" and ne: "B \<noteq> A"
    and h: "holds_until (view w) (getLeaderKey p) A d" and t: "st_time (view w1) < d"
  shows "r \<noteq> Inr True \<and> holds_until (view w1) (getLeaderKey p) A d \<and> st_time (view w) \<le> st_time (view w1)"
proof -
  let ?c = "lease_call p x B"
  obtain out w' where o: "redis [?c] w = (out, w')" by (cases "redis [?c] w")
  have w': "w1 = w'" using run o by (cases out) (auto simp: lease_op_call redis_call_def bindE_def)
  have step: "view w' = (view w)\<lparr>st_time := t\<rparr> \<and> \<not> lease_yes x B q"
    if a: "answers ?c q ((view w)\<lparr>st_time := t\<rparr>) (view w')" for q t
  proof -
    have "st_time (view w') = t" using a by (cases x) (auto simp: lease_simps split: if_splits option.splits)
    then have "live_text ((view w)\<lparr>st_time := t\<rparr>) (getLeaderKey p) = Some (Plain A)"
      using h assms(5) w' by (intro holds_live [of _ _ _ d]) (simp_all add: holds_until_def)
    from lease_answers [OF a this ne] show ?thesis by simp
  qed
  show ?thesis
  proof (cases out)
    case (Inl e)
    obtain t where t: "st_time (view w) \<le> t"
      "view w' = (view w)\<lparr>st_time := t\<rparr> \<or> (\<exists>rs. answers_all [?c] rs ((view w)\<lparr>st_time := t\<rparr>) (view w'))"
      by (rule documented_failure [OF doc o [unfolded Inl]])
    have "view w' = (view w)\<lparr>st_time := t\<rparr>" using t(2) step by auto
    moreover have "r \<noteq> Inr True" using run o Inl by (auto simp: lease_op_call redis_call_def bindE_def)
    ultimately show ?thesis using h t(1) w' by (simp add: holds_until_def)
  next
    case (Inr rs)
    obtain t where t: "st_time (view w) \<le> t" "answers_all [?c] rs ((view w)\<lparr>st_time := t\<rparr>) (view w')"
      by (rule documented_reply [OF doc o [unfolded Inr]])
    then obtain q where q: "rs = [q]" "answers ?c q ((view w)\<lparr>st_time := t\<rparr>) (view w')" by auto
    from step [OF q(2)] have "view w' = (view w)\<lparr>st_time := t\<rparr>" "\<not> lease_yes x B q" by simp_all
    moreover have "r = Inr (lease_yes x B q)" using run o Inr q(1) by (simp add: lease_op_call redis_call_def bindE_def)
    ultimately show ?thesis using h t(1) w' by (simp add: holds_until_def)
  qed
qed

lemma lease_time:
  assumes doc: "documented redis view" and run: "lease_op redis p x B w = (r, w1)"
  shows "st_time (view w) \<le> st_time (view w1)"
proof -
  let ?c = "lease_call p x B"
  obtain out w' where o: "redis [?c] w = (out, w')" by (cases "redis [?c] w")
  have w': "w1 = w'" using run o by (cases out) (auto simp: lease_op_call redis_call_def bindE_def)
  have a: "st_time (view w') = t" if "answers ?c q ((view w)\<lparr>st_time := t\<rparr>) (view w')" for q t
    using that by (cases x) (auto simp: lease_simps split: if_splits option.splits)
  show ?thesis
  proof (cases out)
    case (Inl e)
    then show ?thesis using documented_failure [OF doc o [unfolded Inl]] a w' by fastforce
  next
    case (Inr rs)
    then show ?thesis using documented_reply [OF doc o [unfolded Inr]] a w' by fastforce
  qed
qed

lemma lease_run_time:
  assumes "documented redis view" "lease_run redis p ops w = (rs, w2)"
  shows "st_time (view w) \<le> st_time (view w2)"
  using assms(2)
proof (induction ops arbitrary: w rs)
  case (Cons a ops)
  obtain B x where a: "a = (B, x)" by (cases a)
  obtain r w1 where 1: "lease_op redis p x B w = (r, w1)" by (cases "lease_op redis p x B w")
  obtain qs where 2: "lease_run redis p ops w1 = (qs, w2)" using Cons.prems a 1 by (auto split: prod.splits)
  show ?case using lease_time [OF assms(1) 1] Cons.IH [OF 2] by simp
qed simp

lemma lease_run_others:
  assumes "documented redis view" "lease_run redis p ops w = (rs, w2)" "\<forall>x \<in> set ops. fst x \<noteq> A"
    "holds_until (view w) (getLeaderKey p) A d" "st_time (view w2) < d"
  shows "Inr True \<notin> set rs \<and> holds_until (view w2) (getLeaderKey p) A d"
  using assms(2-5)
proof (induction ops arbitrary: w rs)
  case (Cons a ops)
  obtain B x where a: "a = (B, x)" by (cases a)
  obtain r w1 where 1: "lease_op redis p x B w = (r, w1)" by (cases "lease_op redis p x B w")
  obtain qs where 2: "lease_run redis p ops w1 = (qs, w2)" "rs = r # qs" using Cons.prems(1) a 1 by (auto split: prod.splits)
  have "st_time (view w1) < d" using lease_run_time [OF assms(1) 2(1)] Cons.prems(4) by simp
  then have "r \<noteq> Inr True \<and> holds_until (view w1) (getLeaderKey p) A d"
    using lease_other [OF assms(1) 1 _ Cons.prems(3)] Cons.prems(2) a by simp
  then show ?case using Cons.IH [OF 2(1)] Cons.prems(2,4) 2(2) by auto
qed simp

lemma lease_own:
  assumes "documented redis view" "lease_op redis p x A w = (Inr True, w1)" "x = Acquire \<or> x = Renew"
  shows "holds_until (view w1) (getLeaderKey p) A (st_time (view w1) + LEADER_LOCK_TTL_MS)"
proof -
  obtain q where q: "redis_call redis (lease_call p x A) w = (Inr q, w1)" "lease_yes x A q"
    using assms(2) by (auto simp: lease_op_call bindE_eq_Inr)
  obtain t where "answers (lease_call p x A) q ((view w)\<lparr>st_time := t\<rparr>) (view w1)"
    by (rule documented_call [OF assms(1) q(1)])
  from lease_answers_own [OF this q(2) assms(3)] show ?thesis by simp
qed

subsection \<open>Properties\<close>

text \<open>
  C15. The lease is exclusive: once a node's acquisition or renewal is granted, then as long as
  less than the lease time has passed on the Redis clock, whatever other nodes try (acquire,
  renew, release, check, in any order, with calls that fail among them) is refused, and the
  lock still names the node.
\<close>

theorem lease_exclusive:
  assumes "documented redis view" "x = Acquire \<or> x = Renew" "lease_op redis p x A w = (Inr True, w1)"
    and "\<forall>y \<in> set ops. fst y \<noteq> A" "lease_run redis p ops w1 = (rs, w2)"
    and "st_time (view w2) < st_time (view w1) + LEADER_LOCK_TTL_MS"
  shows "Inr True \<notin> set rs \<and> live_text (view w2) (getLeaderKey p) = Some (Plain A)"
  using lease_run_others [OF assms(1,5,4) lease_own [OF assms(1,3,2)] assms(6)] holds_live [OF _ assms(6)] by blast

theorem lease_exclusive_witness:
  "\<exists>w1 rs w2. lease_op demo_redis (JNum 0) Acquire ''n1'' demo_store = (Inr True, w1) \<and>
    lease_run demo_redis (JNum 0) [(''n2'', Acquire), (''n2'', Release), (''n3'', Check)] w1 = (rs, w2) \<and>
    Inr True \<notin> set rs \<and> live_text w2 (getLeaderKey (JNum 0)) = Some (Plain ''n1'')"
proof -
  let ?ops = "[(''n2'', Acquire), (''n2'', Release), (''n3'', Check)]"
  obtain w1 where w1: "lease_op demo_redis (JNum 0) Acquire ''n1'' demo_store = (Inr True, w1)" "st_time w1 = 0"
    by (simp add: lease_op_call lease_simps redis_call_def demo_redis_def demo_store_def live_text_def bindE_def)
  obtain rs w2 where w2: "lease_run demo_redis (JNum 0) ?ops w1 = (rs, w2)" by (cases "lease_run demo_redis (JNum 0) ?ops w1")
  have keep: "st_time (snd (demo_call c st)) = st_time st" for c st
    by (induction c arbitrary: st) (auto split: option.split expiry.split)
  have "st_time (snd (demo_calls cs st)) = st_time st" for cs st
    by (induction cs arbitrary: st) (auto simp: split_def keep)
  then have "st_time (snd (lease_op demo_redis p x B st)) = st_time st" for p x B st
    by (simp add: lease_op_call redis_call_def demo_redis_def bindE_def split_def keep)
  then have "st_time (snd (lease_run demo_redis p ops st)) = st_time st" for p ops st
    by (induction ops arbitrary: st) (auto simp: split_def)
  then have "st_time w2 < st_time w1 + LEADER_LOCK_TTL_MS" using w2 by (metis LEADER_LOCK_TTL_MS_def less_add_same_cancel1 snd_conv zero_less_numeral)
  then show ?thesis using lease_exclusive [OF demo_documented _ w1(1) _ w2] w1(1) w2 by auto
qed

end
