(* ===== verification/Worker.thy ===== *)
theory Worker
  imports StandbyReplica LeaderElection
begin

text \<open>
  \<^verbatim>\<open>src/workers/orderCommanderWorker.js\<close>: the consumer of a partition's queue on the active
  node.  \<open>handle_message\<close> is its handler of one delivery: leadership and partition checks, the
  test for a redelivery, the execution, the writes to Redis in their order, the acknowledgement,
  and the rejection path of the \<^verbatim>\<open>catch\<close>.  The channel's operations are recorded as actions.
  The leadership check and the text of an error (\<open>message_of\<close>) are parameters.
\<close>

datatype CommandStatus = QUEUED | PROCESSED | REJECTED | FAILED

fun command_status_val :: "CommandStatus \<Rightarrow> jsval" where
  "command_status_val QUEUED = JStr ''QUEUED''"
| "command_status_val PROCESSED = JStr ''PROCESSED''"
| "command_status_val REJECTED = JStr ''REJECTED''"
| "command_status_val FAILED = JStr ''FAILED''"

definition getOrderCommandQueueName :: "jsval \<Rightarrow> string" where
  "getOrderCommandQueueName partitionId = ''order.commands.partition.'' @ js_text partitionId"

text \<open>What the worker does to its channel and its node.\<close>

datatype action = Consume string | CancelConsumer | Ack | Nack bool | LeadershipLost

record 'w Worker =
  wk_books :: registry
  wk_world :: 'w
  wk_stopped :: bool
  wk_leadershipLossReported :: bool
  wk_actions :: "action list"

type_synonym ('w, 'r) wkprog = "('w Worker, js_error, 'r) prog"

definition in_books :: "'r rprog \<Rightarrow> ('w, 'r) wkprog" where
  "in_books f = (\<lambda>s. case f (wk_books s) of (r, b) \<Rightarrow> (r, s\<lparr>wk_books := b\<rparr>))"

definition in_world :: "('w, 'r) rdprog \<Rightarrow> ('w, 'r) wkprog" where
  "in_world f = (\<lambda>s. case f (wk_world s) of (r, w) \<Rightarrow> (r, s\<lparr>wk_world := w\<rparr>))"

definition act :: "action \<Rightarrow> ('w, unit) wkprog" where
  "act a = modify (\<lambda>s. s\<lparr>wk_actions := wk_actions s @ [a]\<rparr>)"

text \<open>The readings of the clock in the handling of one message.\<close>

record Times =
  tm_processedAt :: nat
  tm_updatedAt :: nat
  tm_publishedAt :: nat
  tm_rejectedAt :: nat

subsection \<open>The helpers\<close>

definition parseMessage :: "stored \<Rightarrow> jsval res" where
  "parseMessage body = json_parse body"

text \<open>A property of a parsed message; \<^verbatim>\<open>null\<close> has none.\<close>

definition prop_of :: "jsval \<Rightarrow> string \<Rightarrow> jsval res" where
  "prop_of v k = (if nullish v then Inl TypeErr else Inr (getp (props v) k))"

definition updateCommandStatus :: "'w redis \<Rightarrow> nat \<Rightarrow> jsobj \<Rightarrow> CommandStatus \<Rightarrow> jsval \<Rightarrow> ('w, unit) rdprog" where
  "updateCommandStatus redis updatedAt command status reason =
     saveStatus redis
      [(''commandId'', getp command ''commandId''),
       (''symbol'', getp command ''symbol''),
       (''type'', getp command ''type''),
       (''status'', command_status_val status),
       (''reason'', reason),
       (''createdAt'', getp command ''createdAt''),
       (''updatedAt'', JInt (int updatedAt))]"

fun result_events :: "CommandResult \<Rightarrow> jsobj list" where
  "result_events (Placed r) = pr_events r"
| "result_events (Cancelled r) = (case getp r ''events'' of JArr vs \<Rightarrow> map props vs | _ \<Rightarrow> [])"

fun result_trades :: "CommandResult \<Rightarrow> jsval list" where
  "result_trades (Placed r) = map (\<lambda>t. JObj (trade_obj t)) (pr_trades r)"
| "result_trades (Cancelled r) = (case getp r ''trades'' of JArr vs \<Rightarrow> vs | _ \<Rightarrow> [])"

definition saveReadModel :: "'w redis \<Rightarrow> jsval \<Rightarrow> OrderBook \<Rightarrow> CommandResult \<Rightarrow> ('w, unit) rdprog" where
  "saveReadModel redis symbol book result =
     bindE (saveBookSnapshot redis symbol (snapshot book)) (\<lambda>_.
     appendTrades redis symbol (result_trades result))"

definition reportLeadershipLost :: "('w, unit) wkprog" where
  "reportLeadershipLost = (\<lambda>s. if wk_leadershipLossReported s then (Inr (), s)
     else act LeadershipLost (s\<lparr>wk_leadershipLossReported := True\<rparr>))"

definition checkLeadership :: "('w, bool) rdprog \<Rightarrow> ('w, bool) wkprog" where
  "checkLeadership lead = (\<lambda>s. if wk_stopped s then (Inr False, s)
     else (case in_world lead s of (Inl e, s') \<Rightarrow> (Inr False, s') | (Inr b, s') \<Rightarrow> (Inr b, s')))"

text \<open>Not the leader: the message goes back to the queue.\<close>

definition give_back :: "('w, bool) wkprog" where
  "give_back = bindE (act (Nack True)) (\<lambda>_. bindE reportLeadershipLost (\<lambda>_. ret True))"

subsection \<open>A message\<close>

text \<open>
  After the command is in the log.  The answer is whether the handler returns: on a book with a
  cyclic price level \<^verbatim>\<open>toRecoverySnapshot\<close> would not.  (Between the execution and this point no
  other code runs on the book the handler holds.)
\<close>

definition store_result ::
    "'w redis \<Rightarrow> ('w, bool) rdprog \<Rightarrow> Times \<Rightarrow> jsobj \<Rightarrow> OrderBook \<Rightarrow> CommandResult \<Rightarrow> jsval \<Rightarrow> ('w, bool) wkprog" where
  "store_result redis lead tm command book result commandLogEntryId =
    (let symbol = getp command ''symbol'' in
     bindE (in_world (appendEvents redis symbol (result_events result))) (\<lambda>_.
     bindE (in_world (saveReadModel redis symbol book result)) (\<lambda>_.
     case toRecoverySnapshot commandLogEntryId book of None \<Rightarrow> ret False
     | Some checkpoint \<Rightarrow>
       bindE (in_world (saveRecoverySnapshot redis symbol checkpoint)) (\<lambda>_.
       bindE (in_world (updateCommandStatus redis (tm_updatedAt tm) command PROCESSED JNull)) (\<lambda>_.
       bindE (checkLeadership lead) (\<lambda>stillLeader.
       bindE (act Ack) (\<lambda>_.
       bindE (in_world (publishMarketEvents redis (tm_publishedAt tm) symbol (result_events result))) (\<lambda>_.
       bindE (if \<not> stillLeader then reportLeadershipLost else ret ()) (\<lambda>_.
       ret True)))))))))"

definition record_command ::
    "'w redis \<Rightarrow> ('w, bool) rdprog \<Rightarrow> Times \<Rightarrow> jsobj \<Rightarrow> OrderBook \<Rightarrow> CommandResult \<Rightarrow> ('w, bool) wkprog" where
  "record_command redis lead tm command book result =
     bindE (in_world (appendProcessedCommand redis (tm_processedAt tm) command))
       (store_result redis lead tm command book result)"

text \<open>The execution, with the book it answers.\<close>

definition execute_command :: "(nat \<Rightarrow> nat) \<Rightarrow> jsobj \<Rightarrow> ('w, OrderBook \<times> CommandResult) wkprog" where
  "execute_command clock command =
     bindE (in_books (executeOrderCommand clock command)) (\<lambda>result.
     bindE (gets (\<lambda>s. map_get (wk_books s) (str_of (getp command ''symbol'')))) (\<lambda>found.
     case found of None \<Rightarrow> throw TypeErr | Some book \<Rightarrow> ret (book, result)))"

definition execute_and_record :: "'w redis \<Rightarrow> (nat \<Rightarrow> nat) \<Rightarrow> ('w, bool) rdprog \<Rightarrow> Times \<Rightarrow> jsobj \<Rightarrow> ('w, bool) wkprog" where
  "execute_and_record redis clock lead tm command =
     bindE (execute_command clock command) (\<lambda>(book, result).
     bindE (checkLeadership lead) (\<lambda>leader.
     if \<not> leader then give_back else record_command redis lead tm command book result))"

definition process_command :: "'w redis \<Rightarrow> (nat \<Rightarrow> nat) \<Rightarrow> ('w, bool) rdprog \<Rightarrow> Times \<Rightarrow> jsobj \<Rightarrow> ('w, bool) wkprog" where
  "process_command redis clock lead tm command =
     bindE (in_world (isCommandProcessed redis (getp command ''symbol'') (getp command ''commandId''))) (\<lambda>alreadyProcessed.
     if alreadyProcessed
     then bindE (in_world (updateCommandStatus redis (tm_updatedAt tm) command PROCESSED JNull)) (\<lambda>_.
          bindE (act Ack) (\<lambda>_. ret True))
     else execute_and_record redis clock lead tm command)"

definition process_message ::
    "'w redis \<Rightarrow> (nat \<Rightarrow> nat) \<Rightarrow> ('w, bool) rdprog \<Rightarrow> jsval \<Rightarrow> jsval \<Rightarrow> Times \<Rightarrow> stored \<Rightarrow> ('w, bool) wkprog" where
  "process_message redis clock lead partitionId partitionCount tm body =
     bindE (liftE (parseMessage body)) (\<lambda>command.
     bindE (liftE (prop_of command ''symbol'')) (\<lambda>symbol.
     bindE (liftE (getPartitionId symbol partitionCount)) (\<lambda>commandPartitionId.
     if JInt commandPartitionId \<noteq> partitionId then bindE (act (Nack False)) (\<lambda>_. ret True)
     else process_command redis clock lead tm (props command))))"

text \<open>The \<^verbatim>\<open>catch\<close> block.\<close>

definition rejected_event :: "nat \<Rightarrow> jsobj \<Rightarrow> jsval \<Rightarrow> jsobj" where
  "rejected_event now command reason =
     createOrderRejectedEvent
      [(''symbol'', getp command ''symbol''),
       (''commandId'', getp command ''commandId''),
       (''orderId'', if nullish (getp command ''payload'') then JNull
          else coalesce (getp (props (getp command ''payload'')) ''orderId'') JNull),
       (''commandType'', getp command ''type''),
       (''reason'', reason)] now"

definition reject_message :: "'w redis \<Rightarrow> Times \<Rightarrow> string \<Rightarrow> stored \<Rightarrow> 'w Worker \<Rightarrow> 'w Worker" where
  "reject_message redis tm reason body s =
    (case bindE (liftE (parseMessage body)) (\<lambda>parsed.
          bindE (liftE (prop_of parsed ''symbol'')) (\<lambda>symbol.
          let command = props parsed;
              event = rejected_event (tm_rejectedAt tm) command (JStr reason) in
          bindE (in_world (updateCommandStatus redis (tm_updatedAt tm) command REJECTED (JStr reason))) (\<lambda>_.
          bindE (act Ack) (\<lambda>_.
          in_world (publishMarketEvents redis (tm_publishedAt tm) symbol [event]))))) s of
       (Inl rejectionError, s') \<Rightarrow> snd (act (Nack False) s')
     | (Inr _, s') \<Rightarrow> s')"

text \<open>The handler; it returns, or (\<open>None\<close>) it does not.  No message means the consumer was cancelled.\<close>

definition handle_message ::
    "'w redis \<Rightarrow> (nat \<Rightarrow> nat) \<Rightarrow> (js_error \<Rightarrow> string) \<Rightarrow> ('w, bool) rdprog \<Rightarrow> jsval \<Rightarrow> jsval \<Rightarrow> Times \<Rightarrow>
      stored option \<Rightarrow> 'w Worker \<Rightarrow> 'w Worker option" where
  "handle_message redis clock message_of lead partitionId partitionCount tm message s =
    (case message of None \<Rightarrow> Some s
     | Some body \<Rightarrow>
       (case checkLeadership lead s of
          (Inr True, s1) \<Rightarrow>
            (case process_message redis clock lead partitionId partitionCount tm body s1 of
               (Inr returned, s2) \<Rightarrow> if returned then Some s2 else None
             | (Inl e, s2) \<Rightarrow> Some (reject_message redis tm (message_of e) body s2))
        | (_, s1) \<Rightarrow> Some (snd (give_back s1))))"

subsection \<open>Starting and stopping\<close>

definition targetQueue :: "jsval \<Rightarrow> string" where
  "targetQueue partitionId = (if is_number partitionId then getOrderCommandQueueName partitionId
     else getOrderCommandQueueName (JInt 0))"

definition startOrderCommandWorker :: "registry \<Rightarrow> 'w \<Rightarrow> jsval \<Rightarrow> 'w Worker" where
  "startOrderCommandWorker books w partitionId =
     \<lparr> wk_books = books, wk_world = w, wk_stopped = False, wk_leadershipLossReported = False,
       wk_actions = [Consume (targetQueue partitionId)] \<rparr>"

definition stop_worker :: "'w Worker \<Rightarrow> 'w Worker" where
  "stop_worker s = (if wk_stopped s then s else snd (act CancelConsumer (s\<lparr>wk_stopped := True\<rparr>)))"

end
