(* ===== verification/CatchUpProofs.thy ===== *)
theory CatchUpProofs
  imports StandbyReplica
begin

text \<open>
  What a node finds in Redis is enough to rebuild the books: \<open>durable\<close> says that the command
  log of a symbol is one that replays without a refusal and that the stored checkpoint, if
  any, is the book of a prefix of it.  Recovery and catching up from a durable log give the
  book the log stands for.
\<close>

subsection \<open>Logs that replay without a refusal\<close>

context command_log
begin

lemma logged_length: "length (logged s cs) \<le> length cs"
proof (induction cs arbitrary: s)
  case (Cons c cs)
  then show ?case by (auto simp: le_SucI split: prod.split sum.split)
qed simp

lemma accepted_Cons:
  assumes "logged s (c # cs) = c # cs"
  obtains x s' where "run s c = (Inr x, s')" "logged s' cs = cs"
proof -
  obtain r s' where rs: "run s c = (r, s')" by (cases "run s c")
  show ?thesis
  proof (cases r)
    case (Inl e)
    then have "logged s' cs = c # cs" using assms rs by simp
    then show ?thesis using logged_length [of s' cs] by simp
  next
    case (Inr x)
    then show ?thesis using that [of x s'] assms rs by simp
  qed
qed

lemma accepted_append:
  assumes "logged s (xs @ ys) = xs @ ys"
  shows "logged s xs = xs \<and> logged (run_all s xs) ys = ys"
proof -
  have e: "logged s xs @ logged (run_all s xs) ys = xs @ ys" using assms by (simp add: logged_append)
  moreover have "length (logged s xs) = length xs"
    using logged_length [of s xs] logged_length [of "run_all s xs" ys] arg_cong [OF e, of length] by simp
  ultimately show ?thesis by simp
qed

end

context observed_log
begin

lemma accepted_view:
  "good (total_cost cs) s \<Longrightarrow> good (total_cost cs) t \<Longrightarrow> (\<And>c. c \<in> set cs \<Longrightarrow> admissible c) \<Longrightarrow> view s = view t \<Longrightarrow>
     logged s cs = cs \<Longrightarrow> logged t cs = cs"
proof (induction cs arbitrary: s t)
  case (Cons c cs)
  have g: "good (cost c + total_cost cs) s" "good (cost c + total_cost cs) t" "admissible c" using Cons.prems by simp_all
  obtain x s' where rs: "run s c = (Inr x, s')" "logged s' cs = cs" by (rule accepted_Cons [OF Cons.prems(5)])
  obtain r t' where rt: "run t c = (r, t')" by (cases "run t c")
  have v: "view s' = view t'" "\<not> isl r" using view_run [OF g Cons.prems(4)] rs rt by simp_all
  have "logged t' cs = cs"
    using Cons.IH [OF step_good [OF g(1,3)] step_good [OF g(2,3)]] Cons.prems(3) v(1) rs rt by simp
  then show ?case using rt v(2) by (cases r) simp_all
qed simp

end

subsection \<open>Stream identifiers are ordered\<close>

lemma id_less_irrefl [simp]: "\<not> id_less i i"
  by (simp add: id_less_def)

lemma id_less_trans: "id_less i j \<Longrightarrow> id_less j k \<Longrightarrow> id_less i k"
  by (auto simp: id_less_def)

lemma id_less_asym: "id_less i j \<Longrightarrow> \<not> id_less j i"
  by (auto simp: id_less_def)

text \<open>The entries after an entry, by identifier.\<close>

lemma filter_after:
  assumes "sorted_wrt id_less (map fst (xs @ ys))" "xs \<noteq> []"
  shows "filter (\<lambda>e. id_less (fst (last xs)) (fst e)) (xs @ ys) = ys"
proof -
  have s: "sorted_wrt id_less (map fst xs)" "\<forall>x \<in> set xs. \<forall>y \<in> set ys. id_less (fst x) (fst y)"
    using assms(1) by (simp_all add: sorted_wrt_append)
  obtain zs z where x: "xs = zs @ [z]" using assms(2) by (meson rev_exhaust)
  have "filter (\<lambda>e. id_less (fst z) (fst e)) xs = []"
    using s(1) id_less_asym by (auto simp: x sorted_wrt_append filter_empty_conv)
  moreover have "filter (\<lambda>e. id_less (fst z) (fst e)) ys = ys" using s(2) by (simp add: x filter_id_conv)
  ultimately show ?thesis by (simp add: x)
qed

subsection \<open>The log of a symbol\<close>

definition log_of :: "Store \<Rightarrow> string \<Rightarrow> (string \<times> fields) list" where
  "log_of st symbol = st_streams st (commandLogStreamKey (JStr symbol))"

definition entry_command :: "string \<times> fields \<Rightarrow> jsobj" where
  "entry_command e = (case log_entry e of Inr le \<Rightarrow> props (le_command le) | Inl _ \<Rightarrow> [])"

definition decodes :: "string \<Rightarrow> string \<times> fields \<Rightarrow> bool" where
  "decodes symbol e \<longleftrightarrow> log_entry e = Inr \<lparr> le_id = fst e, le_command = JObj (entry_command e) \<rparr> \<and>
     getp (entry_command e) ''symbol'' = JStr symbol"

definition request_of :: "string \<times> fields \<Rightarrow> jsval \<times> jsval" where
  "request_of e = (getp (entry_command e) ''type'', getp (entry_command e) ''payload'')"

abbreviation requests :: "(string \<times> fields) list \<Rightarrow> (jsval \<times> jsval) list" where
  "requests es \<equiv> map request_of es"

definition requests_cost :: "(string \<times> fields) list \<Rightarrow> nat" where
  "requests_cost es = sum_list (map command_cost (requests es))"

definition origin :: "string \<Rightarrow> OrderBook" where
  "origin symbol = fresh_book (\<lambda>_. 0) symbol"

definition rebuilt :: "string \<Rightarrow> (string \<times> fields) list \<Rightarrow> AbstractBook" where
  "rebuilt symbol es = abs_book (book_log.run_all (origin symbol) (requests es))"

definition sound_log :: "string \<Rightarrow> (string \<times> fields) list \<Rightarrow> bool" where
  "sound_log symbol es \<longleftrightarrow> trim symbol \<noteq> [] \<and> (\<forall>e \<in> set es. decodes symbol e) \<and> sorted_wrt id_less (map fst es) \<and>
     (\<forall>e \<in> set es. id_less ''0-0'' (fst e)) \<and> length es \<le> 100000 \<and> (\<forall>e \<in> set es. admissible_command (request_of e)) \<and>
     requests_cost es < maxCycles \<and> book_log.logged (origin symbol) (requests es) = requests es"

text \<open>A book that stands for a prefix of the log.\<close>

definition stands_for :: "string \<Rightarrow> (string \<times> fields) list \<Rightarrow> OrderBook \<Rightarrow> bool" where
  "stands_for symbol es b \<longleftrightarrow> book_ok b \<and> abs_book b = rebuilt symbol es"

lemma origin_good: "sound_log symbol es \<Longrightarrow> book_good (requests_cost es) (origin symbol)"
  using fresh_book_ok [of symbol "\<lambda>_. 0"] by (simp add: sound_log_def book_good_def origin_def)

lemma requests_cost_append: "requests_cost (xs @ ys) = requests_cost xs + requests_cost ys"
  by (simp add: requests_cost_def)

lemma stands_good:
  assumes s: "sound_log symbol (xs @ ys)" and b: "stands_for symbol xs b"
  shows "book_good (requests_cost ys) b" "book_good (requests_cost ys) (book_log.run_all (origin symbol) (requests xs))"
proof -
  have "book_good (sum_list (map command_cost (requests xs)) + requests_cost ys) (origin symbol)"
    using origin_good [OF s] by (simp add: requests_cost_append) (simp add: requests_cost_def)
  then show g: "book_good (requests_cost ys) (book_log.run_all (origin symbol) (requests xs))"
    by (rule book_view.run_all_good) (use s in \<open>auto simp: sound_log_def\<close>)
  show "book_good (requests_cost ys) b"
    using g b view_stop_count [of b "book_log.run_all (origin symbol) (requests xs)"]
    by (simp add: stands_for_def rebuilt_def book_good_def)
qed

text \<open>From a book that stands for a prefix, the rest of the log is accepted and leads to the whole.\<close>

lemma stands_run:
  assumes s: "sound_log symbol (xs @ ys)" and b: "stands_for symbol xs b"
  shows "book_log.logged b (requests ys) = requests ys"
    "stands_for symbol (xs @ ys) (book_log.run_all b (requests ys))"
proof -
  let ?t = "book_log.run_all (origin symbol) (requests xs)"
  note g = stands_good [OF s b, unfolded requests_cost_def]
  have adm: "c \<in> set (requests ys) \<Longrightarrow> admissible_command c" for c using s by (auto simp: sound_log_def)
  have v: "abs_book ?t = abs_book b" using b by (simp add: stands_for_def rebuilt_def)
  have "book_log.logged (origin symbol) (requests xs @ requests ys) = requests xs @ requests ys"
    using s by (simp add: sound_log_def)
  from book_log.accepted_append [OF this] have "book_log.logged ?t (requests ys) = requests ys" by simp
  then show "book_log.logged b (requests ys) = requests ys"
    using book_view.accepted_view [OF g(2,1) adm v] by simp
  have "abs_book (book_log.run_all b (requests ys)) = rebuilt symbol (xs @ ys)"
    using book_view.run_all_view [OF g(2,1) adm v] by (simp add: rebuilt_def book_log.run_all_append)
  moreover have "book_good 0 (book_log.run_all b (requests ys))"
    by (rule book_view.run_all_good) (use g(1) adm in simp_all)
  ultimately show "stands_for symbol (xs @ ys) (book_log.run_all b (requests ys))"
    by (simp add: stands_for_def book_good_def)
qed

lemma stands_fresh: "sound_log symbol es \<Longrightarrow> stands_for symbol [] (fresh_book clock symbol)"
  using fresh_book_ok [of symbol clock] fresh_view [of symbol clock "\<lambda>_. 0"]
  by (simp add: sound_log_def stands_for_def rebuilt_def origin_def)

lemma sound_prefix: "sound_log symbol (xs @ ys) \<Longrightarrow> sound_log symbol xs"
  using book_log.accepted_append [of "origin symbol" "requests xs" "requests ys"]
  by (auto simp: sound_log_def sorted_wrt_append requests_cost_append)

subsection \<open>Executing log entries\<close>

definition as_entry :: "string \<times> fields \<Rightarrow> LogEntry" where
  "as_entry e = \<lparr> le_id = fst e, le_command = JObj (entry_command e) \<rparr>"

lemma mapE_entries: "(\<And>e. e \<in> set es \<Longrightarrow> decodes symbol e) \<Longrightarrow> mapE log_entry es = Inr (map as_entry es)"
  by (induction es) (simp_all add: decodes_def as_entry_def)

lemma execute_entry_ok:
  assumes "trim symbol \<noteq> []" "decodes symbol e" "run_command (book_of clock (rp_books s) symbol) (request_of e) = (Inr x, b)"
  shows "execute_entry clock (as_entry e) s = (Inr (), s\<lparr>rp_books := map_set (rp_books s) symbol b\<rparr>)"
proof -
  have "getp (entry_command e) ''symbol'' = JStr symbol" using assms(2) by (simp add: decodes_def)
  from executeOrderCommand_eq [OF assms(1) this, of clock "rp_books s"]
  have "executeOrderCommand clock (entry_command e) (rp_books s) = (Inr x, map_set (rp_books s) symbol b)"
    using assms(3) by (simp add: run_command_def request_of_def)
  then show ?thesis by (simp add: execute_entry_def as_entry_def nullish_def bindE_def on_books_def)
qed

text \<open>The registry after the entries of a symbol: that symbol's book alone has moved.\<close>

definition moved :: "(nat \<Rightarrow> nat) \<Rightarrow> string \<Rightarrow> OrderBook \<Rightarrow> registry \<Rightarrow> registry \<Rightarrow> bool" where
  "moved clock symbol b r r' \<longleftrightarrow> book_of clock r' symbol = b \<and> (\<forall>t. t \<noteq> symbol \<longrightarrow> map_get r' t = map_get r t)"

lemma replay_entries_ok:
  assumes "trim symbol \<noteq> []" "\<And>e. e \<in> set es \<Longrightarrow> decodes symbol e"
    "book_log.logged (book_of clock (rp_books s) symbol) (requests es) = requests es"
  shows "\<exists>r. replay_entries clock (map as_entry es) s = (Inr (), s\<lparr>rp_books := r\<rparr>) \<and>
    moved clock symbol (book_log.run_all (book_of clock (rp_books s) symbol) (requests es)) (rp_books s) r"
  using assms(2,3)
proof (induction es arbitrary: s)
  case Nil
  then show ?case by (intro exI [of _ "rp_books s"]) (simp add: moved_def)
next
  case (Cons e es)
  let ?b = "book_of clock (rp_books s) symbol"
  obtain x b where run: "run_command ?b (request_of e) = (Inr x, b)" and acc: "book_log.logged b (requests es) = requests es"
    using book_log.accepted_Cons [of ?b "request_of e" "requests es"] Cons.prems(2) by auto
  let ?s = "s\<lparr>rp_books := map_set (rp_books s) symbol b\<rparr>"
  have b: "book_of clock (rp_books ?s) symbol = b" by (simp add: book_of_def map_get_set)
  obtain r where "replay_entries clock (map as_entry es) ?s = (Inr (), ?s\<lparr>rp_books := r\<rparr>)"
    "moved clock symbol (book_log.run_all b (requests es)) (rp_books ?s) r"
    using Cons.IH [of ?s] Cons.prems(1) acc unfolding b by auto
  moreover have "execute_entry clock (as_entry e) s = (Inr (), ?s)"
    by (rule execute_entry_ok [OF assms(1) _ run]) (simp add: Cons.prems(1))
  ultimately show ?case using run
    by (intro exI [of _ r]) (auto simp: bindE_def moved_def map_get_set)
qed

definition last_id :: "(string \<times> fields) list \<Rightarrow> string" where
  "last_id es = (if es = [] then ''0-0'' else fst (last es))"

lemma follow_entries_ok:
  assumes "trim symbol \<noteq> []" "\<And>e. e \<in> set es \<Longrightarrow> decodes symbol e"
    "book_log.logged (book_of clock (rp_books s) symbol) (requests es) = requests es" "es \<noteq> []"
  shows "\<exists>s'. follow_entries clock symbol (map as_entry es) s = (Inr (), s') \<and> rp_world s' = rp_world s \<and>
    moved clock symbol (book_log.run_all (book_of clock (rp_books s) symbol) (requests es)) (rp_books s) (rp_books s') \<and>
    position_of s' symbol = fst (last es) \<and>
    (\<forall>t. t \<noteq> symbol \<longrightarrow> map_get (rp_lastReplayedStreamIds s') t = map_get (rp_lastReplayedStreamIds s) t)"
  using assms(2-4)
proof (induction es arbitrary: s)
  case (Cons e es)
  let ?b = "book_of clock (rp_books s) symbol"
  obtain x b where run: "run_command ?b (request_of e) = (Inr x, b)" and acc: "book_log.logged b (requests es) = requests es"
    using book_log.accepted_Cons [of ?b "request_of e" "requests es"] Cons.prems(2) by auto
  let ?s = "s\<lparr>rp_books := map_set (rp_books s) symbol b,
    rp_lastReplayedStreamIds := map_set (rp_lastReplayedStreamIds s) symbol (fst e)\<rparr>"
  have b: "book_of clock (rp_books ?s) symbol = b" by (simp add: book_of_def map_get_set)
  have "execute_entry clock (as_entry e) s = (Inr (), s\<lparr>rp_books := map_set (rp_books s) symbol b\<rparr>)"
    by (rule execute_entry_ok [OF assms(1) _ run]) (simp add: Cons.prems(1))
  then have step: "follow_entries clock symbol (map as_entry (e # es)) s = follow_entries clock symbol (map as_entry es) ?s"
    by (simp add: bindE_def set_position_def as_entry_def)
  show ?case
  proof (cases "es = []")
    case True
    then show ?thesis using step run
      by (intro exI [of _ ?s]) (simp add: moved_def map_get_set position_of_def book_of_def)
  next
    case False
    have "\<exists>s'. follow_entries clock symbol (map as_entry es) ?s = (Inr (), s') \<and> rp_world s' = rp_world ?s \<and>
      moved clock symbol (book_log.run_all (book_of clock (rp_books ?s) symbol) (requests es)) (rp_books ?s) (rp_books s') \<and>
      position_of s' symbol = fst (last es) \<and>
      (\<forall>t. t \<noteq> symbol \<longrightarrow> map_get (rp_lastReplayedStreamIds s') t = map_get (rp_lastReplayedStreamIds ?s) t)"
      by (rule Cons.IH) (use Cons.prems(1) acc False b in simp_all)
    then obtain s' where s': "follow_entries clock symbol (map as_entry es) ?s = (Inr (), s')" "rp_world s' = rp_world s"
      "moved clock symbol (book_log.run_all b (requests es)) (rp_books ?s) (rp_books s')"
      "position_of s' symbol = fst (last es)"
      "\<forall>t. t \<noteq> symbol \<longrightarrow> map_get (rp_lastReplayedStreamIds s') t = map_get (rp_lastReplayedStreamIds ?s) t"
      unfolding b by auto
    show ?thesis
      using step s' run False by (intro exI [of _ s']) (auto simp: moved_def map_get_set)
  qed
qed simp


subsection \<open>Reading Redis\<close>

definition later :: "Store \<Rightarrow> Store \<Rightarrow> bool" where
  "later st st' \<longleftrightarrow> (\<exists>t \<ge> st_time st. st' = st\<lparr>st_time := t\<rparr>)"

lemma later_refl: "later st st"
  by (auto simp: later_def intro!: exI [of _ "st_time st"])

lemma later_trans: "later a b \<Longrightarrow> later b c \<Longrightarrow> later a c"
proof -
  assume "later a b" "later b c"
  then obtain t u where "st_time a \<le> t" "b = a\<lparr>st_time := t\<rparr>" "st_time b \<le> u" "c = b\<lparr>st_time := u\<rparr>"
    by (auto simp: later_def)
  then show "later a c" unfolding later_def by (intro exI [of _ u]) simp
qed

lemma later_data: "later a b \<Longrightarrow> st_streams b = st_streams a \<and> st_sets b = st_sets a \<and> st_texts b = st_texts a \<and> log_of b = log_of a"
  by (auto simp: later_def log_of_def fun_eq_iff)

lemma call_reply:
  assumes "documented redis view" "reliable redis"
  obtains r w' t where "redis_call redis c w = (Inr r, w')" "st_time (view w) \<le> t"
    "answers c r ((view w)\<lparr>st_time := t\<rparr>) (view w')"
  using reliable_call [OF assms(2), of c w] documented_call [OF assms(1)] by metis

lemma read_range:
  assumes "documented redis view" "reliable redis" "\<And>e. e \<in> set (log_of (view w) symbol) \<Longrightarrow> decodes symbol e"
    "es = take n (filter (\<lambda>e. above lo (fst e) \<and> below hi (fst e)) (log_of (view w) symbol))"
  shows "\<exists>w'. bindE (redis_call redis (XRange (commandLogStreamKey (JStr symbol)) lo hi n))
      (\<lambda>r. liftE (mapE log_entry (reply_entries r))) w = (Inr (map as_entry es), w') \<and> later (view w) (view w')"
proof -
  obtain r w' t where r: "redis_call redis (XRange (commandLogStreamKey (JStr symbol)) lo hi n) w = (Inr r, w')"
    "st_time (view w) \<le> t" "answers (XRange (commandLogStreamKey (JStr symbol)) lo hi n) r ((view w)\<lparr>st_time := t\<rparr>) (view w')"
    by (rule call_reply [OF assms(1,2)])
  have "set es \<subseteq> set (log_of (view w) symbol)" using assms(4) by (auto dest: in_set_takeD)
  then have "mapE log_entry es = Inr (map as_entry es)" using assms(3) by (intro mapE_entries) auto
  then show ?thesis
    using r assms(4) by (auto simp: bindE_def r(1) reply_entries_def log_of_def later_def)
qed

lemma read_next:
  assumes "documented redis view" "reliable redis" "\<And>e. e \<in> set (log_of (view w) symbol) \<Longrightarrow> decodes symbol e"
    "es = take n (filter (\<lambda>e. id_less i (fst e)) (log_of (view w) symbol))"
  shows "\<exists>w'. readNextProcessedCommands redis (JStr symbol) i n w = (Inr (map as_entry es), w') \<and> later (view w) (view w')"
proof -
  let ?c = "XRead (commandLogStreamKey (JStr symbol)) i n"
  obtain r w' t where r: "redis_call redis ?c w = (Inr r, w')"
    "st_time (view w) \<le> t" "answers ?c r ((view w)\<lparr>st_time := t\<rparr>) (view w')"
    by (rule call_reply [OF assms(1,2)])
  have "set es \<subseteq> set (log_of (view w) symbol)" using assms(4) by (auto dest: in_set_takeD)
  then have m: "mapE log_entry es = Inr (map as_entry es)" using assms(3) by (intro mapE_entries) auto
  have "r = (if es = [] then RNil else REntries es)" "later (view w) (view w')"
    using r(2,3) assms(4) by (auto simp: log_of_def Let_def later_def)
  then show ?thesis
    using m by (auto simp: readNextProcessedCommands_def bindE_def r(1) reply_entries_def)
qed

lemma read_key:
  assumes "documented redis view" "reliable redis" "st_texts (view w) k = x" "\<forall>t d. x = Some (t, d) \<longrightarrow> d = None"
  shows "\<exists>w'. bindE (redis_call redis (GetKey k)) parsed_reply w =
      ((case x of None \<Rightarrow> Inr JNull | Some (t, _) \<Rightarrow> if t = Plain [] then Inr JNull else json_parse t), w') \<and> later (view w) (view w')"
proof -
  obtain r w' t where r: "redis_call redis (GetKey k) w = (Inr r, w')"
    "st_time (view w) \<le> t" "answers (GetKey k) r ((view w)\<lparr>st_time := t\<rparr>) (view w')"
    by (rule call_reply [OF assms(1,2)])
  have "r = (case x of None \<Rightarrow> RNil | Some (t, _) \<Rightarrow> RText t)" "later (view w) (view w')"
    using r(2,3) assms(3,4) by (auto simp: live_text_def later_def split: option.splits)
  then show ?thesis
    by (auto simp: bindE_def r(1) parsed_reply_def reply_text_def split: option.splits prod.splits)
qed

subsection \<open>Recovering a symbol\<close>

text \<open>The stored checkpoint is the book of a prefix of the log.\<close>

definition sound_checkpoint :: "string \<Rightarrow> (string \<times> fields) list \<Rightarrow> (stored \<times> nat option) option \<Rightarrow> bool" where
  "sound_checkpoint symbol es x \<longleftrightarrow> x = None \<or>
     (\<exists>snap xs ys. x = Some (Json snap, None) \<and> es = xs @ ys \<and> xs \<noteq> [] \<and> truthy snap \<and>
       getp (props snap) ''lastCommandStreamId'' = JStr (fst (last xs)) \<and>
       (\<forall>clock. \<exists>b. fromRecoverySnapshot clock snap = Inr b \<and> stands_for symbol xs b))"

definition durable :: "Store \<Rightarrow> string \<Rightarrow> bool" where
  "durable st symbol \<longleftrightarrow> sound_log symbol (log_of st symbol) \<and>
     sound_checkpoint symbol (log_of st symbol) (st_texts st (recoverySnapshotKey (JStr symbol)))"

lemma later_durable: "later a b \<Longrightarrow> durable a symbol \<Longrightarrow> durable b symbol"
  using later_data [of a b] by (simp add: durable_def)

lemma on_world_bind: "m (rp_world s) = (Inr r, w) \<Longrightarrow> bindE (on_world m) f s = f r (s\<lparr>rp_world := w\<rparr>)"
  by (simp add: bindE_def on_world_def)

lemma above_start [simp]: "above ''-'' i" "below ''+'' i"
  by (simp_all add: above_def below_def)

lemma above_open [simp]: "above (CHR ''('' # j) i \<longleftrightarrow> id_less j i"
  by (simp add: above_def)

lemma last_id_last: "es \<noteq> [] \<Longrightarrow> le_id (last (map as_entry es)) = last_id es"
  by (simp add: last_map as_entry_def last_id_def)

definition recovered :: "(nat \<Rightarrow> nat) \<Rightarrow> string \<Rightarrow> (string \<times> fields) list \<Rightarrow> registry \<Rightarrow> registry \<Rightarrow> bool" where
  "recovered clock symbol es r r' \<longleftrightarrow> stands_for symbol es (book_of clock r' symbol) \<and>
     (\<forall>t. t \<noteq> symbol \<longrightarrow> map_get r' t = map_get r t)"

lemma recover_replay:
  assumes doc: "documented redis view" "reliable redis" and d: "sound_log symbol (log_of (view (rp_world s)) symbol)"
    and none: "map_get (rp_books s) symbol = None"
  shows "\<exists>res s'. replaySymbolFromCommandLog redis clock symbol s = (Inr res, s') \<and> later (view (rp_world s)) (view (rp_world s')) \<and>
    recovered clock symbol (log_of (view (rp_world s)) symbol) (rp_books s) (rp_books s') \<and> rr_symbol res = symbol \<and>
    rr_lastCommandStreamId res = last_id (log_of (view (rp_world s)) symbol) \<and>
    rp_lastReplayedStreamIds s' = rp_lastReplayedStreamIds s"
proof -
  let ?es = "log_of (view (rp_world s)) symbol"
  have t: "trim symbol \<noteq> []" and dec: "\<And>e. e \<in> set ?es \<Longrightarrow> decodes symbol e" and len: "length ?es \<le> 100000"
    using d by (simp_all add: sound_log_def)
  obtain w where w: "getProcessedCommands redis (JStr symbol) ''-'' ''+'' 100000 (rp_world s) = (Inr (map as_entry ?es), w)"
    "later (view (rp_world s)) (view w)"
    using read_range [OF doc dec, where w = "rp_world s" and es = ?es and n = 100000 and lo = "''-''" and hi = "''+''"] len
    by (auto simp: getProcessedCommands_def)
  let ?s = "s\<lparr>rp_world := w\<rparr>"
  have f: "book_of clock (rp_books ?s) symbol = fresh_book clock symbol" using none by (simp add: book_of_def)
  have st: "stands_for symbol [] (fresh_book clock symbol)" by (rule stands_fresh [OF d])
  have d': "sound_log symbol ([] @ ?es)" using d by simp
  obtain r where r: "replay_entries clock (map as_entry ?es) ?s = (Inr (), ?s\<lparr>rp_books := r\<rparr>)"
    "moved clock symbol (book_log.run_all (fresh_book clock symbol) (requests ?es)) (rp_books ?s) r"
    using replay_entries_ok [OF t dec, of ?es clock ?s] stands_run(1) [OF d' st] unfolding f by auto
  have "stands_for symbol ?es (book_of clock r symbol)" using stands_run(2) [OF d' st] r(2) by (simp add: moved_def)
  moreover have "\<forall>t. t \<noteq> symbol \<longrightarrow> map_get r t = map_get (rp_books s) t" using r(2) by (simp add: moved_def)
  ultimately show ?thesis
    using w(2) last_id_last [of ?es] unfolding replaySymbolFromCommandLog_def on_world_bind [where m = "getProcessedCommands redis (JStr symbol) ''-'' ''+'' 100000", OF w(1)]
    by (auto simp: bindE_def r(1) recovered_def last_id_def)
qed

lemma id_not_empty: "id_less ''0-0'' i \<Longrightarrow> i \<noteq> []"
  by (auto simp: id_less_def id_of_def digits_value_def)

lemma recover_symbol:
  assumes doc: "documented redis view" "reliable redis" and d: "durable (view (rp_world s)) symbol"
    and none: "map_get (rp_books s) symbol = None"
  shows "\<exists>res s'. recoverSymbolFromCommandLog redis clock symbol s = (Inr res, s') \<and> later (view (rp_world s)) (view (rp_world s')) \<and>
    recovered clock symbol (log_of (view (rp_world s)) symbol) (rp_books s) (rp_books s') \<and> rr_symbol res = symbol \<and>
    rr_lastCommandStreamId res = last_id (log_of (view (rp_world s)) symbol) \<and>
    rp_lastReplayedStreamIds s' = rp_lastReplayedStreamIds s"
proof -
  let ?es = "log_of (view (rp_world s)) symbol" and ?x = "st_texts (view (rp_world s)) (recoverySnapshotKey (JStr symbol))"
  have sl: "sound_log symbol ?es" and cp: "sound_checkpoint symbol ?es ?x" using d by (simp_all add: durable_def)
  have xn: "\<forall>t e. ?x = Some (t, e) \<longrightarrow> e = None" using cp by (auto simp: sound_checkpoint_def)
  obtain w where w: "getRecoverySnapshot redis (JStr symbol) (rp_world s) =
      ((case ?x of None \<Rightarrow> Inr JNull | Some (t, _) \<Rightarrow> if t = Plain [] then Inr JNull else json_parse t), w)"
    and lw: "later (view (rp_world s)) (view w)"
    using read_key [OF doc refl xn] by (auto simp: getRecoverySnapshot_def)
  have es: "log_of (view w) symbol = ?es" using later_data [OF lw] by simp
  let ?s = "s\<lparr>rp_world := w\<rparr>"
  show ?thesis
  proof (cases ?x)
    case None
    then have w': "getRecoverySnapshot redis (JStr symbol) (rp_world s) = (Inr JNull, w)" using w by simp
    have "recoverSymbolFromCommandLog redis clock symbol s = replaySymbolFromCommandLog redis clock symbol ?s"
      unfolding recoverSymbolFromCommandLog_def on_world_bind [where m = "getRecoverySnapshot redis (JStr symbol)", OF w']
      by (simp add: truthy_def)
    moreover have "sound_log symbol (log_of (view (rp_world ?s)) symbol)" using sl es by simp
    ultimately show ?thesis
      using recover_replay [OF doc, of symbol ?s clock] none lw es by (fastforce intro: later_trans)
  next
    case (Some y)
    then obtain snap xs ys where x: "?x = Some (Json snap, None)" "?es = xs @ ys" "xs \<noteq> []" "truthy snap"
      "getp (props snap) ''lastCommandStreamId'' = JStr (fst (last xs))"
      and rs: "\<forall>clock. \<exists>b. fromRecoverySnapshot clock snap = Inr b \<and> stands_for symbol xs b"
      using cp by (auto simp: sound_checkpoint_def)
    obtain b where b: "fromRecoverySnapshot clock snap = Inr b" "stands_for symbol xs b" using rs by blast
    have w': "getRecoverySnapshot redis (JStr symbol) (rp_world s) = (Inr snap, w)" using w x(1) by (simp add: json_parse_def)
    have t: "trim symbol \<noteq> []" and dec: "\<And>e. e \<in> set ?es \<Longrightarrow> decodes symbol e" and len: "length ?es \<le> 100000"
      and srt: "sorted_wrt id_less (map fst ?es)" and pos: "\<And>e. e \<in> set ?es \<Longrightarrow> id_less ''0-0'' (fst e)"
      using sl by (simp_all add: sound_log_def)
    have ne: "fst (last xs) \<noteq> []" using pos [of "last xs"] x(2,3) id_not_empty by simp
    have fil: "filter (\<lambda>e. id_less (fst (last xs)) (fst e)) ?es = ys"
      using filter_after [OF _ x(3), of ys] srt unfolding x(2) by simp
    let ?s1 = "s\<lparr>rp_world := w, rp_books := map_set (rp_books s) symbol b\<rparr>"
    have dw: "decodes symbol e" if "e \<in> set (log_of (view w) symbol)" for e using dec that es by simp
    have "length ys \<le> 100000" using len unfolding x(2) by simp
    then have ew: "ys = take 100000 (filter (\<lambda>e. above (CHR ''('' # fst (last xs)) (fst e) \<and> below ''+'' (fst e)) (log_of (view w) symbol))"
      unfolding es by (simp add: fil)
    obtain w2 where w2: "getProcessedCommandsAfter redis (JStr symbol) (JStr (fst (last xs))) 100000 w = (Inr (map as_entry ys), w2)"
      "later (view w) (view w2)"
      using read_range [OF doc dw ew] unfolding getProcessedCommandsAfter_def js_text.simps by blast
    let ?s2 = "s\<lparr>rp_books := map_set (rp_books s) symbol b, rp_world := w2\<rparr>"
    have f: "book_of clock (rp_books ?s2) symbol = b" by (simp add: book_of_def map_get_set)
    have d': "sound_log symbol (xs @ ys)" using sl x(2) by simp
    have dy: "\<And>e. e \<in> set ys \<Longrightarrow> decodes symbol e" using dec x(2) by simp
    obtain r where r: "replay_entries clock (map as_entry ys) ?s2 = (Inr (), ?s2\<lparr>rp_books := r\<rparr>)"
      "moved clock symbol (book_log.run_all b (requests ys)) (rp_books ?s2) r"
      using replay_entries_ok [OF t dy, of ys clock ?s2] stands_run(1) [OF d' b(2)] unfolding f by auto
    let ?res = "\<lparr> rr_symbol = symbol, rr_mode = ''snapshot-plus-incremental-replay'', rr_replayedCommandCount = length ys,
       rr_lastCommandStreamId = (if ys = [] then fst (last xs) else le_id (last (map as_entry ys))) \<rparr>"
    have set: "on_books (setBook (JStr symbol) b) ?s = (Inr (), ?s1)"
      using t by (simp add: on_books_def setBook_def validateSymbol_def bindE_def)
    have tr: "truthy (JStr (fst (last xs)))" using ne by (simp add: truthy_def)
    have "on_world (getRecoverySnapshot redis (JStr symbol)) s = (Inr snap, ?s)" by (simp add: on_world_def w')
    moreover have "on_world (getProcessedCommandsAfter redis (JStr symbol) (JStr (fst (last xs))) 100000) ?s1 = (Inr (map as_entry ys), ?s2)"
      by (simp add: on_world_def w2(1))
    ultimately have run: "recoverSymbolFromCommandLog redis clock symbol s = (Inr ?res, ?s2\<lparr>rp_books := r\<rparr>)"
      using x(4) tr unfolding recoverSymbolFromCommandLog_def Let_def
      by (simp add: bindE_def x(5) b(1) set r(1))
    have "stands_for symbol ?es (book_of clock r symbol)"
      using stands_run(2) [OF d' b(2)] r(2) x(2) by (simp add: moved_def)
    moreover have "\<forall>t. t \<noteq> symbol \<longrightarrow> map_get r t = map_get (rp_books s) t" using r(2) by (simp add: moved_def map_get_set)
    moreover have "rr_lastCommandStreamId ?res = last_id ?es"
      using x(2,3) by (simp add: last_id_def last_map as_entry_def)
    ultimately show ?thesis unfolding run using later_trans [OF lw w2(2)] by (auto simp: recovered_def)
  qed
qed


subsection \<open>Following the log\<close>

text \<open>The replica has executed the log of a symbol up to its position.\<close>

definition follows :: "(nat \<Rightarrow> nat) \<Rightarrow> (string \<times> fields) list \<Rightarrow> 'w Replica \<Rightarrow> string \<Rightarrow> bool" where
  "follows clock es s symbol \<longleftrightarrow> (\<exists>xs ys. es = xs @ ys \<and> position_of s symbol = last_id xs \<and>
     stands_for symbol xs (book_of clock (rp_books s) symbol))"

text \<open>Nothing of another symbol changes.\<close>

definition others_same :: "string \<Rightarrow> 'w Replica \<Rightarrow> 'w Replica \<Rightarrow> bool" where
  "others_same symbol s s' \<longleftrightarrow> (\<forall>t. t \<noteq> symbol \<longrightarrow> map_get (rp_books s') t = map_get (rp_books s) t \<and>
     map_get (rp_lastReplayedStreamIds s') t = map_get (rp_lastReplayedStreamIds s) t)"

lemma others_trans: "others_same k a b \<Longrightarrow> others_same k b c \<Longrightarrow> others_same k a c"
  by (simp add: others_same_def)

lemma entries_after:
  assumes "sound_log symbol (xs @ ys)"
  shows "filter (\<lambda>e. id_less (last_id xs) (fst e)) (xs @ ys) = ys"
proof (cases "xs = []")
  case True
  then show ?thesis using assms by (auto simp: last_id_def sound_log_def filter_id_conv)
next
  case False
  then show ?thesis using assms filter_after [of xs ys] by (simp add: last_id_def sound_log_def)
qed

lemma replay_available:
  assumes doc: "documented redis view" "reliable redis"
  shows "log_of (view (rp_world s)) symbol = xs @ ys \<Longrightarrow> sound_log symbol (xs @ ys) \<Longrightarrow>
    position_of s symbol = last_id xs \<Longrightarrow> stands_for symbol xs (book_of clock (rp_books s) symbol) \<Longrightarrow>
    \<exists>s'. replayAvailableCommands redis clock symbol n s = Some (Inr (n + length ys), s') \<and>
      later (view (rp_world s)) (view (rp_world s')) \<and> position_of s' symbol = last_id (xs @ ys) \<and>
      stands_for symbol (xs @ ys) (book_of clock (rp_books s') symbol) \<and> others_same symbol s s' \<and>
      (map_has (rp_lastReplayedStreamIds s) symbol \<longrightarrow> map_has (rp_lastReplayedStreamIds s') symbol)"
proof (induction "length ys" arbitrary: xs ys s n rule: less_induct)
  case less
  let ?bs = "take 100 ys"
  have dec: "decodes symbol e" if "e \<in> set (log_of (view (rp_world s)) symbol)" for e
    using less.prems(1,2) that by (simp add: sound_log_def)
  have bs: "?bs = take 100 (filter (\<lambda>e. id_less (position_of s symbol) (fst e)) (log_of (view (rp_world s)) symbol))"
    using entries_after [OF less.prems(2)] less.prems(1,3) by simp
  obtain w where w: "readNextProcessedCommands redis (JStr symbol) (position_of s symbol) 100 (rp_world s) = (Inr (map as_entry ?bs), w)"
    "later (view (rp_world s)) (view w)"
    using read_next [OF doc dec bs] by blast
  let ?s = "s\<lparr>rp_world := w\<rparr>"
  have rd: "on_world (readNextProcessedCommands redis (JStr symbol) (position_of s symbol) 100) s = (Inr (map as_entry ?bs), ?s)"
    by (simp add: on_world_def w(1))
  show ?case
  proof (cases "ys = []")
    case True
    then have "replayAvailableCommands redis clock symbol n s = Some (Inr n, ?s)"
      using rd by (simp add: replayAvailableCommands.simps [of redis clock symbol n s])
    then show ?thesis using True less.prems(3,4) w(2) by (simp add: position_of_def others_same_def)
  next
    case False
    have ne: "?bs \<noteq> []" and yd: "ys = ?bs @ drop 100 ys" using False by simp_all
    have t: "trim symbol \<noteq> []" using less.prems(2) by (simp add: sound_log_def)
    have db: "decodes symbol e" if "e \<in> set ?bs" for e
      using less.prems(2) in_set_takeD [OF that] by (simp add: sound_log_def)
    have sp: "sound_log symbol (xs @ ?bs)"
      using sound_prefix [of symbol "xs @ ?bs" "drop 100 ys"] less.prems(2) by simp
    have "rp_books ?s = rp_books s" by simp
    with stands_run(1) [OF sp less.prems(4)]
    have acc: "book_log.logged (book_of clock (rp_books ?s) symbol) (requests ?bs) = requests ?bs" by (simp only:)
    have "\<exists>s'. follow_entries clock symbol (map as_entry ?bs) ?s = (Inr (), s') \<and> rp_world s' = rp_world ?s \<and>
      moved clock symbol (book_log.run_all (book_of clock (rp_books ?s) symbol) (requests ?bs)) (rp_books ?s) (rp_books s') \<and>
      position_of s' symbol = fst (last ?bs) \<and>
      (\<forall>t. t \<noteq> symbol \<longrightarrow> map_get (rp_lastReplayedStreamIds s') t = map_get (rp_lastReplayedStreamIds ?s) t)"
      by (rule follow_entries_ok [OF t db acc ne])
    then obtain s1 where f: "follow_entries clock symbol (map as_entry ?bs) ?s = (Inr (), s1)" "rp_world s1 = w"
      and m: "moved clock symbol (book_log.run_all (book_of clock (rp_books s) symbol) (requests ?bs)) (rp_books s) (rp_books s1)"
      and ps: "position_of s1 symbol = fst (last ?bs)"
      and oth: "\<forall>t. t \<noteq> symbol \<longrightarrow> map_get (rp_lastReplayedStreamIds s1) t = map_get (rp_lastReplayedStreamIds s) t"
      by auto
    have o1: "others_same symbol s s1" using m oth by (simp add: others_same_def moved_def)
    have has: "map_has (rp_lastReplayedStreamIds s1) symbol"
    proof (rule ccontr)
      assume "\<not> map_has (rp_lastReplayedStreamIds s1) symbol"
      then have "fst (last ?bs) = ''0-0''" using ps by (simp add: position_of_def map_has_def)
      moreover have "id_less ''0-0'' (fst (last ?bs))"
        using less.prems(2) in_set_takeD [OF last_in_set [OF ne]] by (simp add: sound_log_def)
      ultimately show False by simp
    qed
    have step: "replayAvailableCommands redis clock symbol n s = replayAvailableCommands redis clock symbol (n + length ?bs) s1"
      using rd f(1) ne by (simp add: replayAvailableCommands.simps [of redis clock symbol n s])
    have "\<exists>s'. replayAvailableCommands redis clock symbol (n + length ?bs) s1 = Some (Inr (n + length ?bs + length (drop 100 ys)), s') \<and>
      later (view (rp_world s1)) (view (rp_world s')) \<and> position_of s' symbol = last_id ((xs @ ?bs) @ drop 100 ys) \<and>
      stands_for symbol ((xs @ ?bs) @ drop 100 ys) (book_of clock (rp_books s') symbol) \<and> others_same symbol s1 s' \<and>
      (map_has (rp_lastReplayedStreamIds s1) symbol \<longrightarrow> map_has (rp_lastReplayedStreamIds s') symbol)"
    proof (rule less.hyps)
      show "length (drop 100 ys) < length ys" using False by simp
      show "log_of (view (rp_world s1)) symbol = (xs @ ?bs) @ drop 100 ys"
        using later_data [OF w(2)] f(2) less.prems(1) yd by simp
      show "sound_log symbol ((xs @ ?bs) @ drop 100 ys)" using less.prems(2) by simp
      show "position_of s1 symbol = last_id (xs @ ?bs)" using ps ne by (simp add: last_id_def)
      show "stands_for symbol (xs @ ?bs) (book_of clock (rp_books s1) symbol)"
        using stands_run(2) [OF sp less.prems(4)] m by (simp add: moved_def)
    qed
    then obtain s' where s': "replayAvailableCommands redis clock symbol (n + length ?bs) s1 = Some (Inr (n + length ys), s')"
      "later (view w) (view (rp_world s'))" "position_of s' symbol = last_id (xs @ ys)"
      "stands_for symbol (xs @ ys) (book_of clock (rp_books s') symbol)" "others_same symbol s1 s'"
      "map_has (rp_lastReplayedStreamIds s') symbol"
      using yd has f(2) by (auto simp: min_def split: if_splits)
    show ?thesis
      unfolding step using s' later_trans [OF w(2) s'(2)] others_trans [OF o1 s'(5)] by auto
  qed
qed

end
