(* ===== verification/StandbyProperties.thy ===== *)
theory StandbyProperties
  imports CatchUpProofs QuietBooks
begin

text \<open>
  The standby as a whole: what \<^verbatim>\<open>initialize\<close> and \<^verbatim>\<open>catchUp\<close> of
  \<^verbatim>\<open>StandbyReplica.js\<close> establish for the symbols of the node's partition, from the invariant
  \<open>replica_ok\<close> of the replica and the durability of the logs.
\<close>

definition assigned :: "jsval \<Rightarrow> int \<Rightarrow> string \<Rightarrow> bool" where
  "assigned p n symbol \<longleftrightarrow> isSymbolAssignedToPartition (JStr symbol) p (JInt n) = Inr True"

definition known :: "Store \<Rightarrow> string \<Rightarrow> bool" where
  "known st symbol \<longleftrightarrow> Plain symbol \<in> set (st_sets st command_symbols_key)"

text \<open>The set of symbols holds plain texts, and the log of each of them is durable.\<close>

definition durable_store :: "Store \<Rightarrow> bool" where
  "durable_store st \<longleftrightarrow> (\<forall>t \<in> set (st_sets st command_symbols_key). \<exists>symbol. t = Plain symbol \<and> durable st symbol)"

definition store_grows :: "Store \<Rightarrow> Store \<Rightarrow> bool" where
  "store_grows st st' \<longleftrightarrow> (\<forall>symbol. (known st symbol \<longrightarrow> known st' symbol) \<and> (\<exists>zs. log_of st' symbol = log_of st symbol @ zs))"

definition replica_ok :: "(nat \<Rightarrow> nat) \<Rightarrow> jsval \<Rightarrow> int \<Rightarrow> Store \<Rightarrow> 'w Replica \<Rightarrow> bool" where
  "replica_ok clock p n st s \<longleftrightarrow>
     (\<forall>symbol. map_has (rp_lastReplayedStreamIds s) symbol \<longrightarrow>
        known st symbol \<and> assigned p n symbol \<and> follows clock (log_of st symbol) s symbol) \<and>
     (\<forall>symbol. assigned p n symbol \<and> \<not> map_has (rp_lastReplayedStreamIds s) symbol \<longrightarrow> map_get (rp_books s) symbol = None)"

lemma later_known: "later a b \<Longrightarrow> known b symbol \<longleftrightarrow> known a symbol"
  using later_data [of a b] by (simp add: known_def)

lemma later_durable_store: "later a b \<Longrightarrow> durable_store a \<Longrightarrow> durable_store b"
  using later_data [of a b] later_durable [of a b] by (auto simp: durable_store_def)

lemma known_durable: "durable_store st \<Longrightarrow> known st symbol \<Longrightarrow> durable st symbol"
  by (auto simp: durable_store_def known_def)

lemma durable_nonempty: "durable st symbol \<Longrightarrow> trim symbol \<noteq> []"
  by (simp add: durable_def sound_log_def)

lemma assigned_answer:
  assumes "trim symbol \<noteq> []" "0 < n"
  shows "isSymbolAssignedToPartition (JStr symbol) p (JInt n) = Inr (assigned p n symbol)"
  using assms hashSymbol_total [of "JStr symbol"]
  by (auto simp: assigned_def isSymbolAssignedToPartition_def getPartitionId_def)

text \<open>Reading the set of symbols.\<close>

lemma read_symbols:
  assumes "documented redis view" "reliable redis" "durable_store (view w)"
  shows "\<exists>ts w'. command_getSymbols redis w = (Inr ts, w') \<and> later (view w) (view w') \<and> distinct (map plain_text ts) \<and>
    (\<forall>symbol. symbol \<in> set (map plain_text ts) \<longleftrightarrow> known (view w) symbol)"
proof -
  let ?c = "SMembers command_symbols_key"
  obtain r w' t where r: "redis_call redis ?c w = (Inr r, w')"
    "st_time (view w) \<le> t" "answers ?c r ((view w)\<lparr>st_time := t\<rparr>) (view w')"
    by (rule call_reply [OF assms(1,2)])
  then obtain ts where ts: "r = RTexts ts" "set ts = set (st_sets (view w) command_symbols_key)" "distinct ts" by auto
  have p: "t \<in> set ts \<Longrightarrow> t = Plain (plain_text t)" for t
    using assms(3) ts(2) by (auto simp: durable_store_def plain_text_def)
  then have "inj_on plain_text (set ts)" by (metis inj_onI)
  then have "distinct (map plain_text ts)" using ts(3) by (simp add: distinct_map)
  moreover have "symbol \<in> set (map plain_text ts) \<longleftrightarrow> known (view w) symbol" for symbol
    using p ts(2) by (force simp: known_def plain_text_def)
  moreover have "later (view w) (view w')" using r(2,3) by (auto simp: later_def)
  ultimately show ?thesis using r(1) ts(1)
    by (intro exI [of _ ts] exI [of _ w']) (simp add: command_getSymbols_def bindE_def reply_texts_def)
qed

subsection \<open>Initialising\<close>

lemma recover_symbols:
  assumes doc: "documented redis view" "reliable redis"
  shows "\<forall>symbol \<in> set symbols. durable (view (rp_world s)) symbol \<and> map_get (rp_books s) symbol = None \<Longrightarrow> distinct symbols \<Longrightarrow>
    \<exists>res s'. recoverSymbols redis clock symbols s = (Inr res, s') \<and> later (view (rp_world s)) (view (rp_world s')) \<and>
      (\<forall>symbol \<in> set symbols. stands_for symbol (log_of (view (rp_world s)) symbol) (book_of clock (rp_books s') symbol)) \<and>
      (\<forall>symbol. symbol \<notin> set symbols \<longrightarrow> map_get (rp_books s') symbol = map_get (rp_books s) symbol) \<and>
      map (\<lambda>r. (rr_symbol r, rr_lastCommandStreamId r)) res = map (\<lambda>symbol. (symbol, last_id (log_of (view (rp_world s)) symbol))) symbols"
proof (induction symbols arbitrary: s)
  case Nil
  then show ?case by (simp add: later_refl)
next
  case (Cons a symbols)
  have a: "durable (view (rp_world s)) a" "map_get (rp_books s) a = None" using Cons.prems by simp_all
  obtain res s1 where 1: "recoverSymbolFromCommandLog redis clock a s = (Inr res, s1)" "later (view (rp_world s)) (view (rp_world s1))"
    "recovered clock a (log_of (view (rp_world s)) a) (rp_books s) (rp_books s1)" "rr_symbol res = a"
    "rr_lastCommandStreamId res = last_id (log_of (view (rp_world s)) a)"
    using recover_symbol [OF doc a, of clock] by blast
  have lg: "log_of (view (rp_world s1)) = log_of (view (rp_world s))" using later_data [OF 1(2)] by simp
  have "\<forall>symbol \<in> set symbols. durable (view (rp_world s1)) symbol \<and> map_get (rp_books s1) symbol = None"
  proof
    fix symbol assume m: "symbol \<in> set symbols"
    then have "symbol \<noteq> a" using Cons.prems(2) by auto
    then show "durable (view (rp_world s1)) symbol \<and> map_get (rp_books s1) symbol = None"
      using m Cons.prems(1) 1(3) later_durable [OF 1(2)] by (simp add: recovered_def)
  qed
  with Cons.IH [of s1] Cons.prems(2) obtain rs s2 where 2: "recoverSymbols redis clock symbols s1 = (Inr rs, s2)"
    "later (view (rp_world s1)) (view (rp_world s2))"
    "\<forall>symbol \<in> set symbols. stands_for symbol (log_of (view (rp_world s)) symbol) (book_of clock (rp_books s2) symbol)"
    "\<forall>symbol. symbol \<notin> set symbols \<longrightarrow> map_get (rp_books s2) symbol = map_get (rp_books s1) symbol"
    "map (\<lambda>r. (rr_symbol r, rr_lastCommandStreamId r)) rs = map (\<lambda>symbol. (symbol, last_id (log_of (view (rp_world s)) symbol))) symbols"
    unfolding lg by auto
  have "a \<notin> set symbols" using Cons.prems(2) by simp
  then have "book_of clock (rp_books s2) a = book_of clock (rp_books s1) a" using 2(4) by (simp add: book_of_def)
  then have "\<forall>symbol \<in> set (a # symbols). stands_for symbol (log_of (view (rp_world s)) symbol) (book_of clock (rp_books s2) symbol)"
    using 1(3) 2(3) by (simp add: recovered_def)
  then show ?case
    using 1 2(1,2,4,5) later_trans [OF 1(2) 2(2)]
    by (intro exI [of _ "res # rs"] exI [of _ s2]) (simp add: bindE_def recovered_def)
qed

lemma track_all:
  assumes "0 < n"
  shows "\<forall>r \<in> set res. trim (rr_symbol r) \<noteq> [] \<Longrightarrow> distinct (map rr_symbol res) \<Longrightarrow>
    \<exists>m. track_results p (JInt n) res s = (Inr (), s\<lparr>rp_lastReplayedStreamIds := m\<rparr>) \<and> (map_wf (rp_lastReplayedStreamIds s) \<longrightarrow> map_wf m) \<and>
      (\<forall>r \<in> set res. map_get m (rr_symbol r) = (if assigned p n (rr_symbol r) then Some (rr_lastCommandStreamId r)
         else map_get (rp_lastReplayedStreamIds s) (rr_symbol r))) \<and>
      (\<forall>k. k \<notin> rr_symbol ` set res \<longrightarrow> map_get m k = map_get (rp_lastReplayedStreamIds s) k)"
proof (induction res arbitrary: s)
  case Nil
  then show ?case by (intro exI [of _ "rp_lastReplayedStreamIds s"]) simp
next
  case (Cons r res)
  let ?a = "assigned p n (rr_symbol r)"
  let ?m = "if ?a then map_set (rp_lastReplayedStreamIds s) (rr_symbol r) (rr_lastCommandStreamId r) else rp_lastReplayedStreamIds s"
  let ?s = "s\<lparr>rp_lastReplayedStreamIds := ?m\<rparr>"
  have f: "rr_symbol r \<notin> rr_symbol ` set res" using Cons.prems(2) by simp
  have step: "track_results p (JInt n) (r # res) s = track_results p (JInt n) res ?s"
    using assigned_answer [OF _ assms, of "rr_symbol r" p] Cons.prems(1) by (simp add: bindE_def set_position_def)
  obtain m where m: "track_results p (JInt n) res ?s = (Inr (), ?s\<lparr>rp_lastReplayedStreamIds := m\<rparr>)" "map_wf ?m \<longrightarrow> map_wf m"
    "\<forall>r \<in> set res. map_get m (rr_symbol r) = (if assigned p n (rr_symbol r) then Some (rr_lastCommandStreamId r) else map_get ?m (rr_symbol r))"
    "\<forall>k. k \<notin> rr_symbol ` set res \<longrightarrow> map_get m k = map_get ?m k"
    using Cons.IH [of ?s] Cons.prems by auto
  have o: "map_get ?m k = map_get (rp_lastReplayedStreamIds s) k" if "k \<noteq> rr_symbol r" for k
    using that by (simp add: map_get_set)
  have r: "map_get m (rr_symbol r) = (if ?a then Some (rr_lastCommandStreamId r) else map_get (rp_lastReplayedStreamIds s) (rr_symbol r))"
    using m(4) f by (simp add: map_get_set)
  have "map_get m (rr_symbol q) = (if assigned p n (rr_symbol q) then Some (rr_lastCommandStreamId q)
      else map_get (rp_lastReplayedStreamIds s) (rr_symbol q))" if "q \<in> set res" for q
  proof -
    have "rr_symbol q \<noteq> rr_symbol r" using that f imageI [of q "set res" rr_symbol] by metis
    then show ?thesis using m(3) that o by simp
  qed
  moreover have "map_wf (rp_lastReplayedStreamIds s) \<longrightarrow> map_wf m"
    using m(2) map_wf_set [of "rp_lastReplayedStreamIds s" "rr_symbol r" "rr_lastCommandStreamId r"] by (cases ?a) simp_all
  moreover have "map_get m k = map_get (rp_lastReplayedStreamIds s) k" if "k \<notin> rr_symbol ` set (r # res)" for k
    using that m(4) o by auto
  ultimately show ?case using r m(1) step by (intro exI [of _ m]) simp
qed

lemma initialize_ok:
  assumes doc: "documented redis view" "reliable redis" and d: "durable_store (view (rp_world s))" and n: "0 < n"
  shows "\<exists>res s'. initialize redis clock p (JInt n) s = (Inr res, s') \<and> later (view (rp_world s)) (view (rp_world s')) \<and>
    replica_ok clock p n (view (rp_world s')) s' \<and>
    (\<forall>symbol. known (view (rp_world s)) symbol \<longrightarrow>
       stands_for symbol (log_of (view (rp_world s)) symbol) (book_of clock (rp_books s') symbol) \<and>
       (assigned p n symbol \<longrightarrow> map_has (rp_lastReplayedStreamIds s') symbol)) \<and>
    (\<forall>symbol. \<not> known (view (rp_world s)) symbol \<longrightarrow> map_get (rp_books s') symbol = None)"
proof -
  let ?st = "view (rp_world s)"
  obtain ts w where w: "command_getSymbols redis (rp_world s) = (Inr ts, w)" "later ?st (view w)"
    "distinct (map plain_text ts)" "\<forall>symbol. symbol \<in> set (map plain_text ts) \<longleftrightarrow> known ?st symbol"
    using read_symbols [where w = "rp_world s", OF doc d] by blast
  let ?s = "s\<lparr>rp_books := [], rp_world := w\<rparr>"
  have dur: "\<forall>symbol \<in> set (map plain_text ts). durable (view (rp_world ?s)) symbol \<and> map_get (rp_books ?s) symbol = None"
    using w(4) known_durable [OF d] later_durable [OF w(2)] by simp
  have lg: "log_of (view w) = log_of ?st" using later_data [OF w(2)] by simp
  obtain res s1 where 1: "recoverSymbols redis clock (map plain_text ts) ?s = (Inr res, s1)" "later (view w) (view (rp_world s1))"
    "\<forall>symbol \<in> set (map plain_text ts). stands_for symbol (log_of ?st symbol) (book_of clock (rp_books s1) symbol)"
    "\<forall>symbol. symbol \<notin> set (map plain_text ts) \<longrightarrow> map_get (rp_books s1) symbol = None"
    "map (\<lambda>r. (rr_symbol r, rr_lastCommandStreamId r)) res = map (\<lambda>symbol. (symbol, last_id (log_of ?st symbol))) (map plain_text ts)"
    using recover_symbols [OF doc dur w(3), of clock] lg by auto
  have syms: "map rr_symbol res = map plain_text ts" using arg_cong [OF 1(5), of "map fst"] by (simp add: o_def)
  have ids: "rr_lastCommandStreamId r = last_id (log_of ?st (rr_symbol r))" if "r \<in> set res" for r
  proof -
    have "(rr_symbol r, rr_lastCommandStreamId r) \<in> set (map (\<lambda>symbol. (symbol, last_id (log_of ?st symbol))) (map plain_text ts))"
      using that by (simp only: 1(5) [symmetric]) force
    then show ?thesis by auto
  qed
  have mem: "rr_symbol ` set res = set (map plain_text ts)" using arg_cong [OF syms, of set] by simp
  have t: "\<forall>r \<in> set res. trim (rr_symbol r) \<noteq> []"
    using mem w(4) known_durable [OF d] durable_nonempty by blast
  let ?s1 = "s1\<lparr>rp_lastReplayedStreamIds := []\<rparr>"
  obtain m where m: "track_results p (JInt n) res ?s1 = (Inr (), ?s1\<lparr>rp_lastReplayedStreamIds := m\<rparr>)" "map_wf m"
    "\<forall>r \<in> set res. map_get m (rr_symbol r) = (if assigned p n (rr_symbol r) then Some (rr_lastCommandStreamId r) else None)"
    "\<forall>k. k \<notin> rr_symbol ` set res \<longrightarrow> map_get m k = None"
    using track_all [OF n t, of p ?s1] syms w(3) by auto
  have ps: "map_get m symbol = (if known ?st symbol \<and> assigned p n symbol then Some (last_id (log_of ?st symbol)) else None)" for symbol
  proof (cases "known ?st symbol")
    case True
    then obtain r where "r \<in> set res" "rr_symbol r = symbol" using mem w(4) by (metis imageE)
    then show ?thesis using m(3) ids True by auto
  next
    case False
    then show ?thesis using m(4) mem w(4) by auto
  qed
  let ?s2 = "s1\<lparr>rp_lastReplayedStreamIds := m\<rparr>"
  have lt: "later ?st (view (rp_world s1))" using later_trans [OF w(2) 1(2)] .
  have run: "initialize redis clock p (JInt n) s = (Inr res, ?s2)"
    unfolding initialize_def replayAllSymbolsFromCommandLog_def
    using w(1) 1(1) m(1) by (simp add: bindE_def on_books_def on_world_def reset_registry_def split: prod.split)
  have "replica_ok clock p n (view (rp_world ?s2)) ?s2"
    unfolding replica_ok_def
  proof (intro conjI allI impI)
    fix symbol
    assume h: "map_has (rp_lastReplayedStreamIds ?s2) symbol"
    then have k: "known ?st symbol" "assigned p n symbol" using ps [of symbol] by (simp_all add: map_has_def split: if_splits)
    show "known (view (rp_world ?s2)) symbol" "assigned p n symbol" using k later_known [OF lt] by simp_all
    have "stands_for symbol (log_of ?st symbol) (book_of clock (rp_books ?s2) symbol)"
      using bspec [OF 1(3), of symbol] w(4) k(1) by simp
    moreover have "position_of ?s2 symbol = last_id (log_of ?st symbol)" using ps [of symbol] k by (simp add: position_of_def)
    ultimately show "follows clock (log_of (view (rp_world ?s2)) symbol) ?s2 symbol"
      unfolding follows_def using later_data [OF lt]
      by (intro exI [of _ "log_of ?st symbol"] exI [of _ "[]"]) simp
  next
    fix symbol
    assume "assigned p n symbol \<and> \<not> map_has (rp_lastReplayedStreamIds ?s2) symbol"
    then have "\<not> known ?st symbol" using ps [of symbol] by (simp add: map_has_def split: if_splits)
    then show "map_get (rp_books ?s2) symbol = None" using 1(4) w(4) by simp
  qed
  moreover have "stands_for symbol (log_of ?st symbol) (book_of clock (rp_books ?s2) symbol) \<and>
      (assigned p n symbol \<longrightarrow> map_has (rp_lastReplayedStreamIds ?s2) symbol)" if "known ?st symbol" for symbol
    using bspec [OF 1(3), of symbol] w(4) that ps [of symbol] by (simp add: map_has_def)
  moreover have "map_get (rp_books ?s2) symbol = None" if "\<not> known ?st symbol" for symbol using 1(4) w(4) that by simp
  ultimately show ?thesis using run lt by (intro exI [of _ res] exI [of _ ?s2]) simp
qed

subsection \<open>Catching up\<close>

lemma follows_books:
  assumes "follows clock es s symbol" "map_get (rp_books s') symbol = map_get (rp_books s) symbol"
    "map_get (rp_lastReplayedStreamIds s') symbol = map_get (rp_lastReplayedStreamIds s) symbol"
  shows "follows clock es s' symbol"
  using assms by (simp add: follows_def position_of_def book_of_def)

text \<open>The invariant only speaks of what a growing log keeps.\<close>

lemma replica_ok_grows: "replica_ok clock p n st s \<Longrightarrow> store_grows st st' \<Longrightarrow> replica_ok clock p n st' s"
  unfolding replica_ok_def store_grows_def follows_def by (metis append_assoc)

lemma later_grows: "later a b \<Longrightarrow> store_grows a b"
  using later_data [of a b] later_known [of a b] by (simp add: store_grows_def)

text \<open>The books of the other partitions' symbols do not change.\<close>

definition foreign_same :: "jsval \<Rightarrow> int \<Rightarrow> 'w Replica \<Rightarrow> 'w Replica \<Rightarrow> bool" where
  "foreign_same p n s s' \<longleftrightarrow> (\<forall>symbol. \<not> assigned p n symbol \<longrightarrow> map_get (rp_books s') symbol = map_get (rp_books s) symbol)"

lemma foreign_trans: "foreign_same p n a b \<Longrightarrow> foreign_same p n b c \<Longrightarrow> foreign_same p n a c"
  by (simp add: foreign_same_def)

text \<open>The invariant for the symbols, one at a time.\<close>

lemma replica_ok_track:
  assumes "replica_ok clock p n st s" "known st symbol" "assigned p n symbol" "follows clock (log_of st symbol) s' symbol"
    "others_same symbol s s'" "map_has (rp_lastReplayedStreamIds s') symbol"
  shows "replica_ok clock p n st s'"
  unfolding replica_ok_def
proof (intro conjI allI impI)
  fix k
  have o: "k \<noteq> symbol \<Longrightarrow> map_get (rp_books s') k = map_get (rp_books s) k \<and>
      map_get (rp_lastReplayedStreamIds s') k = map_get (rp_lastReplayedStreamIds s) k"
    using assms(5) by (simp add: others_same_def)
  show "known st k" "assigned p n k" "follows clock (log_of st k) s' k" if "map_has (rp_lastReplayedStreamIds s') k"
    using that assms(1-4) o follows_books [of clock "log_of st k" s k s']
    by (cases "k = symbol"; simp add: replica_ok_def map_has_def)+
  show "map_get (rp_books s') k = None" if "assigned p n k \<and> \<not> map_has (rp_lastReplayedStreamIds s') k"
    using that assms(1,6) o by (cases "k = symbol") (auto simp: replica_ok_def map_has_def)
qed

lemma discover_ok:
  assumes doc: "documented redis view" "reliable redis" and n: "0 < n"
  shows "durable_store (view (rp_world s)) \<Longrightarrow> replica_ok clock p n (view (rp_world s)) s \<Longrightarrow>
    \<forall>symbol \<in> set symbols. known (view (rp_world s)) symbol \<Longrightarrow>
    \<exists>s'. discover_each redis clock p (JInt n) symbols s = (Inr (), s') \<and> later (view (rp_world s)) (view (rp_world s')) \<and>
      replica_ok clock p n (view (rp_world s')) s' \<and>
      (\<forall>symbol. map_has (rp_lastReplayedStreamIds s) symbol \<or> symbol \<in> set symbols \<and> assigned p n symbol \<longrightarrow>
         map_has (rp_lastReplayedStreamIds s') symbol) \<and> foreign_same p n s s'"
proof (induction symbols arbitrary: s)
  case Nil
  then show ?case by (intro exI [of _ s]) (simp add: later_refl foreign_same_def)
next
  case (Cons a symbols)
  let ?st = "view (rp_world s)"
  have ka: "known ?st a" "durable ?st a" using Cons.prems known_durable by auto
  have asg: "isSymbolAssignedToPartition (JStr a) p (JInt n) = Inr (assigned p n a)"
    by (rule assigned_answer [OF durable_nonempty [OF ka(2)] n])
  have "\<exists>s1. discover_each redis clock p (JInt n) (a # symbols) s = discover_each redis clock p (JInt n) symbols s1 \<and>
      later ?st (view (rp_world s1)) \<and> replica_ok clock p n ?st s1 \<and>
      (\<forall>k. map_has (rp_lastReplayedStreamIds s) k \<or> k = a \<and> assigned p n a \<longrightarrow> map_has (rp_lastReplayedStreamIds s1) k) \<and>
      foreign_same p n s s1"
  proof (cases "map_has (rp_lastReplayedStreamIds s) a \<or> \<not> assigned p n a")
    case True
    then show ?thesis using asg Cons.prems(2) by (intro exI [of _ s]) (auto simp: bindE_def later_refl foreign_same_def)
  next
    case False
    then have none: "map_get (rp_books s) a = None" using Cons.prems(2) by (simp add: replica_ok_def)
    obtain res s1 where r: "recoverSymbolFromCommandLog redis clock a s = (Inr res, s1)" "later ?st (view (rp_world s1))"
      "recovered clock a (log_of ?st a) (rp_books s) (rp_books s1)" "rr_lastCommandStreamId res = last_id (log_of ?st a)"
      "rp_lastReplayedStreamIds s1 = rp_lastReplayedStreamIds s"
      using recover_symbol [OF doc ka(2) none, of clock] by blast
    let ?s1 = "s1\<lparr>rp_lastReplayedStreamIds := map_set (rp_lastReplayedStreamIds s) a (last_id (log_of ?st a))\<rparr>"
    have "discover_each redis clock p (JInt n) (a # symbols) s = discover_each redis clock p (JInt n) symbols ?s1"
      using False asg r(1,4,5) by (simp add: bindE_def set_position_def)
    moreover have "replica_ok clock p n ?st ?s1"
    proof (rule replica_ok_track [OF Cons.prems(2) ka(1)])
      show "follows clock (log_of ?st a) ?s1 a" unfolding follows_def
        using r(3) by (intro exI [of _ "log_of ?st a"] exI [of _ "[]"]) (simp add: position_of_def map_get_set recovered_def)
      show "others_same a s ?s1" using r(3) by (simp add: others_same_def recovered_def map_get_set)
    qed (use False in \<open>simp_all add: map_has_def map_get_set\<close>)
    moreover have "foreign_same p n s ?s1" using r(3) False by (auto simp: foreign_same_def recovered_def)
    ultimately show ?thesis using r(2) by (intro exI [of _ ?s1]) (simp add: map_has_def map_get_set)
  qed
  then obtain s1 where 1: "discover_each redis clock p (JInt n) (a # symbols) s = discover_each redis clock p (JInt n) symbols s1"
      "later ?st (view (rp_world s1))" "replica_ok clock p n ?st s1"
      "\<forall>k. map_has (rp_lastReplayedStreamIds s) k \<or> k = a \<and> assigned p n a \<longrightarrow> map_has (rp_lastReplayedStreamIds s1) k"
      "foreign_same p n s s1" by blast
  have "\<exists>s'. discover_each redis clock p (JInt n) symbols s1 = (Inr (), s') \<and> later (view (rp_world s1)) (view (rp_world s')) \<and>
      replica_ok clock p n (view (rp_world s')) s' \<and>
      (\<forall>symbol. map_has (rp_lastReplayedStreamIds s1) symbol \<or> symbol \<in> set symbols \<and> assigned p n symbol \<longrightarrow>
         map_has (rp_lastReplayedStreamIds s') symbol) \<and> foreign_same p n s1 s'"
    using Cons.IH later_durable_store [OF 1(2) Cons.prems(1)] replica_ok_grows [OF 1(3) later_grows [OF 1(2)]]
      Cons.prems(3) later_known [OF 1(2)] by simp
  then show ?case using 1(1,4) later_trans [OF 1(2)] foreign_trans [OF 1(5)] by auto
qed

lemma catch_up_each_ok:
  assumes doc: "documented redis view" "reliable redis"
  shows "durable_store (view (rp_world s)) \<Longrightarrow> replica_ok clock p n (view (rp_world s)) s \<Longrightarrow>
    \<forall>symbol \<in> set symbols. map_has (rp_lastReplayedStreamIds s) symbol \<Longrightarrow>
    \<exists>m s'. catch_up_each redis clock symbols k s = Some (Inr m, s') \<and> later (view (rp_world s)) (view (rp_world s')) \<and>
      replica_ok clock p n (view (rp_world s')) s' \<and>
      (\<forall>symbol. map_has (rp_lastReplayedStreamIds s) symbol \<longrightarrow> map_has (rp_lastReplayedStreamIds s') symbol) \<and>
      (\<forall>symbol. symbol \<in> set symbols \<or> stands_for symbol (log_of (view (rp_world s)) symbol) (book_of clock (rp_books s) symbol) \<longrightarrow>
         stands_for symbol (log_of (view (rp_world s)) symbol) (book_of clock (rp_books s') symbol)) \<and> foreign_same p n s s'"
proof (induction symbols arbitrary: s k)
  case Nil
  then show ?case by (intro exI [of _ k] exI [of _ s]) (simp add: later_refl foreign_same_def)
next
  case (Cons a symbols)
  let ?st = "view (rp_world s)"
  have a: "known ?st a" "assigned p n a" "follows clock (log_of ?st a) s a"
    using Cons.prems(2,3) by (simp_all add: replica_ok_def)
  have sl: "sound_log a (log_of ?st a)" using known_durable [OF Cons.prems(1) a(1)] by (simp add: durable_def)
  obtain xs ys where xy: "log_of ?st a = xs @ ys" "position_of s a = last_id xs" "stands_for a xs (book_of clock (rp_books s) a)"
    using a(3) by (auto simp: follows_def)
  obtain s1 where 1: "replayAvailableCommands redis clock a 0 s = Some (Inr (0 + length ys), s1)" "later ?st (view (rp_world s1))"
      "position_of s1 a = last_id (xs @ ys)" "stands_for a (xs @ ys) (book_of clock (rp_books s1) a)" "others_same a s s1"
      "map_has (rp_lastReplayedStreamIds s) a \<longrightarrow> map_has (rp_lastReplayedStreamIds s1) a"
    using replay_available [where s = s and symbol = a and xs = xs and ys = ys and n = 0 and clock = clock, OF doc xy(1)
      sl [unfolded xy(1)] xy(2,3)] by blast
  have lg: "log_of (view (rp_world s1)) = log_of ?st" using later_data [OF 1(2)] by simp
  have f1: "follows clock (log_of ?st a) s1 a" unfolding follows_def
    using 1(3,4) xy(1) by (intro exI [of _ "xs @ ys"] exI [of _ "[]"]) simp
  have ra: "map_has (rp_lastReplayedStreamIds s1) a" using 1(6) Cons.prems(3) by simp
  have r1: "replica_ok clock p n (view (rp_world s1)) s1"
    by (rule replica_ok_grows [OF replica_ok_track [OF Cons.prems(2) a(1,2) f1 1(5) ra] later_grows [OF 1(2)]])
  have h1: "map_has (rp_lastReplayedStreamIds s) j \<Longrightarrow> map_has (rp_lastReplayedStreamIds s1) j" for j
    using ra 1(5) by (cases "j = a") (simp_all add: others_same_def map_has_def)
  have "\<exists>m s'. catch_up_each redis clock symbols (k + length ys) s1 = Some (Inr m, s') \<and> later (view (rp_world s1)) (view (rp_world s')) \<and>
      replica_ok clock p n (view (rp_world s')) s' \<and>
      (\<forall>symbol. map_has (rp_lastReplayedStreamIds s1) symbol \<longrightarrow> map_has (rp_lastReplayedStreamIds s') symbol) \<and>
      (\<forall>symbol. symbol \<in> set symbols \<or> stands_for symbol (log_of (view (rp_world s1)) symbol) (book_of clock (rp_books s1) symbol) \<longrightarrow>
         stands_for symbol (log_of (view (rp_world s1)) symbol) (book_of clock (rp_books s') symbol)) \<and> foreign_same p n s1 s'"
    by (rule Cons.IH) (use later_durable_store [OF 1(2) Cons.prems(1)] r1 Cons.prems(3) h1 in simp_all)
  then obtain m s' where 2: "catch_up_each redis clock symbols (k + length ys) s1 = Some (Inr m, s')"
      "later (view (rp_world s1)) (view (rp_world s'))" "replica_ok clock p n (view (rp_world s')) s'"
      "\<forall>symbol. map_has (rp_lastReplayedStreamIds s1) symbol \<longrightarrow> map_has (rp_lastReplayedStreamIds s') symbol"
      "\<forall>symbol. symbol \<in> set symbols \<or> stands_for symbol (log_of ?st symbol) (book_of clock (rp_books s1) symbol) \<longrightarrow>
         stands_for symbol (log_of ?st symbol) (book_of clock (rp_books s') symbol)" "foreign_same p n s1 s'"
    unfolding lg by blast
  have fs: "foreign_same p n s s1" using 1(5) a(2) by (auto simp: foreign_same_def others_same_def)
  have "stands_for j (log_of ?st j) (book_of clock (rp_books s') j)"
    if "j \<in> set (a # symbols) \<or> stands_for j (log_of ?st j) (book_of clock (rp_books s) j)" for j
  proof (cases "j = a")
    case True
    have "stands_for a (log_of ?st a) (book_of clock (rp_books s1) a)" using 1(4) xy(1) by simp
    then show ?thesis using 2(5) True by blast
  next
    case False
    then have "book_of clock (rp_books s1) j = book_of clock (rp_books s) j" using 1(5) by (simp add: others_same_def book_of_def)
    moreover have "j \<in> set symbols \<or> stands_for j (log_of ?st j) (book_of clock (rp_books s) j)" using that False by simp
    ultimately show ?thesis using 2(5) [rule_format, of j] by argo
  qed
  then show ?case using 1(1) 2(1-4) h1 later_trans [OF 1(2) 2(2)] foreign_trans [OF fs 2(6)]
    by (intro exI [of _ m] exI [of _ s']) simp
qed

lemma catch_up_ok:
  assumes doc: "documented redis view" "reliable redis" and d: "durable_store (view (rp_world s))"
    and r: "replica_ok clock p n (view (rp_world s)) s" and n: "0 < n"
  shows "\<exists>m s'. catchUp redis clock p (JInt n) s = Some (Inr m, s') \<and> later (view (rp_world s)) (view (rp_world s')) \<and>
    replica_ok clock p n (view (rp_world s')) s' \<and>
    (\<forall>symbol. known (view (rp_world s)) symbol \<and> assigned p n symbol \<longrightarrow>
       stands_for symbol (log_of (view (rp_world s)) symbol) (book_of clock (rp_books s') symbol)) \<and> foreign_same p n s s'"
proof -
  let ?st = "view (rp_world s)"
  obtain ts w where w: "command_getSymbols redis (rp_world s) = (Inr ts, w)" "later ?st (view w)"
    "\<forall>symbol. symbol \<in> set (map plain_text ts) \<longleftrightarrow> known ?st symbol"
    using read_symbols [where w = "rp_world s", OF doc d] by blast
  let ?s = "s\<lparr>rp_world := w\<rparr>"
  have rs: "replica_ok clock p n (view (rp_world ?s)) ?s"
    using replica_ok_grows [OF r later_grows [OF w(2)]] by (simp add: replica_ok_def follows_def position_of_def)
  have dw: "durable_store (view (rp_world ?s))" using later_durable_store [OF w(2) d] by simp
  have kw: "\<forall>symbol \<in> set (map plain_text ts). known (view (rp_world ?s)) symbol" using w(3) later_known [OF w(2)] by simp
  obtain s1 where 1: "discover_each redis clock p (JInt n) (map plain_text ts) ?s = (Inr (), s1)" "later (view w) (view (rp_world s1))"
      "replica_ok clock p n (view (rp_world s1)) s1"
      "\<forall>symbol. map_has (rp_lastReplayedStreamIds ?s) symbol \<or> symbol \<in> set (map plain_text ts) \<and> assigned p n symbol \<longrightarrow>
         map_has (rp_lastReplayedStreamIds s1) symbol" "foreign_same p n ?s s1"
    using discover_ok [OF doc n dw rs kw] by auto
  have l1: "later ?st (view (rp_world s1))" using later_trans [OF w(2) 1(2)] .
  have disc: "discoverSymbols redis clock p (JInt n) s = (Inr (), s1)"
    unfolding discoverSymbols_def on_world_bind [where m = "command_getSymbols redis", OF w(1)] by (rule 1(1))
  have ks: "\<forall>symbol \<in> set (map_keys (rp_lastReplayedStreamIds s1)). map_has (rp_lastReplayedStreamIds s1) symbol"
    by (simp add: map_keys_def map_has_iff)
  have d1: "durable_store (view (rp_world s1))" by (rule later_durable_store [OF l1 d])
  obtain m s' where 2: "catch_up_each redis clock (map_keys (rp_lastReplayedStreamIds s1)) 0 s1 = Some (Inr m, s')"
      "later (view (rp_world s1)) (view (rp_world s'))" "replica_ok clock p n (view (rp_world s')) s'"
      "\<forall>symbol. symbol \<in> set (map_keys (rp_lastReplayedStreamIds s1)) \<longrightarrow>
         stands_for symbol (log_of (view (rp_world s1)) symbol) (book_of clock (rp_books s') symbol)"
      "foreign_same p n s1 s'"
    using catch_up_each_ok [OF doc d1 1(3) ks, of 0] by blast
  have "stands_for symbol (log_of ?st symbol) (book_of clock (rp_books s') symbol)" if "known ?st symbol" "assigned p n symbol" for symbol
    using that 1(4) w(3) 2(4) later_data [OF l1] by (simp add: map_keys_def map_has_iff)
  moreover have "foreign_same p n s s'" using foreign_trans [OF 1(5) 2(5)] by (simp add: foreign_same_def)
  ultimately show ?thesis using disc 2(1,3) later_trans [OF l1 2(2)]
    by (intro exI [of _ m] exI [of _ s']) (simp add: catchUp_def)
qed

subsection \<open>A sound store and the books that follow it\<close>

text \<open>The set of symbols holds plain texts and every log that is not empty belongs to it.\<close>

definition sound_store :: "Store \<Rightarrow> bool" where
  "sound_store st \<longleftrightarrow> (\<forall>symbol. trim symbol \<noteq> [] \<longrightarrow> durable st symbol \<and> (known st symbol \<or> log_of st symbol = [])) \<and>
     (\<forall>t \<in> set (st_sets st command_symbols_key). \<exists>symbol. t = Plain symbol \<and> trim symbol \<noteq> [])"

text \<open>Every book in memory is the book of a prefix of its log.\<close>

definition behind :: "(nat \<Rightarrow> nat) \<Rightarrow> Store \<Rightarrow> registry \<Rightarrow> bool" where
  "behind clock st books \<longleftrightarrow> (\<forall>symbol. trim symbol \<noteq> [] \<longrightarrow>
     (\<exists>es zs. log_of st symbol = es @ zs \<and> stands_for symbol es (book_of clock books symbol)))"

lemma sound_durable_store: "sound_store st \<Longrightarrow> durable_store st"
  by (fastforce simp: sound_store_def durable_store_def)

lemma later_sound_store: "later a b \<Longrightarrow> sound_store a \<Longrightarrow> sound_store b"
  using later_data [of a b] later_durable [of a b] later_known [of a b] by (simp add: sound_store_def)

lemma behind_grows: "behind clock st books \<Longrightarrow> store_grows st st' \<Longrightarrow> behind clock st' books"
  unfolding behind_def store_grows_def by (metis append_assoc)

lemma assigned_nonempty: "assigned p n symbol \<Longrightarrow> trim symbol \<noteq> []"
  by (auto simp: assigned_def isSymbolAssignedToPartition_def getPartitionId_Inr seqE_eq_Inr hashSymbol_def split: if_splits)

lemma stands_empty:
  assumes "sound_store st" "trim symbol \<noteq> []" "map_get books symbol = None"
  shows "stands_for symbol [] (book_of clock books symbol)"
  using assms stands_fresh [of symbol "log_of st symbol" clock] by (simp add: sound_store_def durable_def book_of_def)

lemma initialize_follows:
  assumes doc: "documented redis view" "reliable redis" and d: "sound_store (view (rp_world s))" and n: "0 < n"
  shows "\<exists>res s'. initialize redis clock p (JInt n) s = (Inr res, s') \<and> later (view (rp_world s)) (view (rp_world s')) \<and>
    replica_ok clock p n (view (rp_world s')) s' \<and> behind clock (view (rp_world s')) (rp_books s')"
proof -
  obtain res s' where i: "initialize redis clock p (JInt n) s = (Inr res, s')" "later (view (rp_world s)) (view (rp_world s'))"
    "replica_ok clock p n (view (rp_world s')) s'"
    "\<forall>symbol. known (view (rp_world s)) symbol \<longrightarrow>
       stands_for symbol (log_of (view (rp_world s)) symbol) (book_of clock (rp_books s') symbol)"
    "\<forall>symbol. \<not> known (view (rp_world s)) symbol \<longrightarrow> map_get (rp_books s') symbol = None"
    using initialize_ok [OF doc sound_durable_store [OF d] n, where clock = clock and p = p] by blast
  have "behind clock (view (rp_world s)) (rp_books s')"
    unfolding behind_def
  proof (intro allI impI)
    fix symbol assume t: "trim symbol \<noteq> []"
    show "\<exists>es zs. log_of (view (rp_world s)) symbol = es @ zs \<and> stands_for symbol es (book_of clock (rp_books s') symbol)"
      using i(4,5) stands_empty [OF d t, of "rp_books s'" clock] by (metis append_Nil append_Nil2)
  qed
  from behind_grows [OF this later_grows [OF i(2)]] show ?thesis using i(1-3) by blast
qed

lemma catch_up_follows:
  assumes doc: "documented redis view" "reliable redis" and d: "sound_store (view (rp_world s))" and n: "0 < n"
    and r: "replica_ok clock p n (view (rp_world s)) s" "behind clock (view (rp_world s)) (rp_books s)"
  shows "\<exists>m s'. catchUp redis clock p (JInt n) s = Some (Inr m, s') \<and> later (view (rp_world s)) (view (rp_world s')) \<and>
    replica_ok clock p n (view (rp_world s')) s' \<and> behind clock (view (rp_world s')) (rp_books s') \<and>
    (\<forall>symbol. assigned p n symbol \<longrightarrow> stands_for symbol (log_of (view (rp_world s')) symbol) (book_of clock (rp_books s') symbol))"
proof -
  let ?a = "view (rp_world s)"
  obtain m s' where c: "catchUp redis clock p (JInt n) s = Some (Inr m, s')" "later ?a (view (rp_world s'))"
    "replica_ok clock p n (view (rp_world s')) s'"
    "\<forall>symbol. known ?a symbol \<and> assigned p n symbol \<longrightarrow> stands_for symbol (log_of ?a symbol) (book_of clock (rp_books s') symbol)"
    "foreign_same p n s s'"
    using catch_up_ok [OF doc sound_durable_store [OF d] r(1) n] by blast
  let ?b = "view (rp_world s')"
  have l: "log_of ?b = log_of ?a" "known ?b = known ?a" using later_data [OF c(2)] later_known [OF c(2)] by (simp_all add: fun_eq_iff)
  have full: "stands_for symbol (log_of ?b symbol) (book_of clock (rp_books s') symbol)" if "assigned p n symbol" for symbol
  proof (cases "known ?a symbol")
    case True
    then show ?thesis using c(4) that l by simp
  next
    case False
    note t = assigned_nonempty [OF that]
    have "map_get (rp_books s') symbol = None" using c(3) False that l by (auto simp: replica_ok_def)
    then show ?thesis using stands_empty [OF d t] False d t l by (auto simp: sound_store_def)
  qed
  have "behind clock ?b (rp_books s')"
    unfolding behind_def
  proof (intro allI impI)
    fix symbol assume t: "trim symbol \<noteq> []"
    show "\<exists>es zs. log_of ?b symbol = es @ zs \<and> stands_for symbol es (book_of clock (rp_books s') symbol)"
    proof (cases "assigned p n symbol")
      case True
      then show ?thesis using full by (metis append_Nil2)
    next
      case False
      then have "book_of clock (rp_books s') symbol = book_of clock (rp_books s) symbol"
        using c(5) by (simp add: foreign_same_def book_of_def)
      then show ?thesis using r(2) t l by (simp add: behind_def)
    qed
  qed
  then show ?thesis using c(1-3) full by blast
qed

subsection \<open>A sample store\<close>

definition sample_log_entry :: "string \<times> fields" where
  "sample_log_entry = (''1-0'', [(''command'', Json (JObj
     [(''commandId'', JStr ''c1''), (''type'', JStr ''PLACE_LIMIT_ORDER''), (''symbol'', JStr ''BTC-INR''),
      (''payload'', JObj (sample_input ''a1'' SELL 101 5))]))])"

definition sample_store :: Store where
  "sample_store = demo_store\<lparr> st_streams := (st_streams demo_store)(commandLogStreamKey (JStr ''BTC-INR'') := [sample_log_entry]),
     st_sets := (st_sets demo_store)(command_symbols_key := [Plain ''BTC-INR'']) \<rparr>"

definition sample_replica :: "Store Replica" where
  "sample_replica = \<lparr> rp_books = [], rp_world = sample_store, rp_lastReplayedStreamIds = [] \<rparr>"

lemma sample_request:
  "entry_command sample_log_entry = [(''commandId'', JStr ''c1''), (''type'', JStr ''PLACE_LIMIT_ORDER''), (''symbol'', JStr ''BTC-INR''),
      (''payload'', JObj (sample_input ''a1'' SELL 101 5))]"
  "request_of sample_log_entry = (JStr ''PLACE_LIMIT_ORDER'', JObj (sample_input ''a1'' SELL 101 5))"
  by (simp_all add: entry_command_def sample_log_entry_def log_entry_def field_def json_parse_def request_of_def)

lemma sample_origin:
  "sample_state (origin ''BTC-INR'') [] []"
  "\<exists>res s'. placeLimitOrder (sample_input ''a1'' SELL 101 5) (origin ''BTC-INR'') = (Inr res, s') \<and>
     resting SELL s' = [sample_node ''a1'' SELL 101 5] \<and> resting BUY s' = []"
proof -
  have t: "trim ''BTC-INR'' \<noteq> []" by code_simp
  show st: "sample_state (origin ''BTC-INR'') [] []"
    using fresh_book_ok [OF t] new_OrderBook_ok [of "\<lambda>_. 0" "JStr ''BTC-INR''" "fresh_book (\<lambda>_. 0) ''BTC-INR''"] t
    by (simp add: sample_state_def fresh_book_def new_OrderBook_def origin_def)
  have b: "book_ok (origin ''BTC-INR'')" "ob_stopOrdersById (origin ''BTC-INR'') = []" using st by (simp_all add: sample_state_def)
  have "limit_ready (origin ''BTC-INR'') (sample_input ''a1'' SELL 101 5) (sample_node ''a1'' SELL 101 5)"
    by (rule sample_ready [OF st]) (use sample_trims in simp_all)
  from limit_effect [OF b this] obtain res s' where r: "placeLimitOrder (sample_input ''a1'' SELL 101 5) (origin ''BTC-INR'') = (Inr res, s')"
    by blast
  have "sample_state s' [] [sample_node ''a1'' SELL 101 5]"
    using sample_step [OF st, of "''a1''" 101 5 SELL] sample_trims r by (simp add: spec_insert_def)
  then show "\<exists>res s'. placeLimitOrder (sample_input ''a1'' SELL 101 5) (origin ''BTC-INR'') = (Inr res, s') \<and>
     resting SELL s' = [sample_node ''a1'' SELL 101 5] \<and> resting BUY s' = []"
    using r by (simp add: sample_state_def)
qed

lemma sample_log: "sound_log ''BTC-INR'' [sample_log_entry]"
  "map on_orderId (ab_asks (rebuilt ''BTC-INR'' [sample_log_entry])) = [''a1'']"
proof -
  obtain res s' where r: "placeLimitOrder (sample_input ''a1'' SELL 101 5) (origin ''BTC-INR'') = (Inr res, s')"
    "resting SELL s' = [sample_node ''a1'' SELL 101 5]" using sample_origin(2) by blast
  have run: "run_command (origin ''BTC-INR'') (request_of sample_log_entry) = (Inr (Placed res), s')"
    using r by (simp add: run_command_def sample_request dispatch_def with_payload_def nullish_def bindE_def)
  have "decodes ''BTC-INR'' sample_log_entry"
    by (simp add: decodes_def sample_request log_entry_def)
      (simp add: sample_log_entry_def field_def json_parse_def)
  moreover have "trim ''BTC-INR'' \<noteq> []" by code_simp
  moreover have "id_less ''0-0'' (fst sample_log_entry)" unfolding sample_log_entry_def fst_conv by code_simp
  moreover have "admissible_command (request_of sample_log_entry)" "requests_cost [sample_log_entry] < maxCycles"
    by (simp_all add: sample_request admissible_command_def stop_request_ok_def stop_types_def requests_cost_def command_cost_def
      stop_cost_def maxCycles_def)
  ultimately show "sound_log ''BTC-INR'' [sample_log_entry]" using run by (simp add: sound_log_def)
  show "map on_orderId (ab_asks (rebuilt ''BTC-INR'' [sample_log_entry])) = [''a1'']"
    using run r(2) by (simp add: rebuilt_def abs_book_def untimed_def sample_node_def)
qed

lemma sample_durable: "durable_store sample_store" "known sample_store ''BTC-INR''"
  "log_of sample_store ''BTC-INR'' = [sample_log_entry]"
  using sample_log
  by (simp_all add: durable_store_def durable_def known_def log_of_def sample_store_def sound_checkpoint_def demo_store_def)

lemma sample_assigned: "assigned (JInt 0) 3 ''BTC-INR''"
proof -
  have "nonEmptyString (JStr ''BTC-INR'')" "sint (hash_loop 5381 ''BTC-INR'') = 1580274600" by code_simp+
  then show ?thesis by (simp add: assigned_def isSymbolAssignedToPartition_def getPartitionId_def hashSymbol_def)
qed

subsection \<open>Properties\<close>

text \<open>
  C16. Recovery is total and right: on a Redis that keeps its documented promises, from any
  state a node's \<^verbatim>\<open>initialize\<close> returns, every symbol of the command log has the book its log
  stands for (by the checkpoint and the entries after it, or by the whole log), and the replica
  follows the symbols of its partition.
\<close>

theorem recovery_rebuilds_books:
  assumes "documented redis view" "reliable redis" "durable_store (view (rp_world s))" "0 < n"
  shows "\<exists>res s'. initialize redis clock p (JInt n) s = (Inr res, s') \<and> replica_ok clock p n (view (rp_world s')) s' \<and>
    (\<forall>symbol. known (view (rp_world s)) symbol \<longrightarrow>
       stands_for symbol (log_of (view (rp_world s)) symbol) (book_of clock (rp_books s') symbol))"
  using initialize_ok [where s = s and clock = clock and p = p, OF assms] by blast

theorem recovery_rebuilds_books_witness:
  "\<exists>res s'. initialize demo_redis Suc (JInt 0) (JInt 3) sample_replica = (Inr res, s') \<and>
     map on_orderId (resting SELL (book_of Suc (rp_books s') ''BTC-INR'')) = [''a1'']"
proof -
  have d: "durable_store (id (rp_world sample_replica))" using sample_durable by (simp add: sample_replica_def)
  obtain res s' where i: "initialize demo_redis Suc (JInt 0) (JInt 3) sample_replica = (Inr res, s')"
    and b: "\<forall>symbol. known (id (rp_world sample_replica)) symbol \<longrightarrow>
       stands_for symbol (log_of (id (rp_world sample_replica)) symbol) (book_of Suc (rp_books s') symbol)"
    using recovery_rebuilds_books [OF demo_documented demo_reliable d, of 3 Suc "JInt 0"] by auto
  have "stands_for ''BTC-INR'' [sample_log_entry] (book_of Suc (rp_books s') ''BTC-INR'')"
    using b [rule_format, of "''BTC-INR''"] sample_durable by (simp add: sample_replica_def)
  then have "map on_orderId (ab_asks (abs_book (book_of Suc (rp_books s') ''BTC-INR''))) = [''a1'']"
    using sample_log(2) by (simp add: stands_for_def)
  then show ?thesis using i by (simp add: abs_book_def untimed_def o_def)
qed

text \<open>
  A standby that is in step catches up: however far the logs have grown since (and
  whatever symbols have been added), one \<^verbatim>\<open>catchUp\<close> returns, every book of the node's
  partition is the one its log stands for, and the replica is in step again.
\<close>

theorem standby_catches_up:
  assumes "documented redis view" "reliable redis" "replica_ok clock p n st s" "store_grows st (view (rp_world s))"
    "durable_store (view (rp_world s))" "0 < n"
  shows "\<exists>m s'. catchUp redis clock p (JInt n) s = Some (Inr m, s') \<and> replica_ok clock p n (view (rp_world s')) s' \<and>
    (\<forall>symbol. known (view (rp_world s)) symbol \<and> assigned p n symbol \<longrightarrow>
       stands_for symbol (log_of (view (rp_world s)) symbol) (book_of clock (rp_books s') symbol))"
  using catch_up_ok [OF assms(1,2,5) replica_ok_grows [OF assms(3,4)] assms(6)] by blast

theorem standby_catches_up_witness:
  "\<exists>m s'. catchUp demo_redis id (JInt 0) (JInt 3) sample_replica = Some (Inr m, s') \<and>
     map on_orderId (resting SELL (book_of id (rp_books s') ''BTC-INR'')) = [''a1'']"
proof -
  have d: "durable_store (id (rp_world sample_replica))" using sample_durable by (simp add: sample_replica_def)
  have r: "replica_ok id (JInt 0) 3 demo_store sample_replica" by (simp add: replica_ok_def sample_replica_def map_has_def)
  have g: "store_grows demo_store (id (rp_world sample_replica))"
    by (simp add: store_grows_def known_def log_of_def demo_store_def)
  obtain m s' where c: "catchUp demo_redis id (JInt 0) (JInt 3) sample_replica = Some (Inr m, s')"
    and b: "\<forall>symbol. known (id (rp_world sample_replica)) symbol \<and> assigned (JInt 0) 3 symbol \<longrightarrow>
       stands_for symbol (log_of (id (rp_world sample_replica)) symbol) (book_of id (rp_books s') symbol)"
    using standby_catches_up [OF demo_documented demo_reliable r g d] by auto
  have "stands_for ''BTC-INR'' [sample_log_entry] (book_of id (rp_books s') ''BTC-INR'')"
    using b [rule_format, of "''BTC-INR''"] sample_durable sample_assigned by (simp add: sample_replica_def)
  then have "map on_orderId (ab_asks (abs_book (book_of id (rp_books s') ''BTC-INR''))) = [''a1'']"
    using sample_log(2) by (simp add: stands_for_def)
  then show ?thesis using c by (simp add: abs_book_def untimed_def o_def)
qed

end
