(* ===== verification/WorkerProofs.thy ===== *)
theory WorkerProofs
  imports Worker StandbyProperties
begin

text \<open>
  The worker on a Redis that keeps its documented promises.  The locale \<open>store_relation\<close> states
  what a relation between the store before and after must satisfy to be carried through the
  worker's programs, whatever fails on the way; it is interpreted on \<open>frame\<close> (no log, no
  checkpoint changes) and on \<open>checkpointed\<close> (only the checkpoint of one symbol may).
\<close>

subsection \<open>Relations carried through programs\<close>

definition keeps :: "(Store \<Rightarrow> Store \<Rightarrow> bool) \<Rightarrow> ('w \<Rightarrow> Store) \<Rightarrow> ('w, 'r) rdprog \<Rightarrow> bool" where
  "keeps R view m \<longleftrightarrow> (\<forall>w. R (view w) (view (snd (m w))))"

definition wkeeps :: "(Store \<Rightarrow> Store \<Rightarrow> bool) \<Rightarrow> ('w \<Rightarrow> Store) \<Rightarrow> ('w, 'r) wkprog \<Rightarrow> bool" where
  "wkeeps R view m \<longleftrightarrow> (\<forall>s. wk_books (snd (m s)) = wk_books s \<and> R (view (wk_world s)) (view (wk_world (snd (m s)))))"

locale store_relation =
  fixes R :: "Store \<Rightarrow> Store \<Rightarrow> bool"
  assumes refl: "R a a"
    and trans: "R a b \<Longrightarrow> R b c \<Longrightarrow> R a c"
    and time: "R a (a\<lparr>st_time := t\<rparr>)"
begin

lemma bind: "keeps R view m \<Longrightarrow> (\<And>x. keeps R view (f x)) \<Longrightarrow> keeps R view (bindE m f)"
  unfolding keeps_def bindE_def by (auto split: prod.split sum.split intro: trans) (metis snd_conv trans)

lemma pure_step: "keeps R view (ret x)" "keeps R view (throw e)" "keeps R view (liftE r)"
  by (simp_all add: keeps_def refl)

lemma call:
  assumes doc: "documented redis view" and a: "\<And>rs st st'. answers_all cs rs st st' \<Longrightarrow> R st st'"
  shows "keeps R view (redis cs)"
  unfolding keeps_def
proof
  fix w
  obtain out w' where o: "redis cs w = (out, w')" by (cases "redis cs w")
  have "R (view w) (view w')"
  proof (cases out)
    case (Inl e)
    then show ?thesis using documented_failure [OF doc o [unfolded Inl]] a trans [OF time] time by metis
  next
    case (Inr rs)
    then show ?thesis using documented_reply [OF doc o [unfolded Inr]] a trans [OF time] by metis
  qed
  then show "R (view w) (view (snd (redis cs w)))" using o by simp
qed

lemma one_call:
  assumes "documented redis view" "\<And>r st st'. answers c r st st' \<Longrightarrow> R st st'"
  shows "keeps R view (redis_call redis c)"
  unfolding redis_call_def by (intro bind pure_step call assms(1)) (use assms(2) in auto)

lemma wbind: "wkeeps R view m \<Longrightarrow> (\<And>x. wkeeps R view (f x)) \<Longrightarrow> wkeeps R view (bindE m f)"
  unfolding wkeeps_def bindE_def by (auto split: prod.split sum.split intro: trans) (metis snd_conv trans)+

lemma wpure: "wkeeps R view (ret x)" "wkeeps R view (throw e)" "wkeeps R view (liftE r)" "wkeeps R view (gets g)"
    "wkeeps R view (act a)" "wkeeps R view reportLeadershipLost"
  by (simp_all add: wkeeps_def refl act_def reportLeadershipLost_def)

lemma world: "keeps R view m \<Longrightarrow> wkeeps R view (in_world m)"
  by (simp add: keeps_def wkeeps_def in_world_def split_def)

lemma leadership: "keeps R view lead \<Longrightarrow> wkeeps R view (checkLeadership lead)"
  unfolding keeps_def wkeeps_def checkLeadership_def in_world_def
  by (auto simp: refl split: prod.split sum.split) (metis snd_conv)+

lemma wif: "wkeeps R view m \<Longrightarrow> wkeeps R view n \<Longrightarrow> wkeeps R view (if b then m else n)"
  by simp

lemma given_back: "wkeeps R view give_back"
  unfolding give_back_def by (intro wbind wpure)

end

subsection \<open>The keys of the stores are different\<close>

lemma other_streams: "eventStreamKey v \<noteq> commandLogStreamKey w"
proof
  assume "eventStreamKey v = commandLogStreamKey w"
  then have "rev (eventStreamKey v) = rev (commandLogStreamKey w)" by simp
  then show False by (simp add: eventStreamKey_def commandLogStreamKey_def)
qed

lemma other_sets: "book_symbols_key \<noteq> processedCommandIdsKey v" "book_symbols_key \<noteq> command_symbols_key"
    "command_symbols_key \<noteq> processedCommandIdsKey v"
proof -
  show "command_symbols_key \<noteq> processedCommandIdsKey v"
  proof
    assume "command_symbols_key = processedCommandIdsKey v"
    then have "rev command_symbols_key = rev (processedCommandIdsKey v)" by simp
    then show False by (simp add: command_symbols_key_def processedCommandIdsKey_def)
  qed
qed (simp_all add: book_symbols_key_def processedCommandIdsKey_def command_symbols_key_def)

lemma other_texts: "commandStatusKey v \<noteq> recoverySnapshotKey w" "bookSnapshotKey v \<noteq> recoverySnapshotKey w"
    "getLeaderKey v \<noteq> recoverySnapshotKey w"
  by (simp_all add: commandStatusKey_def recoverySnapshotKey_def bookSnapshotKey_def getLeaderKey_def LEADER_KEY_def)

lemma same_stream: "commandLogStreamKey (JStr a) = commandLogStreamKey (JStr b) \<longleftrightarrow> a = b"
  by (simp add: commandLogStreamKey_def)

lemma same_set: "processedCommandIdsKey (JStr a) = processedCommandIdsKey (JStr b) \<longleftrightarrow> a = b"
  by (simp add: processedCommandIdsKey_def)

lemma same_text: "recoverySnapshotKey (JStr a) = recoverySnapshotKey (JStr b) \<longleftrightarrow> a = b"
  by (simp add: recoverySnapshotKey_def)

lemmas other_keys = other_streams other_streams [symmetric] other_sets other_sets [symmetric] other_texts other_texts [symmetric]
  same_stream same_set same_text

subsection \<open>Frames\<close>

definition frame :: "Store \<Rightarrow> Store \<Rightarrow> bool" where
  "frame st st' \<longleftrightarrow> (\<forall>k. log_of st' k = log_of st k \<and>
       st_sets st' (processedCommandIdsKey (JStr k)) = st_sets st (processedCommandIdsKey (JStr k)) \<and>
       st_texts st' (recoverySnapshotKey (JStr k)) = st_texts st (recoverySnapshotKey (JStr k))) \<and>
     st_sets st' command_symbols_key = st_sets st command_symbols_key"

definition checkpointed :: "string \<Rightarrow> stored \<Rightarrow> Store \<Rightarrow> Store \<Rightarrow> bool" where
  "checkpointed symbol t st st' \<longleftrightarrow> (\<forall>k. log_of st' k = log_of st k \<and>
       st_sets st' (processedCommandIdsKey (JStr k)) = st_sets st (processedCommandIdsKey (JStr k)) \<and>
       (st_texts st' (recoverySnapshotKey (JStr k)) = st_texts st (recoverySnapshotKey (JStr k)) \<or>
        k = symbol \<and> st_texts st' (recoverySnapshotKey (JStr k)) = Some (t, None))) \<and>
     st_sets st' command_symbols_key = st_sets st command_symbols_key"

interpretation framed: store_relation frame
  by unfold_locales (simp_all add: frame_def log_of_def)

interpretation check_framed: store_relation "checkpointed symbol t" for symbol t
proof unfold_locales
  show "checkpointed symbol t a c" if "checkpointed symbol t a b" "checkpointed symbol t b c" for a b c
    unfolding checkpointed_def
  proof (intro conjI allI)
    fix k
    show "log_of c k = log_of a k"
      "st_sets c (processedCommandIdsKey (JStr k)) = st_sets a (processedCommandIdsKey (JStr k))"
      "st_sets c command_symbols_key = st_sets a command_symbols_key"
      using that by (simp_all add: checkpointed_def)
    show "st_texts c (recoverySnapshotKey (JStr k)) = st_texts a (recoverySnapshotKey (JStr k)) \<or>
        k = symbol \<and> st_texts c (recoverySnapshotKey (JStr k)) = Some (t, None)"
      using that unfolding checkpointed_def by metis
  qed
qed (simp_all add: checkpointed_def log_of_def)

lemma frame_checkpointed: "frame a b \<Longrightarrow> checkpointed symbol t a b"
  by (simp add: frame_def checkpointed_def)

lemma keeps_checkpointed: "keeps frame view m \<Longrightarrow> keeps (checkpointed symbol t) view m"
  by (simp add: keeps_def frame_checkpointed)

lemma wkeeps_checkpointed: "wkeeps frame view m \<Longrightarrow> wkeeps (checkpointed symbol t) view m"
  by (simp add: wkeeps_def frame_checkpointed)

text \<open>The calls that leave the frame alone.\<close>

fun quiet_call :: "redis_call \<Rightarrow> bool" where
  "quiet_call (XAdd k f n) \<longleftrightarrow> (\<forall>v. k \<noteq> commandLogStreamKey v)"
| "quiet_call (SAdd k t) \<longleftrightarrow> (\<forall>v. k \<noteq> processedCommandIdsKey v) \<and> k \<noteq> command_symbols_key"
| "quiet_call (SetKey k t x) \<longleftrightarrow> (\<forall>v. k \<noteq> recoverySnapshotKey v)"
| "quiet_call (PExpire k n) \<longleftrightarrow> (\<forall>v. k \<noteq> recoverySnapshotKey v)"
| "quiet_call (Del k) \<longleftrightarrow> (\<forall>v. k \<noteq> recoverySnapshotKey v)"
| "quiet_call (IfEquals k t c) \<longleftrightarrow> quiet_call c"
| "quiet_call c \<longleftrightarrow> True"

lemma quiet_frame: "answers c r st st' \<Longrightarrow> quiet_call c \<Longrightarrow> frame st st'"
proof (induction c arbitrary: r st st')
  case (SetKey k t x)
  then show ?case by (cases x) (auto simp: frame_def log_of_def split: if_splits)
qed (auto simp: frame_def log_of_def Let_def split: if_splits option.splits)

lemma quiet_frames: "answers_all cs rs st st' \<Longrightarrow> list_all quiet_call cs \<Longrightarrow> frame st st'"
proof (induction cs arbitrary: rs st)
  case Nil
  then show ?case by (simp add: framed.refl)
next
  case (Cons c cs)
  then show ?case using framed.trans quiet_frame by (fastforce simp del: answers.simps)
qed

lemma quiet_one: "documented redis view \<Longrightarrow> quiet_call c \<Longrightarrow> keeps frame view (redis_call redis c)"
  by (rule framed.one_call) (auto intro: quiet_frame)

lemma quiet_many: "documented redis view \<Longrightarrow> list_all quiet_call cs \<Longrightarrow> keeps frame view (redis cs)"
  by (rule framed.call) (auto intro: quiet_frames)

subsection \<open>What the operations leave alone\<close>

lemma keeps_isCommandProcessed: "documented redis view \<Longrightarrow> keeps frame view (isCommandProcessed redis symbol i)"
  unfolding isCommandProcessed_def by (intro framed.bind framed.pure_step quiet_one) simp_all

lemma keeps_saveStatus: "documented redis view \<Longrightarrow> keeps frame view (saveStatus redis c)"
  unfolding saveStatus_def by (intro framed.bind framed.pure_step quiet_one) (simp_all add: other_keys)

lemma keeps_updateCommandStatus: "documented redis view \<Longrightarrow> keeps frame view (updateCommandStatus redis now c st reason)"
  unfolding updateCommandStatus_def by (rule keeps_saveStatus)

lemma keeps_appendEvents: "documented redis view \<Longrightarrow> keeps frame view (appendEvents redis symbol evs)"
  unfolding appendEvents_def
  by (cases "evs = []"; simp add: framed.pure_step; intro framed.bind framed.pure_step quiet_many)
    (simp_all add: list_all_iff other_keys)

lemma keeps_both: "keeps frame view m \<Longrightarrow> keeps frame view n \<Longrightarrow> keeps frame view (both m n)"
  unfolding keeps_def both_def by (auto simp: split_def intro: framed.trans)

lemma keeps_saveReadModel: "documented redis view \<Longrightarrow> keeps frame view (saveReadModel redis symbol book result)"
  unfolding saveReadModel_def saveBookSnapshot_def appendTrades_def
  by (auto intro!: framed.bind framed.pure_step quiet_one keeps_both simp: other_keys)

lemma keeps_publish: "documented redis view \<Longrightarrow> keeps frame view (publishMarketEvents redis now symbol evs)"
  using quiet_one [of redis view] by (auto simp: publishMarketEvents_def keeps_def framed.refl split_def)

lemma keeps_hasLeadership: "documented redis view \<Longrightarrow> keeps frame view (hasLeadership redis workerId partitionId)"
  unfolding hasLeadership_def getCurrentLeader_def by (intro framed.bind framed.pure_step quiet_one) simp_all

lemma keeps_saveRecoverySnapshot:
  assumes "documented redis view"
  shows "keeps (checkpointed symbol (json_text (JObj snap))) view (saveRecoverySnapshot redis (JStr symbol) snap)"
  unfolding saveRecoverySnapshot_def
  by (intro check_framed.bind check_framed.pure_step check_framed.one_call [OF assms])
    (auto simp: checkpointed_def log_of_def other_keys)

text \<open>What follows the append, whatever fails in it.\<close>

lemma keeps_store_result:
  assumes "documented redis view" "keeps frame view lead" "getp command ''symbol'' = JStr symbol"
    "toRecoverySnapshot i book = Some snap"
  shows "wkeeps (checkpointed symbol (json_text (JObj snap))) view (store_result redis lead tm command book result i)"
  unfolding store_result_def Let_def assms(3,4) option.case
  by (intro check_framed.wbind check_framed.wpure check_framed.world check_framed.leadership
      keeps_checkpointed [OF keeps_appendEvents] keeps_checkpointed [OF keeps_saveReadModel]
      keeps_checkpointed [OF keeps_updateCommandStatus] keeps_checkpointed [OF keeps_publish]
      keeps_saveRecoverySnapshot keeps_checkpointed [OF assms(2)] assms(1) check_framed.wif)

lemma keeps_store_result_stuck:
  assumes "documented redis view" "keeps frame view lead" "toRecoverySnapshot i book = None"
  shows "wkeeps frame view (store_result redis lead tm command book result i)"
  unfolding store_result_def Let_def assms(3) option.case
  by (intro framed.wbind framed.wpure framed.world keeps_appendEvents keeps_saveReadModel assms(1))

lemma keeps_reject:
  assumes "documented redis view" "s' = reject_message redis tm reason body s"
  shows "wk_books s' = wk_books s" "frame (view (wk_world s)) (view (wk_world s'))"
proof -
  let ?m = "bindE (liftE (parseMessage body)) (\<lambda>parsed. bindE (liftE (prop_of parsed ''symbol'')) (\<lambda>symbol.
      let command = props parsed; event = rejected_event (tm_rejectedAt tm) command (JStr reason) in
      bindE (in_world (updateCommandStatus redis (tm_updatedAt tm) command REJECTED (JStr reason))) (\<lambda>_.
      bindE (act Ack) (\<lambda>_. in_world (publishMarketEvents redis (tm_publishedAt tm) symbol [event])))))"
  have "wkeeps frame view ?m" unfolding Let_def
    by (intro framed.wbind framed.wpure framed.world keeps_updateCommandStatus keeps_publish assms(1))
  then have m: "wk_books (snd (?m s)) = wk_books s" "frame (view (wk_world s)) (view (wk_world (snd (?m s))))"
    by (simp_all add: wkeeps_def)
  have s': "wk_books s' = wk_books (snd (?m s))" "wk_world s' = wk_world (snd (?m s))"
    unfolding assms(2) reject_message_def by (simp_all add: act_def split: prod.split sum.split)
  show "wk_books s' = wk_books s" "frame (view (wk_world s)) (view (wk_world s'))" using m by (simp_all only: s')
qed

subsection \<open>Appending to the log\<close>

definition appended :: "string \<Rightarrow> string \<Rightarrow> fields \<Rightarrow> string \<Rightarrow> Store \<Rightarrow> Store \<Rightarrow> bool" where
  "appended symbol i fs entryId st st' \<longleftrightarrow>
     (\<exists>d. (d = 0 \<or> d + maxCommandsPerSymbol \<le> Suc (length (log_of st symbol))) \<and>
        log_of st' symbol = drop d (log_of st symbol @ [(entryId, fs)])) \<and>
     (\<forall>e \<in> set (log_of st symbol). id_less (fst e) entryId) \<and> id_less ''0-0'' entryId \<and>
     (\<forall>k. k \<noteq> symbol \<longrightarrow> log_of st' k = log_of st k) \<and>
     st_sets st' (processedCommandIdsKey (JStr symbol)) = List.insert (Plain i) (st_sets st (processedCommandIdsKey (JStr symbol))) \<and>
     (\<forall>k. k \<noteq> symbol \<longrightarrow> st_sets st' (processedCommandIdsKey (JStr k)) = st_sets st (processedCommandIdsKey (JStr k))) \<and>
     (\<forall>k. st_texts st' (recoverySnapshotKey (JStr k)) = st_texts st (recoverySnapshotKey (JStr k))) \<and>
     st_sets st' command_symbols_key = List.insert (Plain symbol) (st_sets st command_symbols_key)"

abbreviation log_calls :: "string \<Rightarrow> string \<Rightarrow> fields \<Rightarrow> redis_call list" where
  "log_calls symbol i fs \<equiv> [XAdd (commandLogStreamKey (JStr symbol)) fs maxCommandsPerSymbol,
     SAdd (processedCommandIdsKey (JStr symbol)) (Plain i), SAdd command_symbols_key (Plain symbol)]"

lemma append_answers:
  assumes "answers_all (log_calls symbol i fs) rs (st\<lparr>st_time := t\<rparr>) st'"
  shows "\<exists>entryId qs. rs = RText (Plain entryId) # qs \<and> appended symbol i fs entryId st st'"
proof -
  let ?st = "st\<lparr>st_time := t\<rparr>"
  obtain r qs st1 where 1: "rs = r # qs" "answers (XAdd (commandLogStreamKey (JStr symbol)) fs maxCommandsPerSymbol) r ?st st1"
    "answers_all (tl (log_calls symbol i fs)) qs st1 st'"
    using assms unfolding answers_all.simps(2) [of "XAdd (commandLogStreamKey (JStr symbol)) fs maxCommandsPerSymbol"] list.sel by blast
  obtain entryId d where x: "r = RText (Plain entryId)" "\<forall>e \<in> set (log_of st symbol). id_less (fst e) entryId" "id_less ''0-0'' entryId"
    "d = 0 \<or> d + maxCommandsPerSymbol \<le> Suc (length (log_of st symbol))"
    "st1 = ?st\<lparr>st_streams := (st_streams st)(commandLogStreamKey (JStr symbol) := drop d (log_of st symbol @ [(entryId, fs)]))\<rparr>"
    using 1(2) by (auto simp: log_of_def)
  have st': "st' = st1\<lparr>st_sets := (st_sets st)(processedCommandIdsKey (JStr symbol) := List.insert (Plain i)
      (st_sets st (processedCommandIdsKey (JStr symbol))), command_symbols_key := List.insert (Plain symbol) (st_sets st command_symbols_key))\<rparr>"
    using 1(3) by (auto simp: x(5) other_keys)
  have "appended symbol i fs entryId st st'"
    using x(2-4) by (auto simp: appended_def st' x(5) log_of_def other_keys)
  then show ?thesis using 1(1) x(1) by blast
qed

lemma append_effect:
  assumes doc: "documented redis view" and c: "getp c ''commandId'' = JStr i" "getp c ''symbol'' = JStr symbol"
    and fs: "log_fields now c = Inr fs" and run: "appendProcessedCommand redis now c w = (r, w')"
  shows "isl r \<and> (frame (view w) (view w') \<or> (\<exists>entryId. appended symbol i fs entryId (view w) (view w'))) \<or>
    (\<exists>entryId. r = Inr (JStr entryId) \<and> appended symbol i fs entryId (view w) (view w'))"
proof -
  obtain out w1 where o: "redis (log_calls symbol i fs) w = (out, w1)" by (cases "redis (log_calls symbol i fs) w")
  have r: "r = (case out of Inl e \<Rightarrow> Inl e | Inr results \<Rightarrow> Inr (case results of RText t # _ \<Rightarrow> text_val t | _ \<Rightarrow> JUndef))" "w' = w1"
    using run o unfolding appendProcessedCommand_def by (cases out; simp add: fs c text_arg_def bindE_def)+
  show ?thesis
  proof (cases out)
    case (Inl e)
    obtain t where "view w1 = (view w)\<lparr>st_time := t\<rparr> \<or> (\<exists>rs. answers_all (log_calls symbol i fs) rs ((view w)\<lparr>st_time := t\<rparr>) (view w1))"
      by (rule documented_failure [OF doc o [unfolded Inl]])
    then have "frame (view w) (view w') \<or> (\<exists>entryId. appended symbol i fs entryId (view w) (view w'))"
    proof
      assume "view w1 = (view w)\<lparr>st_time := t\<rparr>"
      then show ?thesis using framed.time r(2) by simp
    next
      assume "\<exists>rs. answers_all (log_calls symbol i fs) rs ((view w)\<lparr>st_time := t\<rparr>) (view w1)"
      then show ?thesis using append_answers r(2) by blast
    qed
    then show ?thesis using r(1) Inl by simp
  next
    case (Inr results)
    obtain t where "answers_all (log_calls symbol i fs) results ((view w)\<lparr>st_time := t\<rparr>) (view w1)"
      by (rule documented_reply [OF doc o [unfolded Inr]])
    from append_answers [OF this] obtain entryId qs where "results = RText (Plain entryId) # qs"
      "appended symbol i fs entryId (view w) (view w1)" by blast
    then show ?thesis using r Inr by (simp add: text_val_def)
  qed
qed

end
