(* ===== verification/WorkerEffects.thy ===== *)
theory WorkerEffects
  imports WorkerProofs
begin

text \<open>
  What the handling of one message amounts to, whatever fails on the way: nothing, a refused
  execution, or an execution followed by at most one append to the log.
\<close>

subsection \<open>Executions that the worker records\<close>

lemma executed_type:
  assumes "executeOrderCommand clock c r = (Inr x, r')"
  shows "\<exists>ty. getp c ''type'' = JStr ty"
proof -
  obtain book r1 y where "on_book book (dispatch (getp c ''type'') (getp c ''payload'')) r1 = (Inr y, r')"
    using assms by (auto simp: executeOrderCommand_def bindE_eq_Inr)
  then obtain b b' where d: "dispatch (getp c ''type'') (getp c ''payload'') b = (Inr y, b')"
    by (auto simp: on_book_def split: option.splits prod.splits)
  show ?thesis
  proof (rule ccontr)
    assume "\<nexists>ty. getp c ''type'' = JStr ty"
    then have "getp c ''type'' \<noteq> JStr ty" for ty by simp
    then show False using d by (simp add: dispatch_def)
  qed
qed

text \<open>How far a message that was executed got.\<close>

definition recorded :: "'w redis \<Rightarrow> ('w \<Rightarrow> Store) \<Rightarrow> Times \<Rightarrow> jsobj \<Rightarrow> string \<Rightarrow> string \<Rightarrow> OrderBook \<Rightarrow> Store \<Rightarrow> Store \<Rightarrow> bool" where
  "recorded redis view tm c symbol i book st st' \<longleftrightarrow>
     (\<exists>fs entryId a b t. log_fields (tm_processedAt tm) c = Inr fs \<and> frame st a \<and> appended symbol i fs entryId a b \<and>
        checkpointed symbol t b st' \<and>
        (\<forall>snap. toRecoverySnapshot (JStr entryId) book = Some snap \<longrightarrow> t = json_text (JObj snap)))"

definition append_failed :: "'w redis \<Rightarrow> ('w \<Rightarrow> Store) \<Rightarrow> Times \<Rightarrow> jsobj \<Rightarrow> Store \<Rightarrow> Store \<Rightarrow> bool" where
  "append_failed redis view tm c st st' \<longleftrightarrow>
     (\<exists>w w' e. appendProcessedCommand redis (tm_processedAt tm) c w = (Inl e, w') \<and> frame st (view w) \<and> frame (view w') st')"

lemma store_result_effect:
  assumes "documented redis view" "keeps frame view lead" "getp c ''symbol'' = JStr symbol"
    "store_result redis lead tm c book result (JStr entryId) s = (r, s')"
  shows "wk_books s' = wk_books s \<and> (\<exists>t. checkpointed symbol t (view (wk_world s)) (view (wk_world s')) \<and>
     (\<forall>snap. toRecoverySnapshot (JStr entryId) book = Some snap \<longrightarrow> t = json_text (JObj snap)))"
proof (cases "toRecoverySnapshot (JStr entryId) book")
  case None
  from keeps_store_result_stuck [OF assms(1,2) None, of tm c result]
  have "wk_books s' = wk_books s" "frame (view (wk_world s)) (view (wk_world s'))"
    using assms(4) unfolding wkeeps_def by (metis snd_conv)+
  then show ?thesis using None frame_checkpointed by auto
next
  case (Some snap)
  from keeps_store_result [OF assms(1-3) Some, of tm result]
  have "wk_books s' = wk_books s" "checkpointed symbol (json_text (JObj snap)) (view (wk_world s)) (view (wk_world s'))"
    using assms(4) unfolding wkeeps_def by (metis snd_conv)+
  then show ?thesis using Some by auto
qed

lemma log_fields_ids: "log_fields now c = Inr fs \<Longrightarrow> field fs ''commandId'' = Some (case text_arg (getp c ''commandId'') of Inr t \<Rightarrow> t | Inl e \<Rightarrow> Plain [])"
  by (auto simp: log_fields_def seqE_eq_Inr field_def)

lemma record_effect:
  assumes doc: "documented redis view" and lead: "keeps frame view lead"
    and c: "getp c ''symbol'' = JStr symbol" "getp c ''commandId'' = JStr i"
    and run: "record_command redis lead tm c book result s = (r, s')"
  shows "wk_books s' = wk_books s \<and>
    (recorded redis view tm c symbol i book (view (wk_world s)) (view (wk_world s')) \<or>
     isl r \<and> append_failed redis view tm c (view (wk_world s)) (view (wk_world s')))"
proof -
  obtain q w' where a: "appendProcessedCommand redis (tm_processedAt tm) c (wk_world s) = (q, w')"
    by (cases "appendProcessedCommand redis (tm_processedAt tm) c (wk_world s)")
  show ?thesis
  proof (cases q)
    case (Inl e)
    then have "r = Inl e" "s' = s\<lparr>wk_world := w'\<rparr>" using run a by (simp_all add: record_command_def in_world_def bindE_def)
    then show ?thesis using a Inl framed.refl by (auto simp: append_failed_def)
  next
    case (Inr v)
    obtain fs where fs: "log_fields (tm_processedAt tm) c = Inr fs"
      using a Inr by (auto simp: appendProcessedCommand_def split: sum.splits)
    obtain entryId where e: "q = Inr (JStr entryId)" "appended symbol i fs entryId (view (wk_world s)) (view w')"
      using append_effect [OF doc c(2,1) fs a] Inr by auto
    let ?s = "s\<lparr>wk_world := w'\<rparr>"
    have "store_result redis lead tm c book result (JStr entryId) ?s = (r, s')"
      using run a e(1) by (simp add: record_command_def in_world_def bindE_def)
    from store_result_effect [OF doc lead c(1) this] show ?thesis
      using fs e(2) framed.refl by (fastforce simp: recorded_def)
  qed
qed

subsection \<open>One message\<close>

text \<open>The command of a message that reaches the execution.\<close>

definition reaches :: "jsval \<Rightarrow> jsval \<Rightarrow> stored \<Rightarrow> Store \<Rightarrow> jsobj \<Rightarrow> string \<Rightarrow> string \<Rightarrow> bool" where
  "reaches partitionId partitionCount body st c symbol i \<longleftrightarrow>
     (\<exists>v. body = Json v \<and> c = props v) \<and> getp c ''symbol'' = JStr symbol \<and> trim symbol \<noteq> [] \<and> getp c ''commandId'' = JStr i \<and>
     isSymbolAssignedToPartition (JStr symbol) partitionId partitionCount = Inr True \<and>
     Plain i \<notin> set (st_sets st (processedCommandIdsKey (JStr symbol)))"

definition executed :: "'w redis \<Rightarrow> ('w \<Rightarrow> Store) \<Rightarrow> (nat \<Rightarrow> nat) \<Rightarrow> Times \<Rightarrow> jsobj \<Rightarrow> string \<Rightarrow> string \<Rightarrow> (js_error + bool) \<Rightarrow>
    'w Worker \<Rightarrow> 'w Worker \<Rightarrow> bool" where
  "executed redis view clock tm c symbol i r s s' \<longleftrightarrow>
     (\<exists>x. executeOrderCommand clock c (wk_books s) = (x, wk_books s') \<and>
       (case x of Inl e \<Rightarrow> r = Inl e \<and> frame (view (wk_world s)) (view (wk_world s'))
        | Inr res \<Rightarrow>
            frame (view (wk_world s)) (view (wk_world s')) \<and> wk_leadershipLossReported s' \<or>
            isl r \<and> append_failed redis view tm c (view (wk_world s)) (view (wk_world s')) \<or>
            recorded redis view tm c symbol i (book_of clock (wk_books s') symbol) (view (wk_world s)) (view (wk_world s'))))"

lemma executedE:
  assumes "executed redis view clock tm c symbol i r s s'"
  obtains (refused) e where "executeOrderCommand clock c (wk_books s) = (Inl e, wk_books s')"
      "frame (view (wk_world s)) (view (wk_world s'))"
  | (lost) res where "executeOrderCommand clock c (wk_books s) = (Inr res, wk_books s')"
      "frame (view (wk_world s)) (view (wk_world s'))" "wk_leadershipLossReported s'"
  | (failed) res where "executeOrderCommand clock c (wk_books s) = (Inr res, wk_books s')"
      "append_failed redis view tm c (view (wk_world s)) (view (wk_world s'))"
  | (done') res where "executeOrderCommand clock c (wk_books s) = (Inr res, wk_books s')"
      "recorded redis view tm c symbol i (book_of clock (wk_books s') symbol) (view (wk_world s)) (view (wk_world s'))"
proof -
  obtain x where x: "executeOrderCommand clock c (wk_books s) = (x, wk_books s')"
    "case x of Inl e \<Rightarrow> r = Inl e \<and> frame (view (wk_world s)) (view (wk_world s'))
     | Inr res \<Rightarrow> frame (view (wk_world s)) (view (wk_world s')) \<and> wk_leadershipLossReported s' \<or>
         isl r \<and> append_failed redis view tm c (view (wk_world s)) (view (wk_world s')) \<or>
         recorded redis view tm c symbol i (book_of clock (wk_books s') symbol) (view (wk_world s)) (view (wk_world s'))"
    using assms unfolding executed_def by (elim exE conjE)
  show ?thesis
  proof (cases x)
    case (Inl e)
    then show ?thesis using x refused by simp
  next
    case (Inr res)
    then show ?thesis using x lost [of res] failed [of res] done' [of res] by auto
  qed
qed

lemma isCommandProcessed_effect:
  assumes "documented redis view" "isCommandProcessed redis (JStr symbol) v w = (Inr b, w')"
  obtains i where "v = JStr i" "b \<longleftrightarrow> Plain i \<in> set (st_sets (view w) (processedCommandIdsKey (JStr symbol)))"
proof -
  obtain i q where i: "v = JStr i" "b = reply_bool q"
    "redis_call redis (SIsMember (processedCommandIdsKey (JStr symbol)) (Plain i)) w = (Inr q, w')"
    using assms(2) by (auto simp: isCommandProcessed_def text_arg_def bindE_eq_Inr split: jsval.splits)
  obtain t where "answers (SIsMember (processedCommandIdsKey (JStr symbol)) (Plain i)) q ((view w)\<lparr>st_time := t\<rparr>) (view w')"
    by (rule documented_call [OF assms(1) i(3)])
  then show ?thesis using that [OF i(1)] i(2) by (simp add: reply_bool_def)
qed

lemma execute_command_effect:
  assumes "trim symbol \<noteq> []" "getp c ''symbol'' = JStr symbol" "executeOrderCommand clock c (wk_books s) = (x, bs)"
  shows "execute_command clock c s = (case x of Inl e \<Rightarrow> Inl e | Inr res \<Rightarrow> Inr (book_of clock bs symbol, res), s\<lparr>wk_books := bs\<rparr>)"
proof -
  obtain b where bs: "bs = map_set (wk_books s) symbol b"
    using assms(3) executeOrderCommand_eq [OF assms(1,2), of clock "wk_books s"] by (auto split: prod.splits)
  have "in_books (executeOrderCommand clock c) s = (x, s\<lparr>wk_books := bs\<rparr>)" by (simp add: in_books_def assms(3))
  moreover have "map_get bs symbol = Some (book_of clock bs symbol)" by (simp add: bs map_get_set book_of_def)
  ultimately show ?thesis by (cases x) (simp_all add: execute_command_def bindE_def assms(2))
qed

lemma give_back_effect:
  assumes "give_back s = (r, s')"
  shows "wk_books s' = wk_books s" "wk_world s' = wk_world s" "wk_leadershipLossReported s'" "r = Inr True"
  using assms by (auto simp: give_back_def act_def reportLeadershipLost_def bindE_def split: if_splits)

lemma wkeepsD: "wkeeps R view m \<Longrightarrow> m s = (q, s') \<Longrightarrow> wk_books s' = wk_books s \<and> R (view (wk_world s)) (view (wk_world s'))"
  unfolding wkeeps_def by (metis snd_conv)

lemma frame_executed:
  assumes "executed redis view clock tm c symbol i r s s'" "frame (view (wk_world s0)) (view (wk_world s))" "wk_books s0 = wk_books s"
  shows "executed redis view clock tm c symbol i r s0 s'"
proof -
  have "recorded redis view tm c symbol i b (view (wk_world s)) st' \<Longrightarrow> recorded redis view tm c symbol i b (view (wk_world s0)) st'"
    "append_failed redis view tm c (view (wk_world s)) st' \<Longrightarrow> append_failed redis view tm c (view (wk_world s0)) st'" for b st'
    unfolding recorded_def append_failed_def using framed.trans [OF assms(2)] by blast+
  moreover have "frame (view (wk_world s)) st' \<Longrightarrow> frame (view (wk_world s0)) st'" for st' by (rule framed.trans [OF assms(2)])
  ultimately show ?thesis using assms(1) unfolding executed_def assms(3) by (fastforce split: sum.splits)
qed

lemma execute_and_record_effect:
  assumes doc: "documented redis view" and lead: "keeps frame view lead"
    and c: "getp c ''symbol'' = JStr symbol" "trim symbol \<noteq> []" "getp c ''commandId'' = JStr i"
    and run: "execute_and_record redis clock lead tm c s = (r, s')"
  shows "executed redis view clock tm c symbol i r s s'"
proof -
  obtain x bs where ex: "executeOrderCommand clock c (wk_books s) = (x, bs)" by (cases "executeOrderCommand clock c (wk_books s)")
  note ec = execute_command_effect [OF c(2,1) ex]
  show ?thesis
  proof (cases x)
    case (Inl e)
    then show ?thesis using run ex ec framed.refl by (auto simp: execute_and_record_def bindE_def executed_def)
  next
    case (Inr res)
    let ?s2 = "s\<lparr>wk_books := bs\<rparr>"
    obtain l s3 where cl: "checkLeadership lead ?s2 = (l, s3)" by (cases "checkLeadership lead ?s2")
    then have c3: "wk_books s3 = bs" "frame (view (wk_world s)) (view (wk_world s3))"
      using wkeepsD [OF framed.leadership [OF lead] cl] by simp_all
    obtain leader where l: "l = Inr leader" using cl by (auto simp: checkLeadership_def split: if_splits prod.splits sum.splits)
    have r3: "(if \<not> leader then give_back else record_command redis lead tm c (book_of clock bs symbol) res) s3 = (r, s')"
      using run ec Inr cl l by (simp add: execute_and_record_def bindE_def)
    show ?thesis
    proof (cases leader)
      case False
      then have "give_back s3 = (r, s')" using r3 by simp
      note give_back_effect [OF this]
      then show ?thesis using ex Inr c3 by (simp add: executed_def)
    next
      case True
      then have rc: "record_command redis lead tm c (book_of clock bs symbol) res s3 = (r, s')" using r3 by simp
      have "executed redis view clock tm c symbol i r (s3\<lparr>wk_books := wk_books s\<rparr>) s'"
        using record_effect [OF doc lead c(1,3) rc] ex Inr c3(1) by (auto simp: executed_def)
      then show ?thesis by (rule frame_executed) (use c3(2) in simp_all)
    qed
  qed
qed

lemma process_command_effect:
  assumes doc: "documented redis view" and lead: "keeps frame view lead"
    and c: "getp c ''symbol'' = JStr symbol" "trim symbol \<noteq> []"
    and run: "process_command redis clock lead tm c s = (r, s')"
  shows "wk_books s' = wk_books s \<and> frame (view (wk_world s)) (view (wk_world s')) \<or>
    (\<exists>i. getp c ''commandId'' = JStr i \<and> Plain i \<notin> set (st_sets (view (wk_world s)) (processedCommandIdsKey (JStr symbol))) \<and>
       executed redis view clock tm c symbol i r s s')"
proof -
  let ?p = "isCommandProcessed redis (JStr symbol) (getp c ''commandId'')"
  let ?again = "bindE (in_world (updateCommandStatus redis (tm_updatedAt tm) c PROCESSED JNull)) (\<lambda>_. bindE (act Ack) (\<lambda>_. ret True))"
  obtain q w1 where ip: "?p (wk_world s) = (q, w1)" by (cases "?p (wk_world s)")
  let ?s1 = "s\<lparr>wk_world := w1\<rparr>"
  have iw: "in_world ?p s = (q, ?s1)" by (simp add: in_world_def ip)
  have f1: "frame (view (wk_world s)) (view w1)"
    using wkeepsD [OF framed.world [OF keeps_isCommandProcessed [OF doc]] iw] by simp
  show ?thesis
  proof (cases q)
    case (Inl e)
    then show ?thesis using run iw f1 by (auto simp: process_command_def c(1) bindE_def)
  next
    case (Inr b)
    obtain i where i: "getp c ''commandId'' = JStr i" "b \<longleftrightarrow> Plain i \<in> set (st_sets (view (wk_world s)) (processedCommandIdsKey (JStr symbol)))"
      by (rule isCommandProcessed_effect [OF doc ip [unfolded Inr]])
    have r: "(if b then ?again else execute_and_record redis clock lead tm c) ?s1 = (r, s')"
      using run iw Inr by (simp add: process_command_def c(1) bindE_def)
    show ?thesis
    proof (cases b)
      case True
      have k: "wkeeps frame view ?again" by (intro framed.wbind framed.wpure framed.world keeps_updateCommandStatus doc)
      have "?again ?s1 = (r, s')" using r True by simp
      from wkeepsD [OF k this] show ?thesis using framed.trans [OF f1] by simp
    next
      case False
      then have "execute_and_record redis clock lead tm c ?s1 = (r, s')" using r by simp
      from execute_and_record_effect [OF doc lead c i(1) this]
      have "executed redis view clock tm c symbol i r s s'" by (rule frame_executed) (use f1 in simp_all)
      then show ?thesis using i False by blast
    qed
  qed
qed

lemma process_effect:
  assumes doc: "documented redis view" and lead: "keeps frame view lead"
    and run: "process_message redis clock lead partitionId partitionCount tm body s = (r, s')"
  shows "wk_books s' = wk_books s \<and> frame (view (wk_world s)) (view (wk_world s')) \<or>
    (\<exists>c symbol i. reaches partitionId partitionCount body (view (wk_world s)) c symbol i \<and>
       executed redis view clock tm c symbol i r s s')"
proof (cases "\<exists>v pid. body = Json v \<and> \<not> nullish v \<and> getPartitionId (getp (props v) ''symbol'') partitionCount = Inr pid \<and> JInt pid = partitionId")
  case True
  then obtain v pid where v: "body = Json v" "\<not> nullish v" "getPartitionId (getp (props v) ''symbol'') partitionCount = Inr pid"
    "JInt pid = partitionId" by blast
  then have "nonEmptyString (getp (props v) ''symbol'')" by (auto simp: getPartitionId_Inr hashSymbol_def split: if_splits)
  then obtain symbol where sym: "getp (props v) ''symbol'' = JStr symbol" "trim symbol \<noteq> []" by (auto simp: nonEmptyString_iff)
  have "process_command redis clock lead tm (props v) s = (r, s')"
    using run v by (simp add: process_message_def parseMessage_def json_parse_def prop_of_def)
  from process_command_effect [OF doc lead sym this] v sym show ?thesis
    by (auto simp: reaches_def isSymbolAssignedToPartition_def)
next
  case False
  have "wk_books s' = wk_books s \<and> wk_world s' = wk_world s"
  proof (cases body)
    case (Plain t)
    then show ?thesis using run by (simp add: process_message_def parseMessage_def json_parse_def)
  next
    case (Json v)
    then show ?thesis using run False
      by (auto simp: process_message_def parseMessage_def json_parse_def prop_of_def act_def bindE_def split: sum.splits if_splits)
  qed
  then show ?thesis by (simp add: framed.refl)
qed

text \<open>A reported loss of leadership stays reported.\<close>

definition reports :: "('w, 'r) wkprog \<Rightarrow> bool" where
  "reports m \<longleftrightarrow> (\<forall>s. wk_leadershipLossReported s \<longrightarrow> wk_leadershipLossReported (snd (m s)))"

lemma reports_bind: "reports m \<Longrightarrow> (\<And>x. reports (f x)) \<Longrightarrow> reports (bindE m f)"
  unfolding reports_def bindE_def by (auto split: prod.split sum.split)

lemma reports_steps: "reports (ret x)" "reports (throw e)" "reports (liftE q)" "reports (gets g)" "reports (act a)"
    "reports reportLeadershipLost" "reports (in_world m)" "reports (in_books f)"
  by (simp_all add: reports_def act_def reportLeadershipLost_def in_world_def in_books_def split_def)

lemma reports_check: "reports (checkLeadership lead)"
  by (auto simp: reports_def checkLeadership_def in_world_def split: prod.split sum.split)

lemma reports_store: "reports (store_result redis lead tm c book result i)"
  unfolding store_result_def Let_def
  by (cases "toRecoverySnapshot i book") (auto intro!: reports_bind reports_steps reports_check)

lemma reports_process: "reports (process_message redis clock lead p n tm body)"
  unfolding process_message_def process_command_def execute_and_record_def record_command_def execute_command_def give_back_def
  by (auto intro!: reports_bind reports_steps reports_check reports_store split: option.split prod.split)

lemma reject_reported: "wk_leadershipLossReported (reject_message redis tm reason body s) = wk_leadershipLossReported s"
  by (auto simp: reject_message_def bindE_def act_def in_world_def Let_def split: prod.split sum.split)

lemma handle_reported:
  assumes "handle_message redis clock message_of lead p n tm message s = Some s'" "wk_leadershipLossReported s"
  shows "wk_leadershipLossReported s'"
proof (cases message)
  case None
  then show ?thesis using assms by (simp add: handle_message_def)
next
  case (Some body)
  obtain l s1 where l: "checkLeadership lead s = (l, s1)" by (cases "checkLeadership lead s")
  have s1: "wk_leadershipLossReported s1" using reports_check assms(2) l unfolding reports_def by (metis snd_conv)
  obtain r s2 where p: "process_message redis clock lead p n tm body s1 = (r, s2)"
    by (cases "process_message redis clock lead p n tm body s1")
  have s2: "wk_leadershipLossReported s2" using reports_process s1 p unfolding reports_def by (metis snd_conv)
  have "wk_leadershipLossReported (snd (give_back s1))" using give_back_effect(3) [of s1] by (metis prod.collapse)
  then show ?thesis using assms(1) Some l p s2
    by (auto simp: handle_message_def reject_reported split: sum.splits bool.splits if_splits)
qed

lemma handle_effect:
  assumes doc: "documented redis view" and lead: "keeps frame view lead"
    and run: "handle_message redis clock message_of lead partitionId partitionCount tm message s = Some s'"
  shows "wk_books s' = wk_books s \<and> frame (view (wk_world s)) (view (wk_world s')) \<or>
    (\<exists>body c symbol i r s2. message = Some body \<and> reaches partitionId partitionCount body (view (wk_world s)) c symbol i \<and>
       executed redis view clock tm c symbol i r s s2 \<and> wk_books s' = wk_books s2 \<and> frame (view (wk_world s2)) (view (wk_world s')) \<and>
       (wk_leadershipLossReported s2 \<longrightarrow> wk_leadershipLossReported s'))"
proof (cases message)
  case None
  then show ?thesis using run framed.refl by (simp add: handle_message_def)
next
  case (Some body)
  obtain l s1 where cl: "checkLeadership lead s = (l, s1)" by (cases "checkLeadership lead s")
  note k1 = wkeepsD [OF framed.leadership [OF lead] cl]
  show ?thesis
  proof (cases "l = Inr True")
    case False
    then have "s' = snd (give_back s1)" using run Some cl
      by (auto simp: handle_message_def split: sum.splits bool.splits)
    then show ?thesis using k1 give_back_effect [of s1 "fst (give_back s1)" s'] by simp
  next
    case True
    obtain r s2 where p: "process_message redis clock lead partitionId partitionCount tm body s1 = (r, s2)"
      by (cases "process_message redis clock lead partitionId partitionCount tm body s1")
    have e: "wk_books s' = wk_books s2" "frame (view (wk_world s2)) (view (wk_world s'))"
      "wk_leadershipLossReported s2 \<longrightarrow> wk_leadershipLossReported s'"
      using run Some cl True p keeps_reject [OF doc refl, where tm = tm and s = s2 and body = body] framed.refl
      by (auto simp: handle_message_def reject_reported split: sum.splits if_splits)
    from process_effect [OF doc lead p] show ?thesis
    proof
      assume "wk_books s2 = wk_books s1 \<and> frame (view (wk_world s1)) (view (wk_world s2))"
      then show ?thesis using e k1 framed.trans by metis
    next
      assume "\<exists>c symbol i. reaches partitionId partitionCount body (view (wk_world s1)) c symbol i \<and>
         executed redis view clock tm c symbol i r s1 s2"
      then obtain c symbol i where x: "reaches partitionId partitionCount body (view (wk_world s1)) c symbol i"
        "executed redis view clock tm c symbol i r s1 s2" by blast
      have "reaches partitionId partitionCount body (view (wk_world s)) c symbol i"
        using x(1) k1 by (simp add: reaches_def frame_def)
      moreover have "executed redis view clock tm c symbol i r s s2" by (rule frame_executed [OF x(2)]) (use k1 in simp_all)
      ultimately show ?thesis using Some e by blast
    qed
  qed
qed

lemma handleE:
  assumes "documented redis view" "keeps frame view lead"
    "handle_message redis clock message_of lead partitionId partitionCount tm message s = Some s'"
  obtains (skipped) "wk_books s' = wk_books s" "frame (view (wk_world s)) (view (wk_world s'))"
  | (ran) body c symbol i r s2 where "message = Some body" "reaches partitionId partitionCount body (view (wk_world s)) c symbol i"
      "executed redis view clock tm c symbol i r s s2" "wk_books s' = wk_books s2" "frame (view (wk_world s2)) (view (wk_world s'))"
      "wk_leadershipLossReported s2 \<longrightarrow> wk_leadershipLossReported s'"
  using handle_effect [OF assms] by blast

end
