(* ===== verification/WorkerProperties.thy ===== *)
theory WorkerProperties
  imports WorkerEffects
begin

text \<open>
  The active node as a whole: a command is logged at most once whatever fails, and on a
  reliable Redis the log, the checkpoints and the books in memory stay in step, so that a
  standby finds the books of the node that failed.
\<close>

text \<open>The messages a worker handles one after the other.\<close>

fun handle_all ::
    "'w redis \<Rightarrow> (nat \<Rightarrow> nat) \<Rightarrow> (js_error \<Rightarrow> string) \<Rightarrow> ('w, bool) rdprog \<Rightarrow> jsval \<Rightarrow> jsval \<Rightarrow>
      (Times \<times> stored option) list \<Rightarrow> 'w Worker \<Rightarrow> 'w Worker option" where
  "handle_all redis clock message_of lead p n [] s = Some s"
| "handle_all redis clock message_of lead p n ((tm, message) # ms) s =
    (case handle_message redis clock message_of lead p n tm message s of None \<Rightarrow> None
     | Some s' \<Rightarrow> handle_all redis clock message_of lead p n ms s')"

lemma handle_all_Cons:
  assumes "handle_all redis clock message_of lead p n ((tm, message) # ms) s = Some s'"
  obtains s1 where "handle_message redis clock message_of lead p n tm message s = Some s1"
    "handle_all redis clock message_of lead p n ms s1 = Some s'"
  using assms by (auto split: option.splits)

subsection \<open>Logged once\<close>

definition logged_ids :: "Store \<Rightarrow> string \<Rightarrow> stored option list" where
  "logged_ids st symbol = map (\<lambda>e. field (snd e) ''commandId'') (log_of st symbol)"

definition log_once :: "Store \<Rightarrow> string \<Rightarrow> bool" where
  "log_once st symbol \<longleftrightarrow> distinct (logged_ids st symbol) \<and>
     set (logged_ids st symbol) \<subseteq> Some ` set (st_sets st (processedCommandIdsKey (JStr symbol)))"

lemma frame_log_once: "frame a b \<Longrightarrow> log_once b k = log_once a k"
  by (simp add: frame_def log_once_def logged_ids_def)

lemma checkpointed_log_once: "checkpointed symbol t a b \<Longrightarrow> log_once b k = log_once a k"
  by (simp add: checkpointed_def log_once_def logged_ids_def)

lemma appended_log_once:
  assumes "appended symbol i fs entryId st st'" "log_once st k" "field fs ''commandId'' = Some (Plain i)"
    "Plain i \<notin> set (st_sets st (processedCommandIdsKey (JStr symbol)))"
  shows "log_once st' k"
proof (cases "k = symbol")
  case False
  then show ?thesis using assms(1,2) by (simp add: appended_def log_once_def logged_ids_def)
next
  case True
  obtain d where d: "log_of st' symbol = drop d (log_of st symbol @ [(entryId, fs)])"
    and s: "st_sets st' (processedCommandIdsKey (JStr symbol)) = List.insert (Plain i) (st_sets st (processedCommandIdsKey (JStr symbol)))"
    using assms(1) by (auto simp: appended_def)
  have l: "logged_ids st' symbol = drop d (logged_ids st symbol @ [Some (Plain i)])"
    by (simp add: logged_ids_def d drop_map [symmetric] assms(3))
  have o: "distinct (logged_ids st symbol)" "set (logged_ids st symbol) \<subseteq> Some ` set (st_sets st (processedCommandIdsKey (JStr symbol)))"
    using assms(2) True by (simp_all add: log_once_def)
  then have "Some (Plain i) \<notin> set (logged_ids st symbol)" using assms(4) by auto
  then have "distinct (logged_ids st symbol @ [Some (Plain i)])" using o(1) by simp
  then have "distinct (logged_ids st' symbol)" unfolding l by (rule distinct_drop)
  moreover have "set (logged_ids st' symbol) \<subseteq> insert (Some (Plain i)) (set (logged_ids st symbol))"
    unfolding l using set_drop_subset [of d "logged_ids st symbol @ [Some (Plain i)]"] by simp
  ultimately show ?thesis using True o(2) s by (auto simp: log_once_def)
qed

lemma executed_log_once:
  assumes doc: "documented redis view" and re: "reaches p n body (view (wk_world s)) c symbol i"
    and ex: "executed redis view clock tm c symbol i r s s'" and k: "log_once (view (wk_world s)) k"
  shows "log_once (view (wk_world s')) k"
proof -
  let ?a = "view (wk_world s)" and ?b = "view (wk_world s')"
  have c: "getp c ''symbol'' = JStr symbol" "getp c ''commandId'' = JStr i"
    and new: "Plain i \<notin> set (st_sets ?a (processedCommandIdsKey (JStr symbol)))" using re by (simp_all add: reaches_def)
  have app: "log_once b k"
    if "frame ?a a" "log_fields (tm_processedAt tm) c = Inr fs" "appended symbol i fs e a b" for a b fs e
    using appended_log_once [OF that(3)] that(1) k new frame_log_once [OF that(1)] log_fields_ids [OF that(2)]
    by (simp add: frame_def c text_arg_def)
  have append_failed_once: "log_once ?b k" if f: "append_failed redis view tm c ?a ?b"
  proof -
    obtain w w' e where w: "appendProcessedCommand redis (tm_processedAt tm) c w = (Inl e, w')" "frame ?a (view w)" "frame (view w') ?b"
      using f by (auto simp: append_failed_def)
    have "log_once (view w') k"
    proof (cases "log_fields (tm_processedAt tm) c")
      case (Inl e')
      then have "w' = w" using w(1) by (simp add: appendProcessedCommand_def)
      then show ?thesis using k frame_log_once [OF w(2)] by simp
    next
      case (Inr fs)
      have "frame (view w) (view w') \<or> (\<exists>entryId. appended symbol i fs entryId (view w) (view w'))"
        using append_effect [OF doc c(2,1) Inr w(1)] by auto
      then show ?thesis using app [OF w(2) Inr] k frame_log_once [OF w(2)] frame_log_once by auto
    qed
    then show ?thesis using frame_log_once [OF w(3)] by simp
  qed
  have rec: "log_once ?b k" if "recorded redis view tm c symbol i book ?a ?b" for book
    using that app checkpointed_log_once by (auto simp: recorded_def)
  from ex show ?thesis
  proof (cases rule: executedE)
    case refused
    then show ?thesis using k frame_log_once by simp
  next
    case lost
    then show ?thesis using k frame_log_once by simp
  next
    case failed
    then show ?thesis by (intro append_failed_once)
  next
    case done'
    then show ?thesis by (intro rec)
  qed
qed

lemma handle_all_log_once:
  assumes "documented redis view" "keeps frame view lead"
  shows "handle_all redis clock message_of lead p n ms s = Some s' \<Longrightarrow> log_once (view (wk_world s)) k \<Longrightarrow> log_once (view (wk_world s')) k"
proof (induction ms arbitrary: s)
  case (Cons m ms)
  obtain tm message where m: "m = (tm, message)" by (cases m)
  obtain s1 where s1: "handle_message redis clock message_of lead p n tm message s = Some s1"
    "handle_all redis clock message_of lead p n ms s1 = Some s'"
    using Cons.prems(1) m by (auto split: option.splits)
  have "log_once (view (wk_world s1)) k"
    using assms s1(1)
  proof (cases rule: handleE)
    case skipped
    from frame_log_once [OF skipped(2)] Cons.prems(2) show ?thesis by simp
  next
    case (ran body c symbol i r s2)
    from executed_log_once [OF assms(1) ran(2,3) Cons.prems(2)] show ?thesis using frame_log_once [OF ran(5)] by simp
  qed
  then show ?case by (rule Cons.IH [OF s1(2)])
qed simp

subsection \<open>In step with the log\<close>

text \<open>The next entry of a sound log.\<close>

lemma stands_for_good:
  assumes s: "sound_log symbol es" and b: "stands_for symbol es b" and k: "requests_cost es + k < maxCycles"
  shows "book_good k b" "book_good k (book_log.run_all (origin symbol) (requests es))"
proof -
  let ?t = "book_log.run_all (origin symbol) (requests es)"
  have "book_good (sum_list (map command_cost (requests es)) + k) (origin symbol)"
    using fresh_book_ok [of symbol "\<lambda>_. 0"] s k by (simp add: book_good_def origin_def requests_cost_def sound_log_def)
  then show g: "book_good k ?t" by (rule book_view.run_all_good) (use s in \<open>auto simp: sound_log_def\<close>)
  then show "book_good k b"
    using b view_stop_count [of b ?t] by (simp add: stands_for_def rebuilt_def book_good_def)
qed

lemma extend_log:
  assumes s: "sound_log symbol es" and b: "stands_for symbol es b" and d: "decodes symbol e"
    and ids: "\<forall>x \<in> set es. id_less (fst x) (fst e)" "id_less ''0-0'' (fst e)" "length es < 100000"
    and adm: "admissible_command (request_of e)" "requests_cost (es @ [e]) < maxCycles"
    and run: "run_command b (request_of e) = (Inr res, b')"
  shows "sound_log symbol (es @ [e]) \<and> stands_for symbol (es @ [e]) b'"
proof -
  let ?t = "book_log.run_all (origin symbol) (requests es)" and ?k = "command_cost (request_of e)"
  have cost: "requests_cost es + ?k < maxCycles" using adm(2) by (simp add: requests_cost_def)
  note g' = stands_for_good(1) [OF s b cost] and g = stands_for_good(2) [OF s b cost]
  have v: "abs_book b = abs_book ?t" using b by (simp add: stands_for_def rebuilt_def)
  have V: "abs_book (snd (run_command b (request_of e))) = abs_book (snd (run_command ?t (request_of e))) \<and>
      isl (fst (run_command b (request_of e))) = isl (fst (run_command ?t (request_of e)))"
    using book_view.view_run [of "request_of e" 0 b ?t] g g' adm(1) v by simp
  obtain q t' where q: "run_command ?t (request_of e) = (q, t')" by (cases "run_command ?t (request_of e)")
  then obtain x where rt: "run_command ?t (request_of e) = (Inr x, t')" using V run by (cases q) simp_all
  have lg: "book_log.logged (origin symbol) (requests (es @ [e])) = requests (es @ [e])"
    using s rt by (simp add: sound_log_def book_log.logged_append)
  have "sound_log symbol (es @ [e])"
    using s d ids adm lg by (simp add: sound_log_def sorted_wrt_append)
  moreover have "abs_book b' = rebuilt symbol (es @ [e])"
    using V run rt by (simp add: rebuilt_def book_log.run_all_append)
  moreover have "book_ok b'"
    using book_log.run_good [of "request_of e" 0 b] g' adm(1) run by (simp add: book_good_def)
  ultimately show ?thesis by (simp add: stands_for_def)
qed

text \<open>
  A node is in step when its books of its own partition are the books of the whole logs; its
  books of other partitions (which \<^verbatim>\<open>initialize\<close> also builds) may lag behind.
\<close>

definition in_step :: "jsval \<Rightarrow> int \<Rightarrow> (nat \<Rightarrow> nat) \<Rightarrow> Store \<Rightarrow> registry \<Rightarrow> bool" where
  "in_step p n clock st books \<longleftrightarrow> sound_store st \<and> behind clock st books \<and>
     (\<forall>symbol. assigned p n symbol \<longrightarrow> stands_for symbol (log_of st symbol) (book_of clock books symbol))"

lemma frame_known: "frame a b \<Longrightarrow> known b = known a"
  by (simp add: frame_def known_def fun_eq_iff)

lemma frame_sound_store: "frame a b \<Longrightarrow> sound_store a \<Longrightarrow> sound_store b"
  using frame_known [of a b] by (simp add: sound_store_def durable_def frame_def)

lemma frame_in_step: "frame a b \<Longrightarrow> (\<And>k. trim k \<noteq> [] \<Longrightarrow> book_of clock bs' k = book_of clock bs k) \<Longrightarrow>
    in_step p n clock a bs \<Longrightarrow> in_step p n clock b bs'"
  using frame_sound_store [of a b] assigned_nonempty by (simp add: in_step_def behind_def frame_def)

text \<open>A message the node can honour: a JSON object with distinct keys whose command is admissible.\<close>

definition message_ok :: "stored option \<Rightarrow> bool" where
  "message_ok message \<longleftrightarrow> (case message of Some (Json v) \<Rightarrow> distinct (map fst (props v)) \<and> plain_props (props v) \<and>
     stop_request_ok (getp (props v) ''type'') (getp (props v) ''payload'') | _ \<Rightarrow> True)"

definition message_cost :: "stored option \<Rightarrow> nat" where
  "message_cost message = (case message of Some (Json v) \<Rightarrow> stop_cost (getp (props v) ''type'') | _ \<Rightarrow> 0)"

text \<open>The log of a symbol has room for a number of entries and of stop orders.\<close>

definition room :: "nat \<Rightarrow> nat \<Rightarrow> Store \<Rightarrow> bool" where
  "room m k st \<longleftrightarrow> (\<forall>symbol. length (log_of st symbol) + m < maxCommandsPerSymbol \<and>
     requests_cost (log_of st symbol) + k < maxCycles)"

lemma distinct_setp: "distinct (map fst ps) \<Longrightarrow> distinct (map fst (setp ps k v))"
proof (induction ps k v rule: setp.induct)
  case (2 j w ps k v)
  then show ?case using keys_setp [of ps k v] by auto
qed simp

text \<open>What the log entry of a command is read back as.\<close>

lemma logged_entry:
  assumes fs: "log_fields now c = Inr fs" and c: "getp c ''symbol'' = JStr symbol" "distinct (map fst c)" "plain_props c"
  shows "decodes symbol (entryId, fs)" "request_of (entryId, fs) = (getp c ''type'', getp c ''payload'')"
proof -
  let ?c = "setp c ''processedAt'' (JInt (int now))"
  have f: "field fs ''command'' = Some (Json (JObj (clean_props ?c)))"
    using fs by (auto simp: log_fields_def seqE_eq_Inr field_def json_text_def clean_props_def)
  have d: "distinct (map fst ?c)" by (rule distinct_setp [OF c(2)])
  have p: "plain_props ?c" using c(3) by (simp add: plain_setp)
  have e: "log_entry (entryId, fs) = Inr \<lparr> le_id = entryId, le_command = JObj (clean_props ?c) \<rparr>"
    by (simp add: log_entry_def f json_parse_def)
  have g: "getp (clean_props ?c) k = getp c k" if "k \<noteq> ''processedAt''" for k
    using plain_getp_clean [OF d p, of k] that by (simp add: getp_setp)
  show "decodes symbol (entryId, fs)" using c(1) g by (simp add: decodes_def entry_command_def e)
  show "request_of (entryId, fs) = (getp c ''type'', getp c ''payload'')"
    using g by (simp add: request_of_def entry_command_def e)
qed

lemma append_succeeds:
  assumes "reliable redis" "log_fields now c = Inr fs" "getp c ''commandId'' = JStr i" "getp c ''symbol'' = JStr symbol"
  shows "\<exists>v w'. appendProcessedCommand redis now c w = (Inr v, w')"
proof -
  obtain rs w' where "redis (log_calls symbol i fs) w = (Inr rs, w')" using assms(1) unfolding reliable_def by blast
  then show ?thesis using assms(2-4) by (simp add: appendProcessedCommand_def text_arg_def bindE_def)
qed

lemma append_not_failed:
  assumes "reliable redis" "append_failed redis view tm c st st'" "executeOrderCommand clock c bs = (Inr res, bs')"
    "getp c ''commandId'' = JStr i" "getp c ''symbol'' = JStr symbol"
  shows False
proof -
  obtain ty where "getp c ''type'' = JStr ty" using executed_type [OF assms(3)] by blast
  then obtain fs where "log_fields (tm_processedAt tm) c = Inr fs"
    using assms(4,5) by (simp add: log_fields_def text_arg_def)
  from append_succeeds [OF assms(1) this assms(4,5)] assms(2) show False
    unfolding append_failed_def by (metis Pair_inject sum.distinct(1))
qed

text \<open>The new checkpoint is the book of the whole log.\<close>

lemma new_checkpoint:
  assumes b: "stands_for symbol es b" and ne: "es \<noteq> []" "fst (last es) = entryId"
    and t: "\<And>snap. toRecoverySnapshot (JStr entryId) b = Some snap \<Longrightarrow> t = json_text (JObj snap)"
  shows "sound_checkpoint symbol es (Some (t, None))"
proof -
  have ok: "book_ok b" and v: "abs_book b = rebuilt symbol es" using b by (simp_all add: stands_for_def)
  have lk: "links_ok b" using ok by (simp add: book_ok_def)
  obtain snap where sn: "toRecoverySnapshot (JStr entryId) b = Some snap" using toRecoverySnapshot_eq [OF lk] by blast
  have "getp (clean_props snap) ''lastCommandStreamId'' = JStr entryId"
    using sn unfolding toRecoverySnapshot_eq [OF lk] by (auto simp: clean_props_def)
  moreover have "\<exists>b'. fromRecoverySnapshot clock (json_clean (JObj snap)) = Inr b' \<and> stands_for symbol es b'" for clock
    using restore_book [OF ok, of "JStr entryId" clock] sn v by (metis option.inject stands_for_def)
  ultimately show ?thesis
    using t [OF sn] ne unfolding sound_checkpoint_def json_text_def json_clean_obj
    by (intro disjI2 exI [of _ "JObj (clean_props snap)"] exI [of _ es] exI [of _ "[]"]) (simp add: truthy_def)
qed

lemma old_checkpoint: "sound_checkpoint symbol es x \<Longrightarrow> sound_checkpoint symbol (es @ zs) x"
  unfolding sound_checkpoint_def by (metis append_assoc)

lemma recorded_log:
  assumes r: "recorded redis view tm c symbol i b st st'" and rm: "length (log_of st symbol) + 1 < maxCommandsPerSymbol"
  obtains fs entryId where "log_fields (tm_processedAt tm) c = Inr fs" "log_of st' symbol = log_of st symbol @ [(entryId, fs)]"
    "\<forall>x \<in> set (log_of st symbol). id_less (fst x) entryId" "id_less ''0-0'' entryId"
    "\<forall>k. k \<noteq> symbol \<longrightarrow> log_of st' k = log_of st k"
    "\<forall>k. k \<noteq> symbol \<longrightarrow> st_texts st' (recoverySnapshotKey (JStr k)) = st_texts st (recoverySnapshotKey (JStr k))"
    "st_texts st' (recoverySnapshotKey (JStr symbol)) = st_texts st (recoverySnapshotKey (JStr symbol)) \<or>
     (\<exists>t. st_texts st' (recoverySnapshotKey (JStr symbol)) = Some (t, None) \<and>
       (\<forall>snap. toRecoverySnapshot (JStr entryId) b = Some snap \<longrightarrow> t = json_text (JObj snap)))"
    "st_sets st' command_symbols_key = List.insert (Plain symbol) (st_sets st command_symbols_key)"
proof -
  obtain fs entryId x y t where a: "log_fields (tm_processedAt tm) c = Inr fs" "frame st x" "appended symbol i fs entryId x y"
    "checkpointed symbol t y st'" "\<forall>snap. toRecoverySnapshot (JStr entryId) b = Some snap \<longrightarrow> t = json_text (JObj snap)"
    using r by (auto simp: recorded_def)
  have x: "log_of x k = log_of st k" "st_texts x (recoverySnapshotKey (JStr k)) = st_texts st (recoverySnapshotKey (JStr k))"
    "st_sets x command_symbols_key = st_sets st command_symbols_key" for k
    using a(2) by (simp_all add: frame_def)
  have y: "st_texts y (recoverySnapshotKey (JStr k)) = st_texts x (recoverySnapshotKey (JStr k))"
    "k \<noteq> symbol \<Longrightarrow> log_of y k = log_of x k" "id_less ''0-0'' entryId" "\<forall>e \<in> set (log_of x symbol). id_less (fst e) entryId"
    "st_sets y command_symbols_key = List.insert (Plain symbol) (st_sets x command_symbols_key)" for k
    using a(3) by (simp_all add: appended_def)
  have z: "log_of st' k = log_of y k" "k \<noteq> symbol \<Longrightarrow> st_texts st' (recoverySnapshotKey (JStr k)) = st_texts y (recoverySnapshotKey (JStr k))"
    "st_texts st' (recoverySnapshotKey (JStr symbol)) = st_texts y (recoverySnapshotKey (JStr symbol)) \<or>
     st_texts st' (recoverySnapshotKey (JStr symbol)) = Some (t, None)" "st_sets st' command_symbols_key = st_sets y command_symbols_key" for k
    using a(4) unfolding checkpointed_def by blast+
  obtain d where d: "d = 0 \<or> d + maxCommandsPerSymbol \<le> Suc (length (log_of x symbol))"
    "log_of y symbol = drop d (log_of x symbol @ [(entryId, fs)])" using a(3) unfolding appended_def by blast
  have "d = 0" using d(1) rm x(1) by simp
  then have l: "log_of st' symbol = log_of st symbol @ [(entryId, fs)]" using d(2) x(1) z(1) by simp
  show ?thesis
  proof (rule that [OF a(1) l])
    show "st_texts st' (recoverySnapshotKey (JStr symbol)) = st_texts st (recoverySnapshotKey (JStr symbol)) \<or>
     (\<exists>t. st_texts st' (recoverySnapshotKey (JStr symbol)) = Some (t, None) \<and>
       (\<forall>snap. toRecoverySnapshot (JStr entryId) b = Some snap \<longrightarrow> t = json_text (JObj snap)))"
      using z(3) a(5) y(1) x(2) by metis
  qed (use x y z in simp_all)
qed

lemma executed_books:
  assumes "trim symbol \<noteq> []" "getp c ''symbol'' = JStr symbol" "executeOrderCommand clock c bs = (x, bs')"
  shows "run_command (book_of clock bs symbol) (getp c ''type'', getp c ''payload'') = (x, book_of clock bs' symbol)"
    "k \<noteq> symbol \<Longrightarrow> book_of clock bs' k = book_of clock bs k"
  using assms(3) executeOrderCommand_eq [OF assms(1,2), of clock bs]
  by (auto simp: run_command_def book_of_def map_get_set split: prod.splits)

text \<open>One executed message keeps the node in step, or the node has reported that it lost the lead.\<close>

lemma executed_in_step:
  assumes rel: "reliable redis" and st: "in_step p n clock (view (wk_world s)) (wk_books s)"
    and ok: "message_ok (Some body)" and rm: "room 1 (message_cost (Some body)) (view (wk_world s))"
    and re: "reaches p (JInt n) body (view (wk_world s)) c symbol i" and ex: "executed redis view clock tm c symbol i r s s'"
  shows "in_step p n clock (view (wk_world s')) (wk_books s') \<or>
    sound_store (view (wk_world s')) \<and> wk_leadershipLossReported s'"
proof -
  let ?a = "view (wk_world s)" and ?b = "view (wk_world s')" and ?book = "book_of clock (wk_books s) symbol"
  have c: "getp c ''symbol'' = JStr symbol" "trim symbol \<noteq> []" "getp c ''commandId'' = JStr i"
    using re by (simp_all add: reaches_def)
  have own: "assigned p n symbol" using re by (simp add: reaches_def assigned_def)
  obtain v where v: "body = Json v" "c = props v" using re by (auto simp: reaches_def)
  let ?rq = "(getp c ''type'', getp c ''payload'')"
  have m: "distinct (map fst c)" "plain_props c" "admissible_command ?rq" "message_cost (Some body) = command_cost ?rq"
    using ok v by (simp_all add: message_ok_def admissible_command_def message_cost_def command_cost_def)
  have es: "sound_log symbol (log_of ?a symbol)" "stands_for symbol (log_of ?a symbol) ?book"
    using st c(2) own by (simp_all add: in_step_def sound_store_def durable_def)
  have rm': "length (log_of ?a symbol) + 1 < maxCommandsPerSymbol" "requests_cost (log_of ?a symbol) + command_cost ?rq < maxCycles"
    using rm m(4) by (simp_all add: room_def)
  from ex show ?thesis
  proof (cases rule: executedE)
    case (refused e)
    note X = executed_books [OF c(2,1) refused(1)]
    have "book_good (command_cost ?rq + 0) ?book"
      using stands_for_good(1) [OF es rm'(2)] by simp
    from book_log.run_fail [OF this m(3) X(1)] X(2) have "book_of clock (wk_books s') k = book_of clock (wk_books s) k" for k
      by (cases "k = symbol") simp_all
    then show ?thesis using frame_in_step [OF refused(2) _ st] by simp
  next
    case lost
    then show ?thesis using frame_sound_store st by (simp add: in_step_def)
  next
    case (failed res)
    then show ?thesis using append_not_failed [OF rel _ _ c(3,1)] by blast
  next
    case (done' res)
    note X = executed_books [OF c(2,1) done'(1)]
    let ?book' = "book_of clock (wk_books s') symbol"
    obtain fs entryId where L: "log_fields (tm_processedAt tm) c = Inr fs" "log_of ?b symbol = log_of ?a symbol @ [(entryId, fs)]"
      "\<forall>x \<in> set (log_of ?a symbol). id_less (fst x) entryId" "id_less ''0-0'' entryId"
      "\<forall>k. k \<noteq> symbol \<longrightarrow> log_of ?b k = log_of ?a k"
      "\<forall>k. k \<noteq> symbol \<longrightarrow> st_texts ?b (recoverySnapshotKey (JStr k)) = st_texts ?a (recoverySnapshotKey (JStr k))"
      "st_texts ?b (recoverySnapshotKey (JStr symbol)) = st_texts ?a (recoverySnapshotKey (JStr symbol)) \<or>
       (\<exists>t. st_texts ?b (recoverySnapshotKey (JStr symbol)) = Some (t, None) \<and>
         (\<forall>snap. toRecoverySnapshot (JStr entryId) ?book' = Some snap \<longrightarrow> t = json_text (JObj snap)))"
      "st_sets ?b command_symbols_key = List.insert (Plain symbol) (st_sets ?a command_symbols_key)"
      by (rule recorded_log [OF done'(2) rm'(1)])
    let ?e = "(entryId, fs)"
    note D = logged_entry [OF L(1) c(1) m(1,2), of entryId]
    have len: "length (log_of ?a symbol) < 100000" using rm'(1) by (simp add: maxCommandsPerSymbol_def)
    have E: "sound_log symbol (log_of ?b symbol) \<and> stands_for symbol (log_of ?b symbol) ?book'"
      unfolding L(2)
      by (rule extend_log [OF es D(1)]) (use L(3,4) len m(3) rm'(2) X(1) D(2) in \<open>simp_all add: requests_cost_def\<close>)
    have old: "sound_checkpoint symbol (log_of ?a symbol) (st_texts ?a (recoverySnapshotKey (JStr symbol)))"
      using st c(2) by (simp add: in_step_def sound_store_def durable_def)
    have cp: "sound_checkpoint symbol (log_of ?b symbol) (st_texts ?b (recoverySnapshotKey (JStr symbol)))"
      using L(7)
    proof
      assume "st_texts ?b (recoverySnapshotKey (JStr symbol)) = st_texts ?a (recoverySnapshotKey (JStr symbol))"
      then show ?thesis using old_checkpoint [OF old] L(2) by simp
    next
      assume "\<exists>t. st_texts ?b (recoverySnapshotKey (JStr symbol)) = Some (t, None) \<and>
         (\<forall>snap. toRecoverySnapshot (JStr entryId) ?book' = Some snap \<longrightarrow> t = json_text (JObj snap))"
      then obtain t where t: "st_texts ?b (recoverySnapshotKey (JStr symbol)) = Some (t, None)"
        "\<forall>snap. toRecoverySnapshot (JStr entryId) ?book' = Some snap \<longrightarrow> t = json_text (JObj snap)" by blast
      show ?thesis unfolding t(1) by (rule new_checkpoint [where entryId = entryId]) (use E L(2) t(2) in auto)
    qed
    have kn: "known ?b k \<longleftrightarrow> k = symbol \<or> known ?a k" for k by (auto simp: known_def L(8))
    have "durable ?b k \<and> (known ?b k \<or> log_of ?b k = [])" if "trim k \<noteq> []" for k
      using st that E cp L(5,6) kn by (cases "k = symbol") (simp_all add: in_step_def sound_store_def durable_def)
    then have "sound_store ?b" using st c(2) by (auto simp: in_step_def sound_store_def L(8))
    moreover have "\<exists>es zs. log_of ?b k = es @ zs \<and> stands_for k es (book_of clock (wk_books s') k)" if "trim k \<noteq> []" for k
    proof (cases "k = symbol")
      case True
      then show ?thesis using E by (metis append_Nil2)
    next
      case False
      then show ?thesis using st that L(5) X(2) by (simp add: in_step_def behind_def)
    qed
    moreover have "stands_for k (log_of ?b k) (book_of clock (wk_books s') k)" if "assigned p n k" for k
      using st that E L(5) X(2) by (cases "k = symbol") (simp_all add: in_step_def)
    ultimately show ?thesis by (simp add: in_step_def behind_def)
  qed
qed

subsection \<open>The log grows by what is executed\<close>

definition grows :: "nat \<Rightarrow> nat \<Rightarrow> Store \<Rightarrow> Store \<Rightarrow> bool" where
  "grows m k st st' \<longleftrightarrow> store_grows st st' \<and> (\<forall>symbol. length (log_of st' symbol) \<le> length (log_of st symbol) + m \<and>
     requests_cost (log_of st' symbol) \<le> requests_cost (log_of st symbol) + k)"

lemma frame_grows: "frame a b \<Longrightarrow> grows m k a b"
  by (simp add: frame_def grows_def store_grows_def known_def)

lemma store_grows_trans:
  assumes "store_grows a b" "store_grows b c"
  shows "store_grows a c"
  unfolding store_grows_def
proof (intro allI conjI impI)
  fix symbol
  show "known c symbol" if "known a symbol" using assms that by (simp add: store_grows_def)
  obtain ys zs where "log_of b symbol = log_of a symbol @ ys" "log_of c symbol = log_of b symbol @ zs"
    using assms unfolding store_grows_def by blast
  then show "\<exists>zs. log_of c symbol = log_of a symbol @ zs" by simp
qed

lemma grows_trans:
  assumes "grows m k a b" "grows m' k' b c"
  shows "grows (m + m') (k + k') a c"
proof -
  have "length (log_of c s) \<le> length (log_of a s) + (m + m') \<and> requests_cost (log_of c s) \<le> requests_cost (log_of a s) + (k + k')" for s
    using assms [unfolded grows_def, THEN conjunct2, THEN spec, of s] by linarith
  then show ?thesis using assms store_grows_trans by (auto simp: grows_def)
qed

lemma grows_frame: "grows m k a b \<Longrightarrow> frame b c \<Longrightarrow> grows m k a c"
  using grows_trans [of m k a b 0 0 c] frame_grows [of b c 0 0] by simp

lemma grows_room:
  assumes "grows m k a b" "room (m + m') (k + k') a"
  shows "room m' k' b"
  unfolding room_def
proof
  fix s
  show "length (log_of b s) + m' < maxCommandsPerSymbol \<and> requests_cost (log_of b s) + k' < maxCycles"
    using assms(1) [unfolded grows_def, THEN conjunct2, THEN spec, of s] assms(2) [unfolded room_def, THEN spec, of s] by linarith
qed

lemma room_less: "room (m + m') (k + k') a \<Longrightarrow> room m k a"
  unfolding room_def by (metis add.assoc add_lessD1)

lemma executed_grows:
  assumes rel: "reliable redis" and ok: "message_ok (Some body)" and rm: "room 1 (message_cost (Some body)) (view (wk_world s))"
    and re: "reaches p (JInt n) body (view (wk_world s)) c symbol i" and ex: "executed redis view clock tm c symbol i r s s'"
  shows "grows 1 (message_cost (Some body)) (view (wk_world s)) (view (wk_world s'))"
    "\<not> assigned p n k \<Longrightarrow> log_of (view (wk_world s')) k = log_of (view (wk_world s)) k"
proof -
  let ?a = "view (wk_world s)" and ?b = "view (wk_world s')"
  have c: "getp c ''symbol'' = JStr symbol" "getp c ''commandId'' = JStr i" using re by (simp_all add: reaches_def)
  obtain v where v: "body = Json v" "c = props v" using re by (auto simp: reaches_def)
  have m: "distinct (map fst c)" "plain_props c" "message_cost (Some body) = command_cost (getp c ''type'', getp c ''payload'')"
    using ok v by (simp_all add: message_ok_def message_cost_def command_cost_def)
  have own: "assigned p n symbol" using re by (simp add: reaches_def assigned_def)
  from ex have "grows 1 (message_cost (Some body)) ?a ?b \<and> (\<not> assigned p n k \<longrightarrow> log_of ?b k = log_of ?a k)"
  proof (cases rule: executedE)
    case (failed res)
    then show ?thesis using append_not_failed [OF rel _ _ c(2,1)] by blast
  next
    case (done' res)
    have "length (log_of ?a symbol) + 1 < maxCommandsPerSymbol" using rm by (simp add: room_def)
    from recorded_log [OF done'(2) this] obtain fs entryId where L: "log_fields (tm_processedAt tm) c = Inr fs"
      "log_of ?b symbol = log_of ?a symbol @ [(entryId, fs)]" "\<forall>k. k \<noteq> symbol \<longrightarrow> log_of ?b k = log_of ?a k"
      "st_sets ?b command_symbols_key = List.insert (Plain symbol) (st_sets ?a command_symbols_key)" by metis
    have "request_of (entryId, fs) = (getp c ''type'', getp c ''payload'')" by (rule logged_entry(2) [OF L(1) c(1) m(1,2)])
    then have "length (log_of ?b k) \<le> length (log_of ?a k) + 1 \<and> requests_cost (log_of ?b k) \<le> requests_cost (log_of ?a k) + message_cost (Some body)" for k
      using L(2,3) m(3) by (cases "k = symbol") (simp_all add: requests_cost_def)
    moreover have "store_grows ?a ?b" using L(2-4) by (auto simp: store_grows_def known_def)
    moreover have "\<not> assigned p n k \<longrightarrow> log_of ?b k = log_of ?a k" using L(3) [rule_format, of k] own by (cases "k = symbol") simp_all
    ultimately show ?thesis by (simp add: grows_def)
  qed (simp_all add: frame_grows, simp_all add: frame_def)
  then show "grows 1 (message_cost (Some body)) ?a ?b" "\<not> assigned p n k \<Longrightarrow> log_of ?b k = log_of ?a k" by blast+
qed

subsection \<open>Runs\<close>

lemma handle_in_step:
  assumes doc: "documented redis view" "reliable redis" "keeps frame view lead"
    and run: "handle_message redis clock message_of lead p (JInt n) tm message s = Some s'"
    and ok: "message_ok message" "room 1 (message_cost message) (view (wk_world s))"
  shows "grows 1 (message_cost message) (view (wk_world s)) (view (wk_world s'))"
    "\<not> assigned p n k \<Longrightarrow> log_of (view (wk_world s')) k = log_of (view (wk_world s)) k"
    "in_step p n clock (view (wk_world s)) (wk_books s) \<Longrightarrow> in_step p n clock (view (wk_world s')) (wk_books s') \<or>
       sound_store (view (wk_world s')) \<and> wk_leadershipLossReported s'"
proof -
  let ?a = "view (wk_world s)" and ?b = "view (wk_world s')"
  have "grows 1 (message_cost message) ?a ?b \<and> (\<not> assigned p n k \<longrightarrow> log_of ?b k = log_of ?a k) \<and>
      (in_step p n clock ?a (wk_books s) \<longrightarrow> in_step p n clock ?b (wk_books s') \<or> sound_store ?b \<and> wk_leadershipLossReported s')"
    using doc(1,3) run
  proof (cases rule: handleE)
    case skipped
    moreover have "log_of ?b k = log_of ?a k" using skipped(2) by (simp add: frame_def)
    ultimately show ?thesis using frame_grows frame_in_step by metis
  next
    case (ran body c symbol i r s2)
    note M = ok [unfolded ran(1)]
    note G = executed_grows [OF doc(2) M ran(2,3)]
    have l: "log_of ?b k = log_of (view (wk_world s2)) k" using ran(5) by (simp add: frame_def)
    have g: "grows 1 (message_cost message) ?a ?b" using grows_frame [OF G(1) ran(5)] ran(1) by simp
    have "in_step p n clock (view (wk_world s2)) (wk_books s2) \<or> sound_store (view (wk_world s2)) \<and> wk_leadershipLossReported s2"
      if "in_step p n clock ?a (wk_books s)"
      by (rule executed_in_step [OF doc(2) that M ran(2,3)])
    then show ?thesis using g G(2) l frame_in_step [OF ran(5), of clock "wk_books s2" "wk_books s2" p n]
        frame_sound_store [OF ran(5)] ran(4,6) by auto
  qed
  then show "grows 1 (message_cost message) ?a ?b" "\<not> assigned p n k \<Longrightarrow> log_of ?b k = log_of ?a k"
    "in_step p n clock ?a (wk_books s) \<Longrightarrow> in_step p n clock ?b (wk_books s') \<or> sound_store ?b \<and> wk_leadershipLossReported s'"
    by blast+
qed

definition messages_cost :: "(Times \<times> stored option) list \<Rightarrow> nat" where
  "messages_cost ms = sum_list (map (\<lambda>m. message_cost (snd m)) ms)"

lemma handle_all_in_step:
  assumes doc: "documented redis view" "reliable redis" "keeps frame view lead"
  shows "handle_all redis clock message_of lead p (JInt n) ms s = Some s' \<Longrightarrow> list_all (\<lambda>m. message_ok (snd m)) ms \<Longrightarrow>
    room (length ms) (messages_cost ms) (view (wk_world s)) \<Longrightarrow>
    in_step p n clock (view (wk_world s)) (wk_books s) \<or> wk_leadershipLossReported s \<Longrightarrow>
    grows (length ms) (messages_cost ms) (view (wk_world s)) (view (wk_world s')) \<and>
    (in_step p n clock (view (wk_world s')) (wk_books s') \<or> wk_leadershipLossReported s')"
proof (induction ms arbitrary: s)
  case Nil
  then show ?case using frame_grows [OF framed.refl] by simp
next
  case (Cons m ms)
  obtain tm message where m: "m = (tm, message)" by (cases m)
  obtain s1 where s1: "handle_message redis clock message_of lead p (JInt n) tm message s = Some s1"
    "handle_all redis clock message_of lead p (JInt n) ms s1 = Some s'"
    using Cons.prems(1) m by (auto split: option.splits)
  have rm: "room (1 + length ms) (message_cost message + messages_cost ms) (view (wk_world s))"
    using Cons.prems(3) m by (simp add: messages_cost_def)
  have r1: "room 1 (message_cost message) (view (wk_world s))" by (rule room_less [OF rm])
  have ok: "message_ok message" using Cons.prems(2) m by simp
  note H = handle_in_step [OF doc s1(1) ok r1]
  have "in_step p n clock (view (wk_world s1)) (wk_books s1) \<or> wk_leadershipLossReported s1"
    using Cons.prems(4) H(3) handle_reported [OF s1(1)] by blast
  then show ?case
    using Cons.IH [OF s1(2) _ grows_room [OF H(1) rm]] Cons.prems(2) grows_trans [OF H(1)] m by (auto simp: messages_cost_def)
qed

subsection \<open>The handler returns\<close>

definition books_good :: "(nat \<Rightarrow> nat) \<Rightarrow> nat \<Rightarrow> registry \<Rightarrow> bool" where
  "books_good clock k books \<longleftrightarrow> (\<forall>symbol. trim symbol \<noteq> [] \<longrightarrow> book_good k (book_of clock books symbol))"

lemma in_step_good:
  assumes "in_step p n clock st books" "room m k st"
  shows "books_good clock k books"
  unfolding books_good_def
proof (intro allI impI)
  fix symbol assume t: "trim symbol \<noteq> []"
  obtain es zs where e: "log_of st symbol = es @ zs" "stands_for symbol es (book_of clock books symbol)"
    using assms(1) t unfolding in_step_def behind_def by blast
  have "sound_log symbol (es @ zs)" using assms(1) t by (simp add: in_step_def sound_store_def durable_def flip: e(1))
  then have "sound_log symbol es" by (rule sound_prefix)
  moreover have "requests_cost es + k < maxCycles" using assms(2) e(1) unfolding room_def by (metis add_lessD1 add.commute add.left_commute requests_cost_append)
  ultimately show "book_good k (book_of clock books symbol)" using stands_for_good(1) e(2) by blast
qed

lemma executed_good:
  assumes g: "books_good clock (command_cost (getp c ''type'', getp c ''payload'') + k) bs" and c: "trim symbol \<noteq> []" "getp c ''symbol'' = JStr symbol"
    and a: "admissible_command (getp c ''type'', getp c ''payload'')" and ex: "executeOrderCommand clock c bs = (x, bs')"
  shows "books_good clock k bs'"
  unfolding books_good_def
proof (intro allI impI)
  fix t assume t: "trim t \<noteq> []"
  note X = executed_books [OF c ex]
  show "book_good k (book_of clock bs' t)"
  proof (cases "t = symbol")
    case True
    then show ?thesis using book_log.step_good [of "(getp c ''type'', getp c ''payload'')" k "book_of clock bs symbol"] g a c(1) X(1)
      by (simp add: books_good_def)
  next
    case False
    then show ?thesis
      using g t X(2) book_log.good_less [of "command_cost (getp c ''type'', getp c ''payload'')" k] by (simp add: books_good_def)
  qed
qed

lemma store_result_returns:
  assumes "links_ok book" "store_result redis lead tm c book result i s = (Inr b, s')"
  shows b
proof -
  obtain snap where "toRecoverySnapshot i book = Some snap" using toRecoverySnapshot_eq [OF assms(1)] by blast
  then show ?thesis using assms(2) by (auto simp: store_result_def Let_def bindE_eq_Inr)
qed

lemma execute_and_record_returns:
  assumes g: "books_good clock (command_cost (getp c ''type'', getp c ''payload'')) (wk_books s)" and c: "trim symbol \<noteq> []" "getp c ''symbol'' = JStr symbol"
    and a: "admissible_command (getp c ''type'', getp c ''payload'')" and run: "execute_and_record redis clock lead tm c s = (Inr b, s')"
  shows b
proof -
  obtain x bs where ex: "executeOrderCommand clock c (wk_books s) = (x, bs)" by (cases "executeOrderCommand clock c (wk_books s)")
  note ec = execute_command_effect [OF c ex]
  obtain book res s1 where s1: "execute_command clock c s = (Inr (book, res), s1)" and
    r: "bindE (checkLeadership lead) (\<lambda>leader. if \<not> leader then give_back else record_command redis lead tm c book res) s1 = (Inr b, s')"
    using run by (auto simp: execute_and_record_def bindE_eq_Inr)
  have "book = book_of clock bs symbol" using ec s1 by (cases x) simp_all
  moreover have "books_good clock 0 bs" using executed_good [OF _ c a ex, of 0] g by simp
  ultimately have lk: "links_ok book" using c(1) by (simp add: books_good_def book_good_def book_ok_def)
  obtain leader s2 where r2: "(if \<not> leader then give_back else record_command redis lead tm c book res) s2 = (Inr b, s')"
    using r by (auto simp: bindE_eq_Inr)
  show ?thesis
  proof (cases leader)
    case True
    then show ?thesis using r2 store_result_returns [OF lk] by (auto simp: record_command_def bindE_eq_Inr)
  next
    case False
    then show ?thesis using r2 give_back_effect(4) by fastforce
  qed
qed

lemma process_returns:
  assumes g: "books_good clock (message_cost (Some body)) (wk_books s)" and ok: "message_ok (Some body)"
    and run: "process_message redis clock lead p n tm body s = (Inr b, s')"
  shows b
proof -
  obtain v where v: "body = Json v" using run by (cases body) (auto simp: process_message_def parseMessage_def json_parse_def)
  let ?c = "props v"
  obtain sym pid where q: "prop_of v ''symbol'' = Inr sym" "getPartitionId sym n = Inr pid"
    and r: "(if JInt pid \<noteq> p then bindE (act (Nack False)) (\<lambda>_. ret True) else process_command redis clock lead tm ?c) s = (Inr b, s')"
    using run v by (auto simp: process_message_def parseMessage_def json_parse_def split: sum.splits)
  have sym: "sym = getp ?c ''symbol''" using q(1) by (simp add: prop_of_def split: if_splits)
  have "nonEmptyString sym" using q(2) by (auto simp: getPartitionId_Inr hashSymbol_def split: if_splits)
  then obtain symbol where s: "getp ?c ''symbol'' = JStr symbol" "trim symbol \<noteq> []" using sym by (auto simp: nonEmptyString_iff)
  show ?thesis
  proof (cases "JInt pid = p")
    case False
    then show ?thesis using r by (simp add: act_def)
  next
    case True
    obtain al s1 where ip: "in_world (isCommandProcessed redis (getp ?c ''symbol'') (getp ?c ''commandId'')) s = (Inr al, s1)"
      and r1: "(if al then bindE (in_world (updateCommandStatus redis (tm_updatedAt tm) ?c PROCESSED JNull)) (\<lambda>_. bindE (act Ack) (\<lambda>_. ret True))
         else execute_and_record redis clock lead tm ?c) s1 = (Inr b, s')"
      using r True by (auto simp: process_command_def bindE_eq_Inr)
    have "wk_books s1 = wk_books s" using ip by (auto simp: in_world_def split: prod.splits)
    then have g1: "books_good clock (command_cost (getp ?c ''type'', getp ?c ''payload'')) (wk_books s1)"
      using g v by (simp add: message_cost_def command_cost_def)
    have a: "admissible_command (getp ?c ''type'', getp ?c ''payload'')" using ok v by (simp add: message_ok_def admissible_command_def)
    show ?thesis
    proof (cases al)
      case True
      then show ?thesis using r1 by (auto simp: bindE_eq_Inr)
    next
      case False
      then show ?thesis using r1 execute_and_record_returns [OF g1 s(2,1) a] by simp
    qed
  qed
qed

lemma handle_returns:
  assumes lead: "keeps frame view lead" and g: "books_good clock (message_cost message) (wk_books s)" and ok: "message_ok message"
  shows "\<exists>s'. handle_message redis clock message_of lead p n tm message s = Some s'"
proof (cases message)
  case None
  then show ?thesis by (simp add: handle_message_def)
next
  case (Some body)
  obtain l s1 where l: "checkLeadership lead s = (l, s1)" by (cases "checkLeadership lead s")
  have b: "wk_books s1 = wk_books s" using wkeepsD [OF framed.leadership [OF lead] l] by simp
  obtain r s2 where p: "process_message redis clock lead p n tm body s1 = (r, s2)"
    by (cases "process_message redis clock lead p n tm body s1")
  have "\<forall>x. r = Inr x \<longrightarrow> x"
    using process_returns [OF _ ok [unfolded Some], of clock s1 redis lead p n tm _ s2] g p b Some by auto
  then show ?thesis by (auto simp: handle_message_def Some l p split: sum.split bool.split)
qed

lemma handle_books_good:
  assumes doc: "documented redis view" and lead: "keeps frame view lead"
    and run: "handle_message redis clock message_of lead p n tm message s = Some s'"
    and g: "books_good clock (message_cost message + k) (wk_books s)" and ok: "message_ok message"
  shows "books_good clock k (wk_books s')"
  using doc lead run
proof (cases rule: handleE)
  case skipped
  then show ?thesis using g book_log.good_less [of "message_cost message" k] by (simp add: books_good_def)
next
  case (ran body c symbol i r s2)
  obtain v where v: "body = Json v" "c = props v" using ran(2) by (auto simp: reaches_def)
  have c: "trim symbol \<noteq> []" "getp c ''symbol'' = JStr symbol" using ran(2) by (simp_all add: reaches_def)
  have a: "admissible_command (getp c ''type'', getp c ''payload'')" "message_cost message = command_cost (getp c ''type'', getp c ''payload'')"
    using ok v ran(1) by (simp_all add: message_ok_def admissible_command_def message_cost_def command_cost_def)
  obtain x where "executeOrderCommand clock c (wk_books s) = (x, wk_books s2)" using ran(3) by (auto simp: executed_def)
  from executed_good [OF _ c a(1) this] show ?thesis using g a(2) ran(4) by simp
qed

lemma handle_all_returns:
  assumes doc: "documented redis view" and lead: "keeps frame view lead"
  shows "books_good clock (messages_cost ms) (wk_books s) \<Longrightarrow> list_all (\<lambda>m. message_ok (snd m)) ms \<Longrightarrow>
    \<exists>s'. handle_all redis clock message_of lead p n ms s = Some s'"
proof (induction ms arbitrary: s)
  case (Cons m ms)
  obtain tm message where m: "m = (tm, message)" by (cases m)
  have g: "books_good clock (message_cost message + messages_cost ms) (wk_books s)" and ok: "message_ok message"
    using Cons.prems m by (simp_all add: messages_cost_def)
  have "books_good clock (message_cost message) (wk_books s)"
    using g book_log.good_less [of "messages_cost ms" "message_cost message"] by (simp add: books_good_def add.commute)
  from handle_returns [OF lead this ok] obtain s1 where s1: "handle_message redis clock message_of lead p n tm message s = Some s1" by blast
  from Cons.IH [OF handle_books_good [OF doc lead s1 g ok]] show ?case using Cons.prems(2) m s1 by simp
qed simp

text \<open>A node that leads throughout does not report that it lost the lead.\<close>

definition calm :: "'w Worker \<Rightarrow> bool" where
  "calm s \<longleftrightarrow> \<not> wk_stopped s \<and> \<not> wk_leadershipLossReported s"

definition keeps_calm :: "('w, 'r) wkprog \<Rightarrow> bool" where
  "keeps_calm m \<longleftrightarrow> (\<forall>s. calm s \<longrightarrow> calm (snd (m s)))"

lemma calm_bind: "keeps_calm m \<Longrightarrow> (\<And>x. keeps_calm (f x)) \<Longrightarrow> keeps_calm (bindE m f)"
  unfolding keeps_calm_def bindE_def by (auto split: prod.split sum.split)

lemma calm_steps: "keeps_calm (ret x)" "keeps_calm (throw e)" "keeps_calm (liftE q)" "keeps_calm (gets g)" "keeps_calm (act a)"
    "keeps_calm (in_world m)" "keeps_calm (in_books f)"
  by (simp_all add: keeps_calm_def calm_def act_def in_world_def in_books_def split_def)

lemma calm_check: "keeps_calm (bindE (checkLeadership (ret True)) f) \<longleftrightarrow> keeps_calm (f True)"
  by (simp add: keeps_calm_def calm_def checkLeadership_def in_world_def bindE_def)

lemma calm_store: "keeps_calm (store_result redis (ret True) tm c book result i)"
proof (cases "toRecoverySnapshot i book")
  case None
  then show ?thesis unfolding store_result_def Let_def by simp (rule calm_bind calm_steps)+
next
  case (Some snap)
  then show ?thesis unfolding store_result_def Let_def option.case Some
    by - ((rule calm_bind [OF calm_steps(6)])+, simp add: calm_check, (rule calm_bind calm_steps)+)
qed

lemma calm_execute: "keeps_calm (execute_and_record redis clock (ret True) tm c)"
proof -
  have "keeps_calm (execute_command clock c)"
    unfolding execute_command_def by (auto intro!: calm_bind calm_steps split: option.split)
  moreover have "keeps_calm (record_command redis (ret True) tm c book result)" for book result
    unfolding record_command_def by (rule calm_bind [OF calm_steps(6) calm_store])
  ultimately show ?thesis unfolding execute_and_record_def by (auto intro!: calm_bind [of "execute_command clock c"] simp: calm_check)
qed

lemma calm_process: "keeps_calm (process_message redis clock (ret True) p n tm body)"
  unfolding process_message_def process_command_def
  by (auto intro!: calm_bind calm_steps calm_execute)

lemma calm_handle:
  assumes "handle_message redis clock message_of (ret True) p n tm message s = Some s'" "calm s"
  shows "calm s'"
proof (cases message)
  case None
  then show ?thesis using assms by (simp add: handle_message_def)
next
  case (Some body)
  obtain r s2 where p: "process_message redis clock (ret True) p n tm body s = (r, s2)"
    by (cases "process_message redis clock (ret True) p n tm body s")
  have c2: "calm s2" using calm_process assms(2) p unfolding keeps_calm_def by (metis snd_conv)
  have "calm (reject_message redis tm reason body s2)" for reason
    using c2 by (auto simp: reject_message_def calm_def bindE_def act_def in_world_def Let_def split: prod.split sum.split)
  then show ?thesis using assms Some p c2
    by (auto simp: handle_message_def checkLeadership_def in_world_def calm_def split: sum.splits if_splits)
qed

lemma calm_all: "handle_all redis clock message_of (ret True) p n ms s = Some s' \<Longrightarrow> calm s \<Longrightarrow> calm s'"
proof (induction ms arbitrary: s)
  case (Cons m ms)
  obtain tm message where m: "m = (tm, message)" by (cases m)
  obtain s1 where "handle_message redis clock message_of (ret True) p n tm message s = Some s1"
    "handle_all redis clock message_of (ret True) p n ms s1 = Some s'"
    by (rule handle_all_Cons [OF Cons.prems(1) [unfolded m]])
  then show ?case using Cons.IH calm_handle Cons.prems(2) by blast
qed simp

end
