(* ===== verification/SettlementProperties.thy ===== *)
theory SettlementProperties
  imports FailoverProperties
begin

text \<open>
  What a client and the broker see of a message: it is settled exactly once, and it is
  acknowledged only when a final status of its command is stored.
\<close>

subsection \<open>Settlements and final statuses\<close>

fun is_settlement :: "action \<Rightarrow> bool" where
  "is_settlement Ack = True"
| "is_settlement (Nack requeue) = True"
| "is_settlement a = False"

definition settlements :: "action list \<Rightarrow> nat" where
  "settlements as = length (filter is_settlement as)"

lemma settlements_simps [simp]: "settlements [] = 0" "settlements (a # as) = (if is_settlement a then Suc (settlements as) else settlements as)"
    "settlements (as @ bs) = settlements as + settlements bs"
  by (simp_all add: settlements_def)

definition status_text :: "nat \<Rightarrow> jsobj \<Rightarrow> CommandStatus \<Rightarrow> jsval \<Rightarrow> stored" where
  "status_text updatedAt command status reason = json_text (JObj
     [(''commandId'', getp command ''commandId''), (''symbol'', getp command ''symbol''), (''type'', getp command ''type''),
      (''status'', command_status_val status), (''reason'', reason), (''createdAt'', getp command ''createdAt''),
      (''updatedAt'', JInt (int updatedAt))])"

definition final_status :: "nat \<Rightarrow> jsobj \<Rightarrow> Store \<Rightarrow> bool" where
  "final_status updatedAt command st \<longleftrightarrow> (\<exists>status reason d. (status = PROCESSED \<and> reason = JNull \<or> status = REJECTED) \<and>
     st_texts st (commandStatusKey (getp command ''commandId'')) = Some (status_text updatedAt command status reason, Some d))"

definition same_status :: "jsobj \<Rightarrow> Store \<Rightarrow> Store \<Rightarrow> bool" where
  "same_status command st st' \<longleftrightarrow>
     st_texts st' (commandStatusKey (getp command ''commandId'')) = st_texts st (commandStatusKey (getp command ''commandId''))"

interpretation status_kept: store_relation "same_status command" for command
  by unfold_locales (simp_all add: same_status_def)

lemma kept_final: "same_status c a b \<Longrightarrow> final_status t c a \<Longrightarrow> final_status t c b"
  by (simp add: same_status_def final_status_def)

lemma final_stored:
  assumes doc: "documented redis view" and f: "status = PROCESSED \<and> reason = JNull \<or> status = REJECTED"
    and run: "updateCommandStatus redis t command status reason w = (Inr u, w')"
  shows "final_status t command (view w')"
proof -
  obtain q where "redis_call redis (SetKey (commandStatusKey (getp command ''commandId'')) (status_text t command status reason)
      (Seconds status_ttl_seconds)) w = (Inr q, w')"
    using run by (auto simp: updateCommandStatus_def saveStatus_def bindE_eq_Inr status_text_def)
  from documented_call [OF doc this] obtain t' where "answers (SetKey (commandStatusKey (getp command ''commandId''))
      (status_text t command status reason) (Seconds status_ttl_seconds)) q ((view w)\<lparr>st_time := t'\<rparr>) (view w')" by blast
  then show ?thesis using f by (auto simp: final_status_def)
qed

text \<open>The last writes of the handler do not touch it.\<close>

lemma status_publish: "documented redis view \<Longrightarrow> keeps (same_status c) view (publishMarketEvents redis now symbol evs)"
  using status_kept.one_call [of redis view "PublishTo ch t" c for ch t]
  by (auto simp: publishMarketEvents_def keeps_def status_kept.refl split_def)

lemma status_lead: "documented redis view \<Longrightarrow> keeps (same_status c) view (hasLeadership redis workerId partitionId)"
  unfolding hasLeadership_def getCurrentLeader_def
  by (intro status_kept.bind status_kept.pure_step status_kept.one_call) (auto simp: same_status_def)

lemma publish_returns: "\<exists>w'. publishMarketEvents redis now symbol evs w = (Inr (), w')"
  by (auto simp: publishMarketEvents_def split: prod.split)

subsection \<open>Programs that settle a message\<close>

definition unsettled :: "('w, 'a) wkprog \<Rightarrow> bool" where
  "unsettled m \<longleftrightarrow> (\<forall>s r s'. m s = (r, s') \<longrightarrow> (\<exists>new. wk_actions s' = wk_actions s @ new \<and> settlements new = 0))"

lemma unsettled_steps: "unsettled (ret x)" "unsettled (throw e)" "unsettled (liftE q)" "unsettled (gets g)" "unsettled (in_world m)"
    "unsettled (in_books f)" "unsettled reportLeadershipLost" "unsettled (checkLeadership lead)"
  by (auto simp: unsettled_def in_world_def in_books_def reportLeadershipLost_def act_def checkLeadership_def
      split: prod.splits if_splits sum.splits)

lemma unsettled_bind:
  assumes "unsettled m" "\<And>x. unsettled (f x)"
  shows "unsettled (bindE m f)"
  unfolding unsettled_def
proof (intro allI impI)
  fix s r s' assume b: "bindE m f s = (r, s')"
  obtain q s1 where m: "m s = (q, s1)" by fastforce
  then obtain n1 where 1: "wk_actions s1 = wk_actions s @ n1" "settlements n1 = 0" using assms(1) unfolding unsettled_def by blast
  show "\<exists>new. wk_actions s' = wk_actions s @ new \<and> settlements new = 0"
  proof (cases q)
    case (Inl e)
    then show ?thesis using b m 1 by (auto simp: bindE_def)
  next
    case (Inr x)
    then have "f x s1 = (r, s')" using b m by (simp add: bindE_def)
    then obtain n2 where "wk_actions s' = wk_actions s1 @ n2" "settlements n2 = 0" using assms(2) unfolding unsettled_def by blast
    then show ?thesis using 1 by (intro exI [of _ "n1 @ n2"]) simp
  qed
qed

definition settles :: "('w \<Rightarrow> Store) \<Rightarrow> nat \<Rightarrow> jsobj \<Rightarrow> ('w, bool) wkprog \<Rightarrow> bool" where
  "settles view t c m \<longleftrightarrow> (\<forall>s r s'. m s = (r, s') \<longrightarrow> (\<exists>new. wk_actions s' = wk_actions s @ new \<and>
     settlements new = (if r = Inr True then 1 else 0) \<and> (Ack \<in> set new \<longrightarrow> final_status t c (view (wk_world s')))))"

lemma no_ack: "settlements new = 0 \<Longrightarrow> Ack \<notin> set new"
  by (induction new) (auto split: if_splits)

lemma settles_ret_False: "settles view t c (ret False)"
  by (simp add: settles_def)

lemma settles_if: "(b \<Longrightarrow> settles view t c m) \<Longrightarrow> (\<not> b \<Longrightarrow> settles view t c n) \<Longrightarrow> settles view t c (if b then m else n)"
  by simp

lemma settles_nack: "settles view t c (bindE (act (Nack b)) (\<lambda>_. ret True))"
  by (simp add: settles_def act_def bindE_def)

lemma settles_give_back: "settles view t c give_back"
  by (auto simp: settles_def give_back_def act_def bindE_def reportLeadershipLost_def split: if_splits)

lemma settles_bind:
  assumes "unsettled m" "\<And>x. settles view t c (f x)"
  shows "settles view t c (bindE m f)"
  unfolding settles_def
proof (intro allI impI)
  fix s r s' assume b: "bindE m f s = (r, s')"
  obtain q s1 where m: "m s = (q, s1)" by fastforce
  then obtain n1 where 1: "wk_actions s1 = wk_actions s @ n1" "settlements n1 = 0" using assms(1) unfolding unsettled_def by blast
  show "\<exists>new. wk_actions s' = wk_actions s @ new \<and> settlements new = (if r = Inr True then 1 else 0) \<and>
      (Ack \<in> set new \<longrightarrow> final_status t c (view (wk_world s')))"
  proof (cases q)
    case (Inl e)
    then show ?thesis using b m 1 no_ack [OF 1(2)] by (auto simp: bindE_def)
  next
    case (Inr x)
    then have "f x s1 = (r, s')" using b m by (simp add: bindE_def)
    then obtain n2 where "wk_actions s' = wk_actions s1 @ n2" "settlements n2 = (if r = Inr True then 1 else 0)"
      "Ack \<in> set n2 \<longrightarrow> final_status t c (view (wk_world s'))" using assms(2) unfolding settles_def by blast
    then show ?thesis using 1 no_ack [OF 1(2)] by (intro exI [of _ "n1 @ n2"]) auto
  qed
qed

text \<open>A status is stored, and then what follows settles without changing it.\<close>

definition finishes :: "('w \<Rightarrow> Store) \<Rightarrow> jsobj \<Rightarrow> ('w, bool) wkprog \<Rightarrow> bool" where
  "finishes view c m \<longleftrightarrow> (\<forall>s. \<exists>s' new. m s = (Inr True, s') \<and> wk_actions s' = wk_actions s @ new \<and> settlements new = 1 \<and>
     same_status c (view (wk_world s)) (view (wk_world s')))"

lemma settles_status:
  assumes doc: "documented redis view" and f: "status = PROCESSED \<and> reason = JNull \<or> status = REJECTED"
    and m: "finishes view c m"
  shows "settles view t c (bindE (in_world (updateCommandStatus redis t c status reason)) (\<lambda>_. m))"
  unfolding settles_def
proof (intro allI impI)
  fix s r s' assume b: "bindE (in_world (updateCommandStatus redis t c status reason)) (\<lambda>_. m) s = (r, s')"
  obtain q w where u: "updateCommandStatus redis t c status reason (wk_world s) = (q, w)" by fastforce
  show "\<exists>new. wk_actions s' = wk_actions s @ new \<and> settlements new = (if r = Inr True then 1 else 0) \<and>
      (Ack \<in> set new \<longrightarrow> final_status t c (view (wk_world s')))"
  proof (cases q)
    case (Inl e)
    then show ?thesis using b u by (auto simp: bindE_def in_world_def)
  next
    case (Inr x)
    let ?s = "s\<lparr>wk_world := w\<rparr>"
    have run: "m ?s = (r, s')" using b u Inr by (simp add: bindE_def in_world_def)
    obtain s2 new where n: "m ?s = (Inr True, s2)" "wk_actions s2 = wk_actions ?s @ new" "settlements new = 1"
      "same_status c (view (wk_world ?s)) (view (wk_world s2))" using m unfolding finishes_def by blast
    have "final_status t c (view w)" by (rule final_stored [OF doc f u [unfolded Inr]])
    then have "final_status t c (view (wk_world s'))" using kept_final [OF n(4)] run n(1) by simp
    then show ?thesis using n run by auto
  qed
qed

lemma finishes_ack: "finishes view c (bindE (act Ack) (\<lambda>_. ret True))"
  by (simp add: finishes_def act_def bindE_def status_kept.refl)

lemma check_returns: "\<exists>l s1. checkLeadership lead s = (Inr l, s1) \<and> wk_actions s1 = wk_actions s"
proof -
  obtain q w where "lead (wk_world s) = (q, w)" by fastforce
  then show ?thesis by (cases q; cases "wk_stopped s") (simp_all add: checkLeadership_def in_world_def ex_bool_eq)
qed

lemma finishes_result:
  fixes redis :: "'w redis"
  assumes "documented redis view" "keeps (same_status c) view lead"
  shows "finishes view c (bindE (checkLeadership lead) (\<lambda>stillLeader. bindE (act Ack) (\<lambda>_.
    bindE (in_world (publishMarketEvents redis now symbol evs)) (\<lambda>_.
    bindE (if \<not> stillLeader then reportLeadershipLost else ret ()) (\<lambda>_. ret True)))))"
  unfolding finishes_def
proof
  fix s :: "'w Worker"
  let ?m = "bindE (checkLeadership lead) (\<lambda>stillLeader. bindE (act Ack) (\<lambda>_.
    bindE (in_world (publishMarketEvents redis now symbol evs)) (\<lambda>_.
    bindE (if \<not> stillLeader then reportLeadershipLost else ret ()) (\<lambda>_. ret True))))"
  obtain l s1 where l: "checkLeadership lead s = (Inr l, s1)" "wk_actions s1 = wk_actions s" using check_returns by blast
  have 1: "wk_actions s1 = wk_actions s" "same_status c (view (wk_world s)) (view (wk_world s1))"
    using l(2) wkeepsD [OF status_kept.leadership [OF assms(2)] l(1)] by simp_all
  obtain w where w: "publishMarketEvents redis now symbol evs (wk_world s1) = (Inr (), w)"
    using publish_returns [of redis now symbol evs "wk_world s1"] by blast
  have 2: "same_status c (view (wk_world s1)) (view w)"
    using status_publish [OF assms(1), of c now symbol evs] w unfolding keeps_def by (metis snd_conv)
  have "\<exists>s' new. ?m s = (Inr True, s') \<and> wk_actions s' = wk_actions s1 @ new \<and> settlements new = 1 \<and> wk_world s' = w"
    using l(1) w by (auto simp: bindE_def act_def in_world_def reportLeadershipLost_def)
  then show "\<exists>s' new. ?m s = (Inr True, s') \<and> wk_actions s' = wk_actions s @ new \<and> settlements new = 1 \<and>
      same_status c (view (wk_world s)) (view (wk_world s'))"
    using 1 status_kept.trans [OF 1(2) 2] by auto
qed

lemma settles_store:
  assumes "documented redis view" "keeps (same_status c) view lead"
  shows "settles view (tm_updatedAt tm) c (store_result redis lead tm c book result i)"
  unfolding store_result_def Let_def
  by (intro settles_bind unsettled_steps)
    (cases "toRecoverySnapshot i book"; simp add: settles_ret_False;
     intro settles_bind unsettled_steps settles_status finishes_result assms; simp)

lemma settles_process_command:
  assumes "documented redis view" "keeps (same_status c) view lead"
  shows "settles view (tm_updatedAt tm) c (process_command redis clock lead tm c)"
proof -
  have rec: "settles view (tm_updatedAt tm) c (record_command redis lead tm c book result)" for book result
    unfolding record_command_def by (intro settles_bind unsettled_steps settles_store assms)
  have "unsettled (execute_command clock c)"
    unfolding execute_command_def by (intro unsettled_bind unsettled_steps) (simp add: unsettled_steps split: option.split)
  then have ex: "settles view (tm_updatedAt tm) c (execute_and_record redis clock lead tm c)"
    unfolding execute_and_record_def
    by (intro settles_bind) (auto intro: settles_bind unsettled_steps settles_if settles_give_back rec)
  have again: "settles view (tm_updatedAt tm) c (bindE (in_world (updateCommandStatus redis (tm_updatedAt tm) c PROCESSED JNull))
      (\<lambda>_. bindE (act Ack) (\<lambda>_. ret True)))"
    by (rule settles_status [OF assms(1) _ finishes_ack]) simp
  show ?thesis unfolding process_command_def
    by (rule settles_bind [OF unsettled_steps(5)], rule settles_if [OF again ex])
qed

lemma settles_process:
  assumes "documented redis view" "\<And>v. body = Json v \<Longrightarrow> c = props v" "keeps (same_status c) view lead"
  shows "settles view (tm_updatedAt tm) c (process_message redis clock lead p n tm body)"
proof (cases body)
  case (Plain t)
  then show ?thesis by (simp add: settles_def process_message_def parseMessage_def json_parse_def)
next
  case (Json v)
  then have c: "c = props v" using assms(2) by simp
  have "process_message redis clock lead p n tm body = bindE (liftE (prop_of v ''symbol'')) (\<lambda>symbol. bindE (liftE (getPartitionId symbol n)) (\<lambda>pid.
      if JInt pid \<noteq> p then bindE (act (Nack False)) (\<lambda>_. ret True) else process_command redis clock lead tm c))"
    unfolding c by (rule ext) (simp add: process_message_def parseMessage_def json_parse_def Json)
  then show ?thesis
    by (simp only:) (intro settles_bind unsettled_steps settles_if settles_nack settles_process_command assms(1,3))
qed

lemma settles_reject:
  fixes redis :: "'w redis"
  assumes doc: "documented redis view" and c: "\<And>v. body = Json v \<Longrightarrow> c = props v"
  shows "\<exists>new. wk_actions (reject_message redis tm reason body s) = wk_actions s @ new \<and> settlements new = 1 \<and>
    (Ack \<in> set new \<longrightarrow> (\<exists>v. body = Json v) \<and> final_status (tm_updatedAt tm) c (view (wk_world (reject_message redis tm reason body s))))"
proof (cases body)
  case (Plain t)
  then show ?thesis by (simp add: reject_message_def parseMessage_def json_parse_def act_def)
next
  case (Json v)
  then have cv: "props v = c" using c by simp
  define inner where "inner = bindE (liftE (prop_of v ''symbol'')) (\<lambda>symbol.
      bindE (in_world (updateCommandStatus redis (tm_updatedAt tm) c REJECTED (JStr reason))) (\<lambda>_.
      bindE (act Ack) (\<lambda>_. in_world (publishMarketEvents redis (tm_publishedAt tm) symbol [rejected_event (tm_rejectedAt tm) c (JStr reason)]))))"
  have fin: "finishes view c (bindE (act Ack) (\<lambda>_. bindE (in_world (publishMarketEvents redis now symbol evs)) (\<lambda>_. ret True)))" for now symbol evs
    unfolding finishes_def
  proof
    fix s :: "'w Worker"
    obtain w where w: "publishMarketEvents redis now symbol evs (wk_world s) = (Inr (), w)"
      using publish_returns [of redis now symbol evs "wk_world s"] by blast
    have "same_status c (view (wk_world s)) (view w)"
      using status_publish [OF doc, of c now symbol evs] w unfolding keeps_def by (metis snd_conv)
    then show "\<exists>s' new. bindE (act Ack) (\<lambda>_. bindE (in_world (publishMarketEvents redis now symbol evs)) (\<lambda>_. ret True)) s = (Inr True, s') \<and>
        wk_actions s' = wk_actions s @ new \<and> settlements new = 1 \<and> same_status c (view (wk_world s)) (view (wk_world s'))"
      using w by (simp add: bindE_def act_def in_world_def)
  qed
  have st: "settles view (tm_updatedAt tm) c (bindE inner (\<lambda>_. ret True))"
    unfolding inner_def bindE_assoc by (intro settles_bind unsettled_steps settles_status doc fin) simp
  have rj: "reject_message redis tm reason body s = (case inner s of (Inl e, s') \<Rightarrow> snd (act (Nack False) s') | (Inr _, s') \<Rightarrow> s')"
    by (simp add: reject_message_def Json parseMessage_def json_parse_def cv inner_def Let_def)
  obtain q s1 where q: "inner s = (q, s1)" by fastforce
  show ?thesis
  proof (cases q)
    case (Inl e)
    then have "bindE inner (\<lambda>_. ret True) s = (Inl e, s1)" using q by (simp add: bindE_def)
    then obtain new where "wk_actions s1 = wk_actions s @ new" "settlements new = 0" using st unfolding settles_def by fastforce
    then show ?thesis using q Inl no_ack [of new] by (intro exI [of _ "new @ [Nack False]"]) (auto simp: rj act_def)
  next
    case (Inr x)
    then have "bindE inner (\<lambda>_. ret True) s = (Inr True, s1)" using q by (simp add: bindE_def)
    then obtain new where "wk_actions s1 = wk_actions s @ new" "settlements new = 1"
      "Ack \<in> set new \<longrightarrow> final_status (tm_updatedAt tm) c (view (wk_world s1))" using st unfolding settles_def by fastforce
    moreover have "reject_message redis tm reason body s = s1" using q Inr by (simp add: rj)
    ultimately show ?thesis using Json by auto
  qed
qed

subsection \<open>A sample\<close>

definition led_store :: Store where
  "led_store = processed_store\<lparr> st_texts := (\<lambda>_. None)(getLeaderKey (JInt 0) := Some (Plain ''n1'', None)) \<rparr>"

lemma sample_leads: "checkLeadership (hasLeadership demo_redis ''n1'' (JInt 0)) (sample_worker\<lparr>wk_world := led_store\<rparr>) =
    (Inr True, sample_worker\<lparr>wk_world := led_store\<rparr>)"
  by (simp add: checkLeadership_def in_world_def hasLeadership_def getCurrentLeader_def redis_call_def demo_redis_def bindE_def
      led_store_def live_text_def reply_text_def sample_worker_def startOrderCommandWorker_def)

lemma sample_settled: "\<exists>s'. handle_message demo_redis id f (hasLeadership demo_redis ''n1'' (JInt 0)) (JInt 0) (JInt 3) sample_times
     (Some sample_message) (sample_worker\<lparr>wk_world := led_store\<rparr>) = Some s' \<and> wk_actions s' = wk_actions sample_worker @ [Ack]"
proof -
  have p: "getPartitionId (JStr ''BTC-INR'') (JNum 3) = Inr 0"
    using sample_assigned by (auto simp: assigned_def isSymbolAssignedToPartition_def seqE_eq_Inr)
  let ?s = "sample_worker\<lparr>wk_world := led_store\<rparr>" and ?lead = "hasLeadership demo_redis ''n1'' (JInt 0)"
  have k: "isCommandProcessed demo_redis (JStr ''BTC-INR'') (JStr ''c1'') led_store = (Inr True, led_store)"
    by (simp add: isCommandProcessed_def text_arg_def redis_call_def demo_redis_def bindE_def led_store_def processed_store_def reply_bool_def)
  obtain w where u: "updateCommandStatus demo_redis (tm_updatedAt sample_times) (props (case sample_message of Json v \<Rightarrow> v)) PROCESSED JNull led_store = (Inr (), w)"
    by (simp add: updateCommandStatus_def saveStatus_def redis_call_def demo_redis_def bindE_def)
  have "process_message demo_redis id ?lead (JInt 0) (JInt 3) sample_times sample_message ?s =
      (Inr True, ?s\<lparr>wk_world := w, wk_actions := wk_actions sample_worker @ [Ack]\<rparr>)"
    using k u by (simp add: process_message_def sample_message_def parseMessage_def json_parse_def prop_of_def
        nullish_def p process_command_def in_world_def bindE_def act_def)
  then show ?thesis by (simp only: handle_message_def option.case sample_leads prod.case sum.case bool.case if_True) auto
qed

subsection \<open>Properties\<close>

text \<open>
  C11. Every message is settled exactly once, and an acknowledged command has a final status:
  whatever calls of Redis fail, when the handler of a delivery returns it has acknowledged,
  returned or dead-lettered the message exactly once; and if it has acknowledged it, then the
  status PROCESSED or REJECTED of its command is stored, with an expiry.
\<close>

theorem message_settled_once:
  assumes "documented redis view"
    "handle_message redis clock message_of (hasLeadership redis workerId partitionId) partitionId partitionCount tm (Some body) s = Some s'"
  shows "\<exists>new. wk_actions s' = wk_actions s @ new \<and> settlements new = 1 \<and>
    (Ack \<in> set new \<longrightarrow> (\<exists>v. body = Json v \<and> final_status (tm_updatedAt tm) (props v) (view (wk_world s'))))"
proof -
  let ?lead = "hasLeadership redis workerId partitionId"
  define c where "c = props (case body of Json v \<Rightarrow> v | Plain t \<Rightarrow> JUndef)"
  have c: "c = props v" if "body = Json v" for v using that by (simp add: c_def)
  obtain l s1 where l: "checkLeadership ?lead s = (l, s1)" by fastforce
  obtain n0 where n0: "wk_actions s1 = wk_actions s @ n0" "settlements n0 = 0"
    using unsettled_steps(8) [of ?lead] l unfolding unsettled_def by blast
  show ?thesis
  proof (cases "l = Inr True")
    case False
    then have s': "s' = snd (give_back s1)" using assms(2) l by (auto simp: handle_message_def split: sum.splits bool.splits)
    have "wk_actions (snd (give_back s1)) = wk_actions s1 @ [Nack True] @ (if wk_leadershipLossReported s1 then [] else [LeadershipLost])"
      by (simp add: give_back_def act_def bindE_def reportLeadershipLost_def)
    then show ?thesis using s' n0 no_ack [OF n0(2)] by (auto split: if_splits)
  next
    case True
    obtain r s2 where p: "process_message redis clock ?lead partitionId partitionCount tm body s1 = (r, s2)" by fastforce
    obtain n1 where n1: "wk_actions s2 = wk_actions s1 @ n1" "settlements n1 = (if r = Inr True then 1 else 0)"
      "Ack \<in> set n1 \<longrightarrow> final_status (tm_updatedAt tm) c (view (wk_world s2))"
      using settles_process [OF assms(1) c status_lead [OF assms(1)]] p unfolding settles_def by blast
    show ?thesis
    proof (cases r)
      case (Inr returned)
      then have s': "returned" "s' = s2" using assms(2) l True p by (auto simp: handle_message_def split: if_splits)
      have "Ack \<in> set n1 \<Longrightarrow> \<exists>v. body = Json v"
        using p Inr by (cases body) (auto simp: process_message_def parseMessage_def json_parse_def)
      then show ?thesis using n0 n1 s' Inr no_ack [OF n0(2)] c by (intro exI [of _ "n0 @ n1"]) auto
    next
      case (Inl e)
      then have s': "s' = reject_message redis tm (message_of e) body s2" using assms(2) l True p by (simp add: handle_message_def)
      obtain n2 where n2: "wk_actions s' = wk_actions s2 @ n2" "settlements n2 = 1"
        "Ack \<in> set n2 \<longrightarrow> (\<exists>v. body = Json v) \<and> final_status (tm_updatedAt tm) c (view (wk_world s'))"
        using settles_reject [OF assms(1) c] s' by blast
      have "settlements n1 = 0" using n1(2) Inl by simp
      then show ?thesis using n0 n1(1) n2 no_ack [OF n0(2)] no_ack [of n1] c by (intro exI [of _ "n0 @ n1 @ n2"]) auto
    qed
  qed
qed

theorem message_settled_once_witness:
  "\<exists>s'. handle_message demo_redis id (\<lambda>e. ''error'') (hasLeadership demo_redis ''n1'' (JInt 0)) (JInt 0) (JInt 3) sample_times
       (Some sample_message) (sample_worker\<lparr>wk_world := led_store\<rparr>) = Some s' \<and>
     wk_actions s' = wk_actions sample_worker @ [Ack] \<and>
     (\<exists>v. sample_message = Json v \<and> final_status 2 (props v) (wk_world s'))"
proof -
  obtain s' where s': "handle_message demo_redis id (\<lambda>e. ''error'') (hasLeadership demo_redis ''n1'' (JInt 0)) (JInt 0) (JInt 3) sample_times
       (Some sample_message) (sample_worker\<lparr>wk_world := led_store\<rparr>) = Some s'" "wk_actions s' = wk_actions sample_worker @ [Ack]"
    using sample_settled by blast
  from message_settled_once [OF demo_documented s'(1)] s' show ?thesis by (auto simp: sample_times_def)
qed

end
