(* ===== verification/RecoveryFailure.thy ===== *)
theory RecoveryFailure
  imports StandbyProperties
begin

text \<open>
  A recovery that fails half-way: \<^verbatim>\<open>initialize\<close> of \<^verbatim>\<open>StandbyReplica.js\<close> empties the registry
  first and forgets the positions in the logs last, so a failure of Redis in between leaves a
  replica without books that believes it has followed the logs.  (\<^verbatim>\<open>handleLeadershipLost\<close> then
  resumes the standby mode all the same.)
\<close>

lemma failed_initialize:
  assumes "command_getSymbols redis (rp_world s) = (Inl e, w)"
  shows "initialize redis clock p n s = (Inl e, s\<lparr>rp_books := [], rp_world := w\<rparr>)"
  using assms by (simp add: initialize_def replayAllSymbolsFromCommandLog_def bindE_def on_books_def reset_registry_def on_world_def)

text \<open>A Redis whose next call fails, and that answers every later one.\<close>

definition failing_redis :: "(Store \<times> bool) redis" where
  "failing_redis cs w = (if snd w then (Inl ServiceError, (fst w, False))
     else (case demo_calls cs (fst w) of (rs, st) \<Rightarrow> (Inr rs, (st, False))))"

lemma failing_documented: "documented failing_redis fst"
  unfolding documented_def
proof (intro allI)
  fix cs and w :: "Store \<times> bool"
  have "answers_all cs (fst (demo_calls cs (fst w))) ((fst w)\<lparr>st_time := st_time (fst w)\<rparr>) (snd (demo_calls cs (fst w)))"
    using demo_calls_answers [of cs "fst w"] by simp
  then show "case failing_redis cs w of (out, w') \<Rightarrow> \<exists>t \<ge> st_time (fst w). let st = (fst w)\<lparr>st_time := t\<rparr> in
       (case out of Inr rs \<Rightarrow> answers_all cs rs st (fst w')
        | Inl e \<Rightarrow> fst w' = st \<or> (\<exists>rs. answers_all cs rs st (fst w')))"
    by (auto simp: failing_redis_def split_def Let_def intro!: exI [of _ "st_time (fst w)"])
qed

definition followed_book :: OrderBook where
  "followed_book = book_log.run_all (origin ''BTC-INR'') (requests [sample_log_entry])"

definition followed :: "(Store \<times> bool) Replica" where
  "followed = \<lparr> rp_books = [(''BTC-INR'', followed_book)], rp_world = (sample_store, True),
     rp_lastReplayedStreamIds = [(''BTC-INR'', ''1-0'')] \<rparr>"

lemma followed_stands: "stands_for ''BTC-INR'' [sample_log_entry] followed_book"
proof -
  have g: "book_good (sum_list (map command_cost (requests [sample_log_entry])) + 0) (origin ''BTC-INR'')"
    using origin_good [OF sample_log(1)] by (simp add: requests_cost_def)
  have "book_good 0 followed_book" unfolding followed_book_def
    by (rule book_view.run_all_good [OF g]) (use sample_log(1) in \<open>auto simp: sound_log_def\<close>)
  then show ?thesis by (simp add: stands_for_def rebuilt_def followed_book_def book_good_def)
qed

text \<open>After the failure: no book, the old position, and nothing left to replay.\<close>

definition forgotten :: "(Store \<times> bool) Replica" where
  "forgotten = \<lparr> rp_books = [], rp_world = (sample_store, False), rp_lastReplayedStreamIds = [(''BTC-INR'', ''1-0'')] \<rparr>"

lemma followed_fails: "initialize failing_redis id (JInt 0) (JInt 3) followed = (Inl ServiceError, forgotten)"
proof -
  have "command_getSymbols failing_redis (rp_world followed) = (Inl ServiceError, (sample_store, False))"
    by (simp add: command_getSymbols_def redis_call_def failing_redis_def followed_def bindE_def)
  from failed_initialize [OF this] show ?thesis by (simp add: followed_def forgotten_def)
qed

lemma nothing_to_replay: "catchUp failing_redis id (JInt 0) (JInt 3) forgotten = Some (Inr 0, forgotten)"
proof -
  have d: "discoverSymbols failing_redis id (JInt 0) (JInt 3) forgotten = (Inr (), forgotten)"
    by (simp add: discoverSymbols_def on_world_def command_getSymbols_def redis_call_def failing_redis_def bindE_def forgotten_def
        sample_store_def demo_store_def reply_texts_def plain_text_def map_has_def)
  have "\<not> id_less ''1-0'' ''1-0''" by (simp add: id_less_def)
  then have "on_world (readNextProcessedCommands failing_redis (JStr ''BTC-INR'') (position_of forgotten ''BTC-INR'') 100) forgotten =
      (Inr [], forgotten)"
    by (simp add: on_world_def readNextProcessedCommands_def redis_call_def failing_redis_def bindE_def forgotten_def position_of_def
        sample_store_def sample_log_entry_def demo_store_def Let_def)
  then have "replayAvailableCommands failing_redis id ''BTC-INR'' 0 forgotten = Some (Inr 0, forgotten)"
    by (subst replayAvailableCommands.simps) simp
  then show ?thesis using d by (simp add: catchUp_def forgotten_def map_keys_def)
qed


end
