(* ===== verification/MatchingNode.thy ===== *)
theory MatchingNode
  imports LeaderElection
begin

text \<open>
  \<^verbatim>\<open>src/application/replication/MatchingNode.js\<close>, the polling loop of
  \<^verbatim>\<open>StandbyReplica.js\<close> and the heartbeat of \<^verbatim>\<open>RedisLeaderElection.js\<close>: how a
  node becomes active and falls back.  The methods are asynchronous: between two awaits the code
  runs alone, at an await another task may run.  A task is where a method waits; the functions
  below run a method from one await to the next, given the answer it waited for (\<open>None\<close>: the call
  failed).  \<open>node_step\<close> lets any waiting task go on.  \<open>nd_holds\<close> says whether the lock names
  this node.
\<close>

subsection \<open>The state\<close>

text \<open>Where \<^verbatim>\<open>attemptPromotion\<close>, \<^verbatim>\<open>handleLeadershipLost\<close> and \<^verbatim>\<open>stop\<close> wait.\<close>

datatype promotion = Acquiring | ReadingLeader | StoppingReplica | CatchingUp | CheckingLead | Connecting
  | StartingConsumer | CheckingLeadAgain | StoppingConsumer | ReleasingLead

datatype loss = LossStoppingConsumer | LossInitializing

datatype shutdown = ShutdownConsumer | ShutdownReplica | ShutdownRelease

datatype task = Starting | Checking | Promoting promotion | Losing loss | ShuttingDown shutdown

record Node =
  nd_consumerHandle :: "nat option"
  nd_heartbeatHandle :: "nat option"
  nd_active :: bool
  nd_transitioning :: bool
  nd_leadershipLostDuringTransition :: bool
  nd_stopping :: bool
  nd_replicaRunning :: bool
  nd_loops :: nat                 \<comment> \<open>polling loops of the replica that have not ended\<close>
  nd_consumers :: "nat set"       \<comment> \<open>consumers that were started and not stopped\<close>
  nd_timers :: "nat set"          \<comment> \<open>heartbeats that were started and not stopped\<close>
  nd_renewing :: "nat set"        \<comment> \<open>heartbeats with a renewal in progress\<close>
  nd_next :: nat
  nd_holds :: bool
  nd_tasks :: "task multiset"

definition new_MatchingNode :: Node where
  "new_MatchingNode = \<lparr> nd_consumerHandle = None, nd_heartbeatHandle = None, nd_active = False,
     nd_transitioning = False, nd_leadershipLostDuringTransition = False, nd_stopping = False,
     nd_replicaRunning = False, nd_loops = 0, nd_consumers = {}, nd_timers = {}, nd_renewing = {},
     nd_next = 0, nd_holds = False, nd_tasks = {#} \<rparr>"

definition wait :: "task \<Rightarrow> Node \<Rightarrow> Node" where
  "wait t n = n\<lparr>nd_tasks := add_mset t (nd_tasks n)\<rparr>"

subsection \<open>The replica's loop\<close>

definition replica_start :: "Node \<Rightarrow> Node" where
  "replica_start n = (if nd_replicaRunning n then n
     else n\<lparr>nd_replicaRunning := True, nd_loops := Suc (nd_loops n)\<rparr>)"

definition replica_stop :: "Node \<Rightarrow> Node" where
  "replica_stop n = n\<lparr>nd_replicaRunning := False\<rparr>"

definition startStandbyMode :: "Node \<Rightarrow> Node" where
  "startStandbyMode n = (if nd_stopping n \<or> nd_active n then n else replica_start n)"

subsection \<open>The heartbeat and the consumer\<close>

definition startLeadershipHeartbeat :: "Node \<Rightarrow> Node" where
  "startLeadershipHeartbeat n = n\<lparr>nd_heartbeatHandle := Some (nd_next n), nd_timers := insert (nd_next n) (nd_timers n),
     nd_next := Suc (nd_next n)\<rparr>"

definition heartbeat_stop :: "Node \<Rightarrow> Node" where
  "heartbeat_stop n = (case nd_heartbeatHandle n of None \<Rightarrow> n | Some h \<Rightarrow> n\<lparr>nd_timers := nd_timers n - {h}\<rparr>)"

definition drop_heartbeat :: "Node \<Rightarrow> Node" where
  "drop_heartbeat n = (heartbeat_stop n)\<lparr>nd_heartbeatHandle := None\<rparr>"

definition start_consumer :: "Node \<Rightarrow> Node" where
  "start_consumer n = n\<lparr>nd_consumerHandle := Some (nd_next n), nd_consumers := insert (nd_next n) (nd_consumers n),
     nd_next := Suc (nd_next n)\<rparr>"

text \<open>A consumer that was told to stop gives every message back, before the channel has answered.\<close>

definition stop_consumer :: "Node \<Rightarrow> Node" where
  "stop_consumer n = (case nd_consumerHandle n of None \<Rightarrow> n | Some c \<Rightarrow> n\<lparr>nd_consumers := nd_consumers n - {c}\<rparr>)"

subsection \<open>attemptPromotion\<close>

definition attemptPromotion :: "Node \<Rightarrow> Node" where
  "attemptPromotion n = (if nd_active n \<or> nd_transitioning n \<or> nd_stopping n then n
     else wait (Promoting Acquiring) (n\<lparr>nd_transitioning := True, nd_leadershipLostDuringTransition := False\<rparr>))"

text \<open>The \<^verbatim>\<open>finally\<close> and the \<^verbatim>\<open>catch\<close> block.\<close>

definition end_promotion :: "Node \<Rightarrow> Node" where
  "end_promotion n = (let n' = n\<lparr>nd_transitioning := False\<rparr> in
     if \<not> nd_active n \<and> \<not> nd_stopping n then startStandbyMode n' else n')"

definition fail_promotion :: "Node \<Rightarrow> Node" where
  "fail_promotion n = wait (Promoting ReleasingLead) (drop_heartbeat n)"

fun promote :: "promotion \<Rightarrow> bool option \<Rightarrow> Node \<Rightarrow> Node" where
  "promote Acquiring r n = (case r of None \<Rightarrow> fail_promotion n
     | Some acquired \<Rightarrow> if acquired then wait (Promoting StoppingReplica) (replica_stop n) else wait (Promoting ReadingLeader) n)"
| "promote ReadingLeader r n = (if r = None then fail_promotion n else end_promotion n)"
| "promote StoppingReplica r n = wait (Promoting CatchingUp) (startLeadershipHeartbeat n)"
| "promote CatchingUp r n = (if r = None then fail_promotion n else wait (Promoting CheckingLead) n)"
| "promote CheckingLead r n = (if r = Some True then wait (Promoting Connecting) n else fail_promotion n)"
| "promote Connecting r n = (if r = None then fail_promotion n else wait (Promoting StartingConsumer) n)"
| "promote StartingConsumer r n = (if r = None then fail_promotion n
     else if nd_leadershipLostDuringTransition n then wait (Promoting StoppingConsumer) (stop_consumer (start_consumer n))
     else wait (Promoting CheckingLeadAgain) (start_consumer n))"
| "promote CheckingLeadAgain r n = (case r of None \<Rightarrow> fail_promotion n
     | Some leads \<Rightarrow> if leads then end_promotion (n\<lparr>nd_active := True\<rparr>)
         else if nd_consumerHandle n = None then fail_promotion n
         else wait (Promoting StoppingConsumer) (stop_consumer n))"
| "promote StoppingConsumer r n = (if r = None then fail_promotion n else fail_promotion (n\<lparr>nd_consumerHandle := None\<rparr>))"
| "promote ReleasingLead r n = end_promotion n"

definition checkForPromotion :: "Node \<Rightarrow> Node" where
  "checkForPromotion n = (if nd_active n \<or> nd_transitioning n \<or> nd_stopping n then n else wait Checking n)"

text \<open>The answer of \<^verbatim>\<open>getCurrentLeader\<close>: is there a leader?\<close>

definition checked :: "bool option \<Rightarrow> Node \<Rightarrow> Node" where
  "checked r n = (if r = Some False then attemptPromotion n else n)"

text \<open>After the recovery of \<^verbatim>\<open>start\<close>; a promotion that fails starts the standby mode itself.\<close>

definition started :: "Node \<Rightarrow> Node" where
  "started n = (if nd_active n \<or> nd_transitioning n \<or> nd_stopping n then startStandbyMode n else attemptPromotion n)"

subsection \<open>handleLeadershipLost and stop\<close>

definition handleLeadershipLost :: "Node \<Rightarrow> Node" where
  "handleLeadershipLost n =
    (if nd_transitioning n then n\<lparr>nd_leadershipLostDuringTransition := True\<rparr>
     else if nd_stopping n then n
     else wait (Losing LossStoppingConsumer) (stop_consumer (drop_heartbeat (n\<lparr>nd_transitioning := True, nd_active := False\<rparr>))))"

definition end_loss :: "Node \<Rightarrow> Node" where
  "end_loss n = startStandbyMode (n\<lparr>nd_transitioning := False\<rparr>)"

fun lose :: "loss \<Rightarrow> bool option \<Rightarrow> Node \<Rightarrow> Node" where
  "lose LossStoppingConsumer r n = (if r = None then end_loss n else wait (Losing LossInitializing) (n\<lparr>nd_consumerHandle := None\<rparr>))"
| "lose LossInitializing r n = end_loss n"

definition stop_node :: "Node \<Rightarrow> Node" where
  "stop_node n = wait (ShuttingDown ShutdownConsumer) (stop_consumer (heartbeat_stop (n\<lparr>nd_stopping := True\<rparr>)))"

fun shut_down :: "shutdown \<Rightarrow> bool option \<Rightarrow> Node \<Rightarrow> Node" where
  "shut_down ShutdownConsumer r n = (if r = None then n else wait (ShuttingDown ShutdownReplica) (replica_stop n))"
| "shut_down ShutdownReplica r n = wait (ShuttingDown ShutdownRelease) n"
| "shut_down ShutdownRelease r n = n"

subsection \<open>The lock and the steps\<close>

text \<open>
  What the lock makes of a call that is answered: \<open>SET NX\<close> is refused while the lock names
  anybody, a check answers what the lock says, a release frees it; a failed call may have been
  carried out.
\<close>

fun lock_answer :: "promotion \<Rightarrow> bool option \<Rightarrow> bool \<Rightarrow> bool \<Rightarrow> bool" where
  "lock_answer Acquiring r h h' \<longleftrightarrow> (case r of Some acquired \<Rightarrow> if acquired then \<not> h \<and> h' else h' = h | None \<Rightarrow> h \<longrightarrow> h')"
| "lock_answer CheckingLead r h h' \<longleftrightarrow> h' = h \<and> (\<forall>b. r = Some b \<longrightarrow> b = h)"
| "lock_answer CheckingLeadAgain r h h' \<longleftrightarrow> h' = h \<and> (\<forall>b. r = Some b \<longrightarrow> b = h)"
| "lock_answer ReleasingLead r h h' \<longleftrightarrow> (if r = None then h' \<longrightarrow> h else \<not> h')"
| "lock_answer pc r h h' \<longleftrightarrow> h' = h"

inductive node_step :: "Node \<Rightarrow> Node \<Rightarrow> bool" where
  start: "nd_tasks n = add_mset Starting ts \<Longrightarrow> node_step n (started (n\<lparr>nd_tasks := ts\<rparr>))"
| check: "nd_tasks n = add_mset Checking ts \<Longrightarrow> node_step n (checked r (n\<lparr>nd_tasks := ts\<rparr>))"
| promotion: "nd_tasks n = add_mset (Promoting pc) ts \<Longrightarrow> (pc = StoppingReplica \<longrightarrow> nd_loops n = 0) \<Longrightarrow>
    lock_answer pc r (nd_holds n) h \<Longrightarrow> node_step n (promote pc r (n\<lparr>nd_tasks := ts, nd_holds := h\<rparr>))"
| loss: "nd_tasks n = add_mset (Losing l) ts \<Longrightarrow> node_step n (lose l r (n\<lparr>nd_tasks := ts\<rparr>))"
| shutdown: "nd_tasks n = add_mset (ShuttingDown d) ts \<Longrightarrow> (d = ShutdownReplica \<longrightarrow> nd_loops n = 0) \<Longrightarrow>
    (nd_holds n \<or> \<not> h) \<Longrightarrow> (d \<noteq> ShutdownRelease \<longrightarrow> h = nd_holds n) \<Longrightarrow>
    node_step n (shut_down d r (n\<lparr>nd_tasks := ts, nd_holds := h\<rparr>))"
| stop: "node_step n (stop_node n)"
| expire: "node_step n (n\<lparr>nd_holds := False\<rparr>)"
| poll: "0 < nd_loops n \<Longrightarrow> node_step n (checkForPromotion n)"
| loop_end: "0 < nd_loops n \<Longrightarrow> \<not> nd_replicaRunning n \<Longrightarrow> node_step n (n\<lparr>nd_loops := nd_loops n - 1\<rparr>)"
| tick: "h \<in> nd_timers n \<Longrightarrow> node_step n (n\<lparr>nd_renewing := insert h (nd_renewing n)\<rparr>)"
| renewed: "h \<in> nd_renewing n \<Longrightarrow> node_step n (n\<lparr>nd_renewing := nd_renewing n - {h}\<rparr>)"
| not_renewed: "h \<in> nd_renewing n \<Longrightarrow> \<not> nd_holds n \<Longrightarrow>
    node_step n (handleLeadershipLost (n\<lparr>nd_renewing := nd_renewing n - {h}, nd_timers := nd_timers n - {h}\<rparr>))"
| reported: "c < nd_next n \<Longrightarrow> node_step n (handleLeadershipLost n)"

inductive reachable :: "Node \<Rightarrow> bool" where
  init: "reachable (new_MatchingNode\<lparr>nd_tasks := {#Starting#}\<rparr>)"
| step: "reachable n \<Longrightarrow> node_step n n' \<Longrightarrow> reachable n'"

inductive_cases node_stepE: "node_step n n'"

end
