(* ===== verification/NodeProperties.thy ===== *)
theory NodeProperties
  imports MatchingNode
begin

text \<open>
  Invariants of the matching node over every interleaving of its tasks, by induction on the
  reachable states, and the states the code does not mean to reach.
\<close>

fun is_transition :: "task \<Rightarrow> bool" where
  "is_transition (Promoting pc) = True"
| "is_transition (Losing l) = True"
| "is_transition t = False"

definition transitions :: "Node \<Rightarrow> task multiset" where
  "transitions n = filter_mset is_transition (nd_tasks n)"

text \<open>The heartbeat of a promotion runs, or the lock is lost.\<close>

definition beating :: "Node \<Rightarrow> bool" where
  "beating n \<longleftrightarrow> (\<exists>h. nd_heartbeatHandle n = Some h \<and> (h \<in> nd_timers n \<or> \<not> nd_holds n))"

definition consuming :: "Node \<Rightarrow> bool" where
  "consuming n \<longleftrightarrow> (\<exists>c. nd_consumerHandle n = Some c \<and> c \<in> nd_consumers n)"

definition guarded :: "Node \<Rightarrow> bool" where
  "guarded n \<longleftrightarrow> (\<exists>h. nd_heartbeatHandle n = Some h \<and> h \<in> nd_timers n) \<and> consuming n \<and> \<not> nd_replicaRunning n"

text \<open>What holds where a transition waits, unless the node is stopping.\<close>

fun transition_ok :: "Node \<Rightarrow> task \<Rightarrow> bool" where
  "transition_ok n (Promoting Acquiring) = (nd_replicaRunning n \<or> nd_loops n = 0)"
| "transition_ok n (Promoting ReadingLeader) = (nd_replicaRunning n \<or> nd_loops n = 0)"
| "transition_ok n (Promoting StoppingReplica) = (\<not> nd_replicaRunning n)"
| "transition_ok n (Promoting ReleasingLead) = (nd_replicaRunning n \<or> nd_loops n = 0)"
| "transition_ok n (Promoting StoppingConsumer) = (\<not> nd_replicaRunning n \<and> nd_loops n = 0)"
| "transition_ok n (Promoting CheckingLeadAgain) = (\<not> nd_replicaRunning n \<and> nd_loops n = 0 \<and> beating n \<and> consuming n)"
| "transition_ok n (Promoting pc) = (\<not> nd_replicaRunning n \<and> nd_loops n = 0 \<and> beating n)"
| "transition_ok n (Losing l) = (nd_replicaRunning n \<or> nd_loops n = 0)"
| "transition_ok n t = True"

definition fresh_start :: "Node \<Rightarrow> bool" where
  "fresh_start n \<longleftrightarrow> count (nd_tasks n) Starting = 1 \<and> Checking \<notin># nd_tasks n \<and> transitions n = {#} \<and> \<not> nd_active n \<and>
     \<not> nd_transitioning n \<and> \<not> nd_replicaRunning n \<and> nd_loops n = 0 \<and> nd_next n = 0 \<and> nd_timers n = {} \<and> nd_renewing n = {}"

definition node_inv :: "Node \<Rightarrow> bool" where
  "node_inv n \<longleftrightarrow> nd_loops n \<le> 1 \<and> (nd_replicaRunning n \<longrightarrow> nd_loops n = 1) \<and>
     (Starting \<in># nd_tasks n \<longrightarrow> fresh_start n) \<and> (\<forall>d. ShuttingDown d \<in># nd_tasks n \<longrightarrow> nd_stopping n) \<and>
     (if nd_transitioning n
      then \<exists>t. transitions n = {#t#} \<and> \<not> (nd_active n \<and> \<not> nd_stopping n) \<and> (\<not> nd_stopping n \<longrightarrow> transition_ok n t)
      else transitions n = {#} \<and> (\<not> nd_stopping n \<longrightarrow>
        (nd_active n \<longrightarrow> guarded n \<and> nd_loops n = 0) \<and>
        (\<not> nd_active n \<longrightarrow> nd_replicaRunning n \<or> Starting \<in># nd_tasks n)))"

lemmas node_defs = wait_def replica_start_def replica_stop_def startStandbyMode_def startLeadershipHeartbeat_def
  heartbeat_stop_def drop_heartbeat_def start_consumer_def stop_consumer_def attemptPromotion_def end_promotion_def
  fail_promotion_def checkForPromotion_def checked_def started_def handleLeadershipLost_def end_loss_def stop_node_def Let_def

lemma init_inv: "node_inv (new_MatchingNode\<lparr>nd_tasks := {#Starting#}\<rparr>)"
  by (simp add: node_inv_def new_MatchingNode_def transitions_def fresh_start_def)

lemmas inv_defs = node_inv_def transitions_def fresh_start_def beating_def consuming_def guarded_def

lemma transition_ok_mono:
  assumes "transition_ok n t" "nd_replicaRunning n' = nd_replicaRunning n" "nd_loops n' = nd_loops n"
    "beating n \<Longrightarrow> beating n'" "consuming n \<Longrightarrow> consuming n'"
  shows "transition_ok n' t"
proof (cases t)
  case (Promoting pc)
  then show ?thesis using assms by (cases pc) auto
qed (use assms in auto)

text \<open>Only the tasks, the lock and the heartbeats change, and nothing that is waited for.\<close>

lemma quiet_inv:
  assumes "node_inv n" "transitions n' = transitions n" "Starting \<in># nd_tasks n' \<longleftrightarrow> Starting \<in># nd_tasks n"
    "Starting \<in># nd_tasks n \<Longrightarrow> fresh_start n'" "set_mset (nd_tasks n') \<subseteq> set_mset (nd_tasks n)" "nd_loops n' = nd_loops n" "nd_replicaRunning n' = nd_replicaRunning n"
    "nd_active n' = nd_active n" "nd_transitioning n' = nd_transitioning n" "nd_stopping n' = nd_stopping n"
    "beating n \<Longrightarrow> beating n'" "consuming n \<Longrightarrow> consuming n'" "nd_active n \<Longrightarrow> \<not> nd_stopping n \<Longrightarrow> \<not> nd_transitioning n \<Longrightarrow> guarded n \<Longrightarrow> guarded n'"
  shows "node_inv n'"
  using assms transition_ok_mono [of n _ n'] unfolding node_inv_def by (auto split: if_splits)

lemma start_inv: "node_inv n \<Longrightarrow> nd_tasks n = add_mset Starting ts \<Longrightarrow> node_inv (started (n\<lparr>nd_tasks := ts\<rparr>))"
  by (auto simp: inv_defs node_defs not_in_iff)

lemma beating_tasks [simp]: "beating (n\<lparr>nd_tasks := ts\<rparr>) = beating n" "consuming (n\<lparr>nd_tasks := ts\<rparr>) = consuming n"
    "guarded (n\<lparr>nd_tasks := ts\<rparr>) = guarded n"
  by (simp_all add: beating_def consuming_def guarded_def)

lemma check_inv:
  assumes inv: "node_inv n" and t: "nd_tasks n = add_mset Checking ts"
  shows "node_inv (checked r (n\<lparr>nd_tasks := ts\<rparr>))"
proof -
  have "\<not> Starting \<in># nd_tasks n" using inv t by (auto simp: node_inv_def fresh_start_def)
  then have q: "node_inv (n\<lparr>nd_tasks := ts\<rparr>)" using t by (intro quiet_inv [OF inv]) (auto simp: transitions_def)
  show ?thesis
  proof (cases "r = Some False \<and> \<not> nd_active n \<and> \<not> nd_transitioning n \<and> \<not> nd_stopping n")
    case False
    then have "checked r (n\<lparr>nd_tasks := ts\<rparr>) = n\<lparr>nd_tasks := ts\<rparr>" by (auto simp: checked_def attemptPromotion_def)
    then show ?thesis using q by simp
  next
    case True
    then show ?thesis using inv t by (auto simp: inv_defs node_defs)
  qed
qed

lemma lost_inv:
  assumes "node_inv n" "Starting \<notin># nd_tasks n"
  shows "node_inv (handleLeadershipLost n)"
proof (cases "nd_transitioning n")
  case True
  then show ?thesis using assms
    by (auto simp: handleLeadershipLost_def transitions_def beating_def consuming_def guarded_def intro!: quiet_inv [OF assms(1)])
next
  case False
  then show ?thesis using assms by (auto simp: inv_defs node_defs split: option.splits)
qed

lemma lose_inv:
  assumes "node_inv n" "nd_tasks n = add_mset (Losing l) ts"
  shows "node_inv (lose l r (n\<lparr>nd_tasks := ts\<rparr>))"
  using assms by (cases l) (auto simp: inv_defs node_defs split: if_splits)

lemma shut_down_inv:
  assumes inv: "node_inv n" and t: "nd_tasks n = add_mset (ShuttingDown d) ts" "nd_holds n \<or> \<not> h"
  shows "node_inv (shut_down d r (n\<lparr>nd_tasks := ts, nd_holds := h\<rparr>))"
  using inv t by (cases d) (auto simp: inv_defs node_defs not_in_iff split: if_splits)

lemma stop_inv: "node_inv n \<Longrightarrow> node_inv (stop_node n)"
  by (auto simp: inv_defs node_defs split: if_splits option.splits)

lemma promote_inv:
  assumes inv: "node_inv n" and t: "nd_tasks n = add_mset (Promoting pc) ts" "pc = StoppingReplica \<longrightarrow> nd_loops n = 0"
    and l: "lock_answer pc r (nd_holds n) h"
  shows "node_inv (promote pc r (n\<lparr>nd_tasks := ts, nd_holds := h\<rparr>))"
proof -
  have tr: "nd_transitioning n" "filter_mset is_transition ts = {#}" "Starting \<notin># ts" "nd_loops n \<le> 1" "nd_replicaRunning n \<longrightarrow> nd_loops n = 1"
    "\<forall>d. ShuttingDown d \<in># ts \<longrightarrow> nd_stopping n" "nd_active n \<longrightarrow> nd_stopping n" "\<not> nd_stopping n \<longrightarrow> transition_ok n (Promoting pc)"
    using inv t(1) by (auto simp: node_inv_def transitions_def fresh_start_def split: if_splits)
  show ?thesis
    using tr t(2) l
    by (cases pc) (auto simp: node_inv_def transitions_def beating_def consuming_def guarded_def node_defs
      split: if_splits option.splits)
qed

lemma loop_end_ok: "transition_ok n t \<Longrightarrow> \<not> nd_replicaRunning n \<Longrightarrow> 0 < nd_loops n \<Longrightarrow> transition_ok (n\<lparr>nd_loops := k\<rparr>) t"
proof (cases t)
  case (Promoting pc)
  then show "transition_ok n t \<Longrightarrow> \<not> nd_replicaRunning n \<Longrightarrow> 0 < nd_loops n \<Longrightarrow> ?thesis" by (cases pc) auto
qed auto

lemma step_inv: "node_step n n' \<Longrightarrow> node_inv n \<Longrightarrow> node_inv n'"
proof (induction rule: node_step.induct)
  case (expire n)
  then show ?case by (intro quiet_inv [OF expire]) (auto simp: transitions_def beating_def consuming_def guarded_def fresh_start_def node_inv_def)
next
  case (poll n)
  then show ?case by (auto simp: inv_defs node_defs)
next
  case (loop_end n)
  have "transition_ok n t \<Longrightarrow> transition_ok (n\<lparr>nd_loops := nd_loops n - 1\<rparr>) t" for t
    using loop_end(1,2) by (intro loop_end_ok)
  then show ?case using loop_end by (auto simp: inv_defs split: if_splits)
next
  case (tick h n)
  then have "Starting \<notin># nd_tasks n" by (auto simp: node_inv_def fresh_start_def)
  then show ?case by (intro quiet_inv [OF tick(2)]) (auto simp: transitions_def beating_def consuming_def guarded_def)
next
  case (renewed h n)
  then have "Starting \<notin># nd_tasks n" by (auto simp: node_inv_def fresh_start_def)
  then show ?case by (intro quiet_inv [OF renewed(2)]) (auto simp: transitions_def beating_def consuming_def guarded_def)
next
  case (not_renewed h n)
  let ?n = "n\<lparr>nd_renewing := nd_renewing n - {h}, nd_timers := nd_timers n - {h}\<rparr>"
  have s: "Starting \<notin># nd_tasks n" using not_renewed by (auto simp: node_inv_def fresh_start_def)
  show ?case
  proof (cases "nd_transitioning n")
    case True
    then have "node_inv ?n" using s not_renewed(2)
      by (intro quiet_inv [OF not_renewed(3)]) (auto simp: transitions_def beating_def consuming_def)
    then show ?thesis by (rule lost_inv) (use s in simp)
  next
    case False
    then show ?thesis using s not_renewed by (auto simp: inv_defs node_defs split: option.splits)
  qed
next
  case (reported c n)
  then have "Starting \<notin># nd_tasks n" by (auto simp: node_inv_def fresh_start_def)
  then show ?case by (rule lost_inv [OF reported(2)])
qed (simp_all add: start_inv check_inv promote_inv lose_inv shut_down_inv stop_inv)

lemma reachable_inv: "reachable n \<Longrightarrow> node_inv n"
  by (induction rule: reachable.induct) (auto intro: init_inv step_inv)

subsection \<open>Sample runs\<close>

definition sample_state_of ::
    "nat option \<Rightarrow> nat option \<Rightarrow> bool \<Rightarrow> bool \<Rightarrow> nat \<Rightarrow> nat set \<Rightarrow> nat set \<Rightarrow> nat \<Rightarrow> bool \<Rightarrow> task multiset \<Rightarrow> Node" where
  "sample_state_of c h active transitioning loops consumers timers k holds ts = \<lparr> nd_consumerHandle = c, nd_heartbeatHandle = h,
     nd_active = active, nd_transitioning = transitioning, nd_leadershipLostDuringTransition = False, nd_stopping = False,
     nd_replicaRunning = (loops \<noteq> 0), nd_loops = loops, nd_consumers = consumers, nd_timers = timers, nd_renewing = {},
     nd_next = k, nd_holds = holds, nd_tasks = ts \<rparr>"

lemma reach_promotion:
  assumes "reachable n" "nd_tasks n = {#Promoting pc#}" "pc = StoppingReplica \<longrightarrow> nd_loops n = 0" "lock_answer pc r (nd_holds n) h"
    "n' = promote pc r (n\<lparr>nd_tasks := {#}, nd_holds := h\<rparr>)"
  shows "reachable n'"
  unfolding assms(5) by (rule reachable.step [OF assms(1) node_step.promotion [OF assms(2-4)]])

lemmas sample_node_simps = sample_state_of_def node_defs

text \<open>A promotion from the acquired lock to the started consumer.\<close>

lemma sample_promotion:
  assumes "reachable (sample_state_of c None False True 0 cs {} k True {#Promoting StoppingReplica#})"
  shows "reachable (sample_state_of (Some (Suc k)) (Some k) False True 0 (insert (Suc k) cs) {k} (Suc (Suc k)) True {#Promoting CheckingLeadAgain#})"
proof -
  let ?at = "\<lambda>pc. sample_state_of c (Some k) False True 0 cs {k} (Suc k) True {#Promoting pc#}"
  have 1: "reachable (?at CatchingUp)"
    by (rule reach_promotion [OF assms, of StoppingReplica None True]) (simp_all add: sample_node_simps)
  have 2: "reachable (?at CheckingLead)"
    by (rule reach_promotion [OF 1, of CatchingUp "Some True" True]) (simp_all add: sample_node_simps)
  have 3: "reachable (?at Connecting)"
    by (rule reach_promotion [OF 2, of CheckingLead "Some True" True]) (simp_all add: sample_node_simps)
  have 4: "reachable (?at StartingConsumer)"
    by (rule reach_promotion [OF 3, of Connecting "Some True" True]) (simp_all add: sample_node_simps)
  show ?thesis
    by (rule reach_promotion [OF 4, of StartingConsumer "Some True" True]) (simp_all add: sample_node_simps)
qed

lemma sample_first: "reachable (sample_state_of (Some 1) (Some 0) False True 0 {1} {0} 2 True {#Promoting CheckingLeadAgain#})"
proof -
  have "nd_tasks (new_MatchingNode\<lparr>nd_tasks := {#Starting#}\<rparr>) = add_mset Starting {#}" by simp
  from reachable.step [OF reachable.init node_step.start [OF this]]
  have 1: "reachable (sample_state_of None None False True 0 {} {} 0 False {#Promoting Acquiring#})"
    by (simp add: sample_node_simps new_MatchingNode_def)
  have "reachable (sample_state_of None None False True 0 {} {} 0 True {#Promoting StoppingReplica#})"
    by (rule reach_promotion [OF 1, of Acquiring "Some True" True]) (simp_all add: sample_node_simps)
  from sample_promotion [OF this] show ?thesis by (simp add: numeral_2_eq_2)
qed

lemma sample_active: "reachable (sample_state_of (Some 1) (Some 0) True False 0 {1} {0} 2 True {#})"
  by (rule reach_promotion [OF sample_first, of CheckingLeadAgain "Some True" True]) (simp_all add: sample_node_simps)

text \<open>The last check of a promotion fails; the next promotion succeeds.\<close>

lemma sample_orphan: "reachable (sample_state_of (Some 3) (Some 2) True False 0 {1, 3} {2} 4 True {#})"
proof -
  have 1: "reachable (sample_state_of (Some 1) None False True 0 {1} {} 2 True {#Promoting ReleasingLead#})"
    by (rule reach_promotion [OF sample_first, of CheckingLeadAgain None True]) (simp_all add: sample_node_simps)
  have 2: "reachable (sample_state_of (Some 1) None False False 1 {1} {} 2 False {#})"
    by (rule reach_promotion [OF 1, of ReleasingLead "Some True" False]) (simp_all add: sample_node_simps)
  let ?c = "sample_state_of (Some 1) None False False 1 {1} {} 2 False {#Checking#}"
  have "reachable (checkForPromotion (sample_state_of (Some 1) None False False 1 {1} {} 2 False {#}))"
    by (rule reachable.step [OF 2 node_step.poll]) (simp_all add: sample_state_of_def)
  then have 3: "reachable ?c" by (simp add: sample_node_simps)
  have "nd_tasks ?c = add_mset Checking {#}" by (simp add: sample_state_of_def)
  from reachable.step [OF 3 node_step.check [OF this, of "Some False"]]
  have 4: "reachable (sample_state_of (Some 1) None False True 1 {1} {} 2 False {#Promoting Acquiring#})"
    by (simp add: sample_node_simps)
  let ?s = "sample_state_of (Some 1) None False True 1 {1} {} 2 True {#Promoting StoppingReplica#}\<lparr>nd_replicaRunning := False\<rparr>"
  have 5: "reachable ?s"
    by (rule reach_promotion [OF 4, of Acquiring "Some True" True]) (simp_all add: sample_node_simps)
  have "reachable (?s\<lparr>nd_loops := nd_loops ?s - 1\<rparr>)"
    by (rule reachable.step [OF 5 node_step.loop_end]) (simp_all add: sample_state_of_def)
  then have "reachable (sample_state_of (Some 1) None False True 0 {1} {} 2 True {#Promoting StoppingReplica#})"
    by (simp add: sample_state_of_def)
  from sample_promotion [OF this]
  have 6: "reachable (sample_state_of (Some 3) (Some 2) False True 0 {1, 3} {2} 4 True {#Promoting CheckingLeadAgain#})"
    by (simp add: insert_commute eval_nat_numeral)
  show ?thesis
    by (rule reach_promotion [OF 6, of CheckingLeadAgain "Some True" True]) (simp_all add: sample_node_simps)
qed

subsection \<open>Properties\<close>





text \<open>
  C90. A consumer can be left behind: when the last leadership check of a promotion fails (an
  error of Redis, not a lost lead), the \<^verbatim>\<open>catch\<close> block stops the heartbeat but not the consumer
  it has started; the next promotion starts another one, and an active node then runs two
  consumers on its queue, of which it can stop only the second.
\<close>

theorem consumer_left_behind:
  "\<exists>n. reachable n \<and> nd_active n \<and> \<not> nd_stopping n \<and> nd_consumers n = {1, 3} \<and> nd_consumerHandle n = Some 3"
  using sample_orphan by (intro exI [of _ "sample_state_of (Some 3) (Some 2) True False 0 {1, 3} {2} 4 True {#}"])
    (simp add: sample_state_of_def)

end
