(* ===== verification/Deployment.thy ===== *)
theory Deployment
  imports FailoverProperties
begin

text \<open>
  The deployment: any number of matching nodes on one Redis, each on one of \<open>n\<close> partitions.  A
  node boots by \<^verbatim>\<open>initialize\<close>, follows the logs by \<^verbatim>\<open>catchUp\<close>, takes over a partition that
  has no leader (\<^verbatim>\<open>attemptPromotion\<close> catches up once more and starts the consumer), handles
  messages, loses the lead (\<^verbatim>\<open>handleLeadershipLost\<close> rebuilds the books), crashes.  The steps are
  the models of these functions, in any order and on any node; a step has its own clock.  Two
  leaders of one partition are excluded, as the lock does while its lease runs
  (\<open>lease_exclusive\<close>); a message is only handled by a node that has not reported a lost lead,
  since the node stops the consumer when it is told.
\<close>

subsection \<open>The system\<close>

datatype 'w process = Down | Follows "'w Replica" | Leads "'w Worker"

type_synonym 'w deployment = "'w \<times> (nat \<Rightarrow> 'w process)"

definition leaderless :: "(nat \<Rightarrow> jsval) \<Rightarrow> (nat \<Rightarrow> 'w process) \<Rightarrow> jsval \<Rightarrow> bool" where
  "leaderless part P p \<longleftrightarrow> (\<forall>j s. P j = Leads s \<longrightarrow> part j \<noteq> p)"

text \<open>The worker that a promoted node starts on the books of its replica.\<close>

definition promoted :: "jsval \<Rightarrow> 'w Replica \<Rightarrow> 'w Worker" where
  "promoted p rp = startOrderCommandWorker (rp_books rp) (rp_world rp) p"

inductive deploy_step :: "'w redis \<Rightarrow> ('w \<Rightarrow> Store) \<Rightarrow> int \<Rightarrow> (nat \<Rightarrow> jsval) \<Rightarrow> 'w deployment \<Rightarrow> 'w deployment \<Rightarrow> bool"
  for redis view n part where
  boot: "P k = Down \<Longrightarrow>
    initialize redis clock (part k) (JInt n) \<lparr>rp_books = [], rp_world = w, rp_lastReplayedStreamIds = []\<rparr> = (Inr res, rp) \<Longrightarrow>
    deploy_step redis view n part (w, P) (rp_world rp, P(k := Follows rp))"
| poll: "P k = Follows s \<Longrightarrow> catchUp redis clock (part k) (JInt n) (s\<lparr>rp_world := w\<rparr>) = Some (Inr m, rp) \<Longrightarrow>
    deploy_step redis view n part (w, P) (rp_world rp, P(k := Follows rp))"
| promote: "P k = Follows s \<Longrightarrow> leaderless part P (part k) \<Longrightarrow>
    catchUp redis clock (part k) (JInt n) (s\<lparr>rp_world := w\<rparr>) = Some (Inr m, rp) \<Longrightarrow>
    deploy_step redis view n part (w, P) (rp_world rp, P(k := Leads (promoted (part k) rp)))"
| deliver: "P k = Leads s \<Longrightarrow> \<not> wk_leadershipLossReported s \<Longrightarrow> keeps frame view lead \<Longrightarrow> message_ok message \<Longrightarrow>
    room 1 (message_cost message) (view w) \<Longrightarrow>
    handle_message redis clock message_of lead (part k) (JInt n) tm message (s\<lparr>wk_world := w\<rparr>) = Some s' \<Longrightarrow>
    deploy_step redis view n part (w, P) (wk_world s', P(k := Leads s'))"
| demote: "P k = Leads s \<Longrightarrow>
    initialize redis clock (part k) (JInt n) \<lparr>rp_books = wk_books s, rp_world = w, rp_lastReplayedStreamIds = ids\<rparr> = (Inr res, rp) \<Longrightarrow>
    deploy_step redis view n part (w, P) (rp_world rp, P(k := Follows rp))"
| crash: "deploy_step redis view n part (w, P) (w, P(k := Down))"
| outside: "frame (view w) (view w') \<Longrightarrow> deploy_step redis view n part (w, P) (w', P)"

inductive deploy_run :: "'w redis \<Rightarrow> ('w \<Rightarrow> Store) \<Rightarrow> int \<Rightarrow> (nat \<Rightarrow> jsval) \<Rightarrow> 'w deployment \<Rightarrow> 'w deployment \<Rightarrow> bool"
  for redis view n part where
  here: "deploy_run redis view n part d d"
| next_step: "deploy_run redis view n part d e \<Longrightarrow> deploy_step redis view n part e f \<Longrightarrow> deploy_run redis view n part d f"

subsection \<open>The clock does not matter\<close>

lemma stands_clock:
  assumes "trim symbol \<noteq> []"
  shows "stands_for symbol es (book_of clock books symbol) = stands_for symbol es (book_of clock' books symbol)"
  using fresh_book_ok [OF assms] fresh_view [OF assms, of clock clock']
  by (simp add: stands_for_def book_of_def split: option.split)

lemma behind_clock: "behind clock st books \<Longrightarrow> behind clock' st books"
  using stands_clock [of _ _ clock books clock'] by (simp add: behind_def)

lemma in_step_clock: "in_step p n clock st books \<Longrightarrow> in_step p n clock' st books"
  using stands_clock [of _ _ clock books clock'] assigned_nonempty [of p n] behind_clock [of clock st books clock']
  by (simp add: in_step_def)

lemma follows_clock: "trim symbol \<noteq> [] \<Longrightarrow> follows clock es s symbol = follows clock' es s symbol"
  using stands_clock [of symbol _ clock "rp_books s" clock'] by (simp add: follows_def)

lemma replica_ok_clock: "replica_ok clock p n st s \<Longrightarrow> replica_ok clock' p n st s"
  using follows_clock [of _ clock _ s clock'] assigned_nonempty [of p n] unfolding replica_ok_def by metis

subsection \<open>The invariant\<close>

definition process_ok :: "int \<Rightarrow> (nat \<Rightarrow> nat) \<Rightarrow> jsval \<Rightarrow> Store \<Rightarrow> 'w process \<Rightarrow> bool" where
  "process_ok n clock p st q \<longleftrightarrow> (case q of Down \<Rightarrow> True
     | Follows s \<Rightarrow> replica_ok clock p n st s \<and> behind clock st (rp_books s)
     | Leads s \<Rightarrow> in_step p n clock st (wk_books s) \<or> wk_leadershipLossReported s)"

definition one_leader :: "(nat \<Rightarrow> jsval) \<Rightarrow> (nat \<Rightarrow> 'w process) \<Rightarrow> bool" where
  "one_leader part P \<longleftrightarrow> (\<forall>j k s t. P j = Leads s \<and> P k = Leads t \<and> part j = part k \<longrightarrow> j = k)"

definition deployed :: "('w \<Rightarrow> Store) \<Rightarrow> int \<Rightarrow> (nat \<Rightarrow> jsval) \<Rightarrow> 'w deployment \<Rightarrow> bool" where
  "deployed view n part d \<longleftrightarrow> (case d of (w, P) \<Rightarrow> sound_store (view w) \<and> one_leader part P \<and>
     (\<forall>k clock. process_ok n clock (part k) (view w) (P k)))"

text \<open>A step of another node leaves a process in order when it writes to no log of its partition.\<close>

lemma process_ok_grows:
  assumes "process_ok n clock p a q" "sound_store b" "store_grows a b"
    "\<And>s symbol. q = Leads s \<Longrightarrow> assigned p n symbol \<Longrightarrow> log_of b symbol = log_of a symbol"
  shows "process_ok n clock p b q"
  using assms replica_ok_grows [of clock p n a _ b] behind_grows [of clock a _ b]
  by (cases q) (auto simp: process_ok_def in_step_def)

lemma deployed_update:
  assumes d: "deployed view n part (w, P)" and b: "sound_store (view w')" "store_grows (view w) (view w')"
    and k: "process_ok n clock (part k) (view w') q" "\<And>s. q = Leads s \<Longrightarrow> \<exists>t. P k = Leads t \<or> leaderless part P (part k)"
    and o: "\<And>j s symbol. j \<noteq> k \<Longrightarrow> P j = Leads s \<Longrightarrow> assigned (part j) n symbol \<Longrightarrow>
      log_of (view w') symbol = log_of (view w) symbol"
  shows "deployed view n part (w', P(k := q))"
proof -
  have "process_ok n c (part j) (view w') ((P(k := q)) j)" for j c
  proof (cases "j = k")
    case True
    then show ?thesis using k(1) in_step_clock [of "part k" n clock "view w'" _ c] replica_ok_clock [of clock "part k" n "view w'" _ c]
        behind_clock [of clock "view w'" _ c] by (auto simp: process_ok_def split: process.splits)
  next
    case False
    have "process_ok n c (part j) (view w) (P j)" using d by (simp add: deployed_def)
    from process_ok_grows [OF this b] o [OF False] show ?thesis using False by simp
  qed
  moreover have "one_leader part (P(k := q))"
    using d k(2) by (fastforce simp: deployed_def one_leader_def leaderless_def)
  ultimately show ?thesis using b(1) by (simp add: deployed_def)
qed

subsection \<open>Every step keeps it\<close>

lemma later_update:
  assumes d: "deployed view n part (w, P)" and l: "later (view w) (view w')"
    and k: "process_ok n clock (part k) (view w') q" "\<And>s. q = Leads s \<Longrightarrow> leaderless part P (part k)"
  shows "deployed view n part (w', P(k := q))"
proof (rule deployed_update [OF d _ later_grows [OF l] k(1)])
  show "sound_store (view w')" using d later_sound_store [OF l] by (simp add: deployed_def)
qed (use k(2) later_data [OF l] in auto)

lemma initialized:
  assumes doc: "documented redis view" "reliable redis" "0 < n" and s: "sound_store (view (rp_world s))"
    and r: "initialize redis clock p (JInt n) s = (Inr res, rp)"
  shows "later (view (rp_world s)) (view (rp_world rp))" "process_ok n clock p (view (rp_world rp)) (Follows rp)"
  using initialize_follows [OF doc(1,2) s doc(3), of clock p] r by (auto simp: process_ok_def)

lemma caught_up:
  assumes doc: "documented redis view" "reliable redis" "0 < n" and d: "deployed view n part (w, P)" and f: "P k = Follows s"
  shows "\<exists>m rp. catchUp redis clock (part k) (JInt n) (s\<lparr>rp_world := w\<rparr>) = Some (Inr m, rp) \<and> later (view w) (view (rp_world rp)) \<and>
    process_ok n clock (part k) (view (rp_world rp)) (Follows rp) \<and>
    in_step (part k) n clock (view (rp_world rp)) (rp_books rp)"
proof -
  let ?s = "s\<lparr>rp_world := w\<rparr>"
  have s: "sound_store (view (rp_world ?s))" using d by (simp add: deployed_def)
  have "process_ok n clock (part k) (view w) (P k)" using d by (simp add: deployed_def)
  then have "replica_ok clock (part k) n (view w) s" "behind clock (view w) (rp_books s)" using f by (simp_all add: process_ok_def)
  then have r: "replica_ok clock (part k) n (view (rp_world ?s)) ?s" "behind clock (view (rp_world ?s)) (rp_books ?s)"
    by (simp_all add: replica_ok_def follows_def position_of_def)
  from catch_up_follows [OF doc(1,2) s doc(3) r] later_sound_store [OF _ s] show ?thesis
    by (fastforce simp: process_ok_def in_step_def)
qed

lemma assigned_unique: "assigned p n symbol \<Longrightarrow> assigned q n symbol \<Longrightarrow> p = q"
  by (auto simp: assigned_def isSymbolAssignedToPartition_def seqE_eq_Inr)

lemma delivered:
  assumes doc: "documented redis view" "reliable redis" and lead: "keeps frame view lead" and d: "deployed view n part (w, P)"
    and s: "P k = Leads s" "\<not> wk_leadershipLossReported s" and m: "message_ok message" "room 1 (message_cost message) (view w)"
    and run: "handle_message redis clock message_of lead (part k) (JInt n) tm message (s\<lparr>wk_world := w\<rparr>) = Some s'"
  shows "deployed view n part (wk_world s', P(k := Leads s'))" "store_grows (view w) (view (wk_world s'))"
proof -
  let ?s = "s\<lparr>wk_world := w\<rparr>"
  have r: "room 1 (message_cost message) (view (wk_world ?s))" using m(2) by simp
  note H = handle_in_step [OF doc lead run m(1) r]
  have "process_ok n clock (part k) (view w) (P k)" using d by (simp add: deployed_def)
  then have "in_step (part k) n clock (view (wk_world ?s)) (wk_books ?s)" using s by (simp add: process_ok_def)
  from H(3) [OF this] have i: "process_ok n clock (part k) (view (wk_world s')) (Leads s')" "sound_store (view (wk_world s'))"
    by (auto simp: process_ok_def in_step_def)
  show g: "store_grows (view w) (view (wk_world s'))" using H(1) by (simp add: grows_def)
  show "deployed view n part (wk_world s', P(k := Leads s'))"
  proof (rule deployed_update [OF d i(2) g i(1)])
    fix j t symbol assume j: "j \<noteq> k" "P j = Leads t" "assigned (part j) n symbol"
    have "part j \<noteq> part k" using d j(1,2) s(1) by (auto simp: deployed_def one_leader_def)
    then have "\<not> assigned (part k) n symbol" using assigned_unique [OF j(3)] by blast
    then show "log_of (view (wk_world s')) symbol = log_of (view w) symbol" using H(2) by simp
  qed (use s(1) in blast)
qed

lemma deploy_step_ok:
  assumes doc: "documented redis view" "reliable redis" "0 < n"
    and step: "deploy_step redis view n part d e" and ok: "deployed view n part d"
  shows "deployed view n part e \<and> store_grows (view (fst d)) (view (fst e))"
  using step
proof cases
  case (boot P k clock w res rp)
  have s: "sound_store (view w)" using ok boot(1) by (simp add: deployed_def)
  note I = initialized [OF doc _ boot(4)]
  show ?thesis using later_update [where k = k and q = "Follows rp", OF ok [unfolded boot(1)]] I s later_grows boot(1,2) by simp
next
  case (poll P k s clock w m rp)
  from caught_up [OF doc ok [unfolded poll(1)] poll(3), of clock] poll(4)
  have "later (view w) (view (rp_world rp))" "process_ok n clock (part k) (view (rp_world rp)) (Follows rp)" by auto
  then show ?thesis using later_update [where k = k and q = "Follows rp", OF ok [unfolded poll(1)]] later_grows poll(1,2) by simp
next
  case (promote P k s clock w m rp)
  from caught_up [OF doc ok [unfolded promote(1)] promote(3), of clock] promote(5)
  have "later (view w) (view (rp_world rp))" "in_step (part k) n clock (view (rp_world rp)) (rp_books rp)" by auto
  moreover from this(2) have "process_ok n clock (part k) (view (rp_world rp)) (Leads (promoted (part k) rp))"
    by (simp add: process_ok_def promoted_def startOrderCommandWorker_def)
  ultimately show ?thesis
    using later_update [where k = k and q = "Leads (promoted (part k) rp)", OF ok [unfolded promote(1)]] later_grows promote(1,2,4) by simp
next
  case (deliver P k s lead message w clock message_of tm s')
  from delivered [OF doc(1,2) deliver(5) ok [unfolded deliver(1)] deliver(3,4,6-8)] show ?thesis using deliver(1,2) by simp
next
  case (demote P k s clock w ids res rp)
  have s: "sound_store (view w)" using ok demote(1) by (simp add: deployed_def)
  note I = initialized [OF doc _ demote(4)]
  show ?thesis using later_update [where k = k and q = "Follows rp", OF ok [unfolded demote(1)]] I s later_grows demote(1,2) by simp
next
  case (crash w P k)
  have "deployed view n part (w, P(k := Down))"
    using ok crash(1) by (auto simp: deployed_def one_leader_def process_ok_def)
  then show ?thesis using crash by (simp add: store_grows_def)
next
  case (outside w w' P)
  have l: "log_of (view w') = log_of (view w)" using outside(3) by (simp add: frame_def fun_eq_iff)
  have g: "store_grows (view w) (view w')" using frame_grows [OF outside(3), of 0 0] by (simp add: grows_def)
  have "sound_store (view w')" using ok outside(1) frame_sound_store [OF outside(3)] by (simp add: deployed_def)
  then have "deployed view n part (w', P)"
    using ok outside(1) process_ok_grows [OF _ _ g] l unfolding deployed_def by fastforce
  then show ?thesis using outside(1,2) g by simp
qed

lemma deploy_run_ok:
  assumes doc: "documented redis view" "reliable redis" "0 < n"
    and run: "deploy_run redis view n part d e" and ok: "deployed view n part d"
  shows "deployed view n part e \<and> store_grows (view (fst d)) (view (fst e))"
  using run ok
proof (induction rule: deploy_run.induct)
  case (next_step d e f)
  then show ?case using deploy_step_ok [OF doc next_step.hyps(2)] store_grows_trans by blast
qed (simp add: store_grows_def)

end
