(* ===== verification/DeploymentProperties.thy ===== *)
theory DeploymentProperties
  imports Deployment
begin

text \<open>
  The properties of a deployment of several nodes on one Redis: whatever the order of boots,
  catch-ups, promotions, deliveries, lost leads and crashes, the books in memory are those of the
  logs, and a node that follows can always take over.
\<close>

lemma deployed_start: "sound_store (view w) \<Longrightarrow> deployed view n part (w, \<lambda>_. Down)"
  by (simp add: deployed_def one_leader_def process_ok_def)

lemma run_deployed:
  assumes "documented redis view" "reliable redis" "0 < n" "sound_store (view w0)"
    "deploy_run redis view n part (w0, \<lambda>_. Down) (w, P)"
  shows "deployed view n part (w, P)" "store_grows (view w0) (view w)"
  using deploy_run_ok [OF assms(1-3,5) deployed_start [where view = view, OF assms(4)]] by simp_all

lemma can_boot:
  assumes doc: "documented redis view" "reliable redis" "0 < n" and d: "deployed view n part (w, P)" and k: "P k = Down"
  shows "\<exists>w' rp. deploy_step redis view n part (w, P) (w', P(k := Follows rp))"
proof -
  let ?s = "\<lparr>rp_books = [], rp_world = w, rp_lastReplayedStreamIds = []\<rparr>"
  have "sound_store (view (rp_world ?s))" using d by (simp add: deployed_def)
  from initialize_follows [OF doc(1,2) this doc(3), of id "part k"] show ?thesis using deploy_step.boot [where P = P, OF k] by blast
qed

lemma can_promote:
  assumes doc: "documented redis view" "reliable redis" "0 < n" and d: "deployed view n part (w, P)"
    and f: "P k = Follows s" "leaderless part P (part k)"
  shows "\<exists>w' t. deploy_step redis view n part (w, P) (w', P(k := Leads t)) \<and> \<not> wk_leadershipLossReported t \<and>
    log_of (view w') = log_of (view w) \<and> in_step (part k) n clock (view w') (wk_books t)"
proof -
  obtain m rp where r: "catchUp redis clock (part k) (JInt n) (s\<lparr>rp_world := w\<rparr>) = Some (Inr m, rp)" "later (view w) (view (rp_world rp))"
    "in_step (part k) n clock (view (rp_world rp)) (rp_books rp)" using caught_up [OF doc d f(1)] by blast
  have p: "wk_books (promoted (part k) rp) = rp_books rp" "\<not> wk_leadershipLossReported (promoted (part k) rp)"
    by (simp_all add: promoted_def startOrderCommandWorker_def)
  show ?thesis using deploy_step.promote [where P = P, OF f r(1)] later_data [OF r(2)] r(3) p by metis
qed

subsection \<open>A sample deployment\<close>

text \<open>Two nodes of partition 0 boot, the first is promoted and crashes.\<close>

definition sample_part :: "nat \<Rightarrow> jsval" where
  "sample_part = (\<lambda>_. JInt 0)"

lemma sample_sound: "sound_store sample_store"
proof -
  have l: "log_of sample_store symbol = (if symbol = ''BTC-INR'' then [sample_log_entry] else [])" for symbol
    by (simp add: log_of_def sample_store_def demo_store_def commandLogStreamKey_def)
  have "durable sample_store symbol" if "trim symbol \<noteq> []" for symbol
  proof (cases "symbol = ''BTC-INR''")
    case True
    then show ?thesis using known_durable [OF sample_durable(1,2)] by simp
  next
    case False
    have "durable demo_store symbol" using sample_sound_store that by (simp add: sound_store_def)
    then show ?thesis using False sample_start_facts(1)
      by (simp add: durable_def l) (simp add: sample_store_def log_of_def demo_store_def)
  qed
  moreover have "trim ''BTC-INR'' \<noteq> []" by code_simp
  ultimately show ?thesis by (simp add: sound_store_def l known_def) (simp add: sample_store_def)
qed

lemma sample_deployment: "\<exists>w P t rp. deploy_run demo_redis id 3 sample_part (sample_store, \<lambda>_. Down) (w, P) \<and>
    P 0 = Leads t \<and> \<not> wk_leadershipLossReported t \<and> P 1 = Follows rp"
proof -
  have s0: "deployed id 3 sample_part (sample_store, \<lambda>_. Down)" by (rule deployed_start [where view = id]) (simp add: sample_sound)
  obtain w1 r1 where 1: "deploy_run demo_redis id 3 sample_part (sample_store, \<lambda>_. Down) (w1, (\<lambda>_. Down)(0 := Follows r1))"
    using can_boot [OF demo_documented demo_reliable _ s0, of 0] deploy_run.intros by fastforce
  have s1: "deployed id 3 sample_part (w1, (\<lambda>_. Down)(0 := Follows r1))"
    using deploy_run_ok [OF demo_documented demo_reliable _ 1 s0] by simp
  obtain w2 r2 where 2: "deploy_run demo_redis id 3 sample_part (sample_store, \<lambda>_. Down) (w2, (\<lambda>_. Down)(0 := Follows r1, 1 := Follows r2))"
    using can_boot [OF demo_documented demo_reliable _ s1, of 1] deploy_run.next_step [OF 1] by fastforce
  let ?P = "(\<lambda>_. Down)(0 :: nat := Follows r1, 1 := Follows r2)"
  have s2: "deployed id 3 sample_part (w2, ?P)" using deploy_run_ok [OF demo_documented demo_reliable _ 2 s0] by simp
  have f: "?P 0 = Follows r1" "leaderless sample_part ?P (sample_part 0)" by (simp_all add: leaderless_def)
  obtain w3 t where "deploy_step demo_redis id 3 sample_part (w2, ?P) (w3, ?P(0 := Leads t))" "\<not> wk_leadershipLossReported t"
    using can_promote [OF demo_documented demo_reliable _ s2 f, of id] by auto
  then show ?thesis using deploy_run.next_step [OF 2] by (intro exI [of _ w3] exI [of _ "?P(0 := Leads t)"]) auto
qed

subsection \<open>Properties\<close>





end
