(* ===== verification/StaleLeader.thy ===== *)
theory StaleLeader
  imports SettlementProperties
begin

text \<open>
  What \<^verbatim>\<open>orderCommanderWorker.js\<close> writes after its last check of the lead, and what
  \<^verbatim>\<open>replayCommand.js\<close> makes of it.  The append to the log, the checkpoint and the status are not
  tied to the lease: they are carried out whoever holds the lock by then.
\<close>

subsection \<open>Every write succeeds on a Redis that answers\<close>

lemma events_appended:
  assumes "reliable redis" "mapE (event_fields symbol) evs = Inr fs"
  shows "\<exists>w'. appendEvents redis symbol evs w = (Inr (), w')"
proof -
  obtain rs w' where "redis (map (\<lambda>f. XAdd (eventStreamKey symbol) f maxEventsPerSymbol) fs) w = (Inr rs, w')"
    using assms(1) unfolding reliable_def by blast
  then show ?thesis using assms(2) by (simp add: appendEvents_def bindE_def)
qed

lemma both_answered:
  assumes "\<And>w. \<exists>a w1. m w = (Inr a, w1)" "\<And>w. \<exists>b w2. n w = (Inr b, w2)"
  shows "\<exists>w'. both m n w = (Inr (), w')"
proof -
  obtain a w1 where 1: "m w = (Inr a, w1)" using assms(1) by blast
  obtain b w2 where "n w1 = (Inr b, w2)" using assms(2) by blast
  with 1 show ?thesis by (simp add: both_def)
qed

lemma read_model_saved:
  assumes "reliable redis"
  shows "\<exists>w'. saveReadModel redis (JStr symbol) book result w = (Inr (), w')"
proof -
  note call = reliable_call [OF assms]
  let ?s = "saveBookSnapshot redis (JStr symbol) (snapshot book)" and ?t = "appendTrades redis (JStr symbol) (result_trades result)"
  have "\<exists>w1. ?s w = (Inr (), w1)"
    using both_answered [OF call call] by (simp add: saveBookSnapshot_def text_arg_def)
  then obtain w1 where 1: "?s w = (Inr (), w1)" by blast
  obtain r w2 where 2: "redis_call redis (LPush (recentTradesKey (JStr symbol)) (map json_text (result_trades result))) w1 = (Inr r, w2)"
    using call by blast
  obtain q w3 where "redis_call redis (LTrim (recentTradesKey (JStr symbol)) 0 (int recentTradesLimit - 1)) w2 = (Inr q, w3)"
    using call by blast
  then have "\<exists>w'. ?t w1 = (Inr (), w')" using 2 by (simp add: appendTrades_def bindE_def)
  then show ?thesis using 1 by (auto simp: saveReadModel_def bindE_def)
qed

lemma lead_checked: "\<exists>l s'. checkLeadership lead s = (Inr l, s')"
  by (auto simp: checkLeadership_def split: prod.split sum.split)

lemma checkpoint_saved:
  assumes "documented redis view" "reliable redis"
  shows "\<exists>w'. saveRecoverySnapshot redis (JStr symbol) snap w = (Inr (), w') \<and> log_of (view w') = log_of (view w) \<and>
    st_texts (view w') (recoverySnapshotKey (JStr symbol)) = Some (json_text (JObj snap), None)"
proof -
  let ?c = "SetKey (recoverySnapshotKey (JStr symbol)) (json_text (JObj snap)) Forever"
  obtain r w' t where "redis_call redis ?c w = (Inr r, w')" "answers ?c r ((view w)\<lparr>st_time := t\<rparr>) (view w')"
    using call_reply [OF assms, of ?c w] by blast
  then show ?thesis by (auto simp: saveRecoverySnapshot_def bindE_def log_of_def fun_eq_iff)
qed

text \<open>All of them together: the checkpoint of the book at hand is stored and stays.\<close>

definition holds_checkpoint :: "string \<Rightarrow> jsobj \<Rightarrow> (string \<Rightarrow> (string \<times> fields) list) \<Rightarrow> Store \<Rightarrow> bool" where
  "holds_checkpoint symbol snap lg st \<longleftrightarrow>
     log_of st = lg \<and> st_texts st (recoverySnapshotKey (JStr symbol)) = Some (json_text (JObj snap), None)"

lemma frame_holds: "frame a b \<Longrightarrow> holds_checkpoint symbol snap lg a \<Longrightarrow> holds_checkpoint symbol snap lg b"
  by (simp add: frame_def holds_checkpoint_def fun_eq_iff)

lemma store_result_writes:
  assumes doc: "documented redis view" "reliable redis" and lead: "keeps frame view lead"
    and c: "getp c ''symbol'' = JStr symbol" and evs: "mapE (event_fields (JStr symbol)) (result_events result) = Inr fs"
    and snap: "toRecoverySnapshot i book = Some snap"
  shows "\<exists>s'. store_result redis lead tm c book result i s = (Inr True, s') \<and>
    holds_checkpoint symbol snap (log_of (view (wk_world s))) (view (wk_world s'))"
proof -
  let ?w = "wk_world s" and ?lg = "log_of (view (wk_world s))" and ?evs = "result_events result"
  obtain w1 where 1: "appendEvents redis (JStr symbol) ?evs ?w = (Inr (), w1)" using events_appended [OF doc(2) evs] by blast
  obtain w2 where 2: "saveReadModel redis (JStr symbol) book result w1 = (Inr (), w2)" using read_model_saved [OF doc(2)] by blast
  obtain w3 where 3: "saveRecoverySnapshot redis (JStr symbol) snap w2 = (Inr (), w3)" "log_of (view w3) = log_of (view w2)"
    "st_texts (view w3) (recoverySnapshotKey (JStr symbol)) = Some (json_text (JObj snap), None)" using checkpoint_saved [OF doc] by blast
  obtain w4 where 4: "updateCommandStatus redis (tm_updatedAt tm) c PROCESSED JNull w3 = (Inr (), w4)" using status_saved [OF doc(2)] by blast
  obtain l s5 where 5: "checkLeadership lead (s\<lparr>wk_world := w4\<rparr>) = (Inr l, s5)" using lead_checked by blast
  obtain w6 where 6: "publishMarketEvents redis (tm_publishedAt tm) (JStr symbol) ?evs (wk_world s5) = (Inr (), w6)"
    using publish_returns [of redis "tm_publishedAt tm" "JStr symbol" ?evs "wk_world s5"] by (elim exE)
  have f: "frame (view ?w) (view w1)" "frame (view w1) (view w2)" "frame (view w3) (view w4)"
    "frame (view w4) (view (wk_world s5))" "frame (view (wk_world s5)) (view w6)"
    using keeps_appendEvents [OF doc(1)] 1 keeps_saveReadModel [OF doc(1)] 2 keeps_updateCommandStatus [OF doc(1)] 4
      keeps_publish [OF doc(1)] 6 wkeepsD [OF framed.leadership [OF lead] 5] unfolding keeps_def by (metis snd_conv | simp)+
  have "log_of (view w2) = ?lg" using framed.trans [OF f(1,2)] by (simp add: frame_def fun_eq_iff)
  then have "holds_checkpoint symbol snap ?lg (view w3)" using 3 by (simp add: holds_checkpoint_def)
  then have h: "holds_checkpoint symbol snap ?lg (view w6)" using frame_holds f(3-5) by blast
  let ?s6 = "s5\<lparr>wk_actions := wk_actions s5 @ [Ack], wk_world := w6\<rparr>"
  let ?m = "bindE (if \<not> l then reportLeadershipLost else ret ()) (\<lambda>_. ret True)"
  have "store_result redis lead tm c book result i s = ?m ?s6"
    using 1 2 3(1) 4 5 6 by (simp add: store_result_def Let_def c snap in_world_def bindE_def act_def)
  moreover have "\<exists>s'. ?m ?s6 = (Inr True, s') \<and> wk_world s' = w6"
    by (cases l) (simp_all add: reportLeadershipLost_def act_def bindE_def)
  ultimately show ?thesis using h by auto
qed

subsection \<open>Recovery from it\<close>

lemma nothing_after:
  assumes "documented redis view" "reliable redis" "\<forall>e \<in> set (log_of (view w) symbol). \<not> id_less i (fst e)"
  shows "\<exists>w'. getProcessedCommandsAfter redis (JStr symbol) (JStr i) n w = (Inr [], w')"
proof -
  let ?c = "XRange (commandLogStreamKey (JStr symbol)) (CHR ''('' # i) ''+'' n"
  obtain r w' t where r: "redis_call redis ?c w = (Inr r, w')" "answers ?c r ((view w)\<lparr>st_time := t\<rparr>) (view w')"
    using call_reply [OF assms(1,2), of ?c w] by blast
  have "r = REntries []" using r(2) assms(3) by (simp add: log_of_def)
  then show ?thesis using r(1) by (simp add: getProcessedCommandsAfter_def bindE_def reply_entries_def)
qed

lemma recover_checkpoint:
  assumes doc: "documented redis view" "reliable redis" and b: "book_ok b" "toRecoverySnapshot (JStr i) b = Some snap"
    and st: "holds_checkpoint symbol snap lg (view (rp_world s))" and i: "i \<noteq> []" "\<forall>e \<in> set (lg symbol). \<not> id_less i (fst e)"
    and t: "trim symbol \<noteq> []"
  shows "\<exists>res s'. recoverSymbolFromCommandLog redis clock symbol s = (Inr res, s') \<and>
    abs_book (book_of clock (rp_books s') symbol) = abs_book b"
proof -
  let ?snap = "json_clean (JObj snap)"
  obtain w where w: "getRecoverySnapshot redis (JStr symbol) (rp_world s) = (Inr ?snap, w)" "later (view (rp_world s)) (view w)"
    using read_key [OF doc, of "rp_world s" "recoverySnapshotKey (JStr symbol)" "Some (json_text (JObj snap), None)"] st
    by (auto simp: getRecoverySnapshot_def holds_checkpoint_def json_text_def json_parse_def)
  obtain b' where b': "fromRecoverySnapshot clock ?snap = Inr b'" "abs_book b' = abs_book b"
    using restore_book [OF b(1), of "JStr i" clock] b(2) by (metis option.inject)
  have lk: "links_ok b" using b(1) by (simp add: book_ok_def)
  have cp: "getp (props ?snap) ''lastCommandStreamId'' = JStr i" "truthy ?snap"
    using b(2) unfolding toRecoverySnapshot_eq [OF lk] by (auto simp: json_clean_obj clean_props_def truthy_def)
  have "log_of (view w) = lg" using st later_data [OF w(2)] by (simp add: holds_checkpoint_def)
  then obtain w2 where w2: "getProcessedCommandsAfter redis (JStr symbol) (JStr i) 100000 w = (Inr [], w2)"
    using nothing_after [OF doc] i(2) by metis
  let ?s' = "s\<lparr>rp_books := map_set (rp_books s) symbol b', rp_world := w2\<rparr>"
  have "\<exists>res. recoverSymbolFromCommandLog redis clock symbol s = (Inr res, ?s')"
    unfolding recoverSymbolFromCommandLog_def on_world_bind [where m = "getRecoverySnapshot redis (JStr symbol)", OF w(1)]
    using i(1) t w2 b'(1) cp by (simp add: Let_def truthy_def bindE_def on_books_def on_world_def setBook_def validateSymbol_def)
  moreover have "abs_book (book_of clock (rp_books ?s') symbol) = abs_book b" using b'(2) by (simp add: book_of_def map_get_set)
  ultimately show ?thesis by blast
qed

subsection \<open>A sample: a leader that outlives its lease\<close>

text \<open>
  A node with empty books executes the sale \<open>a2\<close> and finds itself the leader; while it pauses, another
  node has logged the sale \<open>a1\<close> (the store \<open>sample_store\<close>).
\<close>

definition stale_command :: jsobj where
  "stale_command = [(''commandId'', JStr ''c2''), (''type'', JStr ''PLACE_LIMIT_ORDER''), (''symbol'', JStr ''BTC-INR''),
     (''payload'', JObj (sample_input ''a2'' SELL 102 4))]"

lemma stale_events: "case executeOrderCommand (\<lambda>_. 0) stale_command [] of
    (Inr r, books) \<Rightarrow> \<not> isl (mapE (event_fields (JStr ''BTC-INR'')) (result_events r)) | _ \<Rightarrow> False"
  by code_simp

lemma stale_executes:
  "\<exists>book res fs s1. execute_command (\<lambda>_. 0) stale_command sample_worker = (Inr (book, res), s1) \<and> book_ok book \<and>
     resting SELL book = [sample_node ''a2'' SELL 102 4] \<and> mapE (event_fields (JStr ''BTC-INR'')) (result_events res) = Inr fs"
proof -
  let ?cl = "\<lambda>_ :: nat. 0 :: nat"
  have t: "trim ''BTC-INR'' \<noteq> []" by code_simp
  have c: "getp stale_command ''symbol'' = JStr ''BTC-INR''" by (simp add: stale_command_def)
  obtain r bs where ex: "executeOrderCommand ?cl stale_command [] = (Inr r, bs)" and ev: "\<not> isl (mapE (event_fields (JStr ''BTC-INR'')) (result_events r))"
    using stale_events by (auto split: prod.splits sum.splits)
  have "run_command (origin ''BTC-INR'') (JStr ''PLACE_LIMIT_ORDER'', JObj (sample_input ''a2'' SELL 102 4)) = (Inr r, book_of ?cl bs ''BTC-INR'')"
    using executed_books(1) [OF t c ex] by (simp add: stale_command_def origin_def)
  then have "snd (placeLimitOrder (sample_input ''a2'' SELL 102 4) (origin ''BTC-INR'')) = book_of ?cl bs ''BTC-INR''"
    by (auto simp: run_command_def dispatch_def with_payload_def nullish_def bindE_def split: prod.splits sum.splits)
  moreover have "sample_state (snd (placeLimitOrder (sample_input ''a2'' SELL 102 4) (origin ''BTC-INR''))) [] [sample_node ''a2'' SELL 102 4]"
    using sample_step [OF sample_origin(1), of "''a2''" 102 4 SELL] sample_trims by (simp add: spec_insert_def)
  ultimately have b: "book_ok (book_of ?cl bs ''BTC-INR'')" "resting SELL (book_of ?cl bs ''BTC-INR'') = [sample_node ''a2'' SELL 102 4]"
    by (simp_all add: sample_state_def)
  have "executeOrderCommand ?cl stale_command (wk_books sample_worker) = (Inr r, bs)" using ex by simp
  note E = execute_command_effect [OF t c this]
  obtain fs where "mapE (event_fields (JStr ''BTC-INR'')) (result_events r) = Inr fs"
    using ev by (cases "mapE (event_fields (JStr ''BTC-INR'')) (result_events r)") simp_all
  then show ?thesis using E b by auto
qed

subsection \<open>Properties\<close>

text \<open>
  C39. Recovery trusts the last writer: whatever the log of a symbol holds by then, a worker that
  has passed its last check of the lead appends its command and stores its book as the
  checkpoint of the whole log, and a recovery returns that book.  (A leader that pauses longer
  than its lease thereby erases what its successor has executed: see the witness.)
\<close>

theorem recovery_trusts_last_writer:
  assumes "documented redis view" "reliable redis" "keeps frame view lead" "book_ok book"
    "getp c ''commandId'' = JStr i" "getp c ''symbol'' = JStr symbol" "getp c ''type'' = JStr ty" "trim symbol \<noteq> []"
    "mapE (event_fields (JStr symbol)) (result_events result) = Inr efs"
  shows "\<exists>s' entryId fs. record_command redis lead tm c book result s = (Inr True, s') \<and>
    log_fields (tm_processedAt tm) c = Inr fs \<and> (entryId, fs) = last (log_of (view (wk_world s')) symbol) \<and>
    (\<forall>clock rp. rp_world rp = wk_world s' \<longrightarrow> (\<exists>res rp'. recoverSymbolFromCommandLog redis clock symbol rp = (Inr res, rp') \<and>
       abs_book (book_of clock (rp_books rp') symbol) = abs_book book))"
proof -
  obtain fs where fs: "log_fields (tm_processedAt tm) c = Inr fs" using assms(5-7) by (simp add: log_fields_def text_arg_def)
  obtain v w where a: "appendProcessedCommand redis (tm_processedAt tm) c (wk_world s) = (Inr v, w)"
    using append_succeeds [OF assms(2) fs assms(5,6)] by blast
  obtain e where e: "v = JStr e" "appended symbol i fs e (view (wk_world s)) (view w)"
    using append_effect [OF assms(1,5,6) fs a] by auto
  obtain d where d: "log_of (view w) symbol = drop d (log_of (view (wk_world s)) symbol @ [(e, fs)])"
    "d = 0 \<or> d + maxCommandsPerSymbol \<le> Suc (length (log_of (view (wk_world s)) symbol))"
    using e(2) by (auto simp: appended_def)
  have dl: "d \<le> length (log_of (view (wk_world s)) symbol)" using d(2) by (auto simp: maxCommandsPerSymbol_def)
  then have l: "last (log_of (view w) symbol) = (e, fs)" by (simp add: d(1))
  have after: "\<not> id_less e (fst x)" if "x \<in> set (log_of (view w) symbol)" for x
  proof -
    have "x \<in> set (log_of (view (wk_world s)) symbol) \<or> x = (e, fs)" using in_set_dropD [of x d] that dl by (auto simp: d(1))
    moreover have "\<forall>x \<in> set (log_of (view (wk_world s)) symbol). id_less (fst x) e" using e(2) by (simp add: appended_def)
    ultimately show ?thesis using id_less_asym by auto
  qed
  have lk: "links_ok book" using assms(4) by (simp add: book_ok_def)
  obtain snap where sn: "toRecoverySnapshot (JStr e) book = Some snap" using toRecoverySnapshot_eq [OF lk] by blast
  let ?s = "s\<lparr>wk_world := w\<rparr>"
  obtain s' where s': "store_result redis lead tm c book result (JStr e) ?s = (Inr True, s')"
    "holds_checkpoint symbol snap (log_of (view w)) (view (wk_world s'))"
    using store_result_writes [OF assms(1-3,6,9) sn, where s = ?s] by auto
  have "record_command redis lead tm c book result s = (Inr True, s')"
    using a s'(1) by (simp add: record_command_def in_world_def bindE_def e(1))
  moreover have "\<exists>res rp'. recoverSymbolFromCommandLog redis clock symbol rp = (Inr res, rp') \<and>
      abs_book (book_of clock (rp_books rp') symbol) = abs_book book" if "rp_world rp = wk_world s'" for clock rp
    using recover_checkpoint [OF assms(1,2,4) sn _ _ _ assms(8), of "log_of (view w)" rp] s'(2) that after e(2) id_not_empty
    by (simp add: appended_def)
  moreover have "(e, fs) = last (log_of (view (wk_world s')) symbol)" using s'(2) l by (simp add: holds_checkpoint_def)
  ultimately show ?thesis using fs by blast
qed

theorem recovery_trusts_last_writer_witness:
  "\<exists>book result s1 s2 res rp. execute_command (\<lambda>_. 0) stale_command sample_worker = (Inr (book, result), s1) \<and>
     record_command demo_redis (ret False) sample_times stale_command book result (s1\<lparr>wk_world := sample_store\<rparr>) = (Inr True, s2) \<and>
     recoverSymbolFromCommandLog demo_redis id ''BTC-INR'' (sample_replica\<lparr>rp_world := wk_world s2\<rparr>) = (Inr res, rp) \<and>
     map on_orderId (ab_asks (rebuilt ''BTC-INR'' (log_of sample_store ''BTC-INR''))) = [''a1''] \<and>
     map on_orderId (ab_asks (abs_book (book_of id (rp_books rp) ''BTC-INR''))) = [''a2'']"
proof -
  obtain book result fs s1 where b: "execute_command (\<lambda>_. 0) stale_command sample_worker = (Inr (book, result), s1)" "book_ok book"
    "resting SELL book = [sample_node ''a2'' SELL 102 4]" "mapE (event_fields (JStr ''BTC-INR'')) (result_events result) = Inr fs"
    using stale_executes by blast
  have k: "keeps frame id (ret False)" by (simp add: keeps_def framed.refl)
  have c: "getp stale_command ''commandId'' = JStr ''c2''" "getp stale_command ''symbol'' = JStr ''BTC-INR''"
    "getp stale_command ''type'' = JStr ''PLACE_LIMIT_ORDER''" by (simp_all add: stale_command_def)
  have t: "trim ''BTC-INR'' \<noteq> []" by code_simp
  obtain s2 where s2: "record_command demo_redis (ret False) sample_times stale_command book result (s1\<lparr>wk_world := sample_store\<rparr>) = (Inr True, s2)"
    and r: "\<forall>clock rp. rp_world rp = wk_world s2 \<longrightarrow> (\<exists>res rp'. recoverSymbolFromCommandLog demo_redis clock ''BTC-INR'' rp = (Inr res, rp') \<and>
       abs_book (book_of clock (rp_books rp') ''BTC-INR'') = abs_book book)"
    using recovery_trusts_last_writer [OF demo_documented demo_reliable k b(2) c t b(4)] by blast
  obtain res rp where "recoverSymbolFromCommandLog demo_redis id ''BTC-INR'' (sample_replica\<lparr>rp_world := wk_world s2\<rparr>) = (Inr res, rp)"
    "abs_book (book_of id (rp_books rp) ''BTC-INR'') = abs_book book"
    using r [rule_format, of "sample_replica\<lparr>rp_world := wk_world s2\<rparr>" id] by auto
  moreover from this(2) have "map on_orderId (ab_asks (abs_book (book_of id (rp_books rp) ''BTC-INR''))) = [''a2'']"
    using b(3) by (simp add: abs_book_def untimed_def sample_node_def)
  ultimately show ?thesis using b(1) s2 sample_log(2) sample_durable(3) by auto
qed

end
