(* ===== verification/RabbitConnection.thy ===== *)
theory RabbitConnection
  imports Worker
begin

text \<open>
  \<^verbatim>\<open>src/infrastructure/rabbitmq\<close>: the connection to RabbitMQ with its retries, the queues
  it declares, and the command bus that publishes on it.  The client library is a parameter, a
  function that runs a call on an unknown world and answers, or fails; the calls the program
  has made, and the times it slept, are kept in their order.  The two variables of the module
  are components of the state.
\<close>

subsection \<open>rabbitConfig.js\<close>

definition ORDER_COMMANDS_DLQ :: string where
  "ORDER_COMMANDS_DLQ = ''order.commands.dlq''"

definition ORDER_COMMANDS_DLX :: string where
  "ORDER_COMMANDS_DLX = ''order.commands.dlx''"

subsection \<open>The client library\<close>

datatype amqp_call =
    Connect string
  | CreateChannel nat                                  \<comment> \<open>of a connection\<close>
  | AssertExchange nat string string                   \<comment> \<open>channel, name, type\<close>
  | AssertQueue nat string "(string \<times> string) option"  \<comment> \<open>channel, name, dead letter exchange and key\<close>
  | BindQueue nat string string string
  | SendToQueue nat string stored
  | CloseChannel nat
  | CloseConnection nat
  | Sleep nat                                          \<comment> \<open>\<^verbatim>\<open>setTimeout\<close>, not a call of the library\<close>

datatype amqp_reply = Handle nat | Written bool

type_synonym 'w amqp = "amqp_call \<Rightarrow> ('w, js_error, amqp_reply) prog"

record 'w Rabbit =
  mq_connection :: "nat option"
  mq_channel :: "nat option"
  mq_world :: 'w
  mq_calls :: "amqp_call list"

type_synonym ('w, 'r) mqprog = "('w Rabbit, js_error, 'r) prog"

definition amqp_do :: "'w amqp \<Rightarrow> amqp_call \<Rightarrow> ('w, amqp_reply) mqprog" where
  "amqp_do amqp c = (\<lambda>s. case amqp c (mq_world s) of (r, w) \<Rightarrow>
     (r, s\<lparr>mq_world := w, mq_calls := mq_calls s @ [c]\<rparr>))"

definition handle_of :: "amqp_reply \<Rightarrow> nat" where
  "handle_of r = (case r of Handle h \<Rightarrow> h | Written b \<Rightarrow> 0)"

definition written :: "amqp_reply \<Rightarrow> bool" where
  "written r \<longleftrightarrow> (case r of Written b \<Rightarrow> b | Handle h \<Rightarrow> True)"

definition sleep :: "nat \<Rightarrow> 'w Rabbit \<Rightarrow> 'w Rabbit" where
  "sleep ms s = s\<lparr>mq_calls := mq_calls s @ [Sleep ms]\<rparr>"

subsection \<open>rabbitConnection.js\<close>

definition assert_queue :: "'w amqp \<Rightarrow> nat \<Rightarrow> nat \<Rightarrow> ('w, unit) mqprog" where
  "assert_queue amqp channel i =
     bindE (amqp_do amqp (AssertQueue channel (getOrderCommandQueueName (JInt (int i))) (Some (ORDER_COMMANDS_DLX, ORDER_COMMANDS_DLQ))))
       (\<lambda>_. ret ())"

text \<open>The loop \<^verbatim>\<open>for (let i = 0; i < partitionCount; i++)\<close>, on a number that need not be an integer.\<close>

function assert_queues_from :: "'w amqp \<Rightarrow> nat \<Rightarrow> rat \<Rightarrow> nat \<Rightarrow> ('w, unit) mqprog" where
  "assert_queues_from amqp channel partitionCount i =
    (if of_nat i < partitionCount
     then bindE (assert_queue amqp channel i) (\<lambda>_. assert_queues_from amqp channel partitionCount (Suc i))
     else ret ())"
  by pat_completeness auto
termination by (relation "measure (\<lambda>(_, _, n, i). nat (\<lceil>n\<rceil> - int i))") (auto simp: less_ceiling_iff)

declare assert_queues_from.simps [simp del]

definition assertPartitionQueues :: "'w amqp \<Rightarrow> nat \<Rightarrow> rat \<Rightarrow> ('w, unit) mqprog" where
  "assertPartitionQueues amqp channel partitionCount = assert_queues_from amqp channel partitionCount 0"

definition partition_queues :: "'w amqp \<Rightarrow> nat \<Rightarrow> jsval \<Rightarrow> jsval \<Rightarrow> ('w, unit) mqprog" where
  "partition_queues amqp channel partitionId partitionCount =
    (case (partitionId, partitionCount) of
       (JNum _, JNum n) \<Rightarrow> assertPartitionQueues amqp channel n
     | _ \<Rightarrow> ret ())"

text \<open>The body of the \<^verbatim>\<open>try\<close> block.\<close>

definition connect_once :: "'w amqp \<Rightarrow> string \<Rightarrow> jsval \<Rightarrow> jsval \<Rightarrow> ('w, nat) mqprog" where
  "connect_once amqp rabbitUrl partitionId partitionCount =
     bindE (amqp_do amqp (Connect rabbitUrl)) (\<lambda>r. let connection = handle_of r in
     bindE (modify (\<lambda>s. s\<lparr>mq_connection := Some connection\<rparr>)) (\<lambda>_.
     bindE (amqp_do amqp (CreateChannel connection)) (\<lambda>r. let channel = handle_of r in
     bindE (modify (\<lambda>s. s\<lparr>mq_channel := Some channel\<rparr>)) (\<lambda>_.
     bindE (amqp_do amqp (AssertExchange channel ORDER_COMMANDS_DLX ''direct'')) (\<lambda>_.
     bindE (amqp_do amqp (AssertQueue channel ORDER_COMMANDS_DLQ None)) (\<lambda>_.
     bindE (amqp_do amqp (BindQueue channel ORDER_COMMANDS_DLQ ORDER_COMMANDS_DLX ORDER_COMMANDS_DLQ)) (\<lambda>_.
     bindE (partition_queues amqp channel partitionId partitionCount) (\<lambda>_.
     ret channel))))))))"

definition forget_connection :: "'w Rabbit \<Rightarrow> 'w Rabbit" where
  "forget_connection s = s\<lparr>mq_connection := None, mq_channel := None\<rparr>"

fun connect_attempts :: "'w amqp \<Rightarrow> string \<Rightarrow> jsval \<Rightarrow> jsval \<Rightarrow> nat \<Rightarrow> nat \<Rightarrow> js_error \<Rightarrow> ('w, nat) mqprog" where
  "connect_attempts amqp rabbitUrl partitionId partitionCount delayMs 0 lastError s = (Inl lastError, s)"
| "connect_attempts amqp rabbitUrl partitionId partitionCount delayMs (Suc retries) lastError s =
    (case connect_once amqp rabbitUrl partitionId partitionCount s of
       (Inr channel, s') \<Rightarrow> (Inr channel, s')
     | (Inl error, s') \<Rightarrow>
         connect_attempts amqp rabbitUrl partitionId partitionCount delayMs retries error (sleep delayMs (forget_connection s')))"

definition connectRabbitMQ :: "'w amqp \<Rightarrow> string \<Rightarrow> nat \<Rightarrow> nat \<Rightarrow> jsval \<Rightarrow> jsval \<Rightarrow> ('w, nat) mqprog" where
  "connectRabbitMQ amqp rabbitUrl retries delayMs partitionId partitionCount = (\<lambda>s.
     case mq_channel s of
       Some channel \<Rightarrow> (Inr channel, s)
     | None \<Rightarrow> connect_attempts amqp rabbitUrl partitionId partitionCount delayMs retries ThrownUndefined s)"

text \<open>The default arguments.\<close>

definition default_retries :: nat where
  "default_retries = 10"

definition default_delayMs :: nat where
  "default_delayMs = 2000"

definition getRabbitChannel :: "('w, nat) mqprog" where
  "getRabbitChannel = (\<lambda>s. case mq_channel s of None \<Rightarrow> (Inl ChannelNotInitialized, s) | Some channel \<Rightarrow> (Inr channel, s))"

definition closeRabbitMQ :: "'w amqp \<Rightarrow> ('w, unit) mqprog" where
  "closeRabbitMQ amqp =
     bindE (gets mq_channel) (\<lambda>channel.
     bindE (case channel of None \<Rightarrow> ret ()
       | Some ch \<Rightarrow> bindE (amqp_do amqp (CloseChannel ch)) (\<lambda>_. modify (\<lambda>s. s\<lparr>mq_channel := None\<rparr>))) (\<lambda>_.
     bindE (gets mq_connection) (\<lambda>connection.
     case connection of None \<Rightarrow> ret ()
       | Some c \<Rightarrow> bindE (amqp_do amqp (CloseConnection c)) (\<lambda>_. modify (\<lambda>s. s\<lparr>mq_connection := None\<rparr>)))))"

subsection \<open>RabbitOrderCommandBus.js\<close>

definition bus_queue :: "jsval \<Rightarrow> string" where
  "bus_queue partitionId = (if is_number partitionId then getOrderCommandQueueName partitionId
     else getOrderCommandQueueName (JInt 0))"

definition publish :: "'w amqp \<Rightarrow> string \<Rightarrow> jsobj \<Rightarrow> jsval \<Rightarrow> ('w, jsobj) mqprog" where
  "publish amqp rabbitUrl command partitionId =
     bindE (connectRabbitMQ amqp rabbitUrl default_retries default_delayMs JUndef JUndef) (\<lambda>channel.
     bindE (amqp_do amqp (SendToQueue channel (bus_queue partitionId) (json_text (JObj command)))) (\<lambda>r.
     if \<not> written r then throw WriteBufferFull else ret command))"

end
