(* ===== verification/Api.thy ===== *)
theory Api
  imports RabbitConnection
begin

text \<open>
  \<^verbatim>\<open>src/api/routes\<close>, \<^verbatim>\<open>src/api/middleware\<close> and the health check of
  \<^verbatim>\<open>src/api/app.js\<close>: the handlers of the HTTP requests.  A handler gets the decoded
  parameters of the path and the parsed body (undefined when there is none), and answers a status
  and an object, or throws: \<^verbatim>\<open>next(error)\<close> passes the error to \<^verbatim>\<open>errorHandler\<close>.  Identifiers
  and readings of the clock are parameters.  A handler runs on the state of the connection to
  RabbitMQ; its \<open>mq_world\<close> is Redis as well.
\<close>

datatype response = Response nat jsobj

definition in_service :: "('w, 'r) rdprog \<Rightarrow> ('w, 'r) mqprog" where
  "in_service f = (\<lambda>s. case f (mq_world s) of (r, w) \<Rightarrow> (r, s\<lparr>mq_world := w\<rparr>))"

definition json_ok :: "jsobj \<Rightarrow> response" where
  "json_ok answer = Response 200 ((''success'', JBool True) # answer)"

definition not_found :: "string \<Rightarrow> response" where
  "not_found error = Response 404 [(''success'', JBool False), (''error'', JStr error)]"

subsection \<open>middleware\<close>

definition errorHandler :: "(js_error \<Rightarrow> string) \<Rightarrow> js_error \<Rightarrow> response" where
  "errorHandler message_of error = Response 400 [(''success'', JBool False), (''error'', JStr (message_of error))]"

definition notFoundHandler :: "string \<Rightarrow> string \<Rightarrow> response" where
  "notFoundHandler request_method originalUrl = not_found (''Route not found: '' @ request_method @ '' '' @ originalUrl)"

definition health :: response where
  "health = json_ok [(''data'', JObj [(''status'', JStr ''ok''), (''service'', JStr ''lob-matching-engine'')])]"

text \<open>A handler inside its \<^verbatim>\<open>try\<close>.\<close>

definition handle_request :: "(js_error \<Rightarrow> string) \<Rightarrow> ('w, response) mqprog \<Rightarrow> 'w Rabbit \<Rightarrow> response \<times> 'w Rabbit" where
  "handle_request message_of f s =
    (case f s of (Inl error, s') \<Rightarrow> (errorHandler message_of error, s') | (Inr answer, s') \<Rightarrow> (answer, s'))"

subsection \<open>Commands: bookRoutes.js\<close>

text \<open>What a request makes new: the identifier, \<^verbatim>\<open>createdAt\<close>, and the time of the status.\<close>

record Fresh =
  fr_commandId :: string
  fr_createdAt :: nat
  fr_now :: nat

definition createOrderCommand :: "Fresh \<Rightarrow> string \<Rightarrow> string \<Rightarrow> jsobj \<Rightarrow> jsobj" where
  "createOrderCommand fr type symbol payload =
     [(''commandId'', JStr (fr_commandId fr)),
      (''type'', JStr type),
      (''symbol'', JStr symbol),
      (''payload'', JObj payload),
      (''createdAt'', JInt (int (fr_createdAt fr)))]"

definition createQueuedResponse :: "jsobj \<Rightarrow> jsobj \<Rightarrow> jsobj" where
  "createQueuedResponse command extraData =
     [(''success'', JBool True),
      (''data'', JObj (spread
        [(''status'', JStr ''QUEUED''),
         (''commandId'', getp command ''commandId''),
         (''commandType'', getp command ''type''),
         (''symbol'', getp command ''symbol'')] extraData))]"

definition saveQueuedCommandStatus :: "'w redis \<Rightarrow> Fresh \<Rightarrow> jsobj \<Rightarrow> ('w, unit) rdprog" where
  "saveQueuedCommandStatus redis fr command =
     saveStatus redis
      [(''commandId'', getp command ''commandId''),
       (''symbol'', getp command ''symbol''),
       (''type'', getp command ''type''),
       (''status'', command_status_val QUEUED),
       (''reason'', JNull),
       (''createdAt'', coalesce (getp command ''createdAt'') (JInt (int (fr_now fr)))),
       (''updatedAt'', JInt (int (fr_now fr)))]"

text \<open>The environment of the process: the services, the broker's address and \<^verbatim>\<open>PARTITION_COUNT\<close>.\<close>

record 'w Env =
  env_redis :: "'w redis"
  env_amqp :: "'w amqp"
  env_rabbitUrl :: string
  env_partitionCount :: jsval

text \<open>What every handler does with its command.\<close>

definition submit_command :: "'w Env \<Rightarrow> Fresh \<Rightarrow> string \<Rightarrow> jsval \<Rightarrow> jsobj \<Rightarrow> ('w, response) mqprog" where
  "submit_command env fr symbol orderId command =
     bindE (in_service (saveQueuedCommandStatus (env_redis env) fr command)) (\<lambda>_.
     bindE (liftE (getPartitionId (JStr symbol) (env_partitionCount env))) (\<lambda>partitionId.
     bindE (publish (env_amqp env) (env_rabbitUrl env) command (JInt partitionId)) (\<lambda>_.
     ret (Response 202 (createQueuedResponse command [(''orderId'', orderId)])))))"

text \<open>The properties a handler takes from the body; destructuring undefined and null throws.\<close>

definition pick :: "string list \<Rightarrow> jsval \<Rightarrow> jsobj" where
  "pick ks body = map (\<lambda>k. (k, getp (props body) k)) ks"

definition post_order :: "string \<Rightarrow> string list \<Rightarrow> 'w Env \<Rightarrow> Fresh \<Rightarrow> string \<Rightarrow> jsval \<Rightarrow> ('w, response) mqprog" where
  "post_order type ks env fr symbol body =
    (if nullish body then throw TypeErr
     else submit_command env fr symbol (getp (props body) ''orderId'')
            (createOrderCommand fr type symbol (pick ks body)))"

definition post_limit :: "'w Env \<Rightarrow> Fresh \<Rightarrow> string \<Rightarrow> jsval \<Rightarrow> ('w, response) mqprog" where
  "post_limit = post_order ''PLACE_LIMIT_ORDER''
     [''orderId'', ''userId'', ''side'', ''priceTicks'', ''quantity'', ''timestamp'']"

definition post_market :: "'w Env \<Rightarrow> Fresh \<Rightarrow> string \<Rightarrow> jsval \<Rightarrow> ('w, response) mqprog" where
  "post_market = post_order ''PLACE_MARKET_ORDER''
     [''orderId'', ''userId'', ''side'', ''quantity'', ''timestamp'']"

definition post_stop_market :: "'w Env \<Rightarrow> Fresh \<Rightarrow> string \<Rightarrow> jsval \<Rightarrow> ('w, response) mqprog" where
  "post_stop_market = post_order ''PLACE_STOP_MARKET_ORDER''
     [''orderId'', ''userId'', ''side'', ''triggerPriceTicks'', ''quantity'', ''timestamp'']"

definition post_stop_limit :: "'w Env \<Rightarrow> Fresh \<Rightarrow> string \<Rightarrow> jsval \<Rightarrow> ('w, response) mqprog" where
  "post_stop_limit = post_order ''PLACE_STOP_LIMIT_ORDER''
     [''orderId'', ''userId'', ''side'', ''triggerPriceTicks'', ''priceTicks'', ''quantity'', ''timestamp'']"

definition post_trailing_stop_market :: "'w Env \<Rightarrow> Fresh \<Rightarrow> string \<Rightarrow> jsval \<Rightarrow> ('w, response) mqprog" where
  "post_trailing_stop_market = post_order ''PLACE_TRAILING_STOP_MARKET_ORDER''
     [''orderId'', ''userId'', ''side'', ''trailingAmountTicks'', ''quantity'', ''timestamp'']"

definition delete_order :: "'w Env \<Rightarrow> Fresh \<Rightarrow> string \<Rightarrow> string \<Rightarrow> ('w, response) mqprog" where
  "delete_order env fr symbol orderId =
     submit_command env fr symbol (JStr orderId)
       (createOrderCommand fr ''CANCEL_ORDER'' symbol [(''orderId'', JStr orderId)])"

subsection \<open>Queries\<close>

definition get_symbols :: "'w Env \<Rightarrow> ('w, response) mqprog" where
  "get_symbols env = bindE (in_service (book_getSymbols (env_redis env))) (\<lambda>symbols.
     ret (json_ok [(''data'', JObj [(''symbols'', JArr (map JStr symbols))])]))"

definition get_book :: "'w Env \<Rightarrow> string \<Rightarrow> ('w, response) mqprog" where
  "get_book env symbol = bindE (in_service (getBookSnapshot (env_redis env) (JStr symbol))) (\<lambda>redisSnapshot.
     ret (if \<not> truthy redisSnapshot then not_found (''book snapshot not found for symbol: '' @ symbol)
          else json_ok [(''source'', JStr ''REDIS''), (''data'', redisSnapshot)]))"

definition get_trades :: "'w Env \<Rightarrow> string \<Rightarrow> ('w, response) mqprog" where
  "get_trades env symbol = bindE (in_service (getTrades (env_redis env) (JStr symbol) 100)) (\<lambda>redisTrades.
     ret (json_ok [(''source'', JStr ''REDIS''), (''data'', JObj [(''symbol'', JStr symbol), (''trades'', JArr redisTrades)])]))"

definition get_command_status :: "'w Env \<Rightarrow> string \<Rightarrow> ('w, response) mqprog" where
  "get_command_status env commandId = bindE (in_service (getStatus (env_redis env) (JStr commandId))) (\<lambda>commandStatus.
     ret (if \<not> truthy commandStatus then not_found (''command status not found: '' @ commandId)
          else json_ok [(''data'', commandStatus)]))"

text \<open>
  \<^verbatim>\<open>Number(request.query.limit ?? 100)\<close>, as the \<^verbatim>\<open>COUNT\<close> of \<^verbatim>\<open>XRANGE\<close>: Redis takes a
  negative one as zero and refuses what is no integer.
\<close>

definition query_limit :: "jsval \<Rightarrow> nat res" where
  "query_limit limit = (case to_number (coalesce limit (JInt 100)) of
     Fin r \<Rightarrow> if of_int \<lfloor>r\<rfloor> = r then Inr (nat \<lfloor>r\<rfloor>) else Inl ServiceError
   | _ \<Rightarrow> Inl ServiceError)"

definition get_commands :: "'w Env \<Rightarrow> string \<Rightarrow> jsval \<Rightarrow> ('w, response) mqprog" where
  "get_commands env symbol limit =
     bindE (liftE (query_limit limit)) (\<lambda>n.
     bindE (in_service (getProcessedCommands (env_redis env) (JStr symbol) ''-'' ''+'' n)) (\<lambda>commands.
     ret (json_ok [(''data'', JObj [(''symbol'', JStr symbol), (''commands'', JArr (map (\<lambda>e.
       JObj [(''id'', JStr (le_id e)), (''command'', le_command e)]) commands))])])))"

definition get_events :: "'w Env \<Rightarrow> string \<Rightarrow> jsval \<Rightarrow> ('w, response) mqprog" where
  "get_events env symbol limit =
     bindE (liftE (query_limit limit)) (\<lambda>n.
     bindE (in_service (getEvents (env_redis env) (JStr symbol) ''-'' ''+'' n)) (\<lambda>events.
     ret (json_ok [(''data'', JObj [(''symbol'', JStr symbol), (''events'', JArr (map (\<lambda>(entryId, event).
       JObj [(''id'', JStr entryId), (''event'', event)]) events))])])))"

definition get_recovery_snapshot :: "'w Env \<Rightarrow> string \<Rightarrow> ('w, response) mqprog" where
  "get_recovery_snapshot env symbol = bindE (in_service (getRecoverySnapshot (env_redis env) (JStr symbol))) (\<lambda>snapshot.
     ret (if \<not> truthy snapshot then not_found (''recovery snapshot not found for symbol: '' @ symbol)
          else json_ok [(''data'', snapshot)]))"

subsection \<open>app.js: the routes\<close>

datatype request =
    GetHealth
  | GetSymbols
  | GetBook string
  | GetTrades string
  | PostLimit string jsval
  | PostMarket string jsval
  | PostStopMarket string jsval
  | PostStopLimit string jsval
  | PostTrailingStopMarket string jsval
  | DeleteOrder string string
  | GetCommandStatus string
  | GetEvents string jsval
  | GetCommands string jsval
  | GetRecoverySnapshot string
  | OtherRequest string string          \<comment> \<open>method and url of no route\<close>

fun routes :: "'w Env \<Rightarrow> Fresh \<Rightarrow> request \<Rightarrow> ('w, response) mqprog" where
  "routes env fr GetHealth = ret health"
| "routes env fr GetSymbols = get_symbols env"
| "routes env fr (GetBook symbol) = get_book env symbol"
| "routes env fr (GetTrades symbol) = get_trades env symbol"
| "routes env fr (PostLimit symbol body) = post_limit env fr symbol body"
| "routes env fr (PostMarket symbol body) = post_market env fr symbol body"
| "routes env fr (PostStopMarket symbol body) = post_stop_market env fr symbol body"
| "routes env fr (PostStopLimit symbol body) = post_stop_limit env fr symbol body"
| "routes env fr (PostTrailingStopMarket symbol body) = post_trailing_stop_market env fr symbol body"
| "routes env fr (DeleteOrder symbol orderId) = delete_order env fr symbol orderId"
| "routes env fr (GetCommandStatus commandId) = get_command_status env commandId"
| "routes env fr (GetEvents symbol limit) = get_events env symbol limit"
| "routes env fr (GetCommands symbol limit) = get_commands env symbol limit"
| "routes env fr (GetRecoverySnapshot symbol) = get_recovery_snapshot env symbol"
| "routes env fr (OtherRequest request_method url) = ret (notFoundHandler request_method url)"

definition app :: "(js_error \<Rightarrow> string) \<Rightarrow> 'w Env \<Rightarrow> Fresh \<Rightarrow> request \<Rightarrow> 'w Rabbit \<Rightarrow> response \<times> 'w Rabbit" where
  "app message_of env fr request = handle_request message_of (routes env fr request)"

end
