(* ===== verification/RabbitProofs.thy ===== *)
theory RabbitProofs
  imports RabbitConnection
begin

text \<open>
  What a connection attempt calls, in which order, and what the retries leave behind.
\<close>

definition queue_call :: "nat \<Rightarrow> nat \<Rightarrow> amqp_call" where
  "queue_call channel i =
     AssertQueue channel (getOrderCommandQueueName (JInt (int i))) (Some (ORDER_COMMANDS_DLX, ORDER_COMMANDS_DLQ))"

definition queue_calls :: "nat \<Rightarrow> jsval \<Rightarrow> jsval \<Rightarrow> amqp_call list" where
  "queue_calls channel partitionId partitionCount =
    (case (partitionId, partitionCount) of
       (JNum _, JNum n) \<Rightarrow> map (queue_call channel) [0..<nat \<lceil>n\<rceil>]
     | _ \<Rightarrow> [])"

definition topology :: "string \<Rightarrow> nat \<Rightarrow> nat \<Rightarrow> jsval \<Rightarrow> jsval \<Rightarrow> amqp_call list" where
  "topology rabbitUrl connection channel partitionId partitionCount =
     [Connect rabbitUrl, CreateChannel connection, AssertExchange channel ORDER_COMMANDS_DLX ''direct'',
      AssertQueue channel ORDER_COMMANDS_DLQ None, BindQueue channel ORDER_COMMANDS_DLQ ORDER_COMMANDS_DLX ORDER_COMMANDS_DLQ] @
     queue_calls channel partitionId partitionCount"

fun is_connect :: "amqp_call \<Rightarrow> bool" where
  "is_connect (Connect u) = True"
| "is_connect c = False"

fun is_sleep :: "amqp_call \<Rightarrow> bool" where
  "is_sleep (Sleep ms) = True"
| "is_sleep c = False"

definition connects :: "amqp_call list \<Rightarrow> nat" where
  "connects cs = length (filter is_connect cs)"

lemma connects_simps [simp]: "connects [] = 0" "connects (c # cs) = (if is_connect c then Suc (connects cs) else connects cs)"
    "connects (cs @ ds) = connects cs + connects ds"
  by (simp_all add: connects_def)

lemma amqp_doE:
  assumes "amqp_do amqp c s = (r, s')"
  obtains w where "s' = s\<lparr>mq_world := w, mq_calls := mq_calls s @ [c]\<rparr>"
  using assms by (auto simp: amqp_do_def split: prod.splits)

subsection \<open>Relations between the states before and after\<close>

definition preserves :: "('s \<Rightarrow> 's \<Rightarrow> bool) \<Rightarrow> ('s, 'e, 'a) prog \<Rightarrow> bool" where
  "preserves R m \<longleftrightarrow> (\<forall>s. R s (snd (m s)))"

lemma preservesD: "preserves R m \<Longrightarrow> m s = (r, s') \<Longrightarrow> R s s'"
  unfolding preserves_def by (metis snd_conv)

locale run_relation =
  fixes R :: "'s \<Rightarrow> 's \<Rightarrow> bool"
  assumes refl: "R s s"
    and trans: "R s t \<Longrightarrow> R t u \<Longrightarrow> R s u"
begin

lemma bind: "preserves R m \<Longrightarrow> (\<And>x. preserves R (f x)) \<Longrightarrow> preserves R (bindE m f)"
  unfolding preserves_def bindE_def by (auto split: prod.split sum.split intro: trans) (metis snd_conv trans)

lemma pure: "preserves R (ret x)" "preserves R (throw e)"
  by (simp_all add: preserves_def refl)

lemma lift: "(\<And>x. r = Inr x \<Longrightarrow> preserves R (f x)) \<Longrightarrow> preserves R (bindE (liftE r) f)"
  by (cases r) (simp_all add: preserves_def refl)

lemma cond: "(b \<Longrightarrow> preserves R m) \<Longrightarrow> (\<not> b \<Longrightarrow> preserves R n) \<Longrightarrow> preserves R (if b then m else n)"
  by simp

end

text \<open>Calls are only added, all of a kind; and, no connection being made, the two variables stay.\<close>

definition adds :: "(amqp_call \<Rightarrow> bool) \<Rightarrow> 'w Rabbit \<Rightarrow> 'w Rabbit \<Rightarrow> bool" where
  "adds P s s' \<longleftrightarrow> (\<exists>new. mq_calls s' = mq_calls s @ new \<and> list_all P new)"

definition quiet :: "'w Rabbit \<Rightarrow> 'w Rabbit \<Rightarrow> bool" where
  "quiet s s' \<longleftrightarrow> mq_channel s' = mq_channel s \<and> mq_connection s' = mq_connection s \<and> adds (\<lambda>c. \<not> is_connect c) s s'"

interpretation adding: run_relation "adds P" for P
  by unfold_locales (force simp: adds_def)+

interpretation quietly: run_relation quiet
  by unfold_locales (auto simp: quiet_def intro: adding.refl adding.trans)

lemma connects_none: "list_all (\<lambda>c. \<not> is_connect c) cs \<Longrightarrow> connects cs = 0"
  by (induction cs) auto

lemma quietE:
  assumes "preserves quiet m" "m s = (r, s')"
  obtains new where "mq_channel s' = mq_channel s" "mq_connection s' = mq_connection s"
    "mq_calls s' = mq_calls s @ new" "connects new = 0"
  using preservesD [OF assms] connects_none unfolding quiet_def adds_def by blast

lemma adds_do: "P c \<Longrightarrow> preserves (adds P) (amqp_do amqp c)"
  by (simp add: preserves_def adds_def amqp_do_def split_def)

lemma quiet_do: "\<not> is_connect c \<Longrightarrow> preserves quiet (amqp_do amqp c)"
  by (simp add: preserves_def quiet_def adds_def amqp_do_def split_def)

subsection \<open>A connection\<close>

lemma quiet_queues: "preserves quiet (assert_queues_from amqp channel n i)"
proof (induction amqp channel n i rule: assert_queues_from.induct)
  case (1 amqp channel n i)
  then show ?case
    by (subst assert_queues_from.simps) (simp add: assert_queue_def quietly.pure quietly.bind quiet_do)
qed

lemma quiet_partition_queues: "preserves quiet (partition_queues amqp channel p n)"
  by (simp add: partition_queues_def assertPartitionQueues_def quiet_queues quietly.pure split: jsval.split)

lemma queues_calls:
  "assert_queues_from amqp channel n i s = (Inr u, s') \<Longrightarrow>
     mq_calls s' = mq_calls s @ map (queue_call channel) [i..<nat \<lceil>n\<rceil>]"
proof (induction amqp channel n i arbitrary: s rule: assert_queues_from.induct)
  case (1 amqp channel n i)
  show ?case
  proof (cases "of_nat i < n")
    case False
    then have "nat \<lceil>n\<rceil> \<le> i" by (simp add: nat_le_iff ceiling_le_iff)
    then show ?thesis using False 1(2) by (subst (asm) assert_queues_from.simps) auto
  next
    case True
    then obtain s1 where a: "assert_queue amqp channel i s = (Inr (), s1)" "assert_queues_from amqp channel n (Suc i) s1 = (Inr u, s')"
      using 1(2) by (subst (asm) assert_queues_from.simps) (auto simp: bindE_eq_Inr)
    have "mq_calls s1 = mq_calls s @ [queue_call channel i]"
      using a(1) by (auto simp: assert_queue_def bindE_eq_Inr queue_call_def elim!: amqp_doE)
    moreover have "i < nat \<lceil>n\<rceil>" using True by (simp add: zless_nat_eq_int_zless less_ceiling_iff)
    ultimately show ?thesis using 1(1) [OF True a(2)] by (simp add: upt_conv_Cons)
  qed
qed

lemma partition_queues_calls:
  "partition_queues amqp channel p n s = (Inr u, s') \<Longrightarrow> mq_calls s' = mq_calls s @ queue_calls channel p n"
  by (auto simp: partition_queues_def assertPartitionQueues_def queue_calls_def split: jsval.splits dest: queues_calls)

text \<open>A successful attempt, and a failed one.\<close>

lemma connect_once_Inr:
  assumes "connect_once amqp url p n s = (Inr channel, s')"
  shows "mq_channel s' = Some channel" "\<exists>c. mq_connection s' = Some c \<and> mq_calls s' = mq_calls s @ topology url c channel p n"
proof -
  have "\<exists>s1 c. partition_queues amqp channel p n s1 = (Inr (), s') \<and> mq_channel s1 = Some channel \<and> mq_connection s1 = Some c \<and>
    mq_calls s1 = mq_calls s @ butlast (topology url c channel JUndef JUndef) @ [BindQueue channel ORDER_COMMANDS_DLQ ORDER_COMMANDS_DLX ORDER_COMMANDS_DLQ]"
    using assms unfolding connect_once_def Let_def bindE_eq_Inr topology_def queue_calls_def
    by (fastforce elim!: amqp_doE)
  then obtain s1 c where s2: "partition_queues amqp channel p n s1 = (Inr (), s')" "mq_channel s1 = Some channel" "mq_connection s1 = Some c"
    "mq_calls s1 = mq_calls s @ butlast (topology url c channel JUndef JUndef) @ [BindQueue channel ORDER_COMMANDS_DLQ ORDER_COMMANDS_DLX ORDER_COMMANDS_DLQ]"
    by blast
  obtain new where "mq_channel s' = mq_channel s1" "mq_connection s' = mq_connection s1"
    using quietE [OF quiet_partition_queues s2(1)] by metis
  then show "mq_channel s' = Some channel" "\<exists>c. mq_connection s' = Some c \<and> mq_calls s' = mq_calls s @ topology url c channel p n"
    using partition_queues_calls [OF s2(1)] s2(2-4) by (auto simp: topology_def queue_calls_def)
qed

lemma connect_once_connects:
  assumes "connect_once amqp url p n s = (r, s')"
  shows "\<exists>new. mq_calls s' = mq_calls s @ new \<and> connects new = 1"
proof -
  let ?rest = "\<lambda>channel. bindE (amqp_do amqp (AssertExchange channel ORDER_COMMANDS_DLX ''direct'')) (\<lambda>_.
     bindE (amqp_do amqp (AssertQueue channel ORDER_COMMANDS_DLQ None)) (\<lambda>_.
     bindE (amqp_do amqp (BindQueue channel ORDER_COMMANDS_DLQ ORDER_COMMANDS_DLX ORDER_COMMANDS_DLQ)) (\<lambda>_.
     bindE (partition_queues amqp channel p n) (\<lambda>_. ret channel))))"
  have q: "preserves quiet (?rest channel)" for channel
    by (intro quietly.bind quiet_do quiet_partition_queues quietly.pure) simp_all
  obtain a s1 where a: "amqp_do amqp (Connect url) s = (a, s1)" by fastforce
  then have c1: "mq_calls s1 = mq_calls s @ [Connect url]" by (auto elim!: amqp_doE)
  show ?thesis
  proof (cases a)
    case (Inl e)
    then show ?thesis using assms a c1 by (simp add: connect_once_def bindE_def Let_def)
  next
    case (Inr x)
    let ?s1 = "s1\<lparr>mq_connection := Some (handle_of x)\<rparr>"
    obtain b s2 where b: "amqp_do amqp (CreateChannel (handle_of x)) ?s1 = (b, s2)" by fastforce
    then have c2: "mq_calls s2 = mq_calls s @ [Connect url, CreateChannel (handle_of x)]" using c1 by (auto elim!: amqp_doE)
    show ?thesis
    proof (cases b)
      case (Inl e)
      then show ?thesis using assms a b c2 \<open>a = Inr x\<close> by (simp add: connect_once_def bindE_def Let_def)
    next
      case (Inr y)
      let ?s2 = "s2\<lparr>mq_channel := Some (handle_of y)\<rparr>"
      have "connect_once amqp url p n s = ?rest (handle_of y) ?s2"
        using a b \<open>a = Inr x\<close> Inr by (simp add: connect_once_def bindE_def Let_def)
      then obtain new where "mq_calls s' = mq_calls ?s2 @ new" "connects new = 0"
        using quietE [OF q, of "handle_of y" ?s2 r s'] assms by (metis)
      then show ?thesis using c2 by simp
    qed
  qed
qed

text \<open>The retries.\<close>

lemma connect_attempts_cases:
  assumes "connect_attempts amqp url p n d k e s = (r, s')"
  shows "\<exists>new. mq_calls s' = mq_calls s @ new \<and> connects new \<le> k \<and>
    (case r of Inr channel \<Rightarrow> mq_channel s' = Some channel \<and> (\<exists>c before. mq_connection s' = Some c \<and> new = before @ topology url c channel p n)
     | Inl e' \<Rightarrow> connects new = k \<and> (k \<noteq> 0 \<longrightarrow> mq_channel s' = None \<and> mq_connection s' = None))"
  using assms
proof (induction k arbitrary: e s)
  case 0
  then show ?case by (auto intro!: exI [of _ "[]"])
next
  case (Suc k)
  obtain q s1 where q: "connect_once amqp url p n s = (q, s1)" by fastforce
  obtain n1 where n1: "mq_calls s1 = mq_calls s @ n1" "connects n1 = 1" using connect_once_connects [OF q] by blast
  show ?case
  proof (cases q)
    case (Inr channel)
    then have "r = Inr channel" "s' = s1" using Suc.prems q by simp_all
    moreover obtain c where "mq_channel s1 = Some channel" "mq_connection s1 = Some c" "mq_calls s1 = mq_calls s @ topology url c channel p n"
      using connect_once_Inr q Inr by metis
    ultimately show ?thesis using n1 by (intro exI [of _ n1]) auto
  next
    case (Inl e1)
    let ?s1 = "sleep d (forget_connection s1)"
    have c: "mq_calls ?s1 = mq_calls s @ n1 @ [Sleep d]" by (simp add: sleep_def forget_connection_def n1)
    have "connect_attempts amqp url p n d k e1 ?s1 = (r, s')" using Suc.prems q Inl by simp
    note run = this Suc.IH [OF this]
    then obtain n2 where n2: "mq_calls s' = mq_calls ?s1 @ n2" "connects n2 \<le> k"
      "case r of Inr channel \<Rightarrow> mq_channel s' = Some channel \<and> (\<exists>c before. mq_connection s' = Some c \<and> n2 = before @ topology url c channel p n)
       | Inl e' \<Rightarrow> connects n2 = k \<and> (k \<noteq> 0 \<longrightarrow> mq_channel s' = None \<and> mq_connection s' = None)" by blast
    have none: "k = 0 \<Longrightarrow> mq_channel s' = None \<and> mq_connection s' = None" using run(1) by (auto simp: sleep_def forget_connection_def)
    show ?thesis
      using n1(2) n2 c none by (intro exI [of _ "n1 @ Sleep d # n2"]) (cases r; force)
  qed
qed

lemma connectRabbitMQ_cases:
  assumes "connectRabbitMQ amqp url k d p n s = (r, s')" "mq_channel s = None"
  shows "\<exists>new. mq_calls s' = mq_calls s @ new \<and> connects new \<le> k \<and>
    (case r of Inr channel \<Rightarrow> mq_channel s' = Some channel \<and> (\<exists>c before. mq_connection s' = Some c \<and> new = before @ topology url c channel p n)
     | Inl e' \<Rightarrow> connects new = k \<and> (k \<noteq> 0 \<longrightarrow> mq_channel s' = None \<and> mq_connection s' = None))"
  using connect_attempts_cases assms by (auto simp: connectRabbitMQ_def)

lemma connectRabbitMQ_channel:
  assumes "connectRabbitMQ amqp url k d p n s = (Inr channel, s')"
  shows "mq_channel s' = Some channel"
  using assms connectRabbitMQ_cases [OF assms] by (cases "mq_channel s") (auto simp: connectRabbitMQ_def)

lemma declared_queue:
  assumes "getPartitionId symbol (JInt n) = Inr p"
  shows "queue_call channel (nat p) \<in> set (topology url c channel (JInt i) (JInt n))" "0 \<le> p"
proof -
  have r: "0 \<le> p" "p < n"
    using assms by (auto simp: getPartitionId_def seqE_def split: if_splits sum.splits)
  then show "0 \<le> p" "queue_call channel (nat p) \<in> set (topology url c channel (JInt i) (JInt n))"
    by (auto simp: topology_def queue_calls_def)
qed

end
