(* ===== verification/ApiProperties.thy ===== *)
theory ApiProperties
  imports Api RabbitProofs WorkerProperties
begin

text \<open>
  The properties of the API: what a request answered with 202 has done, and the queues a node
  declares.
\<close>

subsection \<open>Which calls a computation makes\<close>

fun is_send :: "amqp_call \<Rightarrow> bool" where
  "is_send (SendToQueue channel q t) = True"
| "is_send c = False"

abbreviation silent :: "('w, 'a) mqprog \<Rightarrow> bool" where
  "silent \<equiv> preserves (adds (\<lambda>c. \<not> is_send c))"

lemma adds_modify: "(\<And>s. mq_calls (f s) = mq_calls s) \<Longrightarrow> preserves (adds P) (modify f)"
  by (simp add: preserves_def adds_def)

lemmas adding_rules = adding.bind adding.pure adds_do adds_modify

lemma silent_queues: "silent (assert_queues_from amqp channel n i)"
proof (induction amqp channel n i rule: assert_queues_from.induct)
  case (1 amqp channel n i)
  then show ?case by (subst assert_queues_from.simps) (simp add: assert_queue_def adding_rules)
qed

lemma silent_once: "silent (connect_once amqp url p n)"
  unfolding connect_once_def Let_def partition_queues_def assertPartitionQueues_def
  by (intro adding_rules; simp add: adding_rules silent_queues split: jsval.split)

lemma silent_attempts:
  "connect_attempts amqp url p n d k e s = (r, s') \<Longrightarrow> adds (\<lambda>c. \<not> is_send c) s s'"
proof (induction k arbitrary: e s)
  case (Suc k)
  obtain q s1 where q: "connect_once amqp url p n s = (q, s1)" by fastforce
  note one = preservesD [OF silent_once q]
  show ?case
  proof (cases q)
    case (Inl e1)
    let ?s1 = "sleep d (forget_connection s1)"
    have "connect_attempts amqp url p n d k e1 ?s1 = (r, s')" using Suc.prems q Inl by simp
    moreover have "adds (\<lambda>c. \<not> is_send c) s1 ?s1" by (simp add: adds_def sleep_def forget_connection_def)
    ultimately show ?thesis using Suc.IH one adding.trans by blast
  qed (use Suc.prems q one in auto)
qed (simp add: adding.refl)

lemma silent_connect: "silent (connectRabbitMQ amqp url k d p n)"
  unfolding preserves_def
proof
  fix s obtain r s' where "connectRabbitMQ amqp url k d p n s = (r, s')" by fastforce
  then show "adds (\<lambda>c. \<not> is_send c) s (snd (connectRabbitMQ amqp url k d p n s))"
    using silent_attempts adding.refl by (auto simp: connectRabbitMQ_def split: option.splits)
qed

lemma silent_service: "in_service f s = (r, s') \<Longrightarrow> mq_calls s' = mq_calls s"
  by (auto simp: in_service_def split: prod.splits)

subsection \<open>A submitted command\<close>

lemma publish_sends:
  assumes "publish amqp url command partitionId s = (Inr x, s')"
  shows "\<exists>channel before. mq_calls s' = mq_calls s @ before @ [SendToQueue channel (bus_queue partitionId) (json_text (JObj command))] \<and>
    list_all (\<lambda>c. \<not> is_send c) before"
proof -
  obtain channel s1 r where c: "connectRabbitMQ amqp url default_retries default_delayMs JUndef JUndef s = (Inr channel, s1)"
    "amqp_do amqp (SendToQueue channel (bus_queue partitionId) (json_text (JObj command))) s1 = (Inr r, s')"
    using assms by (auto simp: publish_def bindE_eq_Inr split: if_splits)
  then obtain before where "mq_calls s1 = mq_calls s @ before" "list_all (\<lambda>c. \<not> is_send c) before"
    using preservesD [OF silent_connect c(1)] unfolding adds_def by blast
  then show ?thesis using c(2) by (auto elim!: amqp_doE)
qed

lemma submit_sends:
  assumes "submit_command env fr symbol orderId command s = (Inr answer, s')"
  shows "\<exists>p channel before. getPartitionId (JStr symbol) (env_partitionCount env) = Inr p \<and>
    mq_calls s' = mq_calls s @ before @ [SendToQueue channel (bus_queue (JInt p)) (json_text (JObj command))] \<and>
    list_all (\<lambda>c. \<not> is_send c) before \<and> answer = Response 202 (createQueuedResponse command [(''orderId'', orderId)])"
proof -
  obtain s1 p x where c: "in_service (saveQueuedCommandStatus (env_redis env) fr command) s = (Inr (), s1)"
    "getPartitionId (JStr symbol) (env_partitionCount env) = Inr p"
    "publish (env_amqp env) (env_rabbitUrl env) command (JInt p) s1 = (Inr x, s')"
    "answer = Response 202 (createQueuedResponse command [(''orderId'', orderId)])"
    using assms by (cases "getPartitionId (JStr symbol) (env_partitionCount env)") (auto simp: submit_command_def bindE_eq_Inr)
  then show ?thesis using publish_sends [OF c(3)] silent_service [OF c(1)] by auto
qed

lemmas request_handlers = post_limit_def post_market_def post_stop_market_def post_stop_limit_def
  post_trailing_stop_market_def delete_order_def post_order_def

lemma clean_idem: "json_clean (json_clean v) = json_clean v"
proof (induction v rule: json_clean.induct)
  case (1 vs)
  have "json_clean v = JUndef \<longleftrightarrow> v = JUndef" for v by (cases v) auto
  then show ?case using 1 by simp
next
  case (2 ps)
  have u: "json_clean v = JUndef \<longleftrightarrow> v = JUndef" for v by (cases v) auto
  show ?case using 2 by (fastforce simp: filter_map comp_def u)
qed simp_all

text \<open>What the worker of the symbol's partition reads.\<close>

lemma clean_props_plain: "plain_props (clean_props ps)"
  by (induction ps) (auto simp: clean_props_def json_plain_def clean_idem)

definition sent_command :: "Fresh \<Rightarrow> string \<Rightarrow> string \<Rightarrow> jsobj \<Rightarrow> jsobj" where
  "sent_command fr type symbol payload =
     [(''commandId'', JStr (fr_commandId fr)), (''type'', JStr type), (''symbol'', JStr symbol),
      (''payload'', JObj (clean_props payload)), (''createdAt'', JInt (int (fr_createdAt fr)))]"

lemma command_text: "json_text (JObj (createOrderCommand fr type symbol payload)) = Json (JObj (sent_command fr type symbol payload))"
  by (simp add: json_text_def createOrderCommand_def sent_command_def clean_props_def)

lemma clean_object: "json_clean (JObj (clean_props payload)) = JObj (clean_props payload)"
  using clean_idem [of "JObj payload"] by (simp only: json_clean_obj)

lemma command_message_ok:
  assumes "stop_request_ok (JStr type) (JObj (clean_props payload))"
  shows "message_ok (Some (json_text (JObj (createOrderCommand fr type symbol payload))))"
proof -
  have "plain_props (sent_command fr type symbol payload)"
    using clean_object [of payload] by (simp add: sent_command_def plain_props_def json_plain_def del: json_clean.simps(2))
  then show ?thesis using assms by (simp add: message_ok_def command_text) (simp add: sent_command_def)
qed

lemma command_processed:
  assumes "getPartitionId (JStr symbol) n = Inr p"
  shows "process_message redis clock lead (JInt p) n tm (json_text (JObj (createOrderCommand fr type symbol payload))) =
    process_command redis clock lead tm (sent_command fr type symbol payload)"
  using assms by (intro ext) (simp add: process_message_def command_text parseMessage_def json_parse_def prop_of_def nullish_def
      sent_command_def)

subsection \<open>The engine reads only what a handler forwards\<close>

lemma getp_pick: "getp (pick ks body) k = (if k \<in> set ks then getp (props body) k else JUndef)"
  by (induction ks) (auto simp: pick_def)

lemma plain_body: "json_plain body \<Longrightarrow> json_plain (getp (props body) k)"
proof (cases body)
  case (JObj ps)
  assume "json_plain body"
  then have "clean_props ps = ps" by (simp only: JObj json_plain_def json_clean_obj jsval.inject)
  then show ?thesis using plain_getp clean_props_plain JObj by (metis props_JObj)
qed (simp_all add: props_def)

lemma forwarded:
  assumes "json_plain body" "distinct ks" "k \<in> set ks"
  shows "getp (clean_props (pick ks body)) k = getp (props body) k"
proof -
  have "distinct (map fst (pick ks body))" using assms(2) by (simp add: pick_def comp_def)
  then show ?thesis using plain_body [OF assms(1), of k] assms(3) by (simp add: getp_clean getp_pick json_plain_def)
qed

lemma placeLimitOrder_reads:
  "\<forall>k \<in> {''orderId'', ''userId'', ''side'', ''priceTicks'', ''quantity'', ''timestamp''}. getp a k = getp b k \<Longrightarrow>
    placeLimitOrder a = placeLimitOrder b"
  by (simp add: placeLimitOrder_def limit_input_def cong: if_cong)

lemma placeMarketOrder_reads:
  "\<forall>k \<in> {''orderId'', ''userId'', ''side'', ''quantity'', ''timestamp''}. getp a k = getp b k \<Longrightarrow>
    placeMarketOrder a = placeMarketOrder b"
  by (simp add: placeMarketOrder_def market_input_def cong: if_cong)

lemma placeStop_reads:
  "\<forall>k \<in> {''orderId'', ''userId'', ''side'', ''triggerPriceTicks'', ''quantity'', ''timestamp''}. getp a k = getp b k \<Longrightarrow>
    placeStopMarketOrder a = placeStopMarketOrder b"
  "\<forall>k \<in> {''orderId'', ''userId'', ''side'', ''triggerPriceTicks'', ''priceTicks'', ''quantity'', ''timestamp''}. getp a k = getp b k \<Longrightarrow>
    placeStopLimitOrder a = placeStopLimitOrder b"
  "\<forall>k \<in> {''orderId'', ''userId'', ''side'', ''trailingAmountTicks'', ''quantity'', ''timestamp''}. getp a k = getp b k \<Longrightarrow>
    placeTrailingStopMarketOrder a = placeTrailingStopMarketOrder b"
  by (simp_all add: placeStopMarketOrder_def stop_market_object_def placeStopLimitOrder_def stop_limit_object_def
      placeTrailingStopMarketOrder_def trailing_stop_object_def cong: if_cong option.case_cong)

lemmas engine_reads = placeLimitOrder_reads placeMarketOrder_reads placeStop_reads

text \<open>What a request asks for: the symbol, the command type, the object sent by the client and the fields forwarded.\<close>

fun asked :: "request \<Rightarrow> (string \<times> string \<times> jsval \<times> string list) option" where
  "asked (PostLimit symbol body) = Some (symbol, ''PLACE_LIMIT_ORDER'', body,
     [''orderId'', ''userId'', ''side'', ''priceTicks'', ''quantity'', ''timestamp''])"
| "asked (PostMarket symbol body) = Some (symbol, ''PLACE_MARKET_ORDER'', body,
     [''orderId'', ''userId'', ''side'', ''quantity'', ''timestamp''])"
| "asked (PostStopMarket symbol body) = Some (symbol, ''PLACE_STOP_MARKET_ORDER'', body,
     [''orderId'', ''userId'', ''side'', ''triggerPriceTicks'', ''quantity'', ''timestamp''])"
| "asked (PostStopLimit symbol body) = Some (symbol, ''PLACE_STOP_LIMIT_ORDER'', body,
     [''orderId'', ''userId'', ''side'', ''triggerPriceTicks'', ''priceTicks'', ''quantity'', ''timestamp''])"
| "asked (PostTrailingStopMarket symbol body) = Some (symbol, ''PLACE_TRAILING_STOP_MARKET_ORDER'', body,
     [''orderId'', ''userId'', ''side'', ''trailingAmountTicks'', ''quantity'', ''timestamp''])"
| "asked (DeleteOrder symbol orderId) = Some (symbol, ''CANCEL_ORDER'', JObj [(''orderId'', JStr orderId)], [''orderId''])"
| "asked r = None"

lemma dispatch_object: "\<not> nullish body \<Longrightarrow> dispatch (JStr type) body = dispatch (JStr type) (JObj (props body))"
  by (simp add: dispatch_def with_payload_def nullish_def)

lemma dispatch_types:
  "dispatch (JStr ''PLACE_LIMIT_ORDER'') (JObj a) = bindE (placeLimitOrder a) (\<lambda>r. ret (Placed r))"
  "dispatch (JStr ''PLACE_MARKET_ORDER'') (JObj a) = bindE (placeMarketOrder a) (\<lambda>r. ret (Placed r))"
  "dispatch (JStr ''PLACE_STOP_MARKET_ORDER'') (JObj a) = bindE (placeStopMarketOrder a) (\<lambda>r. ret (Placed r))"
  "dispatch (JStr ''PLACE_STOP_LIMIT_ORDER'') (JObj a) = bindE (placeStopLimitOrder a) (\<lambda>r. ret (Placed r))"
  "dispatch (JStr ''PLACE_TRAILING_STOP_MARKET_ORDER'') (JObj a) = bindE (placeTrailingStopMarketOrder a) (\<lambda>r. ret (Placed r))"
  "dispatch (JStr ''CANCEL_ORDER'') (JObj a) = bindE (cancelOrder (getp a ''orderId'')) (\<lambda>r. ret (Cancelled r))"
  by (simp_all add: dispatch_def with_payload_def nullish_def)

lemma dispatch_reads:
  assumes "asked request = Some (symbol, type, body, ks)" "\<forall>k \<in> set ks. getp a k = getp b k"
  shows "dispatch (JStr type) (JObj a) = dispatch (JStr type) (JObj b)"
proof (cases request)
  case (PostLimit sy bo)
  then have "placeLimitOrder a = placeLimitOrder b" using assms by (intro engine_reads) auto
  then show ?thesis using assms(1) PostLimit by (auto simp: dispatch_types)
next
  case (PostMarket sy bo)
  then have "placeMarketOrder a = placeMarketOrder b" using assms by (intro engine_reads) auto
  then show ?thesis using assms(1) PostMarket by (auto simp: dispatch_types)
next
  case (PostStopMarket sy bo)
  then have "placeStopMarketOrder a = placeStopMarketOrder b" using assms by (intro engine_reads) auto
  then show ?thesis using assms(1) PostStopMarket by (auto simp: dispatch_types)
next
  case (PostStopLimit sy bo)
  then have "placeStopLimitOrder a = placeStopLimitOrder b" using assms by (intro engine_reads) auto
  then show ?thesis using assms(1) PostStopLimit by (auto simp: dispatch_types)
next
  case (PostTrailingStopMarket sy bo)
  then have "placeTrailingStopMarketOrder a = placeTrailingStopMarketOrder b" using assms by (intro engine_reads) auto
  then show ?thesis using assms(1) PostTrailingStopMarket by (auto simp: dispatch_types)
next
  case (DeleteOrder sy oi)
  then show ?thesis using assms by (auto simp: dispatch_types)
qed (use assms(1) in simp_all)

lemma dispatch_forwarded:
  assumes a: "asked request = Some (symbol, type, body, ks)" and p: "json_plain body" "\<not> nullish body"
  shows "dispatch (JStr type) (JObj (clean_props (pick ks body))) = dispatch (JStr type) body"
proof -
  have "distinct ks" using a by (cases request) auto
  then have "\<forall>k \<in> set ks. getp (clean_props (pick ks body)) k = getp (props body) k" using forwarded [OF p(1)] by simp
  from dispatch_reads [OF a this] show ?thesis using dispatch_object [OF p(2)] by simp
qed

text \<open>A request that is answered 202 has submitted the command it asks for.\<close>

lemma accepted_submits:
  assumes "routes env fr request s = (Inr (Response 202 answer), s')"
  shows "\<exists>symbol type body ks. asked request = Some (symbol, type, body, ks) \<and> \<not> nullish body \<and>
    submit_command env fr symbol (getp (props body) ''orderId'') (createOrderCommand fr type symbol (pick ks body)) s =
      (Inr (Response 202 answer), s')"
  using assms
  by (cases request)
    (auto simp: request_handlers health_def json_ok_def not_found_def notFoundHandler_def get_symbols_def get_book_def get_trades_def
      get_command_status_def get_events_def get_commands_def get_recovery_snapshot_def bindE_eq_Inr pick_def nullish_def
      split: if_splits sum.splits)

lemma app_accepted:
  assumes "app message_of env fr request s = (Response 202 answer, s')"
  shows "routes env fr request s = (Inr (Response 202 answer), s')"
  using assms by (auto simp: app_def handle_request_def errorHandler_def split: prod.splits sum.splits)

text \<open>Every call a request makes.\<close>

fun submitted :: "string \<Rightarrow> jsval \<Rightarrow> amqp_call \<Rightarrow> bool" where
  "submitted symbol n (SendToQueue channel q t) =
     (\<exists>p fr type payload. getPartitionId (JStr symbol) n = Inr p \<and> q = getOrderCommandQueueName (JInt p) \<and>
        t = json_text (JObj (createOrderCommand fr type symbol payload)) \<and>
        (\<exists>request body ks. asked request = Some (symbol, type, body, ks)))"
| "submitted symbol n c = True"

lemma silent_submitted: "silent m \<Longrightarrow> preserves (adds (submitted symbol n)) m"
proof -
  have "submitted symbol n c" if "\<not> is_send c" for c using that by (cases c) simp_all
  then show "silent m \<Longrightarrow> preserves (adds (submitted symbol n)) m"
    unfolding preserves_def adds_def by (meson list.pred_mono_strong)
qed

lemma adds_service: "preserves (adds P) (in_service f)"
  by (simp add: preserves_def adds_def in_service_def split_def)

lemma submit_calls:
  assumes "asked request = Some (symbol, type, body, ks)"
  shows "preserves (adds (submitted symbol (env_partitionCount env))) (submit_command env fr symbol orderId (createOrderCommand fr type symbol payload))"
proof -
  have S: "submitted symbol (env_partitionCount env)
      (SendToQueue channel (bus_queue (JInt p)) (json_text (JObj (createOrderCommand fr type symbol payload))))"
    if "getPartitionId (JStr symbol) (env_partitionCount env) = Inr p" for p channel
    unfolding submitted.simps using assms that by (intro exI [of _ p] exI [of _ fr] exI [of _ type] exI [of _ payload] conjI)
      (auto simp: bus_queue_def is_number_def)
  show ?thesis unfolding submit_command_def publish_def
    by (intro adding.bind adds_service adding.lift silent_submitted [OF silent_connect] adds_do S adding.pure adding.cond)
qed

lemma route_calls:
  shows "\<exists>symbol. preserves (adds (submitted symbol (env_partitionCount env))) (routes env fr request)"
proof (cases "asked request")
  case None
  then have "preserves (adds (submitted [] (env_partitionCount env))) (routes env fr request)"
    by (cases request) (auto simp: get_symbols_def get_book_def get_trades_def get_command_status_def get_events_def get_commands_def
      get_recovery_snapshot_def intro!: adding.bind adds_service adding.pure adding.lift)
  then show ?thesis by blast
next
  case (Some a)
  then have "\<exists>symbol orderId body ks type. asked request = Some (symbol, type, body, ks) \<and>
      (routes env fr request = submit_command env fr symbol orderId (createOrderCommand fr type symbol (pick ks body)) \<or>
       routes env fr request = throw TypeErr)"
    by (cases request) (auto simp: request_handlers pick_def)
  then obtain symbol orderId body ks type where a: "asked request = Some (symbol, type, body, ks)"
    "routes env fr request = submit_command env fr symbol orderId (createOrderCommand fr type symbol (pick ks body)) \<or>
       routes env fr request = throw TypeErr" by blast
  have "preserves (adds (submitted symbol (env_partitionCount env))) (routes env fr request)"
    using a(2) submit_calls [OF a(1)] adding.pure(2) by metis
  then show ?thesis by blast
qed

lemma app_calls:
  assumes "app message_of env fr request s = (answer, s')"
  shows "\<exists>symbol new. mq_calls s' = mq_calls s @ new \<and> list_all (submitted symbol (env_partitionCount env)) new"
proof -
  obtain r where r: "routes env fr request s = (r, s')"
    using assms by (auto simp: app_def handle_request_def split: prod.splits sum.splits)
  obtain symbol where "preserves (adds (submitted symbol (env_partitionCount env))) (routes env fr request)" using route_calls by blast
  from preservesD [OF this r] show ?thesis unfolding adds_def by blast
qed

subsection \<open>Samples\<close>

text \<open>A broker that answers every call, and a request on an empty Redis.\<close>

definition demo_amqp :: "Store amqp" where
  "demo_amqp c = ret (case c of SendToQueue _ _ _ \<Rightarrow> Written True | _ \<Rightarrow> Handle 1)"

definition demo_env :: "Store Env" where
  "demo_env = \<lparr> env_redis = demo_redis, env_amqp = demo_amqp, env_rabbitUrl = ''amqp'', env_partitionCount = JInt 3 \<rparr>"

definition demo_fresh :: Fresh where
  "demo_fresh = \<lparr> fr_commandId = ''c1'', fr_createdAt = 1, fr_now = 2 \<rparr>"

definition demo_rabbit :: "Store Rabbit" where
  "demo_rabbit = \<lparr> mq_connection = None, mq_channel = None, mq_world = demo_store, mq_calls = [] \<rparr>"

definition demo_request :: request where
  "demo_request = DeleteOrder ''BTC-INR'' ''a1''"

definition demo_command :: jsobj where
  "demo_command = createOrderCommand demo_fresh ''CANCEL_ORDER'' ''BTC-INR'' [(''orderId'', JStr ''a1'')]"

lemma sample_partition: "getPartitionId (JStr ''BTC-INR'') (JInt 3) = Inr 0"
proof -
  have "nonEmptyString (JStr ''BTC-INR'')" "sint (hash_loop 5381 ''BTC-INR'') = 1580274600" by code_simp+
  then show ?thesis by (simp add: getPartitionId_def hashSymbol_def)
qed

lemma demo_amqp_do: "amqp_do demo_amqp c s =
    (Inr (case c of SendToQueue _ _ _ \<Rightarrow> Written True | _ \<Rightarrow> Handle 1), s\<lparr>mq_calls := mq_calls s @ [c]\<rparr>)"
  by (simp add: amqp_do_def demo_amqp_def)

lemma demo_connect: "connectRabbitMQ demo_amqp url (Suc k) d JUndef JUndef (demo_rabbit\<lparr>mq_world := w\<rparr>) =
    (Inr 1, demo_rabbit\<lparr>mq_world := w, mq_connection := Some 1, mq_channel := Some 1, mq_calls := topology url 1 1 JUndef JUndef\<rparr>)"
  by (simp add: connectRabbitMQ_def demo_rabbit_def connect_once_def bindE_def demo_amqp_do handle_of_def Let_def
      partition_queues_def topology_def queue_calls_def)

lemma demo_saved: "\<exists>w. in_service (saveQueuedCommandStatus demo_redis demo_fresh demo_command) demo_rabbit =
    (Inr (), demo_rabbit\<lparr>mq_world := w\<rparr>)"
  by (simp add: in_service_def saveQueuedCommandStatus_def saveStatus_def redis_call_def demo_redis_def bindE_def)
    (rule exI, rule refl)

lemma sample_accepted: "\<exists>w. app f demo_env demo_fresh demo_request demo_rabbit =
    (Response 202 (createQueuedResponse demo_command [(''orderId'', JStr ''a1'')]),
     demo_rabbit\<lparr>mq_world := w, mq_connection := Some 1, mq_channel := Some 1,
       mq_calls := topology ''amqp'' 1 1 JUndef JUndef @
         [SendToQueue 1 (getOrderCommandQueueName (JInt 0)) (json_text (JObj demo_command))]\<rparr>)"
proof -
  obtain w where w: "in_service (saveQueuedCommandStatus demo_redis demo_fresh demo_command) demo_rabbit =
    (Inr (), demo_rabbit\<lparr>mq_world := w\<rparr>)" using demo_saved by blast
  have p: "publish demo_amqp ''amqp'' demo_command (JInt 0) (demo_rabbit\<lparr>mq_world := w\<rparr>) =
    (Inr demo_command, demo_rabbit\<lparr>mq_world := w, mq_connection := Some 1, mq_channel := Some 1,
       mq_calls := topology ''amqp'' 1 1 JUndef JUndef @
         [SendToQueue 1 (getOrderCommandQueueName (JInt 0)) (json_text (JObj demo_command))]\<rparr>)"
    using demo_connect [of "''amqp''" 9 default_delayMs w]
    by (simp add: publish_def bindE_def default_retries_def eval_nat_numeral demo_amqp_do written_def bus_queue_def is_number_def)
  have "routes demo_env demo_fresh demo_request demo_rabbit = (Inr (Response 202 (createQueuedResponse demo_command [(''orderId'', JStr ''a1'')])),
     demo_rabbit\<lparr>mq_world := w, mq_connection := Some 1, mq_channel := Some 1,
       mq_calls := topology ''amqp'' 1 1 JUndef JUndef @
         [SendToQueue 1 (getOrderCommandQueueName (JInt 0)) (json_text (JObj demo_command))]\<rparr>)"
    using w p by (simp add: demo_request_def delete_order_def demo_command_def [symmetric] submit_command_def demo_env_def bindE_def sample_partition [simplified])
  then show ?thesis by (intro exI [of _ w]) (simp add: app_def handle_request_def)
qed

lemma demo_queues: "fst (assert_queues_from demo_amqp channel n i s) = Inr ()"
proof (induction "demo_amqp" channel n i arbitrary: s rule: assert_queues_from.induct)
  case (1 channel n i)
  then show ?case by (subst assert_queues_from.simps) (simp add: assert_queue_def bindE_def demo_amqp_do)
qed

lemma demo_connects: "fst (connectRabbitMQ demo_amqp url (Suc k) d (JInt i) (JInt n) demo_rabbit) = Inr 1"
proof -
  have q: "partition_queues demo_amqp channel (JInt i) (JInt n) s = (Inr (), snd (partition_queues demo_amqp channel (JInt i) (JInt n) s))"
    for channel s using demo_queues [of channel "of_int n" 0 s] by (simp add: partition_queues_def assertPartitionQueues_def prod_eq_iff)
  have "fst (connect_once demo_amqp url (JInt i) (JInt n) s) = Inr 1" for s
    by (simp add: connect_once_def bindE_def demo_amqp_do handle_of_def Let_def) (subst q, simp)
  then obtain s1 where "connect_once demo_amqp url (JInt i) (JInt n) demo_rabbit = (Inr 1, s1)" by (metis prod.collapse)
  then show ?thesis by (simp add: connectRabbitMQ_def) (simp add: demo_rabbit_def)
qed

text \<open>The text of a command object, as every reader of the queue expects it.\<close>

definition command_text_ok :: "stored \<Rightarrow> bool" where
  "command_text_ok t \<longleftrightarrow> (\<exists>c. t = Json (JObj c) \<and> distinct (map fst c) \<and> plain_props c \<and>
     (\<exists>commandId symbol type payload createdAt. getp c ''commandId'' = JStr commandId \<and>
       getp c ''symbol'' = JStr symbol \<and> trim symbol \<noteq> [] \<and> getp c ''payload'' = JObj payload \<and>
       getp c ''createdAt'' = JInt (int createdAt) \<and> getp c ''type'' = JStr type \<and>
       type \<in> {''PLACE_LIMIT_ORDER'', ''PLACE_MARKET_ORDER'', ''PLACE_STOP_MARKET_ORDER'', ''PLACE_STOP_LIMIT_ORDER'',
         ''PLACE_TRAILING_STOP_MARKET_ORDER'', ''CANCEL_ORDER''}))"

lemma asked_type: "asked request = Some (symbol, type, body, ks) \<Longrightarrow> type \<in> {''PLACE_LIMIT_ORDER'', ''PLACE_MARKET_ORDER'',
    ''PLACE_STOP_MARKET_ORDER'', ''PLACE_STOP_LIMIT_ORDER'', ''PLACE_TRAILING_STOP_MARKET_ORDER'', ''CANCEL_ORDER''}"
  by (cases request) auto

lemma sent_command_ok:
  assumes "getPartitionId (JStr symbol) n = Inr p" "asked request = Some (symbol, type, body, ks)"
  shows "command_text_ok (json_text (JObj (createOrderCommand fr type symbol payload)))"
proof -
  have "trim symbol \<noteq> []"
    using assms(1) by (auto simp: getPartitionId_def hashSymbol_def seqE_def nonEmptyString_iff split: option.splits if_splits)
  moreover have "plain_props (sent_command fr type symbol payload)"
    using clean_object [of payload] by (simp add: sent_command_def plain_props_def json_plain_def del: json_clean.simps(2))
  moreover have "distinct (map fst (sent_command fr type symbol payload))" by (simp add: sent_command_def)
  ultimately show ?thesis
    unfolding command_text_ok_def command_text
    by (intro exI [of _ "sent_command fr type symbol payload"] conjI)
      (use asked_type [OF assms(2)] in \<open>auto simp: sent_command_def\<close>)
qed

subsection \<open>Properties\<close>

text \<open>
  C35. What the API puts on a queue has the type of a command: whatever the request and whatever
  fails on the way, every message it sends is the JSON text of an object with distinct plain
  properties, a string identifier, a non-blank symbol, one of the six command types, a payload
  object and a numeric time, and it goes to the queue of the partition of its symbol.
\<close>

theorem api_messages_typed:
  assumes "app message_of env fr request s = (answer, s')"
  shows "\<exists>new. mq_calls s' = mq_calls s @ new \<and>
    (\<forall>channel q t. SendToQueue channel q t \<in> set new \<longrightarrow> command_text_ok t \<and>
       (\<exists>c p. t = Json (JObj c) \<and> getPartitionId (getp c ''symbol'') (env_partitionCount env) = Inr p \<and>
         q = getOrderCommandQueueName (JInt p)))"
proof -
  obtain symbol new where n: "mq_calls s' = mq_calls s @ new" "list_all (submitted symbol (env_partitionCount env)) new"
    using app_calls [OF assms] by blast
  have "command_text_ok t \<and> (\<exists>c p. t = Json (JObj c) \<and> getPartitionId (getp c ''symbol'') (env_partitionCount env) = Inr p \<and>
      q = getOrderCommandQueueName (JInt p))" if m: "SendToQueue channel q t \<in> set new" for channel q t
  proof -
    from m n(2) obtain p fr' type payload request' body ks where w: "getPartitionId (JStr symbol) (env_partitionCount env) = Inr p"
      "q = getOrderCommandQueueName (JInt p)" "t = json_text (JObj (createOrderCommand fr' type symbol payload))"
      "asked request' = Some (symbol, type, body, ks)"
      by (fastforce simp: list_all_iff)
    have "getp (sent_command fr' type symbol payload) ''symbol'' = JStr symbol" by (simp add: sent_command_def)
    then show ?thesis using sent_command_ok [OF w(1,4)] w(1-3) command_text by metis
  qed
  with n(1) show ?thesis by blast
qed

theorem api_messages_typed_witness:
  "\<exists>c p q. mq_calls (snd (app (\<lambda>e. ''error'') demo_env demo_fresh demo_request demo_rabbit)) = c @ [SendToQueue 1 q p] \<and> command_text_ok p"
proof -
  obtain s' where a: "app (\<lambda>e. ''error'') demo_env demo_fresh demo_request demo_rabbit =
      (Response 202 (createQueuedResponse demo_command [(''orderId'', JStr ''a1'')]), s')"
    "mq_calls s' = topology ''amqp'' 1 1 JUndef JUndef @
       [SendToQueue 1 (getOrderCommandQueueName (JInt 0)) (json_text (JObj demo_command))]"
    using sample_accepted [of "\<lambda>e. ''error''"] by auto
  from api_messages_typed [OF a(1)] a(2) have "command_text_ok (json_text (JObj demo_command))"
    by (auto simp: demo_rabbit_def)
  then show ?thesis using a by auto
qed

text \<open>
  C13. A request that is answered 202 reaches the book as the client sent it: exactly one message
  was sent, to the queue that the worker of the symbol's partition consumes; that worker does
  not send it back but processes it, as a command with the identifier the client was given,
  whose execution on any book is the one the client's own object would have; and it is a
  message the node can honour, except that the fields of a stop order are not checked.
\<close>

theorem accepted_request_reaches_worker:
  assumes "app message_of env fr request s = (Response 202 answer, s')"
  shows "\<exists>symbol type body ks p channel before message command.
    asked request = Some (symbol, type, body, ks) \<and> getPartitionId (JStr symbol) (env_partitionCount env) = Inr p \<and>
    mq_calls s' = mq_calls s @ before @ [SendToQueue channel (targetQueue (JInt p)) message] \<and>
    list_all (\<lambda>c. \<not> is_send c) before \<and>
    (\<forall>redis clock lead tm. process_message redis clock lead (JInt p) (env_partitionCount env) tm message =
       process_command redis clock lead tm command) \<and>
    getp command ''symbol'' = JStr symbol \<and>
    getp command ''commandId'' = getp (props (getp answer ''data'')) ''commandId'' \<and>
    (json_plain body \<longrightarrow> dispatch (getp command ''type'') (getp command ''payload'') = dispatch (JStr type) body) \<and>
    (JStr type \<notin> stop_types \<longrightarrow> message_ok (Some message))"
proof -
  obtain symbol type body ks where a: "asked request = Some (symbol, type, body, ks)" "\<not> nullish body"
    "submit_command env fr symbol (getp (props body) ''orderId'') (createOrderCommand fr type symbol (pick ks body)) s =
      (Inr (Response 202 answer), s')"
    using accepted_submits [OF app_accepted [OF assms]] by blast
  let ?c = "createOrderCommand fr type symbol (pick ks body)"
  obtain p channel before where b: "getPartitionId (JStr symbol) (env_partitionCount env) = Inr p"
    "mq_calls s' = mq_calls s @ before @ [SendToQueue channel (bus_queue (JInt p)) (json_text (JObj ?c))]"
    "list_all (\<lambda>c. \<not> is_send c) before" "answer = createQueuedResponse ?c [(''orderId'', getp (props body) ''orderId'')]"
    using submit_sends [OF a(3)] by auto
  let ?sent = "sent_command fr type symbol (pick ks body)"
  have q: "bus_queue (JInt p) = targetQueue (JInt p)" by (simp add: bus_queue_def targetQueue_def)
  have g: "getp ?sent ''symbol'' = JStr symbol" "getp ?sent ''commandId'' = JStr (fr_commandId fr)" "getp ?sent ''type'' = JStr type"
    "getp ?sent ''payload'' = JObj (clean_props (pick ks body))" by (simp_all add: sent_command_def)
  have h: "getp (props (getp answer ''data'')) ''commandId'' = JStr (fr_commandId fr)"
    by (simp add: b(4) createQueuedResponse_def createOrderCommand_def)
  have m: "JStr type \<notin> stop_types \<longrightarrow> message_ok (Some (json_text (JObj ?c)))"
    by (intro impI command_message_ok) (auto simp: stop_request_ok_def stop_types_def)
  show ?thesis
  proof (intro exI conjI allI impI)
    show "asked request = Some (symbol, type, body, ks)" by (rule a(1))
    show "mq_calls s' = mq_calls s @ before @ [SendToQueue channel (targetQueue (JInt p)) (json_text (JObj ?c))]"
      using b(2) by (simp only: q)
    show "process_message redis clock lead (JInt p) (env_partitionCount env) tm (json_text (JObj ?c)) =
        process_command redis clock lead tm ?sent" for redis clock lead tm
      by (rule command_processed [OF b(1)])
    show "dispatch (getp ?sent ''type'') (getp ?sent ''payload'') = dispatch (JStr type) body" if "json_plain body"
      using dispatch_forwarded [OF a(1) that a(2)] by (simp only: g)
    show "message_ok (Some (json_text (JObj ?c)))" if "JStr type \<notin> stop_types" using m that by blast
  qed (simp_all only: b(1,3) g h)
qed

theorem accepted_request_reaches_worker_witness:
  "\<exists>m. getPartitionId (JStr ''BTC-INR'') (JInt 3) = Inr 0 \<and> message_ok (Some m) \<and>
     mq_calls (snd (app (\<lambda>e. ''error'') demo_env demo_fresh demo_request demo_rabbit)) =
       topology ''amqp'' 1 1 JUndef JUndef @ [SendToQueue 1 (targetQueue (JInt 0)) m]"
proof -
  obtain s' where a: "app (\<lambda>e. ''error'') demo_env demo_fresh demo_request demo_rabbit =
      (Response 202 (createQueuedResponse demo_command [(''orderId'', JStr ''a1'')]), s')"
    "mq_calls s' = topology ''amqp'' 1 1 JUndef JUndef @
       [SendToQueue 1 (getOrderCommandQueueName (JInt 0)) (json_text (JObj demo_command))]"
    using sample_accepted [of "\<lambda>e. ''error''"] by auto
  from accepted_request_reaches_worker [OF a(1)] a(2) have "message_ok (Some (json_text (JObj demo_command)))"
    by (auto simp: demo_rabbit_def demo_request_def stop_types_def)
  then show ?thesis using a sample_partition by (simp add: targetQueue_def is_number_def)
qed



text \<open>
  The API connects without a partition: it declares no command queue, so a command accepted
  before any node has connected is sent to a queue that need not exist.
\<close>

theorem api_declares_no_queue:
  "\<exists>before. mq_calls (snd (app f demo_env demo_fresh demo_request demo_rabbit)) =
     before @ [SendToQueue 1 (getOrderCommandQueueName (JInt 0)) (json_text (JObj demo_command))] \<and>
     (\<forall>channel q d. AssertQueue channel q d \<in> set before \<longrightarrow> q = ORDER_COMMANDS_DLQ)"
  using sample_accepted [of f] by (auto simp: topology_def queue_calls_def)

end
