(* ===== verification/ApiDocs.thy ===== *)
theory ApiDocs
  imports ApiProperties
begin

text \<open>
  \<^verbatim>\<open>scripts/docs/generateApiDocs.js\<close>: the documented endpoints as data, and the text of the
  document.  A text is the list of its bytes in UTF-8, as \<^verbatim>\<open>writeFileSync\<close> stores it (one
  character is not ASCII); the lines of a template are the elements of a list.
\<close>

subsection \<open>JSON.stringify(value, null, 2)\<close>

definition newline :: char where
  "newline = CHR 0x0A"

fun joined :: "string \<Rightarrow> string list \<Rightarrow> string" where
  "joined sep [] = []"
| "joined sep [x] = x"
| "joined sep (x # y # xs) = x @ sep @ joined sep (y # xs)"

definition hex_digit :: "nat \<Rightarrow> char" where
  "hex_digit n = (if n < 10 then char_of (48 + n) else char_of (87 + n))"

definition json_char :: "char \<Rightarrow> string" where
  "json_char c = (let n = (of_char c :: nat) in
     if n = 34 \<or> n = 92 then [CHR 0x5C, c]
     else if n = 8 then [CHR 0x5C, CHR ''b''] else if n = 9 then [CHR 0x5C, CHR ''t'']
     else if n = 10 then [CHR 0x5C, CHR ''n''] else if n = 12 then [CHR 0x5C, CHR ''f'']
     else if n = 13 then [CHR 0x5C, CHR ''r'']
     else if n < 32 then CHR 0x5C # ''u00'' @ [hex_digit (n div 16), hex_digit (n mod 16)]
     else [c])"

definition json_string :: "string \<Rightarrow> string" where
  "json_string s = CHR 0x22 # concat (map json_char s) @ [CHR 0x22]"

definition indented :: "nat \<Rightarrow> string \<Rightarrow> string \<Rightarrow> string list \<Rightarrow> string" where
  "indented k open' close xs = (if xs = [] then open' @ close
     else open' @ [newline] @ joined ('','' @ [newline]) (map (\<lambda>x. replicate (k + 2) (CHR '' '') @ x) xs) @
       [newline] @ replicate k (CHR '' '') @ close)"

text \<open>(All numbers of the document are integers.)\<close>

fun json_pretty :: "nat \<Rightarrow> jsval \<Rightarrow> string" where
  "json_pretty k (JStr s) = json_string s"
| "json_pretty k (JArr vs) = indented k ''['' '']'' (map (\<lambda>v. if v = JUndef then ''null'' else json_pretty (k + 2) v) vs)"
| "json_pretty k (JObj ps) = indented k ''{'' ''}''
     (map (\<lambda>p. json_string (fst p) @ '': '' @ json_pretty (k + 2) (snd p)) (filter (\<lambda>p. snd p \<noteq> JUndef) ps))"
| "json_pretty k v = js_text v"

definition json_text_pretty :: "jsval \<Rightarrow> string" where
  "json_text_pretty = json_pretty 0"

subsection \<open>The endpoints\<close>

record Endpoint =
  en_title :: string
  en_method :: string
  en_url :: string
  en_description :: string
  en_requestBody :: jsval
  en_successResponse :: jsval

definition baseUrl :: string where
  "baseUrl = ''http://localhost:3000/api/v1''"

definition doc_health_check :: Endpoint where
  "doc_health_check = \<lparr> en_title = ''Health Check'', en_method = ''GET'',
     en_url = ''http://localhost:3000/health'',
     en_description = ''Checks whether the API server is running.'',
     en_requestBody = JNull,
     en_successResponse = JObj [(''success'', JBool True), (''data'', JObj [(''status'', JStr ''ok'')])] \<rparr>"

definition doc_list_symbols :: Endpoint where
  "doc_list_symbols = \<lparr> en_title = ''List Symbols'', en_method = ''GET'',
     en_url = baseUrl @ ''/symbols'',
     en_description = ''Returns all symbols currently available in the book registry.'',
     en_requestBody = JNull,
     en_successResponse = JObj [
          (''success'', JBool True),
          (''data'', JObj [(''symbols'', JArr [JStr ''BTC-INR'', JStr ''ETH-INR''])])] \<rparr>"

definition doc_order_book_snapshot :: Endpoint where
  "doc_order_book_snapshot = \<lparr> en_title = ''Get Order Book Snapshot'', en_method = ''GET'',
     en_url = baseUrl @ ''/books/BTC-INR'',
     en_description = ''Returns the current order book snapshot for a symbol.'',
     en_requestBody = JNull,
     en_successResponse = JObj [
          (''success'', JBool True),
          (''data'', JObj [
              (''symbol'', JStr ''BTC-INR''), (''bestBidPriceTicks'', JInt 9900),
              (''bestAskPriceTicks'', JInt 10100), (''lastTradePriceTicks'', JInt 10000),
              (''stopOrders'', JArr []),
              (''bids'', JArr [
                  JObj [
                    (''priceTicks'', JInt 9900), (''totalQuantity'', JInt 10), (''orderCount'', JInt 1),
                    (''headOrderId'', JStr ''B1''), (''tailOrderId'', JStr ''B1'')]]),
              (''asks'', JArr [
                  JObj [
                    (''priceTicks'', JInt 10100), (''totalQuantity'', JInt 5), (''orderCount'', JInt 1),
                    (''headOrderId'', JStr ''S1''), (''tailOrderId'', JStr ''S1'')]])])] \<rparr>"

definition doc_get_trades :: Endpoint where
  "doc_get_trades = \<lparr> en_title = ''Get Trades'', en_method = ''GET'',
     en_url = baseUrl @ ''/books/BTC-INR/trades'',
     en_description = ''Returns all trades created for a symbol.'',
     en_requestBody = JNull,
     en_successResponse = JObj [
          (''success'', JBool True),
          (''data'', JObj [
              (''symbol'', JStr ''BTC-INR''),
              (''trades'', JArr [
                  JObj [
                    (''symbol'', JStr ''BTC-INR''), (''priceTicks'', JInt 10000), (''quantity'', JInt 5),
                    (''buyOrderId'', JStr ''B1''), (''sellOrderId'', JStr ''S1''),
                    (''aggressorSide'', JStr ''BUY''), (''timestamp'', JInt 1710000000000)]])])] \<rparr>"

definition doc_limit_order :: Endpoint where
  "doc_limit_order = \<lparr> en_title = ''Place Limit Order'', en_method = ''POST'',
     en_url = baseUrl @ ''/books/BTC-INR/orders/limit'',
     en_description = ''Places a limit order. It may match immediately or rest in the order book.'',
     en_requestBody = JObj [
          (''orderId'', JStr ''B1''), (''userId'', JStr ''U1''), (''side'', JStr ''BUY''),
          (''priceTicks'', JInt 10000), (''quantity'', JInt 10), (''timestamp'', JInt 1710000000000)],
     en_successResponse = JObj [
          (''success'', JBool True),
          (''data'', JObj [
              (''order'', JObj [
                  (''orderId'', JStr ''B1''), (''userId'', JStr ''U1''), (''symbol'', JStr ''BTC-INR''),
                  (''side'', JStr ''BUY''), (''type'', JStr ''LIMIT''), (''priceTicks'', JInt 10000),
                  (''quantity'', JInt 10), (''remainingQuantity'', JInt 10), (''status'', JStr ''OPEN''),
                  (''timestamp'', JInt 1710000000000)]),
              (''trades'', JArr []), (''triggeredOrders'', JArr [])])] \<rparr>"

definition doc_market_order :: Endpoint where
  "doc_market_order = \<lparr> en_title = ''Place Market Order'', en_method = ''POST'',
     en_url = baseUrl @ ''/books/BTC-INR/orders/market'',
     en_description = ''Places a market order. It matches against the best available opposite-side liquidity. Any '' @
       ''unfilled quantity is cancelled.'',
     en_requestBody = JObj [
          (''orderId'', JStr ''M1''), (''userId'', JStr ''U1''), (''side'', JStr ''BUY''),
          (''quantity'', JInt 5), (''timestamp'', JInt 1710000000000)],
     en_successResponse = JObj [
          (''success'', JBool True),
          (''data'', JObj [
              (''order'', JObj [
                  (''orderId'', JStr ''M1''), (''userId'', JStr ''U1''), (''symbol'', JStr ''BTC-INR''),
                  (''side'', JStr ''BUY''), (''type'', JStr ''MARKET''), (''priceTicks'', JNull),
                  (''quantity'', JInt 5), (''remainingQuantity'', JInt 0), (''status'', JStr ''FILLED''),
                  (''timestamp'', JInt 1710000000000)]),
              (''trades'', JArr [
                  JObj [
                    (''symbol'', JStr ''BTC-INR''), (''priceTicks'', JInt 10000), (''quantity'', JInt 5),
                    (''buyOrderId'', JStr ''M1''), (''sellOrderId'', JStr ''S1''),
                    (''aggressorSide'', JStr ''BUY''), (''timestamp'', JInt 1710000000000)]]),
              (''triggeredOrders'', JArr [])])] \<rparr>"

definition doc_stop_market_order :: Endpoint where
  "doc_stop_market_order = \<lparr> en_title = ''Place Stop Market Order'', en_method = ''POST'',
     en_url = baseUrl @ ''/books/BTC-INR/orders/stop-market'',
     en_description = ''Places a stop-market order. It stays inactive until triggerPriceTicks is reached. Once '' @
       ''triggered, it becomes a market order.'',
     en_requestBody = JObj [
          (''orderId'', JStr ''SM1''), (''userId'', JStr ''U1''), (''side'', JStr ''SELL''),
          (''triggerPriceTicks'', JInt 9900), (''quantity'', JInt 5), (''timestamp'', JInt 1710000000000)],
     en_successResponse = JObj [
          (''success'', JBool True),
          (''data'', JObj [
              (''order'', JObj [
                  (''orderId'', JStr ''SM1''), (''userId'', JStr ''U1''), (''symbol'', JStr ''BTC-INR''),
                  (''side'', JStr ''SELL''), (''type'', JStr ''STOP_MARKET''),
                  (''triggerPriceTicks'', JInt 9900), (''priceTicks'', JNull), (''quantity'', JInt 5),
                  (''remainingQuantity'', JInt 5), (''status'', JStr ''OPEN''),
                  (''timestamp'', JInt 1710000000000)]),
              (''trades'', JArr []), (''triggeredOrders'', JArr [])])] \<rparr>"

definition doc_stop_limit_order :: Endpoint where
  "doc_stop_limit_order = \<lparr> en_title = ''Place Stop Limit Order'', en_method = ''POST'',
     en_url = baseUrl @ ''/books/BTC-INR/orders/stop-limit'',
     en_description = ''Places a stop-limit order. It stays inactive until triggerPriceTicks is reached. Once '' @
       ''triggered, it becomes a limit order at priceTicks.'',
     en_requestBody = JObj [
          (''orderId'', JStr ''SL1''), (''userId'', JStr ''U1''), (''side'', JStr ''BUY''),
          (''triggerPriceTicks'', JInt 10000), (''priceTicks'', JInt 10050), (''quantity'', JInt 5),
          (''timestamp'', JInt 1710000000000)],
     en_successResponse = JObj [
          (''success'', JBool True),
          (''data'', JObj [
              (''order'', JObj [
                  (''orderId'', JStr ''SL1''), (''userId'', JStr ''U1''), (''symbol'', JStr ''BTC-INR''),
                  (''side'', JStr ''BUY''), (''type'', JStr ''STOP_LIMIT''),
                  (''triggerPriceTicks'', JInt 10000), (''priceTicks'', JInt 10050), (''quantity'', JInt 5),
                  (''remainingQuantity'', JInt 5), (''status'', JStr ''OPEN''),
                  (''timestamp'', JInt 1710000000000)]),
              (''trades'', JArr []), (''triggeredOrders'', JArr [])])] \<rparr>"

definition doc_cancel_order :: Endpoint where
  "doc_cancel_order = \<lparr> en_title = ''Cancel Order'', en_method = ''DELETE'',
     en_url = baseUrl @ ''/books/BTC-INR/orders/B1'',
     en_description = ''Cancels an active resting limit order or an inactive stop order by orderId.'',
     en_requestBody = JNull,
     en_successResponse = JObj [
          (''success'', JBool True),
          (''data'', JObj [(''order'', JObj [(''orderId'', JStr ''B1''), (''status'', JStr ''CANCELLED'')])])] \<rparr>"

definition endpoints :: "Endpoint list" where
  "endpoints = [doc_health_check, doc_list_symbols, doc_order_book_snapshot, doc_get_trades, doc_limit_order,
     doc_market_order, doc_stop_market_order, doc_stop_limit_order, doc_cancel_order]"

subsection \<open>The document\<close>

definition codeBlock :: "string \<Rightarrow> string \<Rightarrow> string" where
  "codeBlock language value = ''```'' @ language @ [newline] @ value @ [newline] @ ''```''"

definition jsonBlock :: "jsval \<Rightarrow> string" where
  "jsonBlock value = codeBlock ''json'' (json_text_pretty value)"

definition generateCurl :: "Endpoint \<Rightarrow> string" where
  "generateCurl endpoint = joined ('' '' @ [CHR 0x5C, newline])
     ((''curl -X '' @ en_method endpoint @ '' '' @ en_url endpoint) #
      (if truthy (en_requestBody endpoint)
       then [''  -H \"Content-Type: application/json\"'',
             ''  -d '' @ [CHR 0x27] @ json_text_pretty (en_requestBody endpoint) @ [CHR 0x27]]
       else []))"

definition rupee :: string where
  "rupee = [CHR 0xE2, CHR 0x82, CHR 0xB9]"

definition document :: "string list \<Rightarrow> string" where
  "document = joined [newline]"

definition docs_introduction :: "string list" where
  "docs_introduction = [
     ''# LOB Matching Engine API Documentation'',
     [],
     ''This document is generated for frontend developers.'',
     [],
     ''## Base URLs'',
     [],
     ''| Environment | URL |'',
     ''|---|---|'',
     ''| Local API | `http://localhost:3000` |'',
     ''| API Prefix | `http://localhost:3000/api/v1` |'',
     [],
     ''## Common Concepts'',
     [],
     ''### Symbol'',
     [],
     ''A symbol identifies an order book.'',
     [],
     ''Example:'',
     [],
     codeBlock ''txt'' ''BTC-INR'',
     [],
     ''### Side'',
     [],
     ''Allowed values:'',
     [],
     jsonBlock (JArr [JStr ''BUY'', JStr ''SELL'']),
     [],
     ''### Order Types'',
     [],
     ''Allowed values:'',
     [],
     jsonBlock (JArr [JStr ''LIMIT'', JStr ''MARKET'', JStr ''STOP_MARKET'', JStr ''STOP_LIMIT'']),
     [],
     ''### Price Ticks'',
     [],
     ''Prices are represented as integers using `priceTicks`.'',
     [],
     ''Example:'',
     [],
     codeBlock ''txt'' (rupee @ ''100.25 -> 10025 ticks''),
     [],
     ''### Standard Success Response'',
     [],
     jsonBlock (JObj [(''success'', JBool True), (''data'', JObj [])]),
     [],
     ''### Standard Error Response'',
     [],
     jsonBlock (JObj [(''success'', JBool False), (''error'', JStr ''error message'')]),
     [],
     ''---'',
     []]"

definition endpoint_section :: "nat \<Rightarrow> Endpoint \<Rightarrow> string" where
  "endpoint_section index endpoint = document [
     ''## '' @ show_nat (index + 1) @ ''. '' @ en_title endpoint,
     [],
     en_description endpoint,
     [],
     ''| Field | Value |'',
     ''|---|---|'',
     ''| Method | `'' @ en_method endpoint @ ''` |'',
     ''| URL | `'' @ en_url endpoint @ ''` |'',
     [],
     ''### Request Body'',
     [],
     if truthy (en_requestBody endpoint) then jsonBlock (en_requestBody endpoint)
       else codeBlock ''txt'' ''No request body required'',
     [],
     ''### Example cURL'',
     [],
     codeBlock ''bash'' (generateCurl endpoint),
     [],
     ''### Success Response Example'',
     [],
     jsonBlock (en_successResponse endpoint),
     [],
     ''---'']"

definition docs_websocket :: "string list" where
  "docs_websocket = [
     [],
     ''## WebSocket Events'',
     [],
     ''### Connection URL'',
     [],
     codeBlock ''txt'' ''http://localhost:3000'',
     [],
     ''### Subscribe to Book'',
     [],
     ''Client emits:'',
     [],
     jsonBlock (JObj [(''event'', JStr ''subscribe:book''), (''payload'', JObj [(''symbol'', JStr ''BTC-INR'')])]),
     [],
     ''Server responds:'',
     [],
     jsonBlock (JObj [
          (''event'', JStr ''subscribed:book''),
          (''payload'', JObj [(''symbol'', JStr ''BTC-INR''), (''room'', JStr ''book:BTC-INR'')])]),
     [],
     ''### Book Update Event'',
     [],
     ''Server emits when the book changes:'',
     [],
     jsonBlock (JObj [
          (''event'', JStr ''book:update''),
          (''payload'', JObj [
              (''type'', JStr ''BOOK_UPDATED''), (''symbol'', JStr ''BTC-INR''),
              (''data'', JObj [
                  (''symbol'', JStr ''BTC-INR''), (''bestBidPriceTicks'', JInt 9900),
                  (''bestAskPriceTicks'', JInt 10100), (''lastTradePriceTicks'', JInt 10000),
                  (''stopOrders'', JArr []), (''bids'', JArr []), (''asks'', JArr [])]),
              (''timestamp'', JInt 1710000000000)])]),
     [],
     ''### Trade Created Event'',
     [],
     ''Server emits when trades are created:'',
     [],
     jsonBlock (JObj [
          (''event'', JStr ''trade:created''),
          (''payload'', JObj [
              (''type'', JStr ''TRADE_CREATED''), (''symbol'', JStr ''BTC-INR''),
              (''data'', JObj [
                  (''symbol'', JStr ''BTC-INR''), (''priceTicks'', JInt 10000), (''quantity'', JInt 5),
                  (''buyOrderId'', JStr ''B1''), (''sellOrderId'', JStr ''S1''),
                  (''aggressorSide'', JStr ''BUY''), (''timestamp'', JInt 1710000000000)]),
              (''timestamp'', JInt 1710000000000)])])]"

definition docs :: string where
  "docs = document (docs_introduction @
     [joined [newline, newline] (map (\<lambda>(index, endpoint). endpoint_section index endpoint) (enumerate 0 endpoints))] @
     docs_websocket @ [[]])"

end
