(* ===== verification/ApiDocsProperties.thy ===== *)
theory ApiDocsProperties
  imports ApiDocs
begin

text \<open>
  The documentation against the API: the documented requests exist, and are forwarded and
  accepted as documented; the documented answers are not those of the API.
\<close>

text \<open>The method and the URL of a request, as the routers declare them.\<close>

definition api :: "string \<Rightarrow> string" where
  "api path = ''http://localhost:3000/api/v1'' @ path"

definition order_path :: "string \<Rightarrow> string \<Rightarrow> string" where
  "order_path symbol kind = api (''/books/'' @ symbol @ ''/orders/'' @ kind)"

fun route_line :: "request \<Rightarrow> string \<times> string" where
  "route_line GetHealth = (''GET'', ''http://localhost:3000/health'')"
| "route_line GetSymbols = (''GET'', api ''/symbols'')"
| "route_line (GetBook symbol) = (''GET'', api (''/books/'' @ symbol))"
| "route_line (GetTrades symbol) = (''GET'', api (''/books/'' @ symbol @ ''/trades''))"
| "route_line (PostLimit symbol body) = (''POST'', order_path symbol ''limit'')"
| "route_line (PostMarket symbol body) = (''POST'', order_path symbol ''market'')"
| "route_line (PostStopMarket symbol body) = (''POST'', order_path symbol ''stop-market'')"
| "route_line (PostStopLimit symbol body) = (''POST'', order_path symbol ''stop-limit'')"
| "route_line (PostTrailingStopMarket symbol body) = (''POST'', order_path symbol ''trailing-stop-market'')"
| "route_line (DeleteOrder symbol orderId) = (''DELETE'', order_path symbol orderId)"
| "route_line (GetCommandStatus commandId) = (''GET'', api (''/commands/'' @ commandId @ ''/status''))"
| "route_line (GetEvents symbol limit) = (''GET'', api (''/books/'' @ symbol @ ''/events''))"
| "route_line (GetCommands symbol limit) = (''GET'', api (''/books/'' @ symbol @ ''/commands''))"
| "route_line (GetRecoverySnapshot symbol) = (''GET'', api (''/books/'' @ symbol @ ''/recovery-snapshot''))"
| "route_line (OtherRequest request_method url) = (request_method, url)"

text \<open>The requests that the document describes, in its order.\<close>

definition documented_requests :: "request list" where
  "documented_requests = [GetHealth, GetSymbols, GetBook ''BTC-INR'', GetTrades ''BTC-INR'',
     PostLimit ''BTC-INR'' (en_requestBody doc_limit_order), PostMarket ''BTC-INR'' (en_requestBody doc_market_order),
     PostStopMarket ''BTC-INR'' (en_requestBody doc_stop_market_order),
     PostStopLimit ''BTC-INR'' (en_requestBody doc_stop_limit_order), DeleteOrder ''BTC-INR'' ''B1'']"

text \<open>A request is served as documented: it has the documented line, and the handler forwards exactly the documented body.\<close>

definition served :: "Endpoint \<Rightarrow> request \<Rightarrow> bool" where
  "served e r \<longleftrightarrow> route_line r = (en_method e, en_url e) \<and>
     (case asked r of None \<Rightarrow> en_requestBody e = JNull
      | Some (symbol, type, body, ks) \<Rightarrow> pick ks body = props body \<and>
          en_requestBody e = (if en_method e = ''DELETE'' then JNull else body))"

text \<open>What the worker executes for the requests, one after the other.\<close>

definition commands_for :: "Fresh \<Rightarrow> request list \<Rightarrow> jsobj list" where
  "commands_for fr rs = concat (map (\<lambda>r. case asked r of None \<Rightarrow> []
     | Some (symbol, type, body, ks) \<Rightarrow> [sent_command fr type symbol (pick ks body)]) rs)"

fun outcomes :: "(nat \<Rightarrow> nat) \<Rightarrow> jsobj list \<Rightarrow> registry \<Rightarrow> (js_error + CommandResult) list" where
  "outcomes clock [] r = []"
| "outcomes clock (c # cs) r = (case executeOrderCommand clock c r of (x, r') \<Rightarrow> x # outcomes clock cs r')"

subsection \<open>Answers\<close>

lemma app_cases:
  assumes "app message_of env fr r s = (a, s')"
  obtains (failed) e where "a = errorHandler message_of e" | (answered) "routes env fr r s = (Inr a, s')"
  using assms by (auto simp: app_def handle_request_def split: prod.splits sum.splits)

lemma order_answers:
  assumes "asked r = Some q" "routes env fr r s = (Inr (Response n a), s')"
  shows "getp (props (getp a ''data'')) ''order'' = JUndef"
proof -
  obtain symbol orderId c where "submit_command env fr symbol orderId c s = (Inr (Response n a), s')"
    using assms by (cases r) (auto simp: post_limit_def post_market_def post_stop_market_def post_stop_limit_def
        post_trailing_stop_market_def post_order_def delete_order_def split: if_splits)
  from submit_sends [OF this] show ?thesis by (auto simp: createQueuedResponse_def)
qed

lemma order_differs:
  assumes "asked r = Some q" "getp (props (getp (props (en_successResponse e)) ''data'')) ''order'' \<noteq> JUndef"
  shows "fst (app message_of env fr r s) \<noteq> Response n (props (en_successResponse e))"
proof
  let ?d = "props (en_successResponse e)"
  obtain a s' where a: "app message_of env fr r s = (a, s')" by fastforce
  assume "fst (app message_of env fr r s) = Response n ?d"
  then have e: "a = Response n ?d" using a by simp
  from a show False
  proof (cases rule: app_cases)
    case (failed q)
    then show False using e assms(2) by (auto simp: errorHandler_def props_def)
  next
    case answered
    then show False using order_answers [OF assms(1) answered [unfolded e]] assms(2) by blast
  qed
qed

lemma query_differs:
  assumes "\<And>a s'. routes env fr r s = (Inr a, s') \<Longrightarrow>
      (\<exists>e. a = not_found e) \<or> (\<exists>x. a = json_ok ((''source'', JStr ''REDIS'') # x))"
    "props (en_successResponse e) = [(''success'', JBool True), (''data'', d)]"
  shows "fst (app message_of env fr r s) \<noteq> Response n (props (en_successResponse e))"
proof -
  obtain a s' where a: "app message_of env fr r s = (a, s')" by fastforce
  from a show ?thesis
  proof (cases rule: app_cases)
    case (failed q)
    then show ?thesis using a assms(2) by (simp add: errorHandler_def)
  next
    case answered
    from assms(1) [OF this] show ?thesis using a assms(2) by (auto simp: not_found_def json_ok_def)
  qed
qed

lemma query_answers:
  "routes env fr (GetBook symbol) s = (Inr a, s') \<Longrightarrow> (\<exists>e. a = not_found e) \<or> (\<exists>x. a = json_ok ((''source'', JStr ''REDIS'') # x))"
  "routes env fr (GetTrades symbol) s = (Inr a, s') \<Longrightarrow> (\<exists>e. a = not_found e) \<or> (\<exists>x. a = json_ok ((''source'', JStr ''REDIS'') # x))"
  by (auto simp: get_book_def get_trades_def bindE_eq_Inr split: if_splits)

lemma health_differs: "fst (app message_of env fr GetHealth s) \<noteq> Response n (props (en_successResponse doc_health_check))"
  by (simp add: app_def handle_request_def health_def json_ok_def doc_health_check_def)

lemma book_differs:
  "fst (app message_of env fr (GetBook symbol) s) \<noteq> Response n (props (en_successResponse doc_order_book_snapshot))"
  "fst (app message_of env fr (GetTrades symbol) s) \<noteq> Response n (props (en_successResponse doc_get_trades))"
  by (rule query_differs [OF query_answers(1)] query_differs [OF query_answers(2)],
      simp, simp add: doc_order_book_snapshot_def doc_get_trades_def)+

lemma documented_orders_differ:
  "fst (app message_of env fr (PostLimit symbol body) s) \<noteq> Response n (props (en_successResponse doc_limit_order))"
  "fst (app message_of env fr (PostMarket symbol body) s) \<noteq> Response n (props (en_successResponse doc_market_order))"
  "fst (app message_of env fr (PostStopMarket symbol body) s) \<noteq> Response n (props (en_successResponse doc_stop_market_order))"
  "fst (app message_of env fr (PostStopLimit symbol body) s) \<noteq> Response n (props (en_successResponse doc_stop_limit_order))"
  "fst (app message_of env fr (DeleteOrder symbol orderId) s) \<noteq> Response n (props (en_successResponse doc_cancel_order))"
  by (rule order_differs; simp add: doc_limit_order_def doc_market_order_def doc_stop_market_order_def
      doc_stop_limit_order_def doc_cancel_order_def)+

subsection \<open>Orders\<close>

definition documented_orders :: "request list" where
  "documented_orders = filter (\<lambda>r. fst (route_line r) = ''POST'') documented_requests"

lemma documented_orders_accepted: "list_all (\<lambda>x. \<not> isl x) (outcomes (\<lambda>_. 0) (commands_for demo_fresh documented_orders) [])"
  by code_simp

lemmas doc_endpoint_defs = doc_health_check_def doc_list_symbols_def doc_order_book_snapshot_def doc_get_trades_def doc_limit_order_def
  doc_market_order_def doc_stop_market_order_def doc_stop_limit_order_def doc_cancel_order_def

subsection \<open>Properties\<close>


text \<open>
  The documented answers are not the API's: whatever the state of the services, no
  answer to a documented request has the documented form, except for the list of symbols.
\<close>

theorem documented_answers_differ:
  "list_all (\<lambda>(e, r). \<forall>message_of env fr s n. fst (app message_of env fr r s) \<noteq> Response n (props (en_successResponse e)))
     (filter (\<lambda>(e, r). r \<noteq> GetSymbols) (zip endpoints documented_requests))"
  by (simp add: endpoints_def documented_requests_def health_differs book_differs documented_orders_differ)

end
