(* ===== verification/SocketServer.thy ===== *)
theory SocketServer
  imports RedisDemo
begin

text \<open>
  \<^verbatim>\<open>src/api/websocket/socketServer.js\<close> and the message handler of
  \<^verbatim>\<open>src/apps/websocket.js\<close>: subscriptions to the room of a symbol and the broadcasts to it.
  What the program asks of socket.io is recorded as a list of actions; who is in a room is read
  off that list.
\<close>

datatype socket_action =
    JoinRoom string string               \<comment> \<open>socket, room\<close>
  | LeaveRoom string string
  | EmitSocket string string jsval       \<comment> \<open>socket, event, data\<close>
  | EmitRoom string string jsval         \<comment> \<open>room, event, data\<close>

record Sockets =
  so_ioInstance :: bool                  \<comment> \<open>is the module's \<^verbatim>\<open>ioInstance\<close> set?\<close>
  so_actions :: "socket_action list"

type_synonym 'r soprog = "(Sockets, js_error, 'r) prog"

definition so_do :: "socket_action \<Rightarrow> unit soprog" where
  "so_do a = modify (\<lambda>s. s\<lparr>so_actions := so_actions s @ [a]\<rparr>)"

definition initializeSocketServer :: "Sockets \<Rightarrow> Sockets" where
  "initializeSocketServer s = s\<lparr>so_ioInstance := True\<rparr>"

subsection \<open>The handlers of a connection\<close>

text \<open>\<^verbatim>\<open>({ symbol } = {})\<close>: the default replaces undefined only, null throws.\<close>

definition symbol_argument :: "jsval \<Rightarrow> jsval res" where
  "symbol_argument v = (if v = JNull then Inl TypeErr else Inr (getp (props v) ''symbol''))"

definition room_of :: "string \<Rightarrow> string" where
  "room_of symbol = ''book:'' @ symbol"

definition symbol_error :: "string \<Rightarrow> unit soprog" where
  "symbol_error socket = so_do (EmitSocket socket ''socket:error'' (JObj [(''message'', JStr ''symbol must be a non-empty string'')]))"

definition subscribe_book :: "string \<Rightarrow> jsval \<Rightarrow> unit soprog" where
  "subscribe_book socket v =
     bindE (liftE (symbol_argument v)) (\<lambda>symbol.
     if \<not> nonEmptyString symbol then symbol_error socket
     else let room = room_of (str_of symbol) in
          bindE (so_do (JoinRoom socket room)) (\<lambda>_.
          so_do (EmitSocket socket ''subscribed:book'' (JObj [(''symbol'', symbol), (''room'', JStr room)]))))"

definition unsubscribe_book :: "string \<Rightarrow> jsval \<Rightarrow> unit soprog" where
  "unsubscribe_book socket v =
     bindE (liftE (symbol_argument v)) (\<lambda>symbol.
     if \<not> nonEmptyString symbol then symbol_error socket
     else let room = room_of (str_of symbol) in
          bindE (so_do (LeaveRoom socket room)) (\<lambda>_.
          so_do (EmitSocket socket ''unsubscribed:book'' (JObj [(''symbol'', symbol), (''room'', JStr room)]))))"

subsection \<open>Broadcasts\<close>

definition broadcastBookUpdate :: "nat \<Rightarrow> string \<Rightarrow> jsval \<Rightarrow> unit soprog" where
  "broadcastBookUpdate now symbol snapshot =
     bindE (gets so_ioInstance) (\<lambda>io.
     if \<not> io then ret ()
     else so_do (EmitRoom (room_of symbol) ''book:update''
       (JObj [(''type'', JStr ''BOOK_UPDATED''), (''symbol'', JStr symbol), (''data'', snapshot), (''timestamp'', JInt (int now))])))"

fun emit_each :: "('a \<Rightarrow> socket_action) \<Rightarrow> 'a list \<Rightarrow> unit soprog" where
  "emit_each f [] = ret ()"
| "emit_each f (x # xs) = bindE (so_do (f x)) (\<lambda>_. emit_each f xs)"

text \<open>The clock is read for each trade.\<close>

definition broadcastTrades :: "(nat \<Rightarrow> nat) \<Rightarrow> string \<Rightarrow> jsval list \<Rightarrow> unit soprog" where
  "broadcastTrades clock symbol trades =
     bindE (gets so_ioInstance) (\<lambda>io.
     if \<not> io \<or> trades = [] then ret ()
     else emit_each (\<lambda>(i, trade). EmitRoom (room_of symbol) ''trade:created''
       (JObj [(''type'', JStr ''TRADE_CREATED''), (''symbol'', JStr symbol), (''data'', trade), (''timestamp'', JInt (int (clock i)))]))
       (List.enumerate 0 trades))"

definition broadcastDomainEvents :: "string \<Rightarrow> jsval list \<Rightarrow> unit soprog" where
  "broadcastDomainEvents symbol events =
     bindE (gets so_ioInstance) (\<lambda>io.
     if \<not> io \<or> events = [] then ret ()
     else emit_each (EmitRoom (room_of symbol) ''domain:event'') events)"

text \<open>A message of the market channel: what it holds is broadcast, an error is reported and swallowed.\<close>

definition on_market_message :: "stored \<Rightarrow> Sockets \<Rightarrow> Sockets" where
  "on_market_message message s =
    (case market_message message of
       Inl e \<Rightarrow> s
     | Inr (symbol, events) \<Rightarrow> snd (broadcastDomainEvents symbol events s))"

subsection \<open>Rooms\<close>

text \<open>Is a socket in a room, after these actions?\<close>

definition in_room :: "string \<Rightarrow> string \<Rightarrow> socket_action list \<Rightarrow> bool" where
  "in_room socket room as = foldl (\<lambda>b a. if a = JoinRoom socket room then True
     else if a = LeaveRoom socket room then False else b) False as"

lemma in_room_simps [simp]:
  "in_room socket room (as @ [JoinRoom j r]) \<longleftrightarrow> j = socket \<and> r = room \<or> in_room socket room as"
  "in_room socket room (as @ [LeaveRoom j r]) \<longleftrightarrow> \<not> (j = socket \<and> r = room) \<and> in_room socket room as"
  "in_room socket room (as @ [EmitSocket j ev v]) = in_room socket room as"
  "in_room socket room (as @ [EmitRoom r ev v]) = in_room socket room as"
  by (auto simp: in_room_def)

text \<open>What a socket gets, in order: its own messages and those of the rooms it is in.\<close>

fun received :: "string \<Rightarrow> socket_action list \<Rightarrow> socket_action list \<Rightarrow> (string \<times> jsval) list" where
  "received socket past [] = []"
| "received socket past (a # as) =
     (case a of EmitSocket j event v \<Rightarrow> if j = socket then [(event, v)] else []
      | EmitRoom r event v \<Rightarrow> if in_room socket r past then [(event, v)] else []
      | _ \<Rightarrow> []) @ received socket (past @ [a]) as"

lemma received_append: "received socket past (as @ bs) = received socket past as @ received socket (past @ as) bs"
  by (induction as arbitrary: past) auto

lemma emit_each_eq: "emit_each f xs s = (Inr (), s\<lparr>so_actions := so_actions s @ map f xs\<rparr>)"
  by (induction xs arbitrary: s) (simp_all add: so_do_def)

lemma received_emits: "received socket past (map (EmitRoom r ev) vs) = (if in_room socket r past then map (\<lambda>v. (ev, v)) vs else [])"
  by (induction vs arbitrary: past) simp_all

lemma broadcast_eq: "so_ioInstance s \<Longrightarrow> snd (broadcastDomainEvents symbol events s) =
    s\<lparr>so_actions := so_actions s @ map (EmitRoom (room_of symbol) ''domain:event'') events\<rparr>"
  by (cases "events = []") (simp_all add: broadcastDomainEvents_def emit_each_eq)

text \<open>The text that carries the events of a command.\<close>

definition market_text :: "nat \<Rightarrow> string \<Rightarrow> jsobj list \<Rightarrow> stored" where
  "market_text publishedAt symbol events =
     json_text (JObj [(''symbol'', JStr symbol), (''events'', JArr (map JObj events)), (''publishedAt'', JInt (int publishedAt))])"

lemma market_text_read: "market_message (market_text publishedAt symbol events) = Inr (symbol, map (\<lambda>e. json_clean (JObj e)) events)"
  by (simp add: market_message_def market_text_def json_text_def json_parse_def seqE_def nullish_def comp_def)

subsection \<open>Properties\<close>

text \<open>
  C37. The events of a command reach its subscribers: the worker publishes them in one message,
  and on that message the socket server sends every socket that is subscribed to the symbol
  exactly these events, as JSON carries them, once each and in order, and sends nothing to a
  socket that is not; a subscription to the symbol puts a socket among the subscribers.
\<close>

theorem market_events_reach_subscribers:
  assumes "so_ioInstance s" "events \<noteq> []"
  shows "\<exists>m. publishMarketEvents redis publishedAt (JStr symbol) events w =
      (Inr (), snd (redis_call redis (PublishTo market_events_channel m) w)) \<and>
    (\<forall>socket. received socket [] (so_actions (on_market_message m s)) = received socket [] (so_actions s) @
       (if in_room socket (room_of symbol) (so_actions s)
        then map (\<lambda>e. (''domain:event'', json_clean (JObj e))) events else [])) \<and>
    (\<forall>socket v. symbol_argument v = Inr (JStr symbol) \<and> trim symbol \<noteq> [] \<longrightarrow>
       in_room socket (room_of symbol) (so_actions (snd (subscribe_book socket v s))))"
proof (intro exI [of _ "market_text publishedAt symbol events"] conjI allI impI)
  let ?m = "market_text publishedAt symbol events"
  show "publishMarketEvents redis publishedAt (JStr symbol) events w = (Inr (), snd (redis_call redis (PublishTo market_events_channel ?m) w))"
    using assms(2) by (simp add: publishMarketEvents_def market_text_def split: prod.split)
  have "so_actions (on_market_message ?m s) = so_actions s @ map (EmitRoom (room_of symbol) ''domain:event'') (map (\<lambda>e. json_clean (JObj e)) events)"
    by (simp add: on_market_message_def market_text_read broadcast_eq [OF assms(1)])
  then show "received socket [] (so_actions (on_market_message ?m s)) = received socket [] (so_actions s) @
      (if in_room socket (room_of symbol) (so_actions s)
       then map (\<lambda>e. (''domain:event'', json_clean (JObj e))) events else [])" for socket
    by (simp only: received_append received_emits) (simp add: comp_def)
  fix socket v assume "symbol_argument v = Inr (JStr symbol) \<and> trim symbol \<noteq> []"
  then have "so_actions (snd (subscribe_book socket v s)) = (so_actions s @ [JoinRoom socket (room_of symbol)]) @
      [EmitSocket socket ''subscribed:book'' (JObj [(''symbol'', JStr symbol), (''room'', JStr (room_of symbol))])]"
    by (simp add: subscribe_book_def nonEmptyString_iff so_do_def Let_def)
  then show "in_room socket (room_of symbol) (so_actions (snd (subscribe_book socket v s)))"
    by (simp only: in_room_simps) simp
qed

theorem market_events_reach_subscribers_witness:
  "\<exists>m. received ''k1'' [] (so_actions (on_market_message m
       \<lparr> so_ioInstance = True, so_actions = [JoinRoom ''k1'' (room_of ''BTC-INR''), JoinRoom ''k2'' (room_of ''ETH-INR'')] \<rparr>)) =
     [(''domain:event'', JObj [(''type'', JStr ''ORDER_ACCEPTED'')])]"
proof -
  let ?s = "\<lparr> so_ioInstance = True, so_actions = [JoinRoom ''k1'' (room_of ''BTC-INR''), JoinRoom ''k2'' (room_of ''ETH-INR'')] \<rparr>"
  have "so_ioInstance ?s" "[[(''type'', JStr ''ORDER_ACCEPTED'')]] \<noteq> []" by simp_all
  from market_events_reach_subscribers [OF this, of demo_redis 1 "''BTC-INR''" demo_store] obtain m where
    "\<forall>socket. received socket [] (so_actions (on_market_message m ?s)) = received socket [] (so_actions ?s) @
       (if in_room socket (room_of ''BTC-INR'') (so_actions ?s)
        then map (\<lambda>e. (''domain:event'', json_clean (JObj e))) [[(''type'', JStr ''ORDER_ACCEPTED'')]] else [])" by blast
  from spec [OF this, of "''k1''"] show ?thesis by (intro exI [of _ m]) (simp add: in_room_def)
qed

text \<open>A subscription message whose data is null makes the handler throw, and nothing catches it.\<close>

lemma null_subscription_throws: "fst (subscribe_book socket JNull s) = Inl TypeErr"
  by (simp add: subscribe_book_def symbol_argument_def)

end
