(* ===== verification/RedisConnection.thy ===== *)
theory RedisConnection
  imports EngineTypes
begin

text \<open>
  \<^verbatim>\<open>src/infrastructure/redis/redisConnection.js\<close>: the shared Redis client.  Creating a
  client, opening and closing it, and whether it is open, are parameters; the module's variable
  is a component of the state.
\<close>

record 'w Client =
  rc_redisClient :: "nat option"
  rc_world :: 'w

record 'w client_library =
  cl_createClient :: "string \<Rightarrow> 'w \<Rightarrow> nat \<times> 'w"
  cl_connect :: "nat \<Rightarrow> ('w, js_error, unit) prog"
  cl_quit :: "nat \<Rightarrow> ('w, js_error, unit) prog"
  cl_isOpen :: "nat \<Rightarrow> 'w \<Rightarrow> bool"

definition client_isOpen :: "'w client_library \<Rightarrow> 'w Client \<Rightarrow> bool" where
  "client_isOpen lib s = (case rc_redisClient s of None \<Rightarrow> False | Some c \<Rightarrow> cl_isOpen lib c (rc_world s))"

definition in_client :: "('w, js_error, 'r) prog \<Rightarrow> ('w Client, js_error, 'r) prog" where
  "in_client f = (\<lambda>s. case f (rc_world s) of (r, w) \<Rightarrow> (r, s\<lparr>rc_world := w\<rparr>))"

text \<open>The variable is set before the client is open.\<close>

definition connectRedis :: "'w client_library \<Rightarrow> string \<Rightarrow> ('w Client, js_error, nat option) prog" where
  "connectRedis lib redisUrl = (\<lambda>s.
     if client_isOpen lib s then (Inr (rc_redisClient s), s)
     else (case cl_createClient lib redisUrl (rc_world s) of (c, w) \<Rightarrow>
       bindE (in_client (cl_connect lib c)) (\<lambda>_. ret (Some c)) (s\<lparr>rc_redisClient := Some c, rc_world := w\<rparr>)))"

definition getRedisClient :: "'w client_library \<Rightarrow> ('w Client, js_error, nat option) prog" where
  "getRedisClient lib = (\<lambda>s. if \<not> client_isOpen lib s then (Inl ClientNotInitialized, s) else (Inr (rc_redisClient s), s))"

definition closeRedis :: "'w client_library \<Rightarrow> ('w Client, js_error, unit) prog" where
  "closeRedis lib = (\<lambda>s.
     if client_isOpen lib s
     then (case rc_redisClient s of None \<Rightarrow> (Inr (), s)
       | Some c \<Rightarrow> bindE (in_client (cl_quit lib c)) (\<lambda>_. modify (\<lambda>s. s\<lparr>rc_redisClient := None\<rparr>)) s)
     else (Inr (), s))"

text \<open>While the client is open, every user of the module gets the same one and nothing is opened.\<close>

lemma connectRedis_shared:
  assumes "client_isOpen lib s"
  shows "connectRedis lib url s = (Inr (rc_redisClient s), s)" "getRedisClient lib s = (Inr (rc_redisClient s), s)"
  using assms by (simp_all add: connectRedis_def getRedisClient_def)

lemma closeRedis_forgets:
  assumes "closeRedis lib s = (Inr (), s')" "client_isOpen lib s"
  shows "rc_redisClient s' = None" "getRedisClient lib s' = (Inl ClientNotInitialized, s')"
proof -
  show "rc_redisClient s' = None"
    using assms by (auto simp: closeRedis_def client_isOpen_def bindE_eq_Inr split: option.splits)
  then show "getRedisClient lib s' = (Inl ClientNotInitialized, s')" by (simp add: getRedisClient_def client_isOpen_def)
qed

end
