(* ===== verification/Spec2Isabelle.thy ===== *)
theory Spec2Isabelle
  imports EngineProperties StopProperties Partitioner Replay RecoveryProofs SettlementProperties RecoveryFailure NodeProperties DeploymentProperties StaleLeader ApiDocsProperties ApiProperties SocketServer RedisConnection
begin

text \<open>
  Verification of the order book matching engine (the JavaScript implementation under
  \<^verbatim>\<open>src/src\<close>; the Go workers under \<^verbatim>\<open>src/go-worker\<close> are a second implementation and are not
  treated).

  \<^bold>\<open>The program.\<close>  Clients post orders to an HTTP API, which publishes each as a command on the
  RabbitMQ queue of the partition its symbol hashes to.  Every partition has an active node and
  standbys.  The active node holds a lock in Redis, consumes the queue, executes each command on
  the order book of its symbol, appends it to the symbol's command log in Redis, writes events,
  a read model, a checkpoint of the book and the command's status, and acknowledges the message.
  A standby replays the logs; when the lock is free it is promoted.  Market events go through
  Redis to a websocket server.

  \<^bold>\<open>Theories and code.\<close>

  \<^item> Foundations.  \<open>Prelude\<close>: computations that may throw, as functions from a state to an
    outcome (\<open>Inl\<close> an error, \<open>Inr\<close> a value) and the state at that point.  \<open>JsValue\<close>, \<open>JsMap\<close>,
    \<open>Json\<close>: JavaScript values, \<^verbatim>\<open>Map\<close> (entries in insertion order), what JSON does to a value.
  \<^item> Engine data, \<^verbatim>\<open>engine/\<close>.  \<open>EngineTypes\<close>: \<^verbatim>\<open>Constants.js\<close>, \<^verbatim>\<open>utils/\<close>, the errors.
    \<open>OrderNode\<close>, \<open>PriceLevel\<close>, \<open>DomainEvent\<close>: the files of the same names.  Orders and levels
    are objects at addresses of an explicit heap; a level is the doubly linked list of the code.
  \<^item> Order book, \<^verbatim>\<open>engine/OrderBook.js\<close>.  \<open>BookState\<close>: the fields as a record and the small
    methods; \<open>Matching\<close>: \<^verbatim>\<open>matchBuyOrder\<close>, \<^verbatim>\<open>matchSellOrder\<close>; \<open>StopOrders\<close>: triggering and
    trailing; \<open>BookOps\<close>: placing and cancelling; \<open>Recovery\<close>: checkpoints.  \<open>Commands\<close>:
    \<^verbatim>\<open>api/services/BookRegistry.js\<close> and \<^verbatim>\<open>application/commands/executeOrderCommand.js\<close>.
    \<open>Partitioner\<close>: \<^verbatim>\<open>application/partitioning\<close>, on 32-bit words.
  \<^item> Infrastructure, \<^verbatim>\<open>infrastructure/\<close>.  \<open>Redis\<close> (the client's interface), \<open>RedisStores\<close> (the
    six stores), \<open>LeaderElection\<close>, \<open>RedisConnection\<close>, \<open>RabbitConnection\<close> (connection and
    \<^verbatim>\<open>RabbitOrderCommandBus.js\<close>).  \<open>RedisDemo\<close> is an instance of the Redis parameter.
  \<^item> Nodes.  \<open>StandbyReplica\<close>: \<^verbatim>\<open>application/recovery/replayCommand.js\<close> and
    \<^verbatim>\<open>application/replication/StandbyReplica.js\<close>; \<open>Worker\<close>: \<^verbatim>\<open>workers/orderCommanderWorker.js\<close>;
    \<open>MatchingNode\<close>: \<^verbatim>\<open>application/replication/MatchingNode.js\<close> with the polling loop of the
    replica and the heartbeat, as a step relation over the awaits of the methods.
  \<^item> Edges.  \<open>Api\<close>: \<^verbatim>\<open>api/routes\<close>, \<^verbatim>\<open>api/middleware\<close>, \<^verbatim>\<open>api/app.js\<close>; \<open>SocketServer\<close>:
    \<^verbatim>\<open>api/websocket/socketServer.js\<close> and the handler of \<^verbatim>\<open>apps/websocket.js\<close>; \<open>ApiDocs\<close>:
    \<^verbatim>\<open>scripts/docs/generateApiDocs.js\<close>, the documented endpoints and the text it writes.

  A definition has the name of the function it models; a method of an object is a function of the
  state record that holds the object.

  \<^bold>\<open>What the lemmas show.\<close>

  \<^item> Data structures: \<open>PriceLevel\<close> (the linked list is a FIFO queue; locale \<open>fifo_level\<close>), \<open>JsMap\<close>
    (locale \<open>keyed_store\<close>), \<open>OrderNode\<close> (validation, fills).
  \<^item> The book: \<open>BookInv\<close>, \<open>BookPrims\<close>, \<open>BookRest\<close> give the representation invariant and read a
    book as two priority lists; \<open>MatchSpec\<close> states matching on lists (locale \<open>price_priority\<close>) and
    \<open>MatchRefine\<close>, \<open>Placement\<close>, \<open>BookOpsProofs\<close>, \<open>CancelProofs\<close>, \<open>StopProofs\<close>, \<open>Effects\<close>,
    \<open>BookDepth\<close>, \<open>QuietBooks\<close> that the code does it.  \<open>AbstractBook\<close> is the engine without heap,
    clock and events, \<open>AbstractRefine\<close> the refinement.  \<open>EngineProperties\<close> and
    \<open>StopProperties\<close> hold the properties.
  \<^item> Recovery: \<open>Replay\<close> (locales \<open>command_log\<close>, \<open>observed_log\<close>: a log of the commands that did not
    throw rebuilds the state), \<open>RecoveryProofs\<close> (a checkpoint restores the book), \<open>CatchUpProofs\<close>
    and \<open>StandbyProperties\<close> (what is in Redis is enough), \<open>RecoveryFailure\<close> (a recovery that fails
    half-way loses the books), \<open>StaleLeader\<close> (a leader that outlives its lease).
  \<^item> The worker: \<open>WorkerProofs\<close> (locale \<open>store_relation\<close>: what every program keeps of Redis,
    whatever fails), \<open>WorkerEffects\<close>, \<open>WorkerProperties\<close>, and the properties in
    \<open>FailoverProperties\<close> and \<open>SettlementProperties\<close>.
  \<^item> The node: \<open>NodeProperties\<close> (an invariant of all interleavings).
  \<^item> The whole: \<open>Deployment\<close> composes recovery, catch-up and the worker's handler into a step
    relation on any number of nodes and partitions that share one Redis; its invariant is that the
    store is sound, a partition has one leader, a follower's books are books of prefixes of the
    logs and a leader's books of its partition are those of the whole logs.
    \<open>DeploymentProperties\<close> reads off that no logged command is lost and that a follower can always
    take over.  The edges: \<open>RabbitProofs\<close>
    (locale \<open>run_relation\<close>), \<open>ApiProperties\<close>, \<open>SocketServer\<close>, \<open>ApiDocsProperties\<close> (what the
    documentation promises against what the routes do).
  \<^item> This theory holds the properties that span the engine, its checkpoints and its log.

  \<^bold>\<open>Parameters and hypotheses.\<close>  Redis is a function that runs a list of calls on an unknown
  world; \<open>documented redis view\<close> says that an answered call did what its documentation says on the
  store \<open>view\<close> shows, that a failed one did that or nothing, and that time does not go back;
  \<open>reliable redis\<close> that calls are answered.  \<open>RedisDemo\<close> satisfies both.  The RabbitMQ client and
  the Redis connection are parameters with no hypothesis.  What is asked of a channel or of
  socket.io is recorded as a list of actions.  The clock, random identifiers and the texts of
  errors are parameters.

  \<^bold>\<open>Bounds.\<close>  \<^verbatim>\<open>toArray\<close> is a \<open>partial_function (option)\<close>: it returns on a well-formed level.  The
  matching loops recurse on a measure.  The trigger loop has the code's own limit of 1000 cycles
  (\<open>maxCycles\<close>): with fewer than 1000 waiting stop orders it is never reached, which is the
  hypothesis \<open>stop_count s < maxCycles\<close>; \<open>stop_request_ok\<close> asks that a stop order has the fields a
  stop order needs, which the code does not check (see \<open>malformed_stop_breaks_other_order\<close>).  The
  log of a symbol is trimmed and read at 100000 entries (\<open>maxCommandsPerSymbol\<close>), the bound in
  \<open>room\<close>.  Strings are lists of 8-bit code units, numbers are rationals (exact where the code's
  doubles are; no infinities or NaN in data, both in conversions).

  \<^bold>\<open>Atomicity.\<close>  A handler of the worker runs on a Redis that other clients may change only within
  what \<open>documented\<close> allows between calls: time passes.  Nodes are seen together in
  \<open>LeaderElection\<close> (their calls in any order), in \<open>MatchingNode\<close> (one node with the lock that others
  may take) and in \<open>Deployment\<close>, where a handler, a catch-up and an \<^verbatim>\<open>initialize\<close> are steps of their
  own.  Between the last check of the lead and the append to the log nothing in the code ties the
  append to the lease: a node that pauses there longer than its lease appends after its successor
  has taken over.  \<open>Deployment\<close> excludes this (a partition has one leader at a time); \<open>StaleLeader\<close>
  shows what happens otherwise.  Concurrent
  deliveries are excluded by the code (\<^verbatim>\<open>prefetch(1)\<close>).

  \<^bold>\<open>Not modelled.\<close>  Process start-up (\<^verbatim>\<open>apps/\<close>, \<^verbatim>\<open>api/server.js\<close>), logging to the console, Express
  itself (matching of paths, parsing of bodies, headers), two concurrent first connections to
  RabbitMQ, the demonstration client \<^verbatim>\<open>scripts/socketClient.js\<close> (it prints what it receives), the
  Go implementation.

  \<^bold>\<open>What could follow.\<close>  Steps finer than a handler in \<open>Deployment\<close>, so that the awaits of
  \<open>MatchingNode\<close> and a leader that outlives its lease (alone in \<open>StaleLeader\<close>) are part of the same
  runs; concurrent connects.
\<close>

subsection \<open>The engine against its specification\<close>

text \<open>
  C1. The engine refines the abstract book: every command, run on the linked structures of
  the code, answers and changes the book as the abstract command does on the two priority
  lists, the waiting stop orders, the last trade price and the event counter.
\<close>

theorem engine_refines_specification:
  assumes "book_ok s" "stop_count s < maxCycles" "stop_request_ok type payload"
  shows "(outcome_of (fst (dispatch type payload s)), abs_book (snd (dispatch type payload s))) =
    ab_dispatch type payload (abs_book s)"
  using dispatch_refines [OF assms] by (simp add: split_def)

theorem engine_refines_specification_witness:
  "outcome_of (fst (dispatch (JStr ''CANCEL_ORDER'') (JObj [(''orderId'', JStr ''zz'')]) sample_book)) =
     Inl (OrderNotFound (JStr ''zz'')) \<and>
   map on_orderId (ab_bids (abs_book (snd (dispatch (JStr ''CANCEL_ORDER'') (JObj [(''orderId'', JStr ''b1'')]) sample_book)))) = []"
proof -
  have rq: "stop_request_ok (JStr ''CANCEL_ORDER'') p" for p by (simp add: stop_request_ok_def stop_types_def)
  note R = engine_refines_specification [OF sample_facts(1) sample_few_stops rq]
  have a: "ab_bids (abs_book sample_book) = [untimed (sample_node ''b1'' BUY 99 6)]"
    "ab_asks (abs_book sample_book) = [untimed (sample_node ''a1'' SELL 101 5), untimed (sample_node ''a2'' SELL 102 4)]"
    "ab_stops (abs_book sample_book) = []"
    by (simp_all add: abs_book_def sample_facts)
  have "ab_dispatch (JStr ''CANCEL_ORDER'') (JObj [(''orderId'', JStr ''zz'')]) (abs_book sample_book) =
      (Inl (OrderNotFound (JStr ''zz'')), abs_book sample_book)"
    by (simp add: ab_dispatch_def Let_def nullish_def ab_cancel_def a sample_facts(2) untimed_def sample_node_def)
  moreover have "ab_bids (snd (ab_dispatch (JStr ''CANCEL_ORDER'') (JObj [(''orderId'', JStr ''b1'')]) (abs_book sample_book))) = []"
    by (simp add: ab_dispatch_def Let_def nullish_def ab_cancel_def a sample_facts(2) untimed_def sample_node_def spec_cancel_def)
  ultimately show ?thesis using R [of "JObj [(''orderId'', JStr ''zz'')]"] R [of "JObj [(''orderId'', JStr ''b1'')]"]
    by (metis fst_conv list.simps(8) snd_conv)
qed

subsection \<open>Checkpoints and the command log\<close>

text \<open>
  C7. A checkpoint restores the book: what \<^verbatim>\<open>toRecoverySnapshot\<close> writes and JSON stores,
  \<^verbatim>\<open>fromRecoverySnapshot\<close> reads back as a well-formed book with the same orders in the same
  priority, the same stop orders, last trade price and event counter.
\<close>

theorem checkpoint_restores_book:
  assumes "book_ok s"
  shows "\<exists>snap b. toRecoverySnapshot i s = Some snap \<and>
    fromRecoverySnapshot clock (json_clean (JObj snap)) = Inr b \<and> book_ok b \<and>
    (\<forall>sd. resting sd b = resting sd s) \<and> abs_book b = abs_book s"
  by (rule restore_book [OF assms, of i clock]) blast

theorem checkpoint_restores_book_witness:
  "\<exists>snap b. toRecoverySnapshot (JStr ''7-0'') sample_book = Some snap \<and>
    fromRecoverySnapshot id (json_clean (JObj snap)) = Inr b \<and>
    map on_orderId (resting SELL b) = [''a1'', ''a2''] \<and> map rem (resting BUY b) = [6]"
  using checkpoint_restores_book [OF sample_facts(1), of "JStr ''7-0''" id]
  by (auto simp: sample_facts sample_node_def)

text \<open>
  C18. Replaying the command log rebuilds the books: a node that starts empty and executes the
  commands the active node logged ends with the same book for every symbol, whatever the two
  nodes' clocks say and although the active node also refused commands.
\<close>

theorem replay_rebuilds_books:
  assumes "admissible_history commands" "trim symbol \<noteq> []"
  shows "abs_book (book_of clock' (run_commands clock' (command_log_of clock [] commands) []) symbol) =
    abs_book (book_of clock (run_commands clock commands []) symbol)"
  by (rule replay_registry_view [OF assms])

definition sample_commands :: "jsobj list" where
  "sample_commands =
    [[(''type'', JStr ''PLACE_LIMIT_ORDER''), (''symbol'', JStr ''BTC-INR''), (''payload'', JObj (sample_input ''a1'' SELL 101 5))],
     [(''type'', JStr ''PLACE_LIMIT_ORDER''), (''symbol'', JStr ''BTC-INR''), (''payload'', JObj (sample_input ''a1'' SELL 102 4))],
     [(''type'', JStr ''CANCEL_ORDER''), (''symbol'', JStr ''BTC-INR''), (''payload'', JObj [(''orderId'', JStr ''a1'')])]]"

lemma sample_history: "admissible_history sample_commands" "trim ''BTC-INR'' \<noteq> []"
proof -
  show "trim ''BTC-INR'' \<noteq> []" by code_simp
  show "admissible_history sample_commands"
    by (simp add: admissible_history_def sample_commands_def stop_request_ok_def stop_types_def maxCycles_def)
qed

theorem replay_rebuilds_books_witness:
  "abs_book (book_of Suc (run_commands Suc (command_log_of id [] sample_commands) []) ''BTC-INR'') =
    abs_book (book_of id (run_commands id sample_commands []) ''BTC-INR'')"
  by (rule replay_rebuilds_books [OF sample_history])

text \<open>
  A checkpoint and the log written after it are enough: restoring the checkpoint of a
  symbol and executing the later log entries gives the book of the node that wrote both.
\<close>

theorem checkpoint_then_replay:
  assumes "admissible_history (xs @ ys)" "trim symbol \<noteq> []" "r = run_commands clock xs []"
  shows "\<exists>snap b. toRecoverySnapshot i (book_of clock r symbol) = Some snap \<and>
    fromRecoverySnapshot clock' (json_clean (JObj snap)) = Inr b \<and>
    abs_book (book_of clock' (run_commands clock' (command_log_of clock r ys) [(symbol, b)]) symbol) =
      abs_book (book_of clock (run_commands clock (xs @ ys) []) symbol)"
  by (rule checkpoint_replay_view [OF assms(1,2), where clock = clock and i = i and clock' = clock']) (use assms(3) in blast)

theorem checkpoint_then_replay_witness:
  "\<exists>snap b. toRecoverySnapshot JNull (book_of id (run_commands id (take 1 sample_commands) []) ''BTC-INR'') = Some snap \<and>
    fromRecoverySnapshot Suc (json_clean (JObj snap)) = Inr b \<and>
    abs_book (book_of Suc (run_commands Suc (command_log_of id (run_commands id (take 1 sample_commands) [])
      (drop 1 sample_commands)) [(''BTC-INR'', b)]) ''BTC-INR'') =
    abs_book (book_of id (run_commands id sample_commands []) ''BTC-INR'')"
  using checkpoint_then_replay [of "take 1 sample_commands" "drop 1 sample_commands" "''BTC-INR''" _ id JNull Suc, OF _ _ refl]
    sample_history by simp

text \<open>
  C26. Symbols do not interfere: a command changes the book of its own symbol exactly as the
  engine changes that book alone, and leaves every other book as it was.
\<close>

theorem symbols_are_isolated:
  "book_of clock (snd (executeOrderCommand clock c r)) symbol =
    (if getp c ''symbol'' = JStr symbol \<and> trim symbol \<noteq> []
     then snd (dispatch (getp c ''type'') (getp c ''payload'') (book_of clock r symbol))
     else book_of clock r symbol)"
  using book_of_step [of clock c r symbol] by (simp add: run_command_def)

end
